(* ===== verification/Go_Prelude.thy ===== *)
theory Go_Prelude
  imports Main "HOL-Library.Word"
begin

unbundle bit_operations_syntax

text \<open>
  Shared vocabulary of the development: names for Go's machine types, the wrap-around of
  Go's 64-bit \<open>int\<close>, slicing with its run-time bounds check, and the big-endian
  conversions of \<^verbatim>\<open>encoding/binary\<close>, with the lemmas every component uses.

  Two collections carry the automation: \<open>go_simps\<close> (integers and slices) and
  \<open>be_simps\<close> (big-endian byte strings).
\<close>

named_theorems go_simps \<open>Go integers and slices\<close>
named_theorems be_simps \<open>big-endian byte strings\<close>

type_synonym byte = "8 word"
type_synonym u16 = "16 word"
type_synonym u32 = "32 word"
type_synonym u64 = "64 word"
type_synonym bytes = "byte list"

section \<open>The 64-bit signed integer\<close>

text \<open>\<open>go_int i\<close> is the value a Go \<open>int\<close> holds after a computation whose
  mathematical result is \<open>i\<close>.\<close>

definition go_int :: "int \<Rightarrow> int" where
  "go_int i = (i + 2 ^ 63) mod 2 ^ 64 - 2 ^ 63"

lemma go_int_id [go_simps]: "- (2 ^ 63) \<le> i \<Longrightarrow> i < 2 ^ 63 \<Longrightarrow> go_int i = i"
  by (simp add: go_int_def)

lemma go_int_nat: "n < 2 ^ 62 \<Longrightarrow> go_int (int n) = int n"
proof -
  assume "n < 2 ^ 62"
  then have "int n < int (2 ^ 62)" by (simp only: of_nat_less_iff)
  moreover have "0 \<le> int n" by simp
  ultimately show ?thesis by (intro go_int_id) simp_all
qed

lemma go_int_range: "- (2 ^ 63) \<le> go_int i \<and> go_int i < 2 ^ 63"
  by (simp add: go_int_def)

lemma go_int_wraps: "2 ^ 63 \<le> i \<Longrightarrow> i < 2 ^ 64 \<Longrightarrow> go_int i = i - 2 ^ 64"
proof -
  assume i: "2 ^ 63 \<le> i" "i < 2 ^ 64"
  have "(i + 2 ^ 63) mod 2 ^ 64 = (i - 2 ^ 63 + 2 ^ 64) mod 2 ^ 64"
    by (simp add: add.commute)
  also have "\<dots> = (i - 2 ^ 63) mod 2 ^ 64"
    by (rule mod_add_self2)
  also have "\<dots> = i - 2 ^ 63"
    using i by (intro mod_pos_pos_trivial) simp_all
  finally show ?thesis by (simp add: go_int_def)
qed

text \<open>\<open>int(x)\<close> for an unsigned 64-bit \<open>x\<close>.\<close>

definition int_of_u64 :: "u64 \<Rightarrow> int" where
  "int_of_u64 x = go_int (uint x)"

lemma int_of_u64_small [go_simps]: "uint x < 2 ^ 63 \<Longrightarrow> int_of_u64 x = uint x"
  unfolding int_of_u64_def
  by (rule go_int_id) (use uint_ge_0 [of x] in linarith)+

lemma uint_less_two_power_64: "uint (x :: u64) < 2 ^ 64"
  using unsigned_less [of x] by simp

lemma unat_less_two_power_64: "unat (x :: u64) < 2 ^ 64"
  using unsigned_less [of x] by simp

lemma unat_ucast_mod: "unat (ucast (w :: 'a :: len word) :: 'b :: len word) = unat w mod 2 ^ LENGTH('b)"
  by (simp add: unsigned_ucast_eq take_bit_eq_mod)

lemma word_eqI_unat: "unat a = unat b \<Longrightarrow> a = (b :: 'a :: len word)"
  by (rule word_unat_eq_iff [THEN iffD2])

lemma unat_bounds:
  "unat (b :: byte) < 256" "unat (w :: u16) < 65536" "unat (x :: u32) < 4294967296"
  "unat (y :: u64) < 18446744073709551616"
  using unsigned_less [of b, where ?'a = nat] unsigned_less [of w, where ?'a = nat]
    unsigned_less [of x, where ?'a = nat] unsigned_less [of y, where ?'a = nat]
  by simp_all

section \<open>Slices\<close>

text \<open>The expression \<open>s[a:b]\<close>, \<open>None\<close> for the run-time panic.\<close>

definition go_slice :: "'a list \<Rightarrow> int \<Rightarrow> int \<Rightarrow> 'a list option" where
  "go_slice s a b =
     (if 0 \<le> a \<and> a \<le> b \<and> b \<le> int (length s) then Some (take (nat (b - a)) (drop (nat a) s))
      else None)"

lemma go_slice_nat [go_simps]:
  "a + n \<le> length s \<Longrightarrow> go_slice s (int a) (int (a + n)) = Some (take n (drop a s))"
  by (simp add: go_slice_def nat_add_distrib)

lemma go_slice_SomeD:
  "go_slice s a b = Some t \<Longrightarrow>
     0 \<le> a \<and> a \<le> b \<and> b \<le> int (length s) \<and> t = take (nat (b - a)) (drop (nat a) s)"
  by (auto simp: go_slice_def split: if_splits)

lemma go_slice_length: "go_slice s a b = Some t \<Longrightarrow> int (length t) = b - a"
  by (auto simp: go_slice_def split: if_splits)

lemma take_drop_append [simp]:
  "length a = n \<Longrightarrow> take (length b) (drop n (a @ b @ c)) = b"
  by simp

section \<open>Big-endian byte strings\<close>

text \<open>The \<open>k\<close> bytes of \<open>n\<close> as \<open>binary.BigEndian\<close> writes them, and the number
  that a byte string reads as.\<close>

primrec be_bytes :: "nat \<Rightarrow> nat \<Rightarrow> bytes" where
  "be_bytes 0 n = []"
| "be_bytes (Suc k) n = be_bytes k (n div 256) @ [of_nat n]"

definition be_val :: "bytes \<Rightarrow> nat" where
  "be_val bs = foldl (\<lambda>a b. a * 256 + unat b) 0 bs"

lemma length_be_bytes [simp, be_simps]: "length (be_bytes k n) = k"
  by (induction k arbitrary: n) auto

lemma be_val_Nil [simp, be_simps]: "be_val [] = 0"
  by (simp add: be_val_def)

lemma be_val_snoc [simp, be_simps]: "be_val (bs @ [b]) = be_val bs * 256 + unat b"
  by (simp add: be_val_def)

lemma unat_of_nat_byte [simp]: "unat (of_nat n :: byte) = n mod 256"
  by (simp add: unat_of_nat)

lemma be_val_be_bytes: "be_val (be_bytes k n) = n mod 256 ^ k"
proof (induction k arbitrary: n)
  case 0
  then show ?case by simp
next
  case (Suc k)
  have "be_val (be_bytes (Suc k) n) = (n div 256) mod 256 ^ k * 256 + n mod 256"
    by (simp add: Suc)
  also have "\<dots> = n mod (256 * 256 ^ k)"
    by (simp add: mod_mult2_eq mult.commute)
  finally show ?case by simp
qed

lemma be_val_be_bytes_small [simp, be_simps]: "n < 256 ^ k \<Longrightarrow> be_val (be_bytes k n) = n"
  by (simp add: be_val_be_bytes)

lemma be_val_less: "be_val bs < 256 ^ length bs"
proof (induction bs rule: rev_induct)
  case Nil
  then show ?case by simp
next
  case (snoc b bs)
  have "unat b < 256"
    using unsigned_less [of b] by simp
  moreover have "be_val bs * 256 + 256 \<le> 256 * 256 ^ length bs"
    using snoc by linarith
  ultimately show ?case by simp
qed

lemma be_bytes_be_val: "length bs = k \<Longrightarrow> be_bytes k (be_val bs) = bs"
proof (induction k arbitrary: bs)
  case 0
  then show ?case by simp
next
  case (Suc k)
  then obtain b bs' where bs: "bs = bs' @ [b]" and len: "length bs' = k"
    by (metis Suc_length_conv append_butlast_last_id length_append_singleton
        length_butlast list.size(3) diff_Suc_1 old.nat.distinct(2))
  have b: "unat b < 256"
    using unsigned_less [of b] by simp
  have "(be_val bs' * 256 + unat b) div 256 = be_val bs'"
    using b by simp
  moreover have "(of_nat (be_val bs' * 256 + unat b) :: byte) = b"
  proof (rule word_unat_eq_iff [THEN iffD2])
    show "unat (of_nat (be_val bs' * 256 + unat b) :: byte) = unat b"
      unfolding unat_of_nat_byte using b by simp
  qed
  ultimately show ?case
    using Suc.IH [OF len] by (simp add: bs)
qed

lemma be_val_singleton [simp, be_simps]: "be_val [b] = unat b"
  using be_val_snoc [of "[]" b] by simp

end
