(* ===== verification/Wire_Head.thy ===== *)
theory Wire_Head
  imports Go_Prelude
begin

text \<open>
  The head of a CBOR data item (\<^verbatim>\<open>wire/head.go\<close>): the initial byte with the major
  type in its high three bits and the additional information in its low five, and the
  argument that follows it. \<open>AppendHead\<close> writes a head in the shortest form,
  \<open>ParseHead\<close> reads any head, \<open>IsShortest\<close> tells whether the form was minimal.
  The lemmas show that the two are inverse to each other and that a head is never longer
  than nine bytes.
\<close>

section \<open>Constants\<close>

definition MajorUint :: byte where [simp]: "MajorUint = 0x00"
definition MajorNegInt :: byte where [simp]: "MajorNegInt = 0x20"
definition MajorBytes :: byte where [simp]: "MajorBytes = 0x40"
definition MajorText :: byte where [simp]: "MajorText = 0x60"
definition MajorArray :: byte where [simp]: "MajorArray = 0x80"
definition MajorMap :: byte where [simp]: "MajorMap = 0xa0"
definition MajorTag :: byte where [simp]: "MajorTag = 0xc0"
definition MajorOther :: byte where [simp]: "MajorOther = 0xe0"

definition AI1Byte :: byte where [simp]: "AI1Byte = 24"
definition AI2Bytes :: byte where [simp]: "AI2Bytes = 25"
definition AI4Bytes :: byte where [simp]: "AI4Bytes = 26"
definition AI8Bytes :: byte where [simp]: "AI8Bytes = 27"
definition AIIndefinite :: byte where [simp]: "AIIndefinite = 31"

definition SimpleFalse :: byte where [simp]: "SimpleFalse = MajorOther OR 20"
definition SimpleTrue :: byte where [simp]: "SimpleTrue = MajorOther OR 21"
definition SimpleNull :: byte where [simp]: "SimpleNull = MajorOther OR 22"
definition SimpleUndefined :: byte where [simp]: "SimpleUndefined = MajorOther OR 23"
definition SimpleOneByte :: byte where [simp]: "SimpleOneByte = MajorOther OR AI1Byte"
definition Float16Marker :: byte where [simp]: "Float16Marker = MajorOther OR AI2Bytes"
definition Float32Marker :: byte where [simp]: "Float32Marker = MajorOther OR AI4Bytes"
definition Float64Marker :: byte where [simp]: "Float64Marker = MajorOther OR AI8Bytes"
definition BreakCode :: byte where [simp]: "BreakCode = MajorOther OR AIIndefinite"

section \<open>Writing and reading a head\<close>

text \<open>\<open>binary.BigEndian.AppendUint16\<close> and its siblings, and \<open>binary.BigEndian.Uint16\<close>
  and its siblings, which read the first bytes of their argument.\<close>

definition AppendUint16 :: "bytes \<Rightarrow> u16 \<Rightarrow> bytes" where
  "AppendUint16 dst v = dst @ be_bytes 2 (unat v)"
definition AppendUint32 :: "bytes \<Rightarrow> u32 \<Rightarrow> bytes" where
  "AppendUint32 dst v = dst @ be_bytes 4 (unat v)"
definition AppendUint64 :: "bytes \<Rightarrow> u64 \<Rightarrow> bytes" where
  "AppendUint64 dst v = dst @ be_bytes 8 (unat v)"

definition Uint16 :: "bytes \<Rightarrow> u16" where "Uint16 b = of_nat (be_val (take 2 b))"
definition Uint32 :: "bytes \<Rightarrow> u32" where "Uint32 b = of_nat (be_val (take 4 b))"
definition Uint64 :: "bytes \<Rightarrow> u64" where "Uint64 b = of_nat (be_val (take 8 b))"

definition AppendHead :: "bytes \<Rightarrow> byte \<Rightarrow> u64 \<Rightarrow> bytes" where
  "AppendHead dst major arg =
     (if arg < 24 then dst @ [major OR ucast arg]
      else if arg \<le> 0xff then dst @ [major OR AI1Byte, ucast arg]
      else if arg \<le> 0xffff then AppendUint16 (dst @ [major OR AI2Bytes]) (ucast arg)
      else if arg \<le> 0xffffffff then AppendUint32 (dst @ [major OR AI4Bytes]) (ucast arg)
      else AppendUint64 (dst @ [major OR AI8Bytes]) arg)"

record HeadResult =
  Major :: byte
  AI :: byte
  HeadArg :: u64
  HeadN :: nat

definition HeadZero :: HeadResult where
  "HeadZero = \<lparr>Major = 0, AI = 0, HeadArg = 0, HeadN = 0\<rparr>"

definition ParseHead :: "bytes \<Rightarrow> HeadResult" where
  "ParseHead src =
     (if length src = 0 then HeadZero
      else let ib = src ! 0; major = ib AND 0xe0; ai = ib AND 0x1f in
        if ai < 24 then \<lparr>Major = major, AI = ai, HeadArg = ucast ai, HeadN = 1\<rparr>
        else if ai = AI1Byte then
          (if length src < 2 then HeadZero
           else \<lparr>Major = major, AI = ai, HeadArg = ucast (src ! 1), HeadN = 2\<rparr>)
        else if ai = AI2Bytes then
          (if length src < 3 then HeadZero
           else \<lparr>Major = major, AI = ai, HeadArg = ucast (Uint16 (drop 1 src)), HeadN = 3\<rparr>)
        else if ai = AI4Bytes then
          (if length src < 5 then HeadZero
           else \<lparr>Major = major, AI = ai, HeadArg = ucast (Uint32 (drop 1 src)), HeadN = 5\<rparr>)
        else if ai = AI8Bytes then
          (if length src < 9 then HeadZero
           else \<lparr>Major = major, AI = ai, HeadArg = Uint64 (drop 1 src), HeadN = 9\<rparr>)
        else \<lparr>Major = major, AI = ai, HeadArg = 0, HeadN = 1\<rparr>)"

definition IsShortest :: "HeadResult \<Rightarrow> bool" where
  "IsShortest h =
     (if AI h = AI1Byte then HeadArg h \<ge> 24
      else if AI h = AI2Bytes then HeadArg h > 0xff
      else if AI h = AI4Bytes then HeadArg h > 0xffff
      else if AI h = AI8Bytes then HeadArg h > 0xffffffff
      else True)"

text \<open>\<open>headSize\<close> of \<^verbatim>\<open>rfc8949/estimate.go\<close>.\<close>

definition headSize :: "u64 \<Rightarrow> nat" where
  "headSize arg =
     (if arg < 24 then 1 else if arg \<le> 0xff then 2 else if arg \<le> 0xffff then 3
      else if arg \<le> 0xffffffff then 5 else 9)"

section \<open>Bit facts of the initial byte\<close>

lemma byte_lo_hi: "(b AND 0xe0) OR (b AND 0x1f) = (b :: byte)"
proof -
  have "(b AND 0xe0) OR (b AND 0x1f) = b AND (0xe0 OR 0x1f)"
    by (rule bit.conj_disj_distrib [symmetric])
  also have "(0xe0 OR 0x1f :: byte) = - 1"
    by simp
  finally show ?thesis by simp
qed

lemma byte_lo_mod: "(b :: byte) AND 0x1f = b mod 32"
proof -
  have "take_bit 5 b = b AND 0x1f"
    by (simp only: take_bit_eq_mask) (simp add: mask_eq_exp_minus_1)
  moreover have "take_bit 5 b = b mod 32"
    by (simp add: take_bit_eq_mod)
  ultimately show ?thesis by simp
qed

lemma byte_small_lo: "x < 32 \<Longrightarrow> (x :: byte) AND 0x1f = x"
proof -
  assume "x < 32"
  then have "unat x < 32" by (simp add: word_less_nat_alt)
  then have "x mod 32 = x"
    by (intro word_unat_eq_iff [THEN iffD2]) (simp add: unat_mod)
  then show ?thesis by (simp add: byte_lo_mod)
qed

lemma byte_lo_less: "(b :: byte) AND 0x1f < 32"
  by (simp add: byte_lo_mod word_less_nat_alt unat_mod)

lemma byte_small_hi: "x < 32 \<Longrightarrow> (x :: byte) AND 0xe0 = 0"
proof -
  assume "x < 32"
  then have "x AND 0xe0 = (x AND 0x1f) AND 0xe0"
    by (simp add: byte_small_lo)
  also have "\<dots> = 0"
    by (simp add: and.assoc)
  finally show ?thesis .
qed

text \<open>The eight major types are the bytes with the low five bits clear.\<close>

definition is_major :: "byte \<Rightarrow> bool" where
  "is_major m \<longleftrightarrow> m AND 0x1f = 0"

lemma is_major_and [simp]: "is_major (b AND 0xe0)"
  by (simp add: is_major_def and.assoc)

lemma major_hi: "is_major m \<Longrightarrow> m AND 0xe0 = m"
  using byte_lo_hi [of m] by (simp add: is_major_def)

lemma initial_byte_major: "is_major m \<Longrightarrow> x < 32 \<Longrightarrow> (m OR x) AND 0xe0 = m"
  by (simp add: bit.conj_disj_distrib2 major_hi byte_small_hi)

lemma initial_byte_ai: "is_major m \<Longrightarrow> x < 32 \<Longrightarrow> (m OR x) AND 0x1f = x"
  by (simp add: bit.conj_disj_distrib2 byte_small_lo is_major_def)

lemma is_major_consts [simp]:
  "is_major MajorUint" "is_major MajorNegInt" "is_major MajorBytes" "is_major MajorText"
  "is_major MajorArray" "is_major MajorMap" "is_major MajorTag" "is_major MajorOther"
  by (simp_all add: is_major_def)

section \<open>Properties of the head\<close>

lemma AppendHead_dst: "AppendHead dst m a = dst @ AppendHead [] m a"
  by (simp add: AppendHead_def AppendUint16_def AppendUint32_def AppendUint64_def)

lemma length_AppendHead: "length (AppendHead dst m a) = length dst + headSize a"
  by (simp add: AppendHead_def headSize_def AppendUint16_def AppendUint32_def AppendUint64_def)

lemma headSize_pos [simp]: "0 < headSize a"
  by (simp add: headSize_def)

lemma headSize_le_9: "headSize a \<le> 9"
  by (simp add: headSize_def)

text \<open>The additional information that the shortest head of an argument carries.\<close>

definition head_ai :: "u64 \<Rightarrow> byte" where
  "head_ai arg =
     (if arg < 24 then ucast arg else if arg \<le> 0xff then AI1Byte
      else if arg \<le> 0xffff then AI2Bytes else if arg \<le> 0xffffffff then AI4Bytes else AI8Bytes)"

lemma u64_small_nat:
  "arg < 24 \<longleftrightarrow> unat arg < 24" "arg \<le> 0xff \<longleftrightarrow> unat arg < 256"
  "arg \<le> 0xffff \<longleftrightarrow> unat arg < 65536" "arg \<le> 0xffffffff \<longleftrightarrow> unat arg < 4294967296"
  for arg :: u64
  by (auto simp: word_less_nat_alt word_le_nat_alt)

lemma ucast_byte_small: "unat (arg :: u64) < 256 \<Longrightarrow> unat (ucast arg :: byte) = unat arg"
  by (simp add: unat_ucast_mod)

lemma ucast_small_back:
  "unat (arg :: u64) < 256 \<Longrightarrow> ucast (ucast arg :: byte) = arg"
  "unat (arg :: u64) < 65536 \<Longrightarrow> ucast (ucast arg :: u16) = arg"
  "unat (arg :: u64) < 4294967296 \<Longrightarrow> ucast (ucast arg :: u32) = arg"
  by (rule word_eqI_unat, simp add: unat_ucast_mod)+

lemma Uint_be_bytes:
  "Uint16 (be_bytes 2 (unat (a :: u16)) @ rest) = a"
  "Uint32 (be_bytes 4 (unat (b :: u32)) @ rest) = b"
  "Uint64 (be_bytes 8 (unat (c :: u64)) @ rest) = c"
  using unat_bounds(2) [of a] unat_bounds(3) [of b] unat_bounds(4) [of c]
  by (simp_all add: Uint16_def Uint32_def Uint64_def)

lemma head_ai_less: "head_ai a < 28"
  by (auto simp: head_ai_def word_less_nat_alt ucast_byte_small)

lemma ParseHead_AppendHead:
  assumes m: "is_major m"
  shows "ParseHead (AppendHead [] m a @ rest) =
    \<lparr>Major = m, AI = head_ai a, HeadArg = a, HeadN = headSize a\<rparr>"
proof -
  have bits: "(m OR x) AND 0xe0 = m" "(m OR x) AND 0x1f = x" if "x < 32" for x
    using m that by (simp_all add: initial_byte_major initial_byte_ai)
  consider "unat a < 24" | "24 \<le> unat a" "unat a < 256" | "256 \<le> unat a" "unat a < 65536"
    | "65536 \<le> unat a" "unat a < 4294967296" | "4294967296 \<le> unat a"
    by linarith
  then show ?thesis
  proof cases
    case 1
    then have "ucast a < (24 :: byte)" and "ucast a < (32 :: byte)"
      by (simp_all add: word_less_nat_alt ucast_byte_small)
    with 1 show ?thesis
      by (simp add: AppendHead_def ParseHead_def headSize_def head_ai_def u64_small_nat bits
          ucast_small_back Let_def)
  next
    case 2
    then show ?thesis
      by (simp add: AppendHead_def ParseHead_def headSize_def head_ai_def u64_small_nat bits
          ucast_small_back Let_def)
  next
    case 3
    then show ?thesis
      by (simp add: AppendHead_def ParseHead_def headSize_def head_ai_def u64_small_nat bits
          ucast_small_back Let_def AppendUint16_def Uint_be_bytes)
  next
    case 4
    then show ?thesis
      by (simp add: AppendHead_def ParseHead_def headSize_def head_ai_def u64_small_nat bits
          ucast_small_back Let_def AppendUint32_def Uint_be_bytes)
  next
    case 5
    then show ?thesis
      by (simp add: AppendHead_def ParseHead_def headSize_def head_ai_def u64_small_nat bits
          Let_def AppendUint64_def Uint_be_bytes)
  qed
qed

lemma IsShortest_AppendHead:
  "IsShortest \<lparr>Major = m, AI = head_ai a, HeadArg = a, HeadN = n\<rparr>"
proof -
  consider "a < 24" | "\<not> a < 24" "a \<le> 0xff" | "\<not> a \<le> 0xff" "a \<le> 0xffff"
    | "\<not> a \<le> 0xffff" "a \<le> 0xffffffff" | "\<not> a \<le> 0xffffffff"
    by blast
  then show ?thesis
  proof cases
    case 1
    then have "(ucast a :: byte) < 24"
      by (simp add: word_less_nat_alt ucast_byte_small)
    then have "ucast a \<noteq> (24 :: byte)" "ucast a \<noteq> (25 :: byte)" "ucast a \<noteq> (26 :: byte)"
      "ucast a \<noteq> (27 :: byte)"
      by auto
    with 1 show ?thesis
      by (simp add: IsShortest_def head_ai_def)
  qed (auto simp: IsShortest_def head_ai_def u64_small_nat word_less_nat_alt word_le_nat_alt)
qed

lemma ParseHead_cases:
  "HeadN (ParseHead src) \<le> length src \<and> HeadN (ParseHead src) \<le> 9
   \<and> (HeadN (ParseHead src) > 0 \<longrightarrow> Major (ParseHead src) = src ! 0 AND 0xe0
        \<and> AI (ParseHead src) = src ! 0 AND 0x1f)"
  by (auto simp: ParseHead_def Let_def HeadZero_def Suc_le_eq)

lemma ParseHead_le: "HeadN (ParseHead src) \<le> length src"
  using ParseHead_cases by blast

lemma ParseHead_Major: "HeadN (ParseHead src) > 0 \<Longrightarrow> Major (ParseHead src) = src ! 0 AND 0xe0"
  using ParseHead_cases by blast

lemma ParseHead_AI: "HeadN (ParseHead src) > 0 \<Longrightarrow> AI (ParseHead src) = src ! 0 AND 0x1f"
  using ParseHead_cases by blast

lemma ParseHead_append:
  assumes "HeadN (ParseHead src) > 0"
  shows "ParseHead (src @ rest) = ParseHead src"
proof (cases src)
  case Nil
  with assms show ?thesis by (simp add: ParseHead_def HeadZero_def)
next
  case (Cons b bs)
  define ai where "ai = b AND 0x1f"
  have tk: "k \<le> length bs \<Longrightarrow> take k (bs @ rest) = take k bs" for k
    by simp
  have len: "(ai = 24 \<longrightarrow> 1 \<le> length bs) \<and> (ai = 25 \<longrightarrow> 2 \<le> length bs)
      \<and> (ai = 26 \<longrightarrow> 4 \<le> length bs) \<and> (ai = 27 \<longrightarrow> 8 \<le> length bs)"
    using assms
    by (auto simp: Suc_le_eq Cons ParseHead_def HeadZero_def Let_def ai_def [symmetric] split: if_splits)
  then show ?thesis
    by (auto simp: Cons ParseHead_def Let_def ai_def [symmetric] nth_append Uint16_def Uint32_def
        Uint64_def Suc_le_eq)
qed

text \<open>Reading a minimal head and writing it again gives the same bytes.\<close>

lemma be_bytes_Uint:
  "2 \<le> length bs \<Longrightarrow> be_bytes 2 (unat (Uint16 bs)) = take 2 bs"
  "4 \<le> length bs \<Longrightarrow> be_bytes 4 (unat (Uint32 bs)) = take 4 bs"
  "8 \<le> length bs \<Longrightarrow> be_bytes 8 (unat (Uint64 bs)) = take 8 bs"
proof -
  have *: "be_bytes k (be_val (take k bs) mod 256 ^ k) = take k bs" if "k \<le> length bs" for k
    using be_val_less [of "take k bs"] be_bytes_be_val [of "take k bs" k] that by simp
  show "2 \<le> length bs \<Longrightarrow> be_bytes 2 (unat (Uint16 bs)) = take 2 bs"
    using * [of 2] by (simp add: Uint16_def unat_of_nat)
  show "4 \<le> length bs \<Longrightarrow> be_bytes 4 (unat (Uint32 bs)) = take 4 bs"
    using * [of 4] by (simp add: Uint32_def unat_of_nat)
  show "8 \<le> length bs \<Longrightarrow> be_bytes 8 (unat (Uint64 bs)) = take 8 bs"
    using * [of 8] by (simp add: Uint64_def unat_of_nat)
qed

lemma AppendHead_ParseHead:
  assumes "HeadN (ParseHead src) > 0" and "AI (ParseHead src) < 28" and "IsShortest (ParseHead src)"
  shows "AppendHead [] (Major (ParseHead src)) (HeadArg (ParseHead src))
    = take (HeadN (ParseHead src)) src"
proof (cases src)
  case Nil
  with assms(1) show ?thesis by (simp add: ParseHead_def HeadZero_def)
next
  case (Cons b bs)
  define ai where "ai = b AND 0x1f"
  define mj where "mj = b AND 0xe0"
  have b: "mj OR ai = b"
    using byte_lo_hi [of b] by (simp add: ai_def mj_def)
  note defs = Cons ParseHead_def HeadZero_def Let_def ai_def [symmetric] mj_def [symmetric]
    AppendHead_def
  have "unat ai < 28"
    using assms(1,2) by (auto simp: defs word_less_nat_alt split: if_splits)
  moreover have num: "(ai = 24) = (unat ai = 24)" "(ai = 25) = (unat ai = 25)"
    "(ai = 26) = (unat ai = 26)" "(ai = 27) = (unat ai = 27)"
    by (simp_all add: word_unat_eq_iff)
  ultimately consider "unat ai < 24" | "ai = 24" | "ai = 25" | "ai = 26" | "ai = 27"
    by linarith
  then show ?thesis
  proof cases
    case 1
    then have "ai < 24" by (simp add: word_less_nat_alt)
    moreover have "(ucast ai :: u64) < 24" and "ucast (ucast ai :: u64) = ai"
      using 1 unat_bounds(1) [of ai]
      by (simp_all add: word_less_nat_alt unat_ucast_mod word_unat_eq_iff)
    ultimately show ?thesis by (simp add: defs b)
  next
    case 2
    then have "\<not> length bs < 1" and "\<not> (ucast (bs ! 0) :: u64) < 24"
      using assms(1,3) by (auto simp: defs IsShortest_def split: if_splits)
    moreover have "(ucast (bs ! 0) :: u64) \<le> 0xff" and "ucast (ucast (bs ! 0) :: u64) = bs ! 0"
      using unat_bounds(1) [of "bs ! 0"]
      by (simp_all add: word_le_nat_alt unat_ucast_mod word_unat_eq_iff)
    ultimately show ?thesis using 2 b by (cases bs) (simp_all add: defs)
  next
    case 3
    then have "\<not> length bs < 2" and "\<not> (ucast (Uint16 bs) :: u64) \<le> 0xff"
      using assms(1,3) by (auto simp: defs IsShortest_def split: if_splits)
    moreover have "(ucast (Uint16 bs) :: u64) \<le> 0xffff" and
      "ucast (ucast (Uint16 bs) :: u64) = Uint16 bs"
      using unat_bounds(2) [of "Uint16 bs"]
      by (simp_all add: word_le_nat_alt unat_ucast_mod word_unat_eq_iff)
    ultimately show ?thesis using 3 b
      by (simp add: defs u64_small_nat AppendUint16_def be_bytes_Uint)
  next
    case 4
    then have "\<not> length bs < 4" and "\<not> (ucast (Uint32 bs) :: u64) \<le> 0xffff"
      using assms(1,3) by (auto simp: defs IsShortest_def split: if_splits)
    moreover have "(ucast (Uint32 bs) :: u64) \<le> 0xffffffff" and
      "ucast (ucast (Uint32 bs) :: u64) = Uint32 bs"
      using unat_bounds(3) [of "Uint32 bs"]
      by (simp_all add: word_le_nat_alt unat_ucast_mod word_unat_eq_iff)
    ultimately show ?thesis using 4 b
      by (simp add: defs u64_small_nat AppendUint32_def be_bytes_Uint)
  next
    case 5
    then have "\<not> length bs < 8" and "\<not> Uint64 bs \<le> 0xffffffff"
      using assms(1,3) by (auto simp: defs IsShortest_def split: if_splits)
    then show ?thesis using 5 b
      by (simp add: defs u64_small_nat AppendUint64_def be_bytes_Uint)
  qed
qed

end
