(* ===== verification/Float_Bits.thy ===== *)
theory Float_Bits
  imports Complex_Main Go_Prelude
begin

text \<open>
  Go's \<open>float64\<close> and \<open>float32\<close> as their IEEE 754 bit patterns (\<open>math.Float64bits\<close>), with
  the operations the codec uses: classification, comparison, negation, the conversions
  between the widths (rounding to nearest, ties to even) and \<open>math.Ldexp\<close>.

  A pattern is read through its fields: sign, biased exponent, mantissa. All arithmetic is
  on natural numbers, so every operation evaluates.
\<close>

section \<open>Fields\<close>

definition f64_sign :: "u64 \<Rightarrow> nat" where "f64_sign b = unat b div 2 ^ 63"
definition f64_exp :: "u64 \<Rightarrow> nat" where "f64_exp b = unat b div 2 ^ 52 mod 2 ^ 11"
definition f64_man :: "u64 \<Rightarrow> nat" where "f64_man b = unat b mod 2 ^ 52"
definition f64_mk :: "nat \<Rightarrow> nat \<Rightarrow> nat \<Rightarrow> u64" where
  "f64_mk s e m = of_nat (s * 2 ^ 63 + e * 2 ^ 52 + m)"

definition f32_sign :: "u32 \<Rightarrow> nat" where "f32_sign b = unat b div 2 ^ 31"
definition f32_exp :: "u32 \<Rightarrow> nat" where "f32_exp b = unat b div 2 ^ 23 mod 2 ^ 8"
definition f32_man :: "u32 \<Rightarrow> nat" where "f32_man b = unat b mod 2 ^ 23"
definition f32_mk :: "nat \<Rightarrow> nat \<Rightarrow> nat \<Rightarrow> u32" where
  "f32_mk s e m = of_nat (s * 2 ^ 31 + e * 2 ^ 23 + m)"

lemma f64_fields_less: "f64_sign b < 2" "f64_exp b < 2048" "f64_man b < 4503599627370496"
  using unat_bounds(4) [of b] by (simp_all add: f64_sign_def f64_exp_def f64_man_def)

lemma f32_fields_less: "f32_sign b < 2" "f32_exp b < 256" "f32_man b < 8388608"
  using unat_bounds(3) [of b] by (simp_all add: f32_sign_def f32_exp_def f32_man_def)

lemma f64_mk_fields [simp]: "f64_mk (f64_sign b) (f64_exp b) (f64_man b) = b"
proof -
  define q where "q = unat b div 4503599627370496"
  have "unat b = q * 4503599627370496 + unat b mod 4503599627370496"
    and "q = q div 2048 * 2048 + q mod 2048"
    unfolding q_def by simp_all
  moreover have "unat b div 9223372036854775808 = q div 2048"
    by (simp add: q_def div_mult2_eq [symmetric])
  ultimately have "unat b = unat b div 9223372036854775808 * 9223372036854775808
      + q mod 2048 * 4503599627370496 + unat b mod 4503599627370496"
    by linarith
  then have "f64_mk (f64_sign b) (f64_exp b) (f64_man b) = of_nat (unat b)"
    by (simp add: f64_mk_def f64_sign_def f64_exp_def f64_man_def q_def del: of_nat_add of_nat_mult of_nat_unat)
  then show ?thesis by simp
qed

lemma unat_f64_mk:
  assumes "s < 2" "e < 2048" "m < 4503599627370496"
  shows "unat (f64_mk s e m) = s * 2 ^ 63 + e * 2 ^ 52 + m"
proof -
  have "s * 2 ^ 63 + e * 2 ^ 52 + m < 2 ^ 64"
    using assms by simp
  then show ?thesis unfolding f64_mk_def unat_of_nat by simp
qed

lemma f64_fields_mk:
  assumes "s < 2" "e < 2048" "m < 4503599627370496"
  shows "f64_sign (f64_mk s e m) = s" "f64_exp (f64_mk s e m) = e" "f64_man (f64_mk s e m) = m"
proof -
  have u: "unat (f64_mk s e m) = s * 9223372036854775808 + e * 4503599627370496 + m"
    using unat_f64_mk [OF assms] by simp
  have "(s * 9223372036854775808 + e * 4503599627370496 + m) div 9223372036854775808 = s"
    using assms by simp
  then show "f64_sign (f64_mk s e m) = s" by (simp add: f64_sign_def u)
  have "(s * 9223372036854775808 + e * 4503599627370496 + m) div 4503599627370496 = s * 2048 + e"
    using assms by simp
  then show "f64_exp (f64_mk s e m) = e"
    using assms by (simp add: f64_exp_def u)
  show "f64_man (f64_mk s e m) = m"
    using assms by (simp add: f64_man_def u mod_add_eq [symmetric])
qed

section \<open>Classification, comparison, negation\<close>

definition f64_IsNaN :: "u64 \<Rightarrow> bool" where
  "f64_IsNaN b \<longleftrightarrow> f64_exp b = 2047 \<and> f64_man b \<noteq> 0"
definition f64_IsInf :: "u64 \<Rightarrow> bool" where
  "f64_IsInf b \<longleftrightarrow> f64_exp b = 2047 \<and> f64_man b = 0"
definition f64_Signbit :: "u64 \<Rightarrow> bool" where "f64_Signbit b \<longleftrightarrow> f64_sign b = 1"
definition f64_is_zero :: "u64 \<Rightarrow> bool" where
  "f64_is_zero b \<longleftrightarrow> f64_exp b = 0 \<and> f64_man b = 0"

definition f32_IsNaN :: "u32 \<Rightarrow> bool" where
  "f32_IsNaN b \<longleftrightarrow> f32_exp b = 255 \<and> f32_man b \<noteq> 0"
definition f32_is_zero :: "u32 \<Rightarrow> bool" where
  "f32_is_zero b \<longleftrightarrow> f32_exp b = 0 \<and> f32_man b = 0"

text \<open>The operator \<open>==\<close> on floats: false on NaN, true on the two zeros.\<close>

definition f64_eq :: "u64 \<Rightarrow> u64 \<Rightarrow> bool" where
  "f64_eq a b \<longleftrightarrow> \<not> f64_IsNaN a \<and> \<not> f64_IsNaN b \<and> (a = b \<or> (f64_is_zero a \<and> f64_is_zero b))"
definition f32_eq :: "u32 \<Rightarrow> u32 \<Rightarrow> bool" where
  "f32_eq a b \<longleftrightarrow> \<not> f32_IsNaN a \<and> \<not> f32_IsNaN b \<and> (a = b \<or> (f32_is_zero a \<and> f32_is_zero b))"

definition f64_neg :: "u64 \<Rightarrow> u64" where
  "f64_neg b = f64_mk (1 - f64_sign b) (f64_exp b) (f64_man b)"

lemma f64_neg_fields [simp]:
  "f64_sign (f64_neg b) = 1 - f64_sign b" "f64_exp (f64_neg b) = f64_exp b"
  "f64_man (f64_neg b) = f64_man b"
  using f64_fields_less [of b] by (simp_all add: f64_neg_def f64_fields_mk)

lemma f64_neg_neg [simp]: "f64_neg (f64_neg b) = b"
proof -
  have "1 - (1 - f64_sign b) = f64_sign b"
    using f64_fields_less(1) [of b] by simp
  then show ?thesis by (simp add: f64_neg_def [of "f64_neg b"])
qed

section \<open>Rounding\<close>

fun nlog2 :: "nat \<Rightarrow> nat" where
  "nlog2 n = (if n < 2 then 0 else Suc (nlog2 (n div 2)))"

declare nlog2.simps [simp del]

lemma nlog2_bounds: "0 < n \<Longrightarrow> 2 ^ nlog2 n \<le> n \<and> n < 2 ^ Suc (nlog2 n)"
proof (induction n rule: nlog2.induct)
  case (1 n)
  show ?case
  proof (cases "n < 2")
    case True
    with "1.prems" show ?thesis by (simp add: nlog2.simps [of n])
  next
    case False
    then have "2 ^ nlog2 (n div 2) \<le> n div 2 \<and> n div 2 < 2 ^ Suc (nlog2 (n div 2))"
      using "1.IH" by simp
    with False show ?thesis by (simp add: nlog2.simps [of n]) linarith
  qed
qed

lemma nlog2_unique: "2 ^ k \<le> n \<Longrightarrow> n < 2 ^ Suc k \<Longrightarrow> nlog2 n = k"
proof -
  assume n: "2 ^ k \<le> n" "n < 2 ^ Suc k"
  have "(0::nat) < 2 ^ k" by simp
  with n have "0 < n" by linarith
  then have b: "2 ^ nlog2 n \<le> n" "n < 2 ^ Suc (nlog2 n)" using nlog2_bounds by auto
  have "(2::nat) ^ k < 2 ^ Suc (nlog2 n)" and "(2::nat) ^ nlog2 n < 2 ^ Suc k"
    using n b by linarith+
  then have "k < Suc (nlog2 n)" and "nlog2 n < Suc k"
    by (simp_all only: power_strict_increasing_iff)
  then show ?thesis by simp
qed

text \<open>\<open>M / 2 ^ sh\<close> rounded to the nearest integer, ties to even.\<close>

definition round_half_even :: "nat \<Rightarrow> nat \<Rightarrow> nat" where
  "round_half_even M sh =
     (let k = M div 2 ^ sh; r = M mod 2 ^ sh; h = 2 ^ (sh - 1)
      in if sh \<noteq> 0 \<and> (r > h \<or> (r = h \<and> odd k)) then k + 1 else k)"

lemma round_half_even_exact [simp]: "round_half_even (k * 2 ^ sh) sh = k"
  by (simp add: round_half_even_def Let_def)

text \<open>
  The exponent and mantissa fields of the float with \<open>p\<close> mantissa bits, least quantum
  \<open>2 powi qmin\<close> and greatest exponent field \<open>emax\<close> that is nearest to \<open>M * 2 powi e\<close>.
\<close>

definition round_mag :: "nat \<Rightarrow> int \<Rightarrow> nat \<Rightarrow> nat \<Rightarrow> int \<Rightarrow> nat" where
  "round_mag p qmin emax M e =
     (if M = 0 then 0
      else let q = max (int (nlog2 M) + e - int p) qmin;
               r = (if q \<le> e then M * 2 ^ nat (e - q) else round_half_even M (nat (q - e)));
               mag = nat (q - qmin) * 2 ^ p + r
        in if mag \<ge> emax * 2 ^ p then emax * 2 ^ p else mag)"

text \<open>The significand and exponent of a finite \<open>float64\<close>: its value is
  \<open>f64_sig b * 2 powi f64_pow b\<close>, up to the sign.\<close>

definition f64_sig :: "u64 \<Rightarrow> nat" where
  "f64_sig b = (if f64_exp b = 0 then f64_man b else 2 ^ 52 + f64_man b)"
definition f64_pow :: "u64 \<Rightarrow> int" where
  "f64_pow b = (if f64_exp b = 0 then 1 else int (f64_exp b)) - 1075"

definition f64_value :: "u64 \<Rightarrow> real" where
  "f64_value b = (- 1) ^ f64_sign b * real (f64_sig b) * 2 powi f64_pow b"

text \<open>\<open>float64(n)\<close> for an unsigned integer, and \<open>math.Ldexp\<close>.\<close>

definition float64_of_nat :: "nat \<Rightarrow> u64" where
  "float64_of_nat n = of_nat (round_mag 52 (- 1074) 2047 n 0)"

definition math_Ldexp :: "u64 \<Rightarrow> int \<Rightarrow> u64" where
  "math_Ldexp b e =
     (if f64_is_zero b \<or> f64_exp b = 2047 then b
      else of_nat (f64_sign b * 2 ^ 63 + round_mag 52 (- 1074) 2047 (f64_sig b) (f64_pow b + e)))"

section \<open>Conversions between the widths\<close>

text \<open>\<open>float64(f)\<close> for a \<open>float32\<close>: exact; a signalling NaN is made quiet.\<close>

definition f32_to_f64 :: "u32 \<Rightarrow> u64" where
  "f32_to_f64 b =
     (let s = f32_sign b; e = f32_exp b; m = f32_man b in
      if e = 255 then
        (if m = 0 then f64_mk s 2047 0
         else f64_mk s 2047 ((if m < 2 ^ 22 then m + 2 ^ 22 else m) * 2 ^ 29))
      else if e = 0 then
        (if m = 0 then f64_mk s 0 0
         else f64_mk s (nlog2 m + 874) (m * 2 ^ (52 - nlog2 m) - 2 ^ 52))
      else f64_mk s (e + 896) (m * 2 ^ 29))"

text \<open>\<open>float32(f)\<close> for a \<open>float64\<close>.\<close>

definition f64_to_f32 :: "u64 \<Rightarrow> u32" where
  "f64_to_f32 b =
     (let s = f64_sign b; e = f64_exp b; m = f64_man b in
      if e = 2047 then
        (if m = 0 then f32_mk s 255 0
         else f32_mk s 255 (let t = m div 2 ^ 29 in if t < 2 ^ 22 then t + 2 ^ 22 else t))
      else of_nat (s * 2 ^ 31 + round_mag 23 (- 149) 255 (f64_sig b) (f64_pow b)))"

end
