(* ===== verification/Cbor_Value.thy ===== *)
theory Cbor_Value
  imports Wire_Head Float_Bits
begin

text \<open>
  The value model (\<^verbatim>\<open>cbor/value.go\<close>, \<^verbatim>\<open>cbor/errors.go\<close>, \<^verbatim>\<open>cbor/helpers.go\<close>): one struct with a kind and
  a field per payload type, as the Go code has it. Go strings and byte slices are byte
  lists (a nil slice and an empty one are the same list), a map entry is a pair, and Go's
  two pointer-free float payloads are bit patterns in the \<open>Num\<close> field. The
  predicate \<open>clean\<close> says that the fields a kind does not use are zero, which is what the
  constructors and the decoder produce. UTF-8 validity is Go's \<open>utf8.Valid\<close>.
\<close>

named_theorems val_defs \<open>definitions of the value constructors\<close>

section \<open>Errors\<close>

datatype cbor_error =
    ErrNonShortest | ErrIndefiniteLength | ErrInvalidUTF8 | ErrDuplicateMapKey
  | ErrUnknownTag | ErrNonFiniteFloat | ErrNullMapKey | ErrTrailingBytes | ErrTruncated
  | ErrMaxNestingDepth | ErrMaxArrayLength | ErrMaxByteStringLength | ErrInvalidMode
  | ErrNilValue | ErrReservedAI | ErrMemoryBudgetExceeded

section \<open>Values\<close>

datatype kind =
    KindInvalid | KindUint | KindNegInt | KindBytes | KindText | KindArray | KindMap
  | KindTag | KindBool | KindNull | KindUndefined | KindFloat32 | KindFloat64 | KindSimple

datatype Value =
  Value (Kind: kind) (Num: u64) (Str: bytes) (Bstr: bytes) (Items: "Value list")
    (Pairs: "(Value \<times> Value) list")

type_synonym MapEntry = "Value \<times> Value"

abbreviation Key :: "MapEntry \<Rightarrow> Value" where "Key \<equiv> fst"
abbreviation EntryValue :: "MapEntry \<Rightarrow> Value" where "EntryValue \<equiv> snd"

definition ZeroValue :: Value where [val_defs]: "ZeroValue = Value KindInvalid 0 [] [] [] []"
definition IsZero :: "Value \<Rightarrow> bool" where "IsZero v = (Kind v = KindInvalid)"

definition Uint :: "u64 \<Rightarrow> Value" where [val_defs]: "Uint n = Value KindUint n [] [] [] []"
definition NegInt :: "u64 \<Rightarrow> Value" where [val_defs]: "NegInt n = Value KindNegInt n [] [] [] []"
definition Bytes :: "bytes \<Rightarrow> Value" where [val_defs]: "Bytes b = Value KindBytes 0 [] b [] []"
definition Text :: "bytes \<Rightarrow> Value" where [val_defs]: "Text s = Value KindText 0 s [] [] []"
definition MakeArray :: "Value list \<Rightarrow> Value" where
  [val_defs]: "MakeArray items = Value KindArray 0 [] [] items []"
definition MakeMap :: "MapEntry list \<Rightarrow> Value" where
  [val_defs]: "MakeMap pairs = Value KindMap 0 [] [] [] pairs"
definition MakeTag :: "u64 \<Rightarrow> Value \<Rightarrow> Value" where
  [val_defs]: "MakeTag tid inner = Value KindTag tid [] [] [inner] []"
definition Bool :: "bool \<Rightarrow> Value" where
  [val_defs]: "Bool v = Value KindBool (if v then 1 else 0) [] [] [] []"
definition Null :: Value where [val_defs]: "Null = Value KindNull 0 [] [] [] []"
definition Undefined :: Value where [val_defs]: "Undefined = Value KindUndefined 0 [] [] [] []"
definition Float32 :: "u32 \<Rightarrow> Value" where
  [val_defs]: "Float32 f = Value KindFloat32 (ucast f) [] [] [] []"
definition Float64 :: "u64 \<Rightarrow> Value" where
  [val_defs]: "Float64 f = Value KindFloat64 f [] [] [] []"
definition Simple :: "byte \<Rightarrow> Value" where
  [val_defs]: "Simple v = Value KindSimple (ucast v) [] [] [] []"

definition UintVal :: "Value \<Rightarrow> u64" where [simp]: "UintVal v = Num v"
definition NegIntVal :: "Value \<Rightarrow> u64" where [simp]: "NegIntVal v = Num v"
definition BytesVal :: "Value \<Rightarrow> bytes" where [simp]: "BytesVal v = Bstr v"
definition TextVal :: "Value \<Rightarrow> bytes" where [simp]: "TextVal v = Str v"
definition TagID :: "Value \<Rightarrow> u64" where [simp]: "TagID v = Num v"
definition TagInner :: "Value \<Rightarrow> Value" where
  "TagInner v = (case Items v of [] \<Rightarrow> ZeroValue | x # _ \<Rightarrow> x)"
definition BoolVal :: "Value \<Rightarrow> bool" where [simp]: "BoolVal v = (Num v \<noteq> 0)"
definition Float32Val :: "Value \<Rightarrow> u32" where [simp]: "Float32Val v = ucast (Num v)"
definition Float64Val :: "Value \<Rightarrow> u64" where [simp]: "Float64Val v = Num v"
definition SimpleVal :: "Value \<Rightarrow> byte" where [simp]: "SimpleVal v = ucast (Num v)"

lemma Kind_constructors [simp]:
  "Kind ZeroValue = KindInvalid" "Kind (Uint n) = KindUint" "Kind (NegInt n) = KindNegInt"
  "Kind (Bytes b) = KindBytes" "Kind (Text s) = KindText" "Kind (MakeArray xs) = KindArray"
  "Kind (MakeMap ps) = KindMap" "Kind (MakeTag i v) = KindTag" "Kind (Bool t) = KindBool"
  "Kind Null = KindNull" "Kind Undefined = KindUndefined" "Kind (Float32 f) = KindFloat32"
  "Kind (Float64 g) = KindFloat64" "Kind (Simple y) = KindSimple"
  by (simp_all add: val_defs)

text \<open>Structural induction with the components of a value as the induction hypotheses.\<close>

lemma value_induct [case_names Value]:
  assumes "\<And>k n s b items pairs.
     (\<And>x. x \<in> set items \<Longrightarrow> P x) \<Longrightarrow> (\<And>p. p \<in> set pairs \<Longrightarrow> P (fst p)) \<Longrightarrow>
     (\<And>p. p \<in> set pairs \<Longrightarrow> P (snd p)) \<Longrightarrow> P (Value k n s b items pairs)"
  shows "P v"
proof (induction v)
  case (Value k n s b items pairs)
  show ?case
  proof (rule assms)
    fix x assume "x \<in> set items"
    then show "P x" by (rule Value(1))
  next
    fix p assume "p \<in> set pairs"
    then show "P (fst p)" by (rule Value(2)) (cases p, simp)
  next
    fix p assume "p \<in> set pairs"
    then show "P (snd p)" by (rule Value(3)) (cases p, simp)
  qed
qed

lemma size_item: "x \<in> set items \<Longrightarrow> size x < size (Value k n s b items pairs)"
  using size_list_estimation' [of x items "size x" size] by fastforce

lemma size_pair:
  assumes "p \<in> set pairs"
  shows "size (fst p) < size (Value k n s b items pairs)"
    and "size (snd p) < size (Value k n s b items pairs)"
proof -
  have "size_prod size size p \<le> size_list (size_prod size size) pairs"
    using assms by (rule size_list_estimation') simp
  then show "size (fst p) < size (Value k n s b items pairs)"
    and "size (snd p) < size (Value k n s b items pairs)"
    by (cases p; simp)+
qed

section \<open>Deep copies\<close>

text \<open>\<open>Clone\<close> copies the payload of the kind and drops every other field.\<close>

function Clone :: "Value \<Rightarrow> Value" where
  "Clone (Value k n s b items pairs) =
     (case k of
        KindBytes \<Rightarrow> Value KindBytes 0 [] b [] []
      | KindText \<Rightarrow> Value KindText 0 s [] [] []
      | KindArray \<Rightarrow> Value KindArray 0 [] [] (map Clone items) []
      | KindMap \<Rightarrow> Value KindMap 0 [] [] [] (map (\<lambda>p. (Clone (fst p), Clone (snd p))) pairs)
      | KindTag \<Rightarrow> Value KindTag n [] [] (map Clone items) []
      | _ \<Rightarrow> Value k n s b items pairs)"
  by pat_completeness auto
termination
  by (relation "measure size") (simp_all only: in_measure wf_measure size_item size_pair)

text \<open>No field carries data that the kind does not use.\<close>

function clean :: "Value \<Rightarrow> bool" where
  "clean (Value k n s b items pairs) =
     ((\<forall>x \<in> set items. clean x) \<and> (\<forall>p \<in> set pairs. clean (fst p) \<and> clean (snd p))
      \<and> (k \<noteq> KindText \<longrightarrow> s = []) \<and> (k \<noteq> KindBytes \<longrightarrow> b = []) \<and> (k \<noteq> KindMap \<longrightarrow> pairs = [])
      \<and> (k \<noteq> KindArray \<and> k \<noteq> KindTag \<longrightarrow> items = [])
      \<and> (k \<in> {KindInvalid, KindBytes, KindText, KindArray, KindMap, KindNull, KindUndefined}
           \<longrightarrow> n = 0)
      \<and> (k = KindTag \<longrightarrow> length items = 1)
      \<and> (k = KindBool \<longrightarrow> n \<le> 1) \<and> (k = KindFloat32 \<longrightarrow> n \<le> 0xffffffff)
      \<and> (k = KindSimple \<longrightarrow> n \<le> 0xff))"
  by pat_completeness auto
termination
  by (relation "measure size") (simp_all only: in_measure wf_measure size_item size_pair)

lemma Clone_clean: "clean v \<Longrightarrow> Clone v = v"
proof (induction v rule: value_induct)
  case (Value k n s b items pairs)
  have "map Clone items = items"
    using Value by (simp add: map_idI)
  moreover have "map (\<lambda>p. (Clone (fst p), Clone (snd p))) pairs = pairs"
    using Value by (simp add: map_idI)
  ultimately show ?case
    using Value.prems by (cases k) auto
qed

section \<open>UTF-8\<close>

definition utf8_cont :: "byte \<Rightarrow> bool" where "utf8_cont b \<longleftrightarrow> 0x80 \<le> b \<and> b \<le> 0xbf"

fun utf8_Valid :: "bytes \<Rightarrow> bool" where
  "utf8_Valid [] = True"
| "utf8_Valid (a # bs) =
     (if a < 0x80 then utf8_Valid bs
      else case bs of
        [] \<Rightarrow> False
      | b # cs \<Rightarrow>
          if 0xc2 \<le> a \<and> a \<le> 0xdf then utf8_cont b \<and> utf8_Valid cs
          else case cs of
            [] \<Rightarrow> False
          | c # ds \<Rightarrow>
              if 0xe0 \<le> a \<and> a \<le> 0xef then
                (if a = 0xe0 then 0xa0 \<le> b else 0x80 \<le> b) \<and> (if a = 0xed then b \<le> 0x9f else b \<le> 0xbf)
                \<and> utf8_cont c \<and> utf8_Valid ds
              else case ds of
                [] \<Rightarrow> False
              | d # es \<Rightarrow>
                  0xf0 \<le> a \<and> a \<le> 0xf4
                  \<and> (if a = 0xf0 then 0x90 \<le> b else 0x80 \<le> b)
                  \<and> (if a = 0xf4 then b \<le> 0x8f else b \<le> 0xbf)
                  \<and> utf8_cont c \<and> utf8_cont d \<and> utf8_Valid es)"

section \<open>String-keyed maps\<close>

text \<open>\<open>AsStringMap\<close>: a later entry with the same key replaces an earlier one, as
  the assignment into the Go map does. \<open>None\<close> is \<open>ErrNonStringKey\<close>.\<close>

fun AsStringMap_loop :: "MapEntry list \<Rightarrow> (bytes \<rightharpoonup> Value) \<Rightarrow> (bytes \<rightharpoonup> Value) option" where
  "AsStringMap_loop [] result = Some result"
| "AsStringMap_loop (entry # pairs) result =
     (if Kind (Key entry) \<noteq> KindText then None
      else AsStringMap_loop pairs (result(TextVal (Key entry) \<mapsto> EntryValue entry)))"

definition AsStringMap :: "Value \<Rightarrow> (bytes \<rightharpoonup> Value) option" where
  "AsStringMap m = AsStringMap_loop (Pairs m) Map.empty"

lemma AsStringMap_loop_eq:
  "AsStringMap_loop ps r =
     (if \<forall>p \<in> set ps. Kind (fst p) = KindText
      then Some (r ++ map_of (rev (map (\<lambda>p. (Str (fst p), snd p)) ps))) else None)"
  by (induction ps arbitrary: r) (auto simp: map_add_def fun_eq_iff split: option.splits)

end
