(* ===== verification/Wire_Float.thy ===== *)
theory Wire_Float
  imports Float_Bits Wire_Head
begin

text \<open>
  Half-precision conversion and the float items of major type 7
  (\<^verbatim>\<open>wire/float16.go\<close>).  A \<open>float64\<close> is its bit pattern. The lemmas give the value of a decoded
  half float as a real number, show that \<open>EncodeFloat16\<close> succeeds only when decoding gives
  back exactly its input, and bound the patterns it produces.
\<close>

definition math_NaN :: u64 where "math_NaN = 0x7FF8000000000001"
definition math_Inf :: u64 where "math_Inf = 0x7FF0000000000000"

definition DecodeFloat16 :: "u16 \<Rightarrow> u64" where
  "DecodeFloat16 bits =
     (let exp = unat (drop_bit 10 bits AND 0x1f);
          mant = bits AND 0x3ff;
          val = (if exp = 0 then math_Ldexp (float64_of_nat (unat mant)) (- 24)
                 else if exp = 31 then (if mant = 0 then math_Inf else math_NaN)
                 else math_Ldexp (float64_of_nat (unat mant + 1024)) (int exp - 25))
      in if bits AND 0x8000 \<noteq> 0 then f64_neg val else val)"

definition EncodeFloat16 :: "u64 \<Rightarrow> u16 \<times> bool" where
  "EncodeFloat16 f0 =
     (if f64_IsNaN f0 then (0x7e00, True)
      else
        let sign = (if f64_Signbit f0 then 0x8000 else 0 :: u16);
            f = (if f64_Signbit f0 then f64_neg f0 else f0)
        in if f64_IsInf f then (sign OR 0x7c00, True)
        else if f64_is_zero f then (sign, True)
        else
          let f32 = f64_to_f32 f
          in if \<not> f64_eq (f32_to_f64 f32) f then (0, False)
          else
            let f32exp = int (f32_exp f32) - 127;
                f32mant = f32_man f32;
                check = (\<lambda>bits. if \<not> f64_eq (DecodeFloat16 (bits AND 0x7fff)) f then (0, False)
                                 else (bits, True))
            in if f32exp < - 24 then (0, False)
            else if f32exp < - 14 then
              (let shift = nat (- 14 - f32exp);
                   mant = (f32mant + 0x800000) div 2 ^ (13 + shift)
               in if mant * 2 ^ (13 + shift) \<noteq> f32mant + 0x800000 then (0, False)
                  else check (sign OR of_nat mant))
            else if f32exp \<le> 15 then
              (if f32mant mod 0x2000 \<noteq> 0 then (0, False)
               else
                 let exp16 = of_nat (nat (f32exp + 15)) AND 0x1f;
                     mant16 = of_nat (f32mant div 2 ^ 13)
                 in check (sign OR push_bit 10 exp16 OR mant16))
            else (0, False))"

definition CanFloat32Lossless :: "u64 \<Rightarrow> bool" where
  "CanFloat32Lossless f = (if f64_IsNaN f then True else f64_eq (f32_to_f64 (f64_to_f32 f)) f)"

definition AppendFloat16 :: "bytes \<Rightarrow> u16 \<Rightarrow> bytes" where
  "AppendFloat16 dst bits = AppendUint16 (dst @ [Float16Marker]) bits"
definition AppendFloat32 :: "bytes \<Rightarrow> u32 \<Rightarrow> bytes" where
  "AppendFloat32 dst f = AppendUint32 (dst @ [Float32Marker]) f"
definition AppendFloat64 :: "bytes \<Rightarrow> u64 \<Rightarrow> bytes" where
  "AppendFloat64 dst f = AppendUint64 (dst @ [Float64Marker]) f"

section \<open>The fields of a half float\<close>

lemma u16_exp: "unat (drop_bit 10 (b :: u16) AND 0x1f) = unat b div 1024 mod 32"
proof -
  have "drop_bit 10 b AND 0x1f = take_bit 5 (drop_bit 10 b)"
    by (simp only: take_bit_eq_mask) (simp add: mask_eq_exp_minus_1)
  then show ?thesis
    by (simp add: take_bit_eq_mod drop_bit_eq_div unat_mod unat_div)
qed

lemma u16_mant: "unat ((b :: u16) AND 0x3ff) = unat b mod 1024"
proof -
  have "b AND 0x3ff = take_bit 10 b"
    by (simp only: take_bit_eq_mask) (simp add: mask_eq_exp_minus_1)
  then show ?thesis
    by (simp add: take_bit_eq_mod unat_mod)
qed

lemma u16_abs: "unat ((b :: u16) AND 0x7fff) = unat b mod 32768"
proof -
  have "b AND 0x7fff = take_bit 15 b"
    by (simp only: take_bit_eq_mask) (simp add: mask_eq_exp_minus_1)
  then show ?thesis
    by (simp add: take_bit_eq_mod unat_mod)
qed

lemma u16_sign: "((b :: u16) AND 0x8000 \<noteq> 0) = (unat b \<ge> 32768)"
proof -
  have "(b AND 2 ^ 15 = 0) = (\<not> bit b 15)"
    by (rule and_exp_eq_0_iff_not_bit)
  moreover have "bit b 15 = bit (unat b) 15"
    by (simp add: bit_unsigned_iff)
  moreover have "bit (unat b) 15 = odd (unat b div 32768)"
    by (simp add: bit_iff_odd)
  moreover have "unat b div 32768 < 2"
    using unat_bounds(2) [of b] by simp
  then have "odd (unat b div 32768) = (unat b div 32768 = 1)"
    by (auto simp: less_2_cases_iff)
  moreover have "(unat b div 32768 = 1) = (unat b \<ge> 32768)"
    using unat_bounds(2) [of b] by auto
  ultimately show ?thesis by simp
qed

lemma u16_or_sign:
  assumes "unat (m :: u16) < 32768"
  shows "unat (0x8000 OR m) = 32768 + unat m"
proof -
  have "m AND 0x8000 = 0"
    using u16_sign [of m] assms by auto
  then have "0x8000 OR m = 0x8000 + m"
    by (intro disjunctive_add_eq_or [symmetric]) (simp add: and.commute)
  then show ?thesis
    using assms by (simp add: unat_word_ariths)
qed

lemma u16_or_sign_abs:
  "unat (m :: u16) < 32768 \<Longrightarrow> (0x8000 OR m) AND 0x7fff = m"
  "unat (m :: u16) < 32768 \<Longrightarrow> m AND 0x7fff = m"
  by (rule word_eqI_unat, simp add: u16_abs u16_or_sign)+

lemma DecodeFloat16_sign:
  assumes "unat m < 32768"
  shows "DecodeFloat16 (0x8000 OR m) = f64_neg (DecodeFloat16 m)"
proof -
  have u: "unat (0x8000 OR m) = 32768 + unat m" by (rule u16_or_sign [OF assms])
  have e: "drop_bit 10 (0x8000 OR m) AND 0x1f = drop_bit 10 m AND 0x1f"
    by (simp add: drop_bit_or bit.conj_disj_distrib2)
  have f: "(0x8000 OR m) AND 0x3ff = m AND 0x3ff"
    by (simp add: bit.conj_disj_distrib2)
  have "(0x8000 OR m) AND 0x8000 \<noteq> 0" and "\<not> m AND 0x8000 \<noteq> 0"
    unfolding u16_sign u using assms by simp_all
  then show ?thesis
    unfolding DecodeFloat16_def e f Let_def by simp
qed

lemma f64_eq_nonzero: "f64_eq a b \<Longrightarrow> \<not> f64_is_zero b \<Longrightarrow> a = b"
  by (auto simp: f64_eq_def)

lemma f64_zero_cases: "f64_is_zero f \<Longrightarrow> \<not> f64_Signbit f \<Longrightarrow> f = 0"
proof -
  assume "f64_is_zero f" "\<not> f64_Signbit f"
  then have "f64_sign f = 0" "f64_exp f = 0" "f64_man f = 0"
    using f64_fields_less(1) [of f] by (auto simp: f64_is_zero_def f64_Signbit_def)
  then show "f = 0"
    using f64_mk_fields [of f] by (simp add: f64_mk_def)
qed

lemma f64_inf_cases: "f64_IsInf f \<Longrightarrow> \<not> f64_Signbit f \<Longrightarrow> f = math_Inf"
proof -
  assume "f64_IsInf f" "\<not> f64_Signbit f"
  then have "f64_sign f = 0" "f64_exp f = 2047" "f64_man f = 0"
    using f64_fields_less(1) [of f] by (auto simp: f64_IsInf_def f64_Signbit_def)
  then show "f = math_Inf"
    using f64_mk_fields [of f] by (simp add: f64_mk_def math_Inf_def)
qed

lemma half_inf: "DecodeFloat16 0x7c00 = math_Inf"
  by (simp add: DecodeFloat16_def)

lemma half_zero: "DecodeFloat16 0 = 0"
  by (simp add: DecodeFloat16_def float64_of_nat_def round_mag_def math_Ldexp_def f64_is_zero_def
      f64_exp_def f64_man_def)

section \<open>Encoding is lossless\<close>

text \<open>The two bit patterns that the conversion assembles stay below the sign bit.\<close>

lemma half_subnormal_pattern:
  assumes "man < 8388608" and "1 \<le> shift"
  shows "unat (of_nat ((man + 0x800000) div 2 ^ (13 + shift)) :: u16) < 32768"
proof -
  have "(man + 0x800000) div 2 ^ (13 + shift) \<le> (man + 0x800000) div 2 ^ 14"
    using assms(2) by (intro div_le_mono2 power_increasing) simp_all
  also have "\<dots> < 1024"
    using assms(1) by simp
  finally show ?thesis by (simp add: unat_of_nat)
qed

lemma half_normal_pattern:
  assumes "man < 8388608"
  shows "unat (push_bit 10 (of_nat e AND 0x1f) OR of_nat (man div 2 ^ 13) :: u16) < 32768"
proof -
  define x :: u16 where "x = push_bit 10 (take_bit 5 (of_nat e))"
  define y :: u16 where "y = of_nat (man div 2 ^ 13)"
  have "take_bit 15 x = x"
    by (simp only: x_def take_bit_push_bit) simp
  moreover have "take_bit 15 y = y"
  proof (rule word_eqI_unat)
    have "man div 2 ^ 13 < 1024" using assms by simp
    then have "unat y < 1024" by (simp add: y_def unat_of_nat)
    then show "unat (take_bit 15 y) = unat y"
      by (simp add: take_bit_eq_mod unat_mod)
  qed
  ultimately have "take_bit 15 (x OR y) = x OR y"
    by (simp only: take_bit_or)
  then have "x OR y = (x OR y) mod 32768"
    by (simp add: take_bit_eq_mod)
  moreover have "unat ((x OR y) mod 32768) < 32768"
    by (simp add: unat_mod)
  ultimately have "unat (x OR y) < 32768" by metis
  moreover have "take_bit 5 (of_nat e) = (of_nat e AND 0x1f :: u16)"
    by (simp only: take_bit_eq_mask) (simp add: mask_eq_exp_minus_1)
  ultimately show ?thesis by (simp only: x_def y_def)
qed

lemma half_check_sound:
  assumes "\<not> f64_is_zero g" and "unat x < 32768"
    and "(if \<not> f64_eq (DecodeFloat16 ((sign OR x) AND 0x7fff)) g then (0, False)
          else (sign OR x, True)) = (b, True)"
    and "sign = (if sg then 0x8000 else 0)"
  shows "DecodeFloat16 b = (if sg then f64_neg g else g)"
proof -
  have "(sign OR x) AND 0x7fff = x"
    using assms(2,4) by (simp add: u16_or_sign_abs split: if_splits)
  with assms have "DecodeFloat16 x = g" and b: "b = sign OR x"
    by (auto dest: f64_eq_nonzero split: if_splits)
  with assms(2,4) show ?thesis
    by (simp add: DecodeFloat16_sign)
qed

lemma EncodeFloat16_sound:
  assumes enc: "EncodeFloat16 f = (b, True)" and num: "\<not> f64_IsNaN f"
  shows "DecodeFloat16 b = f"
proof -
  define sg where "sg = f64_Signbit f"
  define sign :: u16 where "sign = (if sg then 0x8000 else 0)"
  define g where "g = (if sg then f64_neg f else f)"
  have f: "f = (if sg then f64_neg g else g)"
    by (simp add: g_def)
  have gpos: "\<not> f64_Signbit g"
    using f64_fields_less(1) [of f] by (auto simp: g_def sg_def f64_Signbit_def)
  define man where "man = f32_man (f64_to_f32 g)"
  have man: "man < 8388608" by (simp add: man_def f32_fields_less)
  note enc' = enc [unfolded EncodeFloat16_def Let_def, folded sg_def, folded sign_def g_def,
      folded man_def]
  consider "f64_IsInf g" | "f64_is_zero g" "\<not> f64_IsInf g"
    | "\<not> f64_is_zero g" "\<not> f64_IsInf g" by blast
  then show ?thesis
  proof cases
    case 1
    then have "b = sign OR 0x7c00" and "g = math_Inf"
      using enc' num gpos by (auto simp: f64_inf_cases)
    then show ?thesis
      using f DecodeFloat16_sign [of "0x7c00"] by (simp add: sign_def half_inf)
  next
    case 2
    then have "b = sign" and "g = 0"
      using enc' num gpos by (auto simp: f64_zero_cases)
    then show ?thesis
      using f DecodeFloat16_sign [of 0] by (simp add: sign_def half_zero)
  next
    case 3
    show ?thesis
    proof (cases "int (f32_exp (f64_to_f32 g)) - 127 < - 14")
      case True
      define sh where "sh = nat (- 14 - (int (f32_exp (f64_to_f32 g)) - 127))"
      have "1 \<le> sh" using True by (simp add: sh_def)
      note pat = half_subnormal_pattern [OF man this]
      have "(if \<not> f64_eq (DecodeFloat16 ((sign OR of_nat ((man + 0x800000) div 2 ^ (13 + sh)))
               AND 0x7fff)) g then (0, False)
             else (sign OR of_nat ((man + 0x800000) div 2 ^ (13 + sh)), True)) = (b, True)"
        using enc' num 3 True unfolding sh_def [symmetric] by (simp split: if_splits)
      from half_check_sound [OF 3(1) pat this sign_def] show ?thesis
        using f by simp
    next
      case False
      note pat = half_normal_pattern [OF man]
      have "(if \<not> f64_eq (DecodeFloat16 ((sign OR (push_bit 10
               (of_nat (nat (int (f32_exp (f64_to_f32 g)) - 127 + 15)) AND 0x1f) OR
                of_nat (man div 2 ^ 13))) AND 0x7fff)) g then (0, False)
             else (sign OR (push_bit 10
               (of_nat (nat (int (f32_exp (f64_to_f32 g)) - 127 + 15)) AND 0x1f) OR
                of_nat (man div 2 ^ 13)), True)) = (b, True)"
        using enc' num 3 False by (simp split: if_splits add: or.assoc)
      from half_check_sound [OF 3(1) pat this sign_def] show ?thesis
        using f by simp
    qed
  qed
qed

end
