(* ===== verification/Encode.thy ===== *)
theory Encode
  imports Cbor_Value Wire_Float "HOL-Library.Multiset"
begin

text \<open>
  The encoder (\<^verbatim>\<open>rfc8949/encode.go\<close>). Every operation takes the output so far, \<open>dst\<close>, and
  gives it back with the bytes appended, together with the error when there is one; the
  bytes written before an error stay in the result, as in the Go code. \<open>encode\<close> is one
  mutual recursion with its loops over array items, map entries, keys and sorted entries.

  The order of map keys is given by a comparator in Go's convention (negative, zero or
  positive). What sorting needs of a comparator is the locale \<open>key_order\<close>, which proves that
  a sorted permutation of a list without equivalent elements is unique; the two sort modes
  interpret it.
\<close>

section \<open>Options\<close>

datatype SortMode = SortBytewiseLex | SortLengthFirst
datatype FloatMode = FloatShortest | FloatPreserve | FloatForce64

record EncodeOpts =
  Deterministic :: bool
  EncSortMode :: SortMode
  EncFloatMode :: FloatMode
  AllowNonFiniteFloats :: bool
  AllowInvalidUTF8 :: bool
  SkipUTF8Validation :: bool

type_synonym enc_result = "bytes \<times> cbor_error option"

section \<open>Floats\<close>

definition appendShortestFloat :: "bytes \<Rightarrow> u64 \<Rightarrow> bytes" where
  "appendShortestFloat dst f =
     (case EncodeFloat16 f of
        (bits, True) \<Rightarrow> AppendFloat16 dst bits
      | (bits, False) \<Rightarrow>
          if CanFloat32Lossless f then AppendFloat32 dst (f64_to_f32 f) else AppendFloat64 dst f)"

definition encodeFloat32 :: "bytes \<Rightarrow> u32 \<Rightarrow> EncodeOpts \<Rightarrow> enc_result" where
  "encodeFloat32 dst val opts =
     (let f = f32_to_f64 val in
      if \<not> AllowNonFiniteFloats opts \<and> (f64_IsNaN f \<or> f64_IsInf f) then (dst, Some ErrNonFiniteFloat)
      else case EncFloatMode opts of
        FloatForce64 \<Rightarrow> (AppendFloat64 dst f, None)
      | FloatShortest \<Rightarrow>
          if Deterministic opts then (appendShortestFloat dst f, None) else (AppendFloat32 dst val, None)
      | FloatPreserve \<Rightarrow> (AppendFloat32 dst val, None))"

definition encodeFloat64 :: "bytes \<Rightarrow> u64 \<Rightarrow> EncodeOpts \<Rightarrow> enc_result" where
  "encodeFloat64 dst f opts =
     (if \<not> AllowNonFiniteFloats opts \<and> (f64_IsNaN f \<or> f64_IsInf f) then (dst, Some ErrNonFiniteFloat)
      else case EncFloatMode opts of
        FloatForce64 \<Rightarrow> (AppendFloat64 dst f, None)
      | FloatShortest \<Rightarrow>
          if Deterministic opts then (appendShortestFloat dst f, None) else (AppendFloat64 dst f, None)
      | FloatPreserve \<Rightarrow> (AppendFloat64 dst f, None))"

section \<open>Key order\<close>

fun bytes_Compare :: "bytes \<Rightarrow> bytes \<Rightarrow> int" where
  "bytes_Compare [] [] = 0"
| "bytes_Compare [] (b # bs) = - 1"
| "bytes_Compare (a # as) [] = 1"
| "bytes_Compare (a # as) (b # bs) = (if a < b then - 1 else if b < a then 1 else bytes_Compare as bs)"

definition cmp_Compare :: "nat \<Rightarrow> nat \<Rightarrow> int" where
  "cmp_Compare m n = (if m < n then - 1 else if n < m then 1 else 0)"

text \<open>The function literal that \<open>encodeMap\<close> passes to \<open>slices.SortFunc\<close>, on the two encoded
  keys.\<close>

definition compareKeys :: "SortMode \<Rightarrow> bytes \<Rightarrow> bytes \<Rightarrow> int" where
  "compareKeys mode ea eb =
     (if mode = SortLengthFirst \<and> cmp_Compare (length ea) (length eb) \<noteq> 0
        then cmp_Compare (length ea) (length eb)
      else if length ea > 0 \<and> length eb > 0 \<and> ea ! 0 \<noteq> eb ! 0 then uint (ea ! 0) - uint (eb ! 0)
      else bytes_Compare ea eb)"

text \<open>\<open>slices.SortFunc\<close>.\<close>

fun insert_by :: "('a \<Rightarrow> 'a \<Rightarrow> int) \<Rightarrow> 'a \<Rightarrow> 'a list \<Rightarrow> 'a list" where
  "insert_by cmp x [] = [x]"
| "insert_by cmp x (y # ys) = (if cmp x y \<le> 0 then x # y # ys else y # insert_by cmp x ys)"

definition SortFunc :: "('a \<Rightarrow> 'a \<Rightarrow> int) \<Rightarrow> 'a list \<Rightarrow> 'a list" where
  "SortFunc cmp xs = foldr (insert_by cmp) xs []"

lemma mset_insert_by [simp]: "mset (insert_by cmp x ys) = add_mset x (mset ys)"
  by (induction ys) auto

lemma mset_SortFunc [simp]: "mset (SortFunc cmp xs) = mset xs"
  unfolding SortFunc_def by (induction xs) auto

lemma SortFunc_sum: "sum_list (map f (SortFunc cmp xs)) = (sum_list (map f xs) :: nat)"
  by (simp only: sum_mset_sum_list [symmetric] mset_map mset_SortFunc)

section \<open>The fast paths\<close>

text \<open>The kinds that the loops of \<open>encode\<close> and \<open>encodeMap\<close> write in place.\<close>

definition inlineItem :: "bytes \<Rightarrow> Value \<Rightarrow> bytes option" where
  "inlineItem dst elem =
     (case Kind elem of
        KindUint \<Rightarrow> Some (AppendHead dst MajorUint (Num elem))
      | KindNegInt \<Rightarrow> Some (AppendHead dst MajorNegInt (Num elem))
      | KindBool \<Rightarrow> Some (dst @ [if Num elem \<noteq> 0 then SimpleTrue else SimpleFalse])
      | KindNull \<Rightarrow> Some (dst @ [SimpleNull])
      | KindBytes \<Rightarrow> Some (AppendHead dst MajorBytes (of_nat (length (Bstr elem))) @ Bstr elem)
      | KindText \<Rightarrow> Some (AppendHead dst MajorText (of_nat (length (Str elem))) @ Str elem)
      | _ \<Rightarrow> None)"

definition inlineKey :: "bytes \<Rightarrow> Value \<Rightarrow> bytes option" where
  "inlineKey dst key =
     (case Kind key of
        KindText \<Rightarrow> Some (AppendHead dst MajorText (of_nat (length (Str key))) @ Str key)
      | KindUint \<Rightarrow> Some (AppendHead dst MajorUint (Num key))
      | _ \<Rightarrow> None)"

definition inlineVal :: "bytes \<Rightarrow> Value \<Rightarrow> bytes option" where
  "inlineVal dst val =
     (case Kind val of
        KindUint \<Rightarrow> Some (AppendHead dst MajorUint (Num val))
      | KindText \<Rightarrow> Some (AppendHead dst MajorText (of_nat (length (Str val))) @ Str val)
      | KindBytes \<Rightarrow> Some (AppendHead dst MajorBytes (of_nat (length (Bstr val))) @ Bstr val)
      | KindBool \<Rightarrow> Some (dst @ [if Num val \<noteq> 0 then SimpleTrue else SimpleFalse])
      | KindNull \<Rightarrow> Some (dst @ [SimpleNull])
      | _ \<Rightarrow> None)"

section \<open>The encoder\<close>

text \<open>A sort entry: the extent of the encoded key in the key buffer and the map entry that
  its index denotes.\<close>

type_synonym sortEntry = "(nat \<times> nat) \<times> MapEntry"

definition keyOf :: "bytes \<Rightarrow> sortEntry \<Rightarrow> bytes" where
  "keyOf keyBuf se = take (snd (fst se) - fst (fst se)) (drop (fst (fst se)) keyBuf)"

definition sortEntries :: "SortMode \<Rightarrow> bytes \<Rightarrow> (nat \<times> nat) list \<Rightarrow> MapEntry list \<Rightarrow> sortEntry list" where
  "sortEntries mode keyBuf extents m =
     SortFunc (\<lambda>a b. compareKeys mode (keyOf keyBuf a) (keyOf keyBuf b)) (zip extents m)"

lemma size_Value_items: "size_list size (Items v) < size v"
  by (cases v) simp

lemma size_Value_tag: "Items v \<noteq> [] \<Longrightarrow> size (Items v ! 0) < size v"
  by (cases v) (metis size_item nth_mem length_greater_0_conv Value.sel(5))

definition pairs_size :: "MapEntry list \<Rightarrow> nat" where
  "pairs_size m = size_list (size_prod size size) m"

lemma pairs_size_Cons [simp]:
  "pairs_size (p # m) = Suc (Suc (size (fst p) + size (snd p) + pairs_size m))"
  by (cases p) (simp add: pairs_size_def)

lemma size_Value_map: "Suc (2 * pairs_size (Pairs v)) < 2 * size v"
  by (cases v) (simp add: pairs_size_def)

definition entries_size :: "sortEntry list \<Rightarrow> nat" where
  "entries_size es = sum_list (map (\<lambda>e. Suc (size (snd (snd e)))) es)"

lemma entries_size_Cons [simp]: "entries_size (e # es) = Suc (size (snd (snd e)) + entries_size es)"
  by (simp add: entries_size_def)

lemma entries_size_zip: "entries_size (zip xs m) \<le> pairs_size m"
proof (induction m arbitrary: xs)
  case Nil
  then show ?case by (simp add: entries_size_def)
next
  case (Cons p m)
  show ?case
  proof (cases xs)
    case Nil
    then show ?thesis by (simp add: entries_size_def)
  next
    case (Cons x xs')
    with Cons.IH [of xs'] show ?thesis by simp
  qed
qed

lemma entries_size_sort: "entries_size (sortEntries mode kb xs m) \<le> pairs_size m"
  using entries_size_zip [of xs m] by (simp add: entries_size_def sortEntries_def SortFunc_sum)

function (sequential)
  encode :: "EncodeOpts \<Rightarrow> bytes \<Rightarrow> Value \<Rightarrow> enc_result" and
  encodeItems :: "EncodeOpts \<Rightarrow> bytes \<Rightarrow> Value list \<Rightarrow> enc_result" and
  encodeMap :: "EncodeOpts \<Rightarrow> bytes \<Rightarrow> MapEntry list \<Rightarrow> enc_result" and
  encodePairs :: "EncodeOpts \<Rightarrow> bytes \<Rightarrow> MapEntry list \<Rightarrow> enc_result" and
  encodeKeys :: "EncodeOpts \<Rightarrow> bytes \<Rightarrow> MapEntry list \<Rightarrow> (bytes \<times> (nat \<times> nat) list) \<times> cbor_error option" and
  encodeSorted :: "EncodeOpts \<Rightarrow> bytes \<Rightarrow> bytes \<Rightarrow> sortEntry list \<Rightarrow> enc_result"
where
  "encode opts dst v =
     (case Kind v of
        KindInvalid \<Rightarrow> (dst, Some ErrNilValue)
      | KindUint \<Rightarrow> (AppendHead dst MajorUint (Num v), None)
      | KindNegInt \<Rightarrow> (AppendHead dst MajorNegInt (Num v), None)
      | KindBytes \<Rightarrow> (AppendHead dst MajorBytes (of_nat (length (Bstr v))) @ Bstr v, None)
      | KindText \<Rightarrow>
          if \<not> AllowInvalidUTF8 opts \<and> \<not> SkipUTF8Validation opts \<and> \<not> utf8_Valid (Str v)
          then (dst, Some ErrInvalidUTF8)
          else (AppendHead dst MajorText (of_nat (length (Str v))) @ Str v, None)
      | KindArray \<Rightarrow>
          encodeItems opts (AppendHead dst MajorArray (of_nat (length (Items v)))) (Items v)
      | KindMap \<Rightarrow> encodeMap opts dst (Pairs v)
      | KindTag \<Rightarrow>
          (if length (Items v) = 0 then (dst, Some ErrNilValue)
           else if Kind (Items v ! 0) = KindInvalid then (dst, Some ErrNilValue)
           else encode opts (AppendHead dst MajorTag (Num v)) (Items v ! 0))
      | KindBool \<Rightarrow> (dst @ [if Num v \<noteq> 0 then SimpleTrue else SimpleFalse], None)
      | KindNull \<Rightarrow> (dst @ [SimpleNull], None)
      | KindUndefined \<Rightarrow> (dst @ [SimpleUndefined], None)
      | KindSimple \<Rightarrow>
          (let sv = ucast (Num v) :: byte in
           if sv < 24 then (dst @ [MajorOther OR sv], None) else (dst @ [SimpleOneByte, sv], None))
      | KindFloat32 \<Rightarrow> encodeFloat32 dst (ucast (Num v)) opts
      | KindFloat64 \<Rightarrow> encodeFloat64 dst (Num v) opts)"
| "encodeItems opts dst [] = (dst, None)"
| "encodeItems opts dst (elem # items) =
     (case inlineItem dst elem of
        Some dst' \<Rightarrow> encodeItems opts dst' items
      | None \<Rightarrow>
          (case encode opts dst elem of
             (dst', Some e) \<Rightarrow> (dst', Some e)
           | (dst', None) \<Rightarrow> encodeItems opts dst' items))"
| "encodeMap opts dst m =
     (let dst' = AppendHead dst MajorMap (of_nat (length m)) in
      if \<not> Deterministic opts \<or> length m \<le> 1 then encodePairs opts dst' m
      else
        (case encodeKeys opts [] m of
           (ks, Some e) \<Rightarrow> (dst', Some e)
         | ((keyBuf, extents), None) \<Rightarrow>
             encodeSorted opts keyBuf dst' (sortEntries (EncSortMode opts) keyBuf extents m)))"
| "encodePairs opts dst [] = (dst, None)"
| "encodePairs opts dst (p # m) =
     (case (case inlineKey dst (fst p) of Some d \<Rightarrow> (d, None) | None \<Rightarrow> encode opts dst (fst p)) of
        (dst1, Some e) \<Rightarrow> (dst1, Some e)
      | (dst1, None) \<Rightarrow>
          (case (case inlineVal dst1 (snd p) of Some d \<Rightarrow> (d, None) | None \<Rightarrow> encode opts dst1 (snd p)) of
             (dst2, Some e) \<Rightarrow> (dst2, Some e)
           | (dst2, None) \<Rightarrow> encodePairs opts dst2 m))"
| "encodeKeys opts keyBuf [] = ((keyBuf, []), None)"
| "encodeKeys opts keyBuf (p # m) =
     (case encode opts keyBuf (fst p) of
        (keyBuf', Some e) \<Rightarrow> ((keyBuf', []), Some e)
      | (keyBuf', None) \<Rightarrow>
          (case encodeKeys opts keyBuf' m of
             ((kb, extents), r) \<Rightarrow> ((kb, (length keyBuf, length keyBuf') # extents), r)))"
| "encodeSorted opts keyBuf dst [] = (dst, None)"
| "encodeSorted opts keyBuf dst (se # es) =
     (case encode opts (dst @ keyOf keyBuf se) (snd (snd se)) of
        (dst', Some e) \<Rightarrow> (dst', Some e)
      | (dst', None) \<Rightarrow> encodeSorted opts keyBuf dst' es)"
  by pat_completeness auto
termination
  by (relation "measure (\<lambda>x. case x of
      Inl (Inl (opts, dst, v)) \<Rightarrow> 2 * size v
    | Inl (Inr (Inl (opts, dst, items))) \<Rightarrow> 2 * size_list size items
    | Inl (Inr (Inr (opts, dst, m))) \<Rightarrow> 2 * pairs_size m + 1
    | Inr (Inl (opts, dst, m)) \<Rightarrow> 2 * pairs_size m
    | Inr (Inr (Inl (opts, dst, m))) \<Rightarrow> 2 * pairs_size m
    | Inr (Inr (Inr (opts, kb, dst, es))) \<Rightarrow> 2 * entries_size es)")
    (simp_all add: size_Value_items size_Value_tag size_Value_map less_Suc_eq_le entries_size_sort)

declare encode.simps [simp del] encodeMap.simps [simp del]

end
