(* ===== verification/Decode_State.thy ===== *)
theory Decode_State
  imports Cbor_Value
begin

text \<open>
  The state a decode call carries: the memory budget, the string interner and the arena
  (\<^verbatim>\<open>rfc8949/decode.go\<close>, \<^verbatim>\<open>rfc8949/intern.go\<close>, \<^verbatim>\<open>rfc8949/arena.go\<close>), each behind a pointer that may
  be nil (\<open>None\<close>), and the options. The interner's contract, that interning returns the
  string it was given, is the locale \<open>string_pool\<close>; the arena is modelled by the extents it
  hands out (slab, offset, length), and its lemmas show that live extents never overlap.
\<close>

section \<open>Options\<close>

record DecodeOpts =
  RejectIndefiniteLength :: bool
  RejectNonShortest :: bool
  RejectInvalidUTF8 :: bool
  RejectDuplicateMapKeys :: bool
  RejectUnknownTags :: bool
  RejectNonFiniteFloats :: bool
  RejectNullMapKeys :: bool
  MaxNestingDepth :: int
  MaxArrayLength :: int
  MaxByteStringLength :: int
  ZeroCopy :: bool

text \<open>The zero \<open>DecodeOpts\<close>, and \<open>StrictOpts\<close>.\<close>

definition DefaultOpts :: DecodeOpts where
  "DefaultOpts = \<lparr>RejectIndefiniteLength = False, RejectNonShortest = False,
     RejectInvalidUTF8 = False, RejectDuplicateMapKeys = False, RejectUnknownTags = False,
     RejectNonFiniteFloats = False, RejectNullMapKeys = False, MaxNestingDepth = 0,
     MaxArrayLength = 0, MaxByteStringLength = 0, ZeroCopy = False\<rparr>"

definition StrictOpts :: DecodeOpts where
  "StrictOpts = \<lparr>RejectIndefiniteLength = True, RejectNonShortest = True,
     RejectInvalidUTF8 = True, RejectDuplicateMapKeys = True, RejectUnknownTags = True,
     RejectNonFiniteFloats = True, RejectNullMapKeys = True, MaxNestingDepth = 0,
     MaxArrayLength = 0, MaxByteStringLength = 0, ZeroCopy = False\<rparr>"

definition maxNesting :: "DecodeOpts \<Rightarrow> int" where
  "maxNesting opts = (if MaxNestingDepth opts > 0 then MaxNestingDepth opts else 256)"
definition maxArray :: "DecodeOpts \<Rightarrow> int" where
  "maxArray opts = (if MaxArrayLength opts > 0 then MaxArrayLength opts else 2 ^ 20)"
definition maxBytes :: "DecodeOpts \<Rightarrow> int" where
  "maxBytes opts = (if MaxByteStringLength opts > 0 then MaxByteStringLength opts else 2 ^ 24)"

lemma max_pos [simp]: "0 < maxNesting opts" "0 < maxArray opts" "0 < maxBytes opts"
  by (simp_all add: maxNesting_def maxArray_def maxBytes_def)

section \<open>The memory budget\<close>

record BudgetState =
  Allocated :: int
  Limit :: int

definition NewBudget :: "int \<Rightarrow> BudgetState" where
  "NewBudget limit = \<lparr>Allocated = 0, Limit = limit\<rparr>"

text \<open>The second component is False when \<open>charge\<close> reports the budget as exceeded.\<close>

definition charge :: "int \<Rightarrow> BudgetState option \<Rightarrow> BudgetState option \<times> bool" where
  "charge n b =
     (case b of
        None \<Rightarrow> (None, True)
      | Some bs \<Rightarrow>
          let bs' = bs\<lparr>Allocated := go_int (Allocated bs + n)\<rparr>
          in (Some bs', \<not> Allocated bs' > Limit bs'))"

section \<open>The string interner\<close>

record StringInterner =
  table :: "(bytes \<times> bytes) list"
  max_entries :: int

definition NewStringInterner :: "int \<Rightarrow> StringInterner" where
  "NewStringInterner maxEntries = \<lparr>table = [], max_entries = maxEntries\<rparr>"

definition table_put :: "bytes \<Rightarrow> (bytes \<times> bytes) list \<Rightarrow> (bytes \<times> bytes) list" where
  "table_put k t = (if map_of t k = None then t @ [(k, k)] else map (\<lambda>(a, b). (a, if a = k then k else b)) t)"

fun Prefill :: "bytes list \<Rightarrow> StringInterner \<Rightarrow> StringInterner" where
  "Prefill [] si = si"
| "Prefill (k # ks) si = Prefill ks (si\<lparr>table := table_put k (table si)\<rparr>)"

definition Intern :: "bytes \<Rightarrow> StringInterner \<Rightarrow> bytes \<times> StringInterner" where
  "Intern raw si =
     (case map_of (table si) raw of
        Some existing \<Rightarrow> (existing, si)
      | None \<Rightarrow>
          if int (length (table si)) \<ge> max_entries si then (raw, si)
          else (raw, si\<lparr>table := table_put raw (table si)\<rparr>))"

text \<open>What the decoder relies on: an interned string is the string itself.\<close>

locale string_pool =
  fixes intern :: "bytes \<Rightarrow> 'p \<Rightarrow> bytes \<times> 'p" and ok :: "'p \<Rightarrow> bool"
  assumes intern_same: "ok p \<Longrightarrow> fst (intern raw p) = raw"
    and intern_ok: "ok p \<Longrightarrow> ok (snd (intern raw p))"
begin

lemma intern_both: "ok p \<Longrightarrow> intern raw p = (s, q) \<Longrightarrow> s = raw \<and> ok q"
  using intern_same [of p raw] intern_ok [of p raw] by simp

text \<open>Interning any sequence of strings gives the sequence back.\<close>

primrec intern_all :: "bytes list \<Rightarrow> 'p \<Rightarrow> bytes list \<times> 'p" where
  "intern_all [] p = ([], p)"
| "intern_all (r # rs) p =
     (let (s, p') = intern r p; (ss, p'') = intern_all rs p' in (s # ss, p''))"

lemma intern_all_same: "ok p \<Longrightarrow> fst (intern_all rs p) = rs \<and> ok (snd (intern_all rs p))"
proof (induction rs arbitrary: p)
  case Nil
  then show ?case by simp
next
  case (Cons r rs)
  obtain s q where sq: "intern r p = (s, q)" by (cases "intern r p")
  with Cons.prems have "s = r" and "ok q" using intern_both by blast+
  with Cons.IH [of q] sq show ?case by (simp add: split_beta)
qed

end

definition interner_ok :: "StringInterner \<Rightarrow> bool" where
  "interner_ok si \<longleftrightarrow> (\<forall>k v. map_of (table si) k = Some v \<longrightarrow> v = k)"

lemma map_of_table_put: "map_of (table_put k t) = (map_of t)(k \<mapsto> k)"
proof (cases "map_of t k")
  case None
  then show ?thesis
    by (auto simp: table_put_def fun_eq_iff map_add_def split: option.splits)
next
  case (Some v)
  have "map_of (map (\<lambda>(a, b). (a, if a = k then k else b)) t) x
      = (if x = k \<and> map_of t x \<noteq> None then Some k else map_of t x)" for x
    by (induction t) auto
  with Some show ?thesis by (auto simp: table_put_def fun_eq_iff)
qed

lemma interner_ok_put: "interner_ok si \<Longrightarrow> interner_ok (si\<lparr>table := table_put k (table si)\<rparr>)"
  by (auto simp: interner_ok_def map_of_table_put)

lemma Prefill_ok: "interner_ok si \<Longrightarrow> interner_ok (Prefill ks si)"
  by (induction ks arbitrary: si) (simp_all add: interner_ok_put)

lemma NewStringInterner_ok: "interner_ok (NewStringInterner n)"
  by (simp add: interner_ok_def NewStringInterner_def)

interpretation interner: string_pool Intern interner_ok
  by unfold_locales
    (auto simp: Intern_def interner_ok_def map_of_table_put split: option.splits)

text \<open>The table never grows past the larger of its limit and its prefilled size.\<close>

lemma Intern_size:
  "length (table (snd (Intern raw si))) \<le> max (length (table si)) (nat (max_entries si))"
  by (auto simp: Intern_def table_put_def split: option.splits)

section \<open>The arena\<close>

text \<open>\<open>vLen\<close> and \<open>pLen\<close> are the lengths of the two slabs; a slab is replaced, under a new
  number, when it grows.\<close>

record Arena =
  vLen :: nat
  pLen :: nat
  vOff :: nat
  pOff :: nat
  vSlab :: nat
  pSlab :: nat

record extent =
  slab :: nat
  ext_start :: nat
  extent_len :: nat

definition NewArena :: "nat \<Rightarrow> nat \<Rightarrow> Arena" where
  "NewArena nValues nPairs =
     \<lparr>vLen = nValues, pLen = nPairs, vOff = 0, pOff = 0, vSlab = 0, pSlab = 0\<rparr>"

definition Reset :: "Arena \<Rightarrow> Arena" where
  "Reset a = a\<lparr>vOff := 0, pOff := 0\<rparr>"

definition AllocValues :: "nat \<Rightarrow> Arena \<Rightarrow> extent \<times> Arena" where
  "AllocValues n a =
     (let a' = (if vOff a + n > vLen a then
                  let needed = vOff a + n;
                      needed' = (if needed < vLen a * 2 then vLen a * 2 else needed)
                  in a\<lparr>vLen := needed', vSlab := Suc (vSlab a)\<rparr>
                else a)
      in (\<lparr>slab = vSlab a', ext_start = vOff a', extent_len = n\<rparr>, a'\<lparr>vOff := vOff a' + n\<rparr>))"

definition AllocPairs :: "nat \<Rightarrow> Arena \<Rightarrow> extent \<times> Arena" where
  "AllocPairs n a =
     (let a' = (if pOff a + n > pLen a then
                  let needed = pOff a + n;
                      needed' = (if needed < pLen a * 2 then pLen a * 2 else needed)
                  in a\<lparr>pLen := needed', pSlab := Suc (pSlab a)\<rparr>
                else a)
      in (\<lparr>slab = pSlab a', ext_start = pOff a', extent_len = n\<rparr>, a'\<lparr>pOff := pOff a' + n\<rparr>))"

definition overlap :: "extent \<Rightarrow> extent \<Rightarrow> bool" where
  "overlap x y \<longleftrightarrow> slab x = slab y \<and> ext_start x < ext_start y + extent_len y \<and> ext_start y < ext_start x + extent_len x"

text \<open>Allocating a sequence of arrays between two resets.\<close>

fun alloc_run :: "nat list \<Rightarrow> Arena \<Rightarrow> extent list \<times> Arena" where
  "alloc_run [] a = ([], a)"
| "alloc_run (n # ns) a =
     (let (x, a') = AllocValues n a; (xs, a'') = alloc_run ns a' in (x # xs, a''))"

definition arena_inv :: "Arena \<Rightarrow> bool" where
  "arena_inv a \<longleftrightarrow> vOff a \<le> vLen a \<and> pOff a \<le> pLen a"

lemma arena_inv_ops:
  "arena_inv (NewArena m n)" "arena_inv (Reset a)"
  "arena_inv a \<Longrightarrow> arena_inv (snd (AllocValues k a))"
  "arena_inv a \<Longrightarrow> arena_inv (snd (AllocPairs k a))"
  by (auto simp: arena_inv_def NewArena_def Reset_def AllocValues_def AllocPairs_def Let_def)

lemma AllocValues_extent:
  "AllocValues n a = (x, a') \<Longrightarrow> extent_len x = n \<and> ext_start x = vOff a \<and> vOff a' = vOff a + n
     \<and> ext_start x + extent_len x \<le> vLen a' \<and> slab x = vSlab a' \<and> vSlab a \<le> vSlab a'"
  by (auto simp: AllocValues_def Let_def)

lemma alloc_run_start:
  "alloc_run ns a = (xs, a') \<Longrightarrow> x \<in> set xs \<Longrightarrow> vOff a \<le> ext_start x"
proof (induction ns arbitrary: a xs a')
  case Nil
  then show ?case by simp
next
  case (Cons n ns)
  obtain y b where y: "AllocValues n a = (y, b)" by (cases "AllocValues n a")
  obtain ys c where ys: "alloc_run ns b = (ys, c)" by (cases "alloc_run ns b")
  from Cons.prems y ys have xs: "xs = y # ys" by simp
  from AllocValues_extent [OF y] have "ext_start y = vOff a" "vOff b = vOff a + n" by simp_all
  with Cons.IH [OF ys] Cons.prems(2) xs show ?case by fastforce
qed

lemma alloc_run_lengths: "alloc_run ns a = (xs, a') \<Longrightarrow> map extent_len xs = ns"
proof (induction ns arbitrary: a xs a')
  case Nil
  then show ?case by simp
next
  case (Cons n ns)
  obtain y b where y: "AllocValues n a = (y, b)" by (cases "AllocValues n a")
  obtain ys c where ys: "alloc_run ns b = (ys, c)" by (cases "alloc_run ns b")
  from Cons.prems y ys Cons.IH [OF ys] AllocValues_extent [OF y] show ?case by auto
qed

lemma alloc_run_disjoint:
  "alloc_run ns a = (xs, a') \<Longrightarrow> i < j \<Longrightarrow> j < length xs \<Longrightarrow> \<not> overlap (xs ! i) (xs ! j)"
proof (induction ns arbitrary: a xs a' i j)
  case Nil
  then show ?case by simp
next
  case (Cons n ns)
  obtain y b where y: "AllocValues n a = (y, b)" by (cases "AllocValues n a")
  obtain ys c where ys: "alloc_run ns b = (ys, c)" by (cases "alloc_run ns b")
  from Cons.prems y ys have xs: "xs = y # ys" by simp
  obtain j' where j: "j = Suc j'" using Cons.prems(2) by (cases j) auto
  show ?case
  proof (cases i)
    case 0
    have "ys ! j' \<in> set ys" using Cons.prems(3) xs j by simp
    from alloc_run_start [OF ys this] AllocValues_extent [OF y] show ?thesis
      by (simp add: 0 j xs overlap_def)
  next
    case (Suc i')
    with Cons.IH [OF ys, of i' j'] Cons.prems(2,3) xs j show ?thesis by simp
  qed
qed

end
