(* ===== verification/Decode.thy ===== *)
theory Decode
  imports Decode_State Wire_Float
begin

text \<open>
  The decoder (\<^verbatim>\<open>rfc8949/decode.go\<close>), one definition per Go function, in the order of the
  source. Container decoders take the recursive \<open>decodeValue\<close> as their first argument
  \<open>dec\<close>, which receives an offset, a depth, the \<open>stripSelfDescribe\<close> flag and the state;
  \<open>decodeValue\<close> ties the knot with a fuel that bounds the depth of nesting, and the loops
  over indefinite-length containers get a fuel that bounds their iterations. Running out is
  the fault \<open>OutOfFuel\<close>; \<^verbatim>\<open>Decode_Safety\<close> shows that the fuel which \<open>Decode\<close> supplies is enough
  for every input.

  A result is a fault or a value with the offset behind it, together with the new state.
  \<open>Err e off\<close> is a Go error that wraps \<open>e\<close> at offset \<open>off\<close>, \<open>Panic\<close> a run-time panic.
  Offsets are natural numbers; where the code adds a length that the input chose, the sum
  is a wrapped 64-bit integer (\<open>go_int\<close>) and the slice expression checks it.
\<close>

datatype fault = Err cbor_error nat | Panic | OutOfFuel

record dstate =
  Budget :: "BudgetState option"
  Interner :: "StringInterner option"
  ArenaOf :: "Arena option"

type_synonym 'a dres = "(fault + 'a \<times> nat) \<times> dstate"
type_synonym decoder = "nat \<Rightarrow> nat \<Rightarrow> bool \<Rightarrow> dstate \<Rightarrow> Value dres"

definition err :: "cbor_error \<Rightarrow> nat \<Rightarrow> dstate \<Rightarrow> 'a dres" where
  "err e off st = (Inl (Err e off), st)"

definition ok :: "'a \<Rightarrow> nat \<Rightarrow> dstate \<Rightarrow> 'a dres" where
  "ok v next st = (Inr (v, next), st)"

text \<open>\<open>opts.Budget.charge(n)\<close> on the state: the new state and whether it succeeded.\<close>

definition charge_st :: "int \<Rightarrow> dstate \<Rightarrow> dstate \<times> bool" where
  "charge_st n st = (let (b, good) = charge n (Budget st) in (st\<lparr>Budget := b\<rparr>, good))"

section \<open>Key deduplication\<close>

text \<open>\<open>keyDedup.seen\<close>: the indices of the entries per hash of the encoded key.\<close>

type_synonym keyDedup = "u64 \<Rightarrow> nat list"

definition dedupThreshold :: nat where "dedupThreshold = 16"

definition fnv1a :: "bytes \<Rightarrow> u64" where
  "fnv1a b = foldl (\<lambda>h c. (h XOR ucast c) * 1099511628211) 14695981039346656037 b"

definition valuesEqual :: "Value \<Rightarrow> Value \<Rightarrow> bool" where
  "valuesEqual a b =
     (if Kind a \<noteq> Kind b then False
      else case Kind a of
        KindUint \<Rightarrow> UintVal a = UintVal b
      | KindNegInt \<Rightarrow> NegIntVal a = NegIntVal b
      | KindBytes \<Rightarrow> BytesVal a = BytesVal b
      | KindText \<Rightarrow> TextVal a = TextVal b
      | KindBool \<Rightarrow> BoolVal a = BoolVal b
      | KindNull \<Rightarrow> True
      | KindUndefined \<Rightarrow> True
      | KindSimple \<Rightarrow> SimpleVal a = SimpleVal b
      | KindFloat32 \<Rightarrow> f32_eq (Float32Val a) (Float32Val b)
      | KindFloat64 \<Rightarrow> f64_eq (Float64Val a) (Float64Val b)
      | _ \<Rightarrow> False)"

text \<open>The first index of the list whose entry has an equal key.\<close>

fun find_idx :: "MapEntry list \<Rightarrow> Value \<Rightarrow> nat list \<Rightarrow> nat option" where
  "find_idx m key [] = None"
| "find_idx m key (idx # idxs) =
     (if valuesEqual (Key (m ! idx)) key then Some idx else find_idx m key idxs)"

definition mapInsert ::
  "MapEntry list \<Rightarrow> Value \<Rightarrow> Value \<Rightarrow> nat \<Rightarrow> bytes \<Rightarrow> keyDedup option \<Rightarrow> DecodeOpts
     \<Rightarrow> fault + MapEntry list \<times> keyDedup option" where
  "mapInsert m key val keyOff encodedKey dedup opts =
     (if RejectDuplicateMapKeys opts then
        (case dedup of
           Some seen \<Rightarrow>
             let h = fnv1a encodedKey in
             (case find_idx m key (seen h) of
                Some idx \<Rightarrow> Inl (Err ErrDuplicateMapKey keyOff)
              | None \<Rightarrow> Inr (m @ [(key, val)], Some (seen(h := seen h @ [length m]))))
         | None \<Rightarrow>
             (case find_idx m key [0..<length m] of
                Some idx \<Rightarrow> Inl (Err ErrDuplicateMapKey keyOff)
              | None \<Rightarrow> Inr (m @ [(key, val)], None)))
      else
        (case dedup of
           Some seen \<Rightarrow>
             let h = fnv1a encodedKey in
             (case find_idx m key (seen h) of
                Some idx \<Rightarrow> Inr (m[idx := (Key (m ! idx), val)], Some seen)
              | None \<Rightarrow> Inr (m @ [(key, val)], Some (seen(h := seen h @ [length m]))))
         | None \<Rightarrow>
             (case find_idx m key [0..<length m] of
                Some idx \<Rightarrow> Inr (m[idx := (Key (m ! idx), val)], None)
              | None \<Rightarrow> Inr (m @ [(key, val)], None))))"

section \<open>Strings\<close>

text \<open>\<open>&src[start]\<close> panics when \<open>start\<close> is not an index, even for an empty string.\<close>

definition zeroCopyString :: "bytes \<Rightarrow> int \<Rightarrow> int \<Rightarrow> bytes option" where
  "zeroCopyString src a b =
     (if 0 \<le> a \<and> a < int (length src) then go_slice src a b else None)"

text \<open>\<open>string(src[start:end])\<close>, through the interner or as a view when configured.\<close>

definition internString :: "bytes \<Rightarrow> StringInterner \<Rightarrow> dstate \<Rightarrow> bytes \<times> dstate" where
  "internString raw si st = (let (s, si') = Intern raw si in (s, st\<lparr>Interner := Some si'\<rparr>))"

definition decodeIndefCheck :: "byte \<Rightarrow> bytes \<Rightarrow> nat \<Rightarrow> HeadResult \<Rightarrow> int \<Rightarrow> DecodeOpts \<Rightarrow> fault option"
  where
  "decodeIndefCheck major src off h buflen opts =
     (if HeadN h = 0 then Some (Err ErrTruncated off)
      else if Major h \<noteq> major \<or> AI h = AIIndefinite then Some (Err ErrTruncated off)
      else if AI h \<ge> 28 \<and> AI h \<le> 30 then Some (Err ErrReservedAI off)
      else if RejectNonShortest opts \<and> AI h \<ge> AI1Byte \<and> AI h \<le> AI8Bytes \<and> \<not> IsShortest h
        then Some (Err ErrNonShortest off)
      else if uint (HeadArg h) > maxBytes opts then Some (Err ErrMaxByteStringLength off)
      else if go_int (buflen + int_of_u64 (HeadArg h)) > maxBytes opts
        then Some (Err ErrMaxByteStringLength off)
      else None)"

text \<open>The chunks of an indefinite-length string up to the break code, whose offset is the
  second component.\<close>

function decodeIndefChunks :: "byte \<Rightarrow> bytes \<Rightarrow> nat \<Rightarrow> bytes \<Rightarrow> DecodeOpts \<Rightarrow> fault + bytes \<times> nat" where
  "decodeIndefChunks major src off buf opts =
     (if off \<ge> length src then Inl (Err ErrTruncated off)
      else if src ! off = BreakCode then Inr (buf, off)
      else
        let h = ParseHead (drop off src);
            start = off + HeadN h;
            end = go_int (int start + int_of_u64 (HeadArg h))
        in case decodeIndefCheck major src off h (int (length buf)) opts of
             Some f \<Rightarrow> Inl f
           | None \<Rightarrow>
               if end > int (length src) then Inl (Err ErrTruncated off)
               else case go_slice src (int start) end of
                 None \<Rightarrow> Inl Panic
               | Some chunk \<Rightarrow> decodeIndefChunks major src (nat end) (buf @ chunk) opts)"
  by pat_completeness auto
termination
  by (relation "measure (\<lambda>(major, src, off, buf, opts). length src - off)")
    (auto simp: decodeIndefCheck_def dest!: go_slice_SomeD split: if_splits)

declare decodeIndefChunks.simps [simp del]

definition decodeIndefiniteBytes :: "bytes \<Rightarrow> nat \<Rightarrow> DecodeOpts \<Rightarrow> dstate \<Rightarrow> Value dres" where
  "decodeIndefiniteBytes src off opts st =
     (case decodeIndefChunks MajorBytes src off [] opts of
        Inl f \<Rightarrow> (Inl f, st)
      | Inr (buf, off') \<Rightarrow> ok (Bytes buf) (off' + 1) st)"

definition decodeIndefiniteText :: "bytes \<Rightarrow> nat \<Rightarrow> DecodeOpts \<Rightarrow> dstate \<Rightarrow> Value dres" where
  "decodeIndefiniteText src off opts st =
     (case decodeIndefChunks MajorText src off [] opts of
        Inl f \<Rightarrow> (Inl f, st)
      | Inr (buf, off') \<Rightarrow>
          if RejectInvalidUTF8 opts \<and> \<not> utf8_Valid buf then err ErrInvalidUTF8 off' st
          else ok (Text buf) (off' + 1) st)"

definition decodeBytes :: "bytes \<Rightarrow> nat \<Rightarrow> HeadResult \<Rightarrow> DecodeOpts \<Rightarrow> dstate \<Rightarrow> Value dres" where
  "decodeBytes src off h opts st =
     (if AI h = AIIndefinite then
        (if RejectIndefiniteLength opts then err ErrIndefiniteLength off st
         else decodeIndefiniteBytes src (off + HeadN h) opts st)
      else if uint (HeadArg h) > maxBytes opts then err ErrMaxByteStringLength off st
      else
        let len = int_of_u64 (HeadArg h);
            start = int (off + HeadN h);
            end = go_int (start + len)
        in if end > int (length src) then err ErrTruncated off st
           else let (st', good) = charge_st len st
           in if \<not> good then err ErrMemoryBudgetExceeded off st'
           else case go_slice src start end of
             None \<Rightarrow> (Inl Panic, st')
           | Some b \<Rightarrow> ok (Bytes b) (nat end) st')"

definition decodeText :: "bytes \<Rightarrow> nat \<Rightarrow> HeadResult \<Rightarrow> DecodeOpts \<Rightarrow> dstate \<Rightarrow> Value dres" where
  "decodeText src off h opts st =
     (if AI h = AIIndefinite then
        (if RejectIndefiniteLength opts then err ErrIndefiniteLength off st
         else decodeIndefiniteText src (off + HeadN h) opts st)
      else if uint (HeadArg h) > maxBytes opts then err ErrMaxByteStringLength off st
      else
        let len = int_of_u64 (HeadArg h);
            start = int (off + HeadN h);
            end = go_int (start + len)
        in if end > int (length src) then err ErrTruncated off st
           else if RejectInvalidUTF8 opts \<and> go_slice src start end = None then (Inl Panic, st)
           else if RejectInvalidUTF8 opts \<and> \<not> utf8_Valid (the (go_slice src start end))
             then err ErrInvalidUTF8 off st
           else let (st', good) = charge_st len st
           in if \<not> good then err ErrMemoryBudgetExceeded off st'
           else if ZeroCopy opts then
             (case zeroCopyString src start end of
                None \<Rightarrow> (Inl Panic, st')
              | Some s \<Rightarrow> ok (Text s) (nat end) st')
           else
             (case go_slice src start end of
                None \<Rightarrow> (Inl Panic, st')
              | Some raw \<Rightarrow>
                  (case Interner st' of
                     Some si \<Rightarrow>
                       let (s, st'') = internString raw si st' in ok (Text s) (nat end) st''
                   | None \<Rightarrow> ok (Text raw) (nat end) st')))"

section \<open>Simple values and floats\<close>

definition decodeOther :: "nat \<Rightarrow> HeadResult \<Rightarrow> DecodeOpts \<Rightarrow> dstate \<Rightarrow> Value dres" where
  "decodeOther off h opts st =
     (let ai = AI h; next = off + HeadN h in
      if ai < 20 then ok (Simple ai) next st
      else if ai = 20 then ok (Bool False) next st
      else if ai = 21 then ok (Bool True) next st
      else if ai = 22 then ok Null next st
      else if ai = 23 then ok Undefined next st
      else if ai = AI1Byte then
        (let sv = ucast (HeadArg h) :: byte in
         if sv < 32 then err ErrNonShortest off st else ok (Simple sv) next st)
      else if ai = AI2Bytes then
        (let f = DecodeFloat16 (ucast (HeadArg h)) in
         if RejectNonFiniteFloats opts \<and> (f64_IsNaN f \<or> f64_IsInf f) then err ErrNonFiniteFloat off st
         else ok (Float64 f) next st)
      else if ai = AI4Bytes then
        (let f = ucast (HeadArg h) :: u32; g = f32_to_f64 f in
         if RejectNonFiniteFloats opts \<and> (f64_IsNaN g \<or> f64_IsInf g) then err ErrNonFiniteFloat off st
         else ok (Float32 f) next st)
      else if ai = AI8Bytes then
        (let f = HeadArg h in
         if RejectNonFiniteFloats opts \<and> (f64_IsNaN f \<or> f64_IsInf f) then err ErrNonFiniteFloat off st
         else ok (Float64 f) next st)
      else if ai = AIIndefinite then err ErrTruncated off st
      else err ErrReservedAI off st)"

section \<open>Tags\<close>

definition knownTags :: "u64 \<Rightarrow> bool" where
  "knownTags tagID \<longleftrightarrow> tagID = 55799"

definition decodeTag ::
  "decoder \<Rightarrow> nat \<Rightarrow> HeadResult \<Rightarrow> nat \<Rightarrow> DecodeOpts \<Rightarrow> bool \<Rightarrow> dstate \<Rightarrow> Value dres" where
  "decodeTag dec off h depth opts strip st =
     (let tagID = HeadArg h; pos = off + HeadN h in
      if RejectUnknownTags opts \<and> \<not> knownTags tagID then err ErrUnknownTag off st
      else if tagID = 55799 \<and> strip then dec pos depth True st
      else if int (depth + 1) > maxNesting opts then err ErrMaxNestingDepth off st
      else case dec pos (depth + 1) False st of
        (Inl f, st') \<Rightarrow> (Inl f, st')
      | (Inr (inner, next), st') \<Rightarrow> ok (MakeTag tagID inner) next st')"

section \<open>Arrays\<close>

text \<open>An integer element of the inlined fast path of \<open>decodeArray\<close>.\<close>

definition arrayInt :: "byte \<Rightarrow> u64 \<Rightarrow> nat \<Rightarrow> nat \<Rightarrow> dstate \<Rightarrow> Value dres" where
  "arrayInt ib arg n pos st = ok (if ib < 0x20 then Uint arg else NegInt arg) (pos + n) st"

definition arrayIntElem ::
  "decoder \<Rightarrow> bytes \<Rightarrow> DecodeOpts \<Rightarrow> nat \<Rightarrow> nat \<Rightarrow> dstate \<Rightarrow> Value dres" where
  "arrayIntElem dec src opts childDepth pos st =
     (let ib = src ! pos; ai = ib AND 0x1f; srcLen = length src;
          srcAt = (\<lambda>i. ucast (src ! (pos + i)) :: u64) in
      if ai < 24 then arrayInt ib (ucast ai) 1 pos st
      else if ai = 24 then
        (if pos + 1 \<ge> srcLen then err ErrTruncated pos st
         else let arg = srcAt 1 in
         if RejectNonShortest opts \<and> arg < 24 then err ErrNonShortest pos st
         else arrayInt ib arg 2 pos st)
      else if ai = 25 then
        (if pos + 2 \<ge> srcLen then err ErrTruncated pos st
         else let arg = push_bit 8 (srcAt 1) OR srcAt 2 in
         if RejectNonShortest opts \<and> arg \<le> 0xff then err ErrNonShortest pos st
         else arrayInt ib arg 3 pos st)
      else if ai = 26 then
        (if pos + 4 \<ge> srcLen then err ErrTruncated pos st
         else let arg = push_bit 24 (srcAt 1) OR push_bit 16 (srcAt 2) OR push_bit 8 (srcAt 3) OR srcAt 4 in
         if RejectNonShortest opts \<and> arg \<le> 0xffff then err ErrNonShortest pos st
         else arrayInt ib arg 5 pos st)
      else if ai = 27 then
        (if pos + 8 \<ge> srcLen then err ErrTruncated pos st
         else let arg = push_bit 56 (srcAt 1) OR push_bit 48 (srcAt 2) OR push_bit 40 (srcAt 3)
                 OR push_bit 32 (srcAt 4) OR push_bit 24 (srcAt 5) OR push_bit 16 (srcAt 6)
                 OR push_bit 8 (srcAt 7) OR srcAt 8 in
         if RejectNonShortest opts \<and> arg \<le> 0xffffffff then err ErrNonShortest pos st
         else arrayInt ib arg 9 pos st)
      else if ai \<ge> 28 \<and> ai \<le> 30 then err ErrReservedAI pos st
      else dec pos childDepth False st)"

text \<open>The short text \<open>src[pos+1:end]\<close> of the fast paths of \<open>decodeArray\<close> and \<open>decodeMap\<close>, where
  \<open>end\<close> is within the input.\<close>

definition shortText :: "bytes \<Rightarrow> nat \<Rightarrow> nat \<Rightarrow> DecodeOpts \<Rightarrow> dstate \<Rightarrow> Value dres" where
  "shortText src pos end opts st =
     (let raw = take (end - (pos + 1)) (drop (pos + 1) src) in
      if RejectInvalidUTF8 opts \<and> \<not> utf8_Valid raw then err ErrInvalidUTF8 pos st
      else case Interner st of
        Some si \<Rightarrow> let (s, st') = internString raw si st in ok (Text s) end st'
      | None \<Rightarrow>
          if ZeroCopy opts then
            (case zeroCopyString src (int (pos + 1)) (int end) of
               None \<Rightarrow> (Inl Panic, st)
             | Some s \<Rightarrow> ok (Text s) end st)
          else ok (Text raw) end st)"

definition decodeArrayElem ::
  "decoder \<Rightarrow> bytes \<Rightarrow> DecodeOpts \<Rightarrow> nat \<Rightarrow> nat \<Rightarrow> dstate \<Rightarrow> Value dres" where
  "decodeArrayElem dec src opts childDepth pos st =
     (if pos \<ge> length src then err ErrTruncated pos st
      else
        let ib = src ! pos; end = pos + 1 + unat (ib AND 0x1f) in
        if ib < 0x40 then arrayIntElem dec src opts childDepth pos st
        else if ib AND 0xe0 = 0x60 \<and> ib AND 0x1f < 24 \<and> end \<le> length src
          then shortText src pos end opts st
        else if ib AND 0xe0 = 0x40 \<and> ib AND 0x1f < 24 \<and> end \<le> length src
          then ok (Bytes (take (end - (pos + 1)) (drop (pos + 1) src))) end st
        else if ib = SimpleTrue then ok (Bool True) (pos + 1) st
        else if ib = SimpleFalse then ok (Bool False) (pos + 1) st
        else if ib = SimpleNull then ok Null (pos + 1) st
        else if ib = SimpleUndefined then ok Undefined (pos + 1) st
        else dec pos childDepth False st)"

fun decodeArrayLoop ::
  "decoder \<Rightarrow> bytes \<Rightarrow> DecodeOpts \<Rightarrow> nat \<Rightarrow> nat \<Rightarrow> nat \<Rightarrow> Value list \<Rightarrow> dstate \<Rightarrow> Value dres" where
  "decodeArrayLoop dec src opts childDepth 0 pos arr st = ok (MakeArray arr) pos st"
| "decodeArrayLoop dec src opts childDepth (Suc k) pos arr st =
     (case decodeArrayElem dec src opts childDepth pos st of
        (Inl f, st') \<Rightarrow> (Inl f, st')
      | (Inr (v, next), st') \<Rightarrow> decodeArrayLoop dec src opts childDepth k next (arr @ [v]) st')"

fun decodeIndefArrayLoop ::
  "nat \<Rightarrow> decoder \<Rightarrow> bytes \<Rightarrow> DecodeOpts \<Rightarrow> nat \<Rightarrow> nat \<Rightarrow> Value list \<Rightarrow> dstate \<Rightarrow> Value dres" where
  "decodeIndefArrayLoop 0 dec src opts depth pos arr st = (Inl OutOfFuel, st)"
| "decodeIndefArrayLoop (Suc fuel) dec src opts depth pos arr st =
     (if pos \<ge> length src then err ErrTruncated pos st
      else if src ! pos = BreakCode then ok (MakeArray arr) (pos + 1) st
      else if int (length arr) \<ge> maxArray opts then err ErrMaxArrayLength pos st
      else case dec pos (depth + 1) False st of
        (Inl f, st') \<Rightarrow> (Inl f, st')
      | (Inr (v, next), st') \<Rightarrow> decodeIndefArrayLoop fuel dec src opts depth next (arr @ [v]) st')"

definition decodeIndefiniteArray ::
  "decoder \<Rightarrow> bytes \<Rightarrow> nat \<Rightarrow> nat \<Rightarrow> DecodeOpts \<Rightarrow> dstate \<Rightarrow> Value dres" where
  "decodeIndefiniteArray dec src off depth opts st =
     (if int (depth + 1) > maxNesting opts then err ErrMaxNestingDepth off st
      else decodeIndefArrayLoop (Suc (length src)) dec src opts depth off [] st)"

definition allocValues :: "nat \<Rightarrow> dstate \<Rightarrow> dstate" where
  "allocValues n st =
     (case ArenaOf st of None \<Rightarrow> st | Some a \<Rightarrow> st\<lparr>ArenaOf := Some (snd (AllocValues n a))\<rparr>)"

definition allocPairs :: "nat \<Rightarrow> dstate \<Rightarrow> dstate" where
  "allocPairs n st =
     (case ArenaOf st of None \<Rightarrow> st | Some a \<Rightarrow> st\<lparr>ArenaOf := Some (snd (AllocPairs n a))\<rparr>)"

definition decodeArray ::
  "decoder \<Rightarrow> bytes \<Rightarrow> nat \<Rightarrow> HeadResult \<Rightarrow> nat \<Rightarrow> DecodeOpts \<Rightarrow> dstate \<Rightarrow> Value dres" where
  "decodeArray dec src off h depth opts st =
     (if AI h = AIIndefinite then
        (if RejectIndefiniteLength opts then err ErrIndefiniteLength off st
         else decodeIndefiniteArray dec src (off + HeadN h) depth opts st)
      else
        let count = int_of_u64 (HeadArg h) in
        if uint (HeadArg h) > maxArray opts \<or> count < 0 then err ErrMaxArrayLength off st
        else let (st', good) = charge_st (go_int (count * 16)) st in
        if \<not> good then err ErrMemoryBudgetExceeded off st'
        else
          let st'' = allocValues (nat count) st'; pos = off + HeadN h; childDepth = depth + 1 in
          if int childDepth > maxNesting opts then err ErrMaxNestingDepth pos st''
          else if count = 0 then ok (MakeArray []) pos st''
          else decodeArrayLoop dec src opts childDepth (nat count) pos [] st'')"

section \<open>Maps\<close>

text \<open>One key: the inlined fast path for a short text, or any item.\<close>

definition decodeMapKey ::
  "decoder \<Rightarrow> bytes \<Rightarrow> DecodeOpts \<Rightarrow> nat \<Rightarrow> nat \<Rightarrow> dstate \<Rightarrow> Value dres" where
  "decodeMapKey dec src opts depth pos st =
     (if pos < length src \<and> src ! pos AND 0xe0 = 0x60 \<and> src ! pos AND 0x1f < 24
          \<and> pos + 1 + unat (src ! pos AND 0x1f) \<le> length src
      then shortText src pos (pos + 1 + unat (src ! pos AND 0x1f)) opts st
      else dec pos (depth + 1) False st)"

text \<open>The rest of one entry, once its key is known: the null check, the value, the
  insertion.\<close>

definition decodeMapRest ::
  "decoder \<Rightarrow> bytes \<Rightarrow> DecodeOpts \<Rightarrow> nat \<Rightarrow> nat \<Rightarrow> Value \<Rightarrow> nat \<Rightarrow> MapEntry list \<Rightarrow> keyDedup option
     \<Rightarrow> dstate \<Rightarrow> (MapEntry list \<times> keyDedup option) dres" where
  "decodeMapRest dec src opts depth keyOff k pos m dedup st =
     (if RejectNullMapKeys opts \<and> Kind k = KindNull then err ErrNullMapKey keyOff st
      else case dec pos (depth + 1) False st of
        (Inl f, st') \<Rightarrow> (Inl f, st')
      | (Inr (v, next), st') \<Rightarrow>
          (case mapInsert m k v keyOff (take (pos - keyOff) (drop keyOff src)) dedup opts of
             Inl f \<Rightarrow> (Inl f, st')
           | Inr md \<Rightarrow> ok md next st'))"

fun decodeMapLoop ::
  "decoder \<Rightarrow> bytes \<Rightarrow> DecodeOpts \<Rightarrow> nat \<Rightarrow> nat \<Rightarrow> nat \<Rightarrow> MapEntry list \<Rightarrow> keyDedup option \<Rightarrow> dstate
     \<Rightarrow> Value dres" where
  "decodeMapLoop dec src opts depth 0 pos m dedup st = ok (MakeMap m) pos st"
| "decodeMapLoop dec src opts depth (Suc c) pos m dedup st =
     (case decodeMapKey dec src opts depth pos st of
        (Inl f, st') \<Rightarrow> (Inl f, st')
      | (Inr (k, kend), st') \<Rightarrow>
          (case decodeMapRest dec src opts depth pos k kend m dedup st' of
             (Inl f, st'') \<Rightarrow> (Inl f, st'')
           | (Inr ((m', dedup'), next), st'') \<Rightarrow>
               decodeMapLoop dec src opts depth c next m' dedup' st''))"

fun decodeIndefMapLoop ::
  "nat \<Rightarrow> decoder \<Rightarrow> bytes \<Rightarrow> DecodeOpts \<Rightarrow> nat \<Rightarrow> nat \<Rightarrow> MapEntry list \<Rightarrow> dstate \<Rightarrow> Value dres" where
  "decodeIndefMapLoop 0 dec src opts depth pos m st = (Inl OutOfFuel, st)"
| "decodeIndefMapLoop (Suc fuel) dec src opts depth pos m st =
     (if pos \<ge> length src then err ErrTruncated pos st
      else if src ! pos = BreakCode then ok (MakeMap m) (pos + 1) st
      else if int (length m) \<ge> maxArray opts then err ErrMaxArrayLength pos st
      else case dec pos (depth + 1) False st of
        (Inl f, st') \<Rightarrow> (Inl f, st')
      | (Inr (k, kend), st') \<Rightarrow>
          (case decodeMapRest dec src opts depth pos k kend m None st' of
             (Inl f, st'') \<Rightarrow> (Inl f, st'')
           | (Inr ((m', dedup'), next), st'') \<Rightarrow>
               decodeIndefMapLoop fuel dec src opts depth next m' st''))"

definition decodeIndefiniteMap ::
  "decoder \<Rightarrow> bytes \<Rightarrow> nat \<Rightarrow> nat \<Rightarrow> DecodeOpts \<Rightarrow> dstate \<Rightarrow> Value dres" where
  "decodeIndefiniteMap dec src off depth opts st =
     (if int (depth + 1) > maxNesting opts then err ErrMaxNestingDepth off st
      else decodeIndefMapLoop (Suc (length src)) dec src opts depth off [] st)"

definition decodeMap ::
  "decoder \<Rightarrow> bytes \<Rightarrow> nat \<Rightarrow> HeadResult \<Rightarrow> nat \<Rightarrow> DecodeOpts \<Rightarrow> dstate \<Rightarrow> Value dres" where
  "decodeMap dec src off h depth opts st =
     (if AI h = AIIndefinite then
        (if RejectIndefiniteLength opts then err ErrIndefiniteLength off st
         else decodeIndefiniteMap dec src (off + HeadN h) depth opts st)
      else
        let count = int_of_u64 (HeadArg h) in
        if uint (HeadArg h) > maxArray opts \<or> count < 0 then err ErrMaxArrayLength off st
        else if int (depth + 1) > maxNesting opts then err ErrMaxNestingDepth off st
        else
          let dedup = (if count > int dedupThreshold then Some (\<lambda>_. []) else None);
              (st', good) = charge_st (go_int (count * 32)) st in
          if \<not> good then err ErrMemoryBudgetExceeded off st'
          else decodeMapLoop dec src opts depth (nat count) (off + HeadN h) [] dedup
                 (allocPairs (nat count) st'))"

section \<open>The decoder\<close>

definition decodeValueBody ::
  "decoder \<Rightarrow> bytes \<Rightarrow> DecodeOpts \<Rightarrow> decoder" where
  "decodeValueBody dec src opts off depth strip st =
     (if off \<ge> length src then err ErrTruncated off st
      else
        let h = ParseHead (drop off src) in
        if HeadN h = 0 then err ErrTruncated off st
        else if AI h \<ge> 28 \<and> AI h \<le> 30 then err ErrReservedAI off st
        else if RejectNonShortest opts \<and> AI h \<ge> AI1Byte \<and> AI h \<le> AI8Bytes \<and> \<not> IsShortest h
          then err ErrNonShortest off st
        else if Major h = MajorUint then ok (Uint (HeadArg h)) (off + HeadN h) st
        else if Major h = MajorNegInt then ok (NegInt (HeadArg h)) (off + HeadN h) st
        else if Major h = MajorBytes then decodeBytes src off h opts st
        else if Major h = MajorText then decodeText src off h opts st
        else if Major h = MajorArray then decodeArray dec src off h depth opts st
        else if Major h = MajorMap then decodeMap dec src off h depth opts st
        else if Major h = MajorTag then decodeTag dec off h depth opts strip st
        else if Major h = MajorOther then decodeOther off h opts st
        else err ErrTruncated off st)"

fun decodeValue :: "nat \<Rightarrow> bytes \<Rightarrow> DecodeOpts \<Rightarrow> decoder" where
  "decodeValue 0 src opts off depth strip st = (Inl OutOfFuel, st)"
| "decodeValue (Suc fuel) src opts off depth strip st =
     decodeValueBody (decodeValue fuel src opts) src opts off depth strip st"

definition Decode :: "bytes \<Rightarrow> DecodeOpts \<Rightarrow> dstate \<Rightarrow> Value dres" where
  "Decode src opts st = decodeValue (Suc (length src)) src opts 0 0 True st"

text \<open>The state with all pointers nil.\<close>

definition NilState :: dstate where
  "NilState = \<lparr>Budget = None, Interner = None, ArenaOf = None\<rparr>"

end
