(* ===== verification/Decode_Safety.thy ===== *)
theory Decode_Safety
  imports Decode
begin

text \<open>
  Progress, totality and absence of panics of the decoder. The interface between a container
  decoder and the recursive decoder it is given is the locale \<open>item_decoder\<close>: a successful
  decode consumes at least one byte and stays within the input. Its extensions add what
  totality and the absence of panics need. Each is interpreted on \<open>decodeValue\<close>.
\<close>

named_theorems res_simps \<open>results of the decoder\<close>

lemmas [res_simps] = err_def ok_def

lemma charge_st_frame:
  "Interner (fst (charge_st n st)) = Interner st" "ArenaOf (fst (charge_st n st)) = ArenaOf st"
  by (simp_all add: charge_st_def split_beta)

lemma allocs_frame:
  "Interner (allocValues n st) = Interner st" "Interner (allocPairs n st) = Interner st"
  "Budget (allocValues n st) = Budget st" "Budget (allocPairs n st) = Budget st"
  by (simp_all add: allocValues_def allocPairs_def split: option.splits)

lemma head_at:
  assumes "HeadN (ParseHead (drop off src)) \<noteq> 0"
  shows "off + HeadN (ParseHead (drop off src)) \<le> length src" and "off < length src"
proof -
  show "off < length src"
    using assms by (rule contrapos_np) (simp add: ParseHead_def HeadZero_def)
  then show "off + HeadN (ParseHead (drop off src)) \<le> length src"
    using ParseHead_le [of "drop off src"] by simp
qed

lemma go_slice_end:
  "go_slice s (int a) b = Some t \<Longrightarrow> a \<le> nat b \<and> nat b \<le> length s \<and> t = take (nat b - a) (drop a s)"
  by (auto dest!: go_slice_SomeD simp: nat_diff_distrib')

declare decodeIndefArrayLoop.simps [simp del] decodeIndefMapLoop.simps [simp del]

section \<open>Progress\<close>

lemma decodeIndefCheck_None:
  "decodeIndefCheck major src off h n opts = None \<Longrightarrow>
    0 < HeadN h \<and> Major h = major \<and> AI h \<noteq> AIIndefinite \<and> \<not> (AI h \<ge> 28 \<and> AI h \<le> 30)
    \<and> (RejectNonShortest opts \<and> AI h \<ge> AI1Byte \<and> AI h \<le> AI8Bytes \<longrightarrow> IsShortest h)
    \<and> uint (HeadArg h) \<le> maxBytes opts \<and> go_int (n + int_of_u64 (HeadArg h)) \<le> maxBytes opts"
  by (auto simp: decodeIndefCheck_def not_less split: if_splits)

text \<open>A successful run either stands at the break code or reads one chunk.\<close>

lemma decodeIndefChunks_Inr:
  assumes "decodeIndefChunks major src off buf opts = Inr r"
  obtains (brk) "off < length src" "src ! off = BreakCode" "r = (buf, off)"
  | (chunk) h n where "h = ParseHead (drop off src)" "off < length src" "src ! off \<noteq> BreakCode"
      "decodeIndefCheck major src off h (int (length buf)) opts = None"
      "off + HeadN h \<le> n" "n \<le> length src"
      "int n = go_int (int (off + HeadN h) + int_of_u64 (HeadArg h))"
      "decodeIndefChunks major src n (buf @ take (n - (off + HeadN h)) (drop (off + HeadN h) src)) opts
        = Inr r"
proof (cases "off < length src \<and> src ! off \<noteq> BreakCode")
  case False
  with assms brk show ?thesis
    by (subst (asm) decodeIndefChunks.simps) (auto split: if_splits)
next
  case True
  define h where "h = ParseHead (drop off src)"
  define e where "e = go_int (int (off + HeadN h) + int_of_u64 (HeadArg h))"
  have none: "decodeIndefCheck major src off h (int (length buf)) opts = None"
    and "\<exists>c. go_slice src (int (off + HeadN h)) e = Some c
           \<and> decodeIndefChunks major src (nat e) (buf @ c) opts = Inr r"
    using assms True
    by (subst (asm) decodeIndefChunks.simps,
        auto simp: Let_def h_def e_def split: if_splits option.splits)+
  then obtain c where c: "go_slice src (int (off + HeadN h)) e = Some c"
    and rest: "decodeIndefChunks major src (nat e) (buf @ c) opts = Inr r" by blast
  from go_slice_end [OF c] go_slice_SomeD [OF c]
  have e: "off + HeadN h \<le> nat e" "nat e \<le> length src" "0 \<le> e"
    and "c = take (nat e - (off + HeadN h)) (drop (off + HeadN h) src)"
    by linarith+
  with rest show ?thesis
    using True none by (intro chunk [of h "nat e"]) (simp_all add: h_def e_def)
qed

lemma decodeIndefChunks_progress:
  "decodeIndefChunks major src off buf opts = Inr (b, off') \<Longrightarrow> off \<le> off' \<and> off' < length src"
proof (induction "length src - off" arbitrary: off buf rule: less_induct)
  case less
  from less.prems show ?case
  proof (cases rule: decodeIndefChunks_Inr)
    case brk
    then show ?thesis by simp
  next
    case (chunk h n)
    moreover from this have "0 < HeadN h"
      using decodeIndefCheck_None by blast
    ultimately show ?thesis
      using less.hyps [of n] by fastforce
  qed
qed

lemma decodeBytes_progress:
  "HeadN h > 0 \<Longrightarrow> off + HeadN h \<le> length src \<Longrightarrow> decodeBytes src off h opts st = (Inr (v, next), st')
    \<Longrightarrow> off < next \<and> next \<le> length src"
  by (auto simp: decodeBytes_def decodeIndefiniteBytes_def res_simps Let_def
      split: if_splits sum.splits prod.splits option.splits
      dest!: decodeIndefChunks_progress go_slice_SomeD)

lemma zeroCopyString_Some: "zeroCopyString src a b = Some s \<Longrightarrow> go_slice src a b = Some s"
  by (auto simp: zeroCopyString_def split: if_splits)

lemma decodeText_progress:
  "HeadN h > 0 \<Longrightarrow> off + HeadN h \<le> length src \<Longrightarrow> decodeText src off h opts st = (Inr (v, next), st')
    \<Longrightarrow> off < next \<and> next \<le> length src"
  by (auto simp: decodeText_def decodeIndefiniteText_def res_simps Let_def
      split: if_splits sum.splits prod.splits option.splits
      dest!: decodeIndefChunks_progress zeroCopyString_Some go_slice_SomeD)

lemma decodeOther_progress:
  "HeadN h > 0 \<Longrightarrow> off + HeadN h \<le> length src \<Longrightarrow> decodeOther off h opts st = (Inr (v, next), st')
    \<Longrightarrow> off < next \<and> next \<le> length src"
  by (auto simp: decodeOther_def res_simps Let_def split: if_splits)

lemma shortText_next:
  "shortText src pos end opts st = (Inr (v, next), st') \<Longrightarrow> next = end"
  by (auto simp: shortText_def res_simps Let_def split: if_splits option.splits prod.splits)

locale item_decoder =
  fixes dec :: decoder and src :: bytes and opts :: DecodeOpts
  assumes dec_progress: "dec off depth strip st = (Inr (v, next), st') \<Longrightarrow> off < next \<and> next \<le> length src"
begin

lemma arrayIntElem_progress:
  "pos < length src \<Longrightarrow> arrayIntElem dec src opts cd pos st = (Inr (v, next), st')
    \<Longrightarrow> pos < next \<and> next \<le> length src"
  by (auto simp: arrayIntElem_def arrayInt_def res_simps Let_def split: if_splits dest!: dec_progress)

lemma decodeArrayElem_progress:
  "decodeArrayElem dec src opts cd pos st = (Inr (v, next), st')
    \<Longrightarrow> pos < next \<and> next \<le> length src"
  by (auto simp: decodeArrayElem_def res_simps Let_def split: if_splits
      dest!: dec_progress shortText_next arrayIntElem_progress [rotated])

lemma decodeArrayLoop_progress:
  "pos \<le> length src \<Longrightarrow> decodeArrayLoop dec src opts cd k pos arr st = (Inr (v, next), st')
    \<Longrightarrow> pos \<le> next \<and> next \<le> length src"
proof (induction k arbitrary: pos arr st)
  case 0
  then show ?case by (simp add: res_simps)
next
  case (Suc k)
  then show ?case
    by (fastforce split: prod.splits sum.splits dest!: decodeArrayElem_progress)
qed

lemma decodeIndefArrayLoop_progress:
  "decodeIndefArrayLoop fuel dec src opts depth pos arr st = (Inr (v, next), st')
    \<Longrightarrow> pos < next \<and> next \<le> length src"
proof (induction fuel arbitrary: pos arr st)
  case 0
  then show ?case by (simp add: decodeIndefArrayLoop.simps)
next
  case (Suc fuel)
  then show ?case
    by (fastforce simp: decodeIndefArrayLoop.simps res_simps split: if_splits prod.splits sum.splits dest!: dec_progress)
qed

lemma decodeArray_progress:
  "HeadN h > 0 \<Longrightarrow> off + HeadN h \<le> length src \<Longrightarrow>
    decodeArray dec src off h depth opts st = (Inr (v, next), st') \<Longrightarrow> off < next \<and> next \<le> length src"
  by (auto simp: decodeArray_def decodeIndefiniteArray_def res_simps Let_def
      split: if_splits prod.splits
      dest!: decodeArrayLoop_progress [rotated] decodeIndefArrayLoop_progress)

lemma decodeMapKey_progress:
  "decodeMapKey dec src opts depth pos st = (Inr (v, next), st')
    \<Longrightarrow> pos < next \<and> next \<le> length src"
  by (auto simp: decodeMapKey_def split: if_splits dest!: dec_progress shortText_next)

lemma decodeMapRest_progress:
  "decodeMapRest dec src opts depth keyOff k pos m dedup st = (Inr (v, next), st')
    \<Longrightarrow> pos < next \<and> next \<le> length src"
  by (auto simp: decodeMapRest_def res_simps split: if_splits prod.splits sum.splits dest!: dec_progress)

lemma decodeMapLoop_progress:
  "pos \<le> length src \<Longrightarrow> decodeMapLoop dec src opts depth c pos m dedup st = (Inr (v, next), st')
    \<Longrightarrow> pos \<le> next \<and> next \<le> length src"
proof (induction c arbitrary: pos m dedup st)
  case 0
  then show ?case by (simp add: res_simps)
next
  case (Suc c)
  then show ?case
    by (fastforce split: prod.splits sum.splits dest!: decodeMapKey_progress decodeMapRest_progress)
qed

lemma decodeIndefMapLoop_progress:
  "decodeIndefMapLoop fuel dec src opts depth pos m st = (Inr (v, next), st')
    \<Longrightarrow> pos < next \<and> next \<le> length src"
proof (induction fuel arbitrary: pos m st)
  case 0
  then show ?case by (simp add: decodeIndefMapLoop.simps)
next
  case (Suc fuel)
  then show ?case
    by (fastforce simp: decodeIndefMapLoop.simps res_simps split: if_splits prod.splits sum.splits
        dest!: dec_progress decodeMapRest_progress)
qed

lemma decodeMap_progress:
  "HeadN h > 0 \<Longrightarrow> off + HeadN h \<le> length src \<Longrightarrow>
    decodeMap dec src off h depth opts st = (Inr (v, next), st') \<Longrightarrow> off < next \<and> next \<le> length src"
  by (auto simp: decodeMap_def decodeIndefiniteMap_def res_simps Let_def
      split: if_splits prod.splits
      dest!: decodeMapLoop_progress [rotated] decodeIndefMapLoop_progress)

lemma decodeTag_progress:
  "HeadN h > 0 \<Longrightarrow> decodeTag dec off h depth opts strip st = (Inr (v, next), st')
    \<Longrightarrow> off < next \<and> next \<le> length src"
  by (auto simp: decodeTag_def res_simps Let_def split: if_splits prod.splits sum.splits
      dest!: dec_progress)

lemma decodeValueBody_progress:
  assumes "decodeValueBody dec src opts off depth strip st = (Inr (v, next), st')"
  shows "off < next \<and> next \<le> length src"
proof -
  let ?h = "ParseHead (drop off src)"
  have n: "HeadN ?h \<noteq> 0"
    using assms by (auto simp: decodeValueBody_def Let_def res_simps split: if_splits)
  note h = n head_at [OF n]
  show ?thesis
    using assms h
    by (auto simp: decodeValueBody_def Let_def res_simps split: if_splits
        dest!: decodeBytes_progress [rotated 2] decodeText_progress [rotated 2]
          decodeArray_progress [rotated 2] decodeMap_progress [rotated 2]
          decodeTag_progress [rotated] decodeOther_progress [rotated 2])
qed

end

lemma decodeValue_progress:
  "decodeValue fuel src opts off depth strip st = (Inr (v, next), st')
    \<Longrightarrow> off < next \<and> next \<le> length src"
proof (induction fuel arbitrary: off depth strip st v "next" st')
  case 0
  then show ?case by simp
next
  case (Suc fuel)
  then have "item_decoder (decodeValue fuel src opts) src"
    by unfold_locales blast
  then show ?case
    using Suc.prems item_decoder.decodeValueBody_progress by simp
qed

interpretation dv: item_decoder "decodeValue fuel src opts" src opts for fuel src opts
  by unfold_locales (rule decodeValue_progress)

section \<open>Enough fuel\<close>

text \<open>A decoder that does not run out of fuel where less than \<open>bound\<close> bytes are left.\<close>

lemma decodeIndefChunks_fuel: "decodeIndefChunks major src off buf opts \<noteq> Inl OutOfFuel"
proof (induction major src off buf opts rule: decodeIndefChunks.induct)
  case (1 major src off buf opts)
  then show ?case
    by (subst decodeIndefChunks.simps)
      (auto simp: Let_def decodeIndefCheck_def split: if_splits option.splits)
qed

lemma decodeBytes_fuel: "decodeBytes src off h opts st = (Inl f, st') \<Longrightarrow> f \<noteq> OutOfFuel"
  by (auto simp: decodeBytes_def decodeIndefiniteBytes_def res_simps Let_def decodeIndefChunks_fuel
      split: if_splits sum.splits prod.splits option.splits)

lemma decodeText_fuel: "decodeText src off h opts st = (Inl f, st') \<Longrightarrow> f \<noteq> OutOfFuel"
  by (auto simp: decodeText_def decodeIndefiniteText_def res_simps Let_def decodeIndefChunks_fuel
      split: if_splits sum.splits prod.splits option.splits)

lemma decodeOther_fuel: "decodeOther off h opts st = (Inl f, st') \<Longrightarrow> f \<noteq> OutOfFuel"
  by (auto simp: decodeOther_def res_simps Let_def split: if_splits)

locale fuelled_decoder = item_decoder +
  fixes bound :: nat
  assumes dec_fuel: "length src - off < bound \<Longrightarrow> fst (dec off depth strip st) \<noteq> Inl OutOfFuel"
begin

lemma dec_fuel': "dec off depth strip st = (Inl f, st') \<Longrightarrow> length src - off < bound \<Longrightarrow> f \<noteq> OutOfFuel"
  using dec_fuel [of off depth strip st] by auto

lemma decodeArrayElem_fuel:
  "decodeArrayElem dec src opts cd pos st = (Inl f, st') \<Longrightarrow> length src - pos < bound \<Longrightarrow> f \<noteq> OutOfFuel"
  by (auto simp: decodeArrayElem_def arrayIntElem_def arrayInt_def shortText_def res_simps Let_def
      split: if_splits option.splits prod.splits dest!: dec_fuel')

lemma decodeArrayLoop_fuel:
  "decodeArrayLoop dec src opts cd k pos arr st = (Inl f, st') \<Longrightarrow> length src - pos < bound
    \<Longrightarrow> f \<noteq> OutOfFuel"
proof (induction k arbitrary: pos arr st)
  case 0
  then show ?case by (simp add: res_simps)
next
  case (Suc k)
  show ?case
  proof (cases "decodeArrayElem dec src opts cd pos st")
    case (Pair r st1)
    show ?thesis
    proof (cases r)
      case (Inl g)
      with Pair Suc.prems decodeArrayElem_fuel [of cd pos st] show ?thesis by simp
    next
      case (Inr vn)
      obtain v n where vn: "vn = (v, n)" by (cases vn)
      have "pos < n" using decodeArrayElem_progress [of cd pos st v n] Pair Inr vn by simp
      with Suc.IH [of n "arr @ [v]" st1] Suc.prems Pair Inr vn show ?thesis by simp
    qed
  qed
qed

lemma decodeIndefArrayLoop_fuel:
  "decodeIndefArrayLoop fuel dec src opts depth pos arr st = (Inl f, st')
    \<Longrightarrow> length src - pos < bound \<Longrightarrow> length src - pos < fuel \<Longrightarrow> f \<noteq> OutOfFuel"
proof (induction fuel arbitrary: pos arr st)
  case 0
  then show ?case by simp
next
  case (Suc fuel)
  show ?case
  proof (cases "dec pos (depth + 1) False st")
    case (Pair r st1)
    show ?thesis
    proof (cases r)
      case (Inl g)
      with Pair Suc.prems dec_fuel' [OF Pair [unfolded Inl]] show ?thesis
        by (auto simp: decodeIndefArrayLoop.simps res_simps split: if_splits)
    next
      case (Inr vn)
      obtain v n where vn: "vn = (v, n)" by (cases vn)
      have "pos < n" using dec_progress [of pos "depth + 1" False st v n] Pair Inr vn by simp
      with Suc.IH [of n "arr @ [v]" st1] Suc.prems Pair Inr vn show ?thesis
        by (auto simp: decodeIndefArrayLoop.simps res_simps split: if_splits)
    qed
  qed
qed

lemma decodeArray_fuel:
  "decodeArray dec src off h depth opts st = (Inl f, st') \<Longrightarrow> length src - (off + HeadN h) < bound
    \<Longrightarrow> f \<noteq> OutOfFuel"
  by (auto simp: decodeArray_def decodeIndefiniteArray_def res_simps Let_def
      split: if_splits prod.splits
      dest!: decodeArrayLoop_fuel decodeIndefArrayLoop_fuel)

lemma mapInsert_fuel: "mapInsert m k v ko ek dedup opts = Inl f \<Longrightarrow> f \<noteq> OutOfFuel"
  by (auto simp: mapInsert_def Let_def split: if_splits option.splits)

lemma decodeMapKey_fuel:
  "decodeMapKey dec src opts depth pos st = (Inl f, st') \<Longrightarrow> length src - pos < bound \<Longrightarrow> f \<noteq> OutOfFuel"
  by (auto simp: decodeMapKey_def shortText_def res_simps Let_def
      split: if_splits option.splits prod.splits dest!: dec_fuel')

lemma decodeMapRest_fuel:
  "decodeMapRest dec src opts depth ko k pos m dedup st = (Inl f, st') \<Longrightarrow> length src - pos < bound
    \<Longrightarrow> f \<noteq> OutOfFuel"
  by (auto simp: decodeMapRest_def res_simps split: if_splits prod.splits sum.splits
      dest!: dec_fuel' mapInsert_fuel)

lemma decodeMapLoop_fuel:
  "decodeMapLoop dec src opts depth c pos m dedup st = (Inl f, st') \<Longrightarrow> length src - pos < bound
    \<Longrightarrow> f \<noteq> OutOfFuel"
proof (induction c arbitrary: pos m dedup st)
  case 0
  then show ?case by (simp add: res_simps)
next
  case (Suc c)
  from Suc.prems consider "decodeMapKey dec src opts depth pos st = (Inl f, st')"
    | k n st1 where "decodeMapKey dec src opts depth pos st = (Inr (k, n), st1)"
      "decodeMapRest dec src opts depth pos k n m dedup st1 = (Inl f, st')"
    | k n st1 m' d' n' st2 where "decodeMapKey dec src opts depth pos st = (Inr (k, n), st1)"
      "decodeMapRest dec src opts depth pos k n m dedup st1 = (Inr ((m', d'), n'), st2)"
      "decodeMapLoop dec src opts depth c n' m' d' st2 = (Inl f, st')"
    by (auto split: prod.splits sum.splits)
  then show ?case
  proof cases
    case 1
    with Suc.prems(2) show ?thesis by (rule decodeMapKey_fuel [rotated])
  next
    case 2
    with decodeMapKey_progress [OF 2(1)] Suc.prems(2) show ?thesis
      by (intro decodeMapRest_fuel [OF 2(2)]) linarith
  next
    case 3
    with decodeMapKey_progress [OF 3(1)] decodeMapRest_progress [OF 3(2)] Suc.prems(2) show ?thesis
      by (intro Suc.IH [OF 3(3)]) linarith
  qed
qed

lemma decodeIndefMapLoop_fuel:
  "decodeIndefMapLoop fuel dec src opts depth pos m st = (Inl f, st')
    \<Longrightarrow> length src - pos < bound \<Longrightarrow> length src - pos < fuel \<Longrightarrow> f \<noteq> OutOfFuel"
proof (induction fuel arbitrary: pos m st)
  case 0
  then show ?case by simp
next
  case (Suc fuel)
  from Suc.prems(1) consider (err) e where "f = Err e pos"
    | (key) "dec pos (depth + 1) False st = (Inl f, st')"
    | (rest) k n st1 where "dec pos (depth + 1) False st = (Inr (k, n), st1)"
      "decodeMapRest dec src opts depth pos k n m None st1 = (Inl f, st')"
    | (loop) k n st1 m' d' n' st2 where "dec pos (depth + 1) False st = (Inr (k, n), st1)"
      "decodeMapRest dec src opts depth pos k n m None st1 = (Inr ((m', d'), n'), st2)"
      "decodeIndefMapLoop fuel dec src opts depth n' m' st2 = (Inl f, st')"
    by (auto simp: decodeIndefMapLoop.simps res_simps split: if_splits prod.splits sum.splits)
  then show ?case
  proof cases
    case err
    then show ?thesis by simp
  next
    case key
    with Suc.prems(2) show ?thesis by (rule dec_fuel' [rotated])
  next
    case rest
    with dec_progress [OF rest(1)] Suc.prems(2) show ?thesis
      by (intro decodeMapRest_fuel [OF rest(2)]) linarith
  next
    case loop
    with dec_progress [OF loop(1)] decodeMapRest_progress [OF loop(2)] Suc.prems(2,3) show ?thesis
      by (intro Suc.IH [OF loop(3)]) linarith+
  qed
qed

lemma decodeMap_fuel:
  "decodeMap dec src off h depth opts st = (Inl f, st') \<Longrightarrow> length src - (off + HeadN h) < bound
    \<Longrightarrow> f \<noteq> OutOfFuel"
  by (auto simp: decodeMap_def decodeIndefiniteMap_def res_simps Let_def
      split: if_splits prod.splits
      dest!: decodeMapLoop_fuel decodeIndefMapLoop_fuel)

lemma decodeTag_fuel:
  "decodeTag dec off h depth opts strip st = (Inl f, st') \<Longrightarrow> length src - (off + HeadN h) < bound
    \<Longrightarrow> f \<noteq> OutOfFuel"
  by (auto simp: decodeTag_def res_simps Let_def split: if_splits prod.splits sum.splits
      dest!: dec_fuel')

lemma decodeValueBody_fuel:
  assumes "decodeValueBody dec src opts off depth strip st = (Inl f, st')"
    and "length src - off \<le> bound"
  shows "f \<noteq> OutOfFuel"
proof (cases "HeadN (ParseHead (drop off src)) = 0")
  case True
  with assms(1) show ?thesis
    by (auto simp: decodeValueBody_def Let_def res_simps split: if_splits)
next
  case False
  define h where "h = ParseHead (drop off src)"
  have "off < length src" using head_at [OF False] by simp
  then have "length src - (off + HeadN h) < bound"
    using False assms(2) by (simp add: h_def)
  with assms(1) show ?thesis
    unfolding decodeValueBody_def Let_def h_def [symmetric]
    by (auto simp: res_simps split: if_splits
        dest: decodeArray_fuel decodeMap_fuel decodeTag_fuel
          decodeBytes_fuel decodeText_fuel decodeOther_fuel)
qed

end

lemma decodeValue_fuel:
  "length src - off < fuel \<Longrightarrow> fst (decodeValue fuel src opts off depth strip st) \<noteq> Inl OutOfFuel"
proof (induction fuel arbitrary: off depth strip st)
  case 0
  then show ?case by simp
next
  case (Suc fuel)
  then have "fuelled_decoder (decodeValue fuel src opts) src fuel"
    by unfold_locales blast
  from fuelled_decoder.decodeValueBody_fuel [OF this, of opts off depth strip st] Suc.prems show ?case
    by (cases "decodeValueBody (decodeValue fuel src opts) src opts off depth strip st") auto
qed

interpretation dvf: fuelled_decoder "decodeValue fuel src opts" src opts fuel for fuel src opts
  by unfold_locales (rule decodeValue_fuel)

section \<open>No panics\<close>

text \<open>Without zero-copy strings, and when no sum of an offset and an accepted length reaches
  \<open>2 ^ 63\<close>, the slice expressions stay in bounds.\<close>

definition sane_limits :: "bytes \<Rightarrow> DecodeOpts \<Rightarrow> bool" where
  "sane_limits src opts \<longleftrightarrow> \<not> ZeroCopy opts \<and> int (length src) + maxBytes opts < 2 ^ 63"

lemma sane_end:
  assumes "sane_limits src opts" and "uint x \<le> maxBytes opts" and "a \<le> length src"
  shows "go_int (int a + int_of_u64 x) = int a + uint x" and "int_of_u64 x = uint x"
proof -
  have x: "uint x < 2 ^ 63" "0 \<le> uint x"
    using assms by (auto simp: sane_limits_def)
  then show i: "int_of_u64 x = uint x"
    by (simp add: int_of_u64_small)
  show "go_int (int a + int_of_u64 x) = int a + uint x"
    unfolding i using x assms unfolding sane_limits_def by (intro go_int_id) linarith+
qed

lemma sane_slice:
  assumes "sane_limits src opts" and "uint x \<le> maxBytes opts" and "a \<le> length src"
    and "go_int (int a + int_of_u64 x) \<le> int (length src)"
  shows "go_slice src (int a) (go_int (int a + int_of_u64 x))
    = Some (take (unat x) (drop a src))"
proof -
  have "int a + uint x = int (a + unat x)"
    by simp
  moreover from this have "a + unat x \<le> length src"
    using assms(4) sane_end [OF assms(1-3)] by linarith
  ultimately show ?thesis
    using sane_end [OF assms(1-3)] go_slice_nat [of a "unat x" src] by simp
qed

lemma decodeIndefChunks_nopanic:
  "sane_limits src opts \<Longrightarrow> decodeIndefChunks major src off buf opts \<noteq> Inl Panic"
proof (induction major src off buf opts rule: decodeIndefChunks.induct)
  case (1 major src off buf opts)
  define h where "h = ParseHead (drop off src)"
  define e where "e = go_int (int (off + HeadN h) + int_of_u64 (HeadArg h))"
  show ?case
  proof (cases "off < length src \<and> src ! off \<noteq> BreakCode
      \<and> decodeIndefCheck major src off h (int (length buf)) opts = None \<and> e \<le> int (length src)")
    case False
    then show ?thesis
      by (subst decodeIndefChunks.simps)
        (auto simp: Let_def h_def e_def decodeIndefCheck_def split: if_splits option.splits)
  next
    case True
    then have "uint (HeadArg h) \<le> maxBytes opts" and "HeadN h \<noteq> 0"
      using decodeIndefCheck_None by auto
    then have "go_slice src (int (off + HeadN h)) e
        = Some (take (unat (HeadArg h)) (drop (off + HeadN h) src))"
      unfolding e_def using True "1.prems" head_at [of off src]
      by (intro sane_slice) (auto simp: h_def e_def)
    with True "1.IH" "1.prems" show ?thesis
      by (subst decodeIndefChunks.simps)
        (auto simp: Let_def h_def e_def split: if_splits option.splits)
  qed
qed

lemma decodeBytes_nopanic:
  assumes "sane_limits src opts" and "off + HeadN h \<le> length src"
  shows "decodeBytes src off h opts st \<noteq> (Inl Panic, st')"
proof -
  have "go_slice src (int (off + HeadN h)) (go_int (int (off + HeadN h) + int_of_u64 (HeadArg h))) \<noteq> None"
    if "uint (HeadArg h) \<le> maxBytes opts"
      "go_int (int (off + HeadN h) + int_of_u64 (HeadArg h)) \<le> int (length src)"
    using sane_slice [OF assms(1) that(1) assms(2) that(2)] by simp
  with decodeIndefChunks_nopanic [OF assms(1)] show ?thesis
    by (auto simp: decodeBytes_def decodeIndefiniteBytes_def res_simps Let_def not_less
        split: if_splits sum.splits prod.splits option.splits)
qed

lemma decodeText_nopanic:
  assumes "sane_limits src opts" and "off + HeadN h \<le> length src"
  shows "decodeText src off h opts st \<noteq> (Inl Panic, st')"
proof -
  have "go_slice src (int (off + HeadN h)) (go_int (int (off + HeadN h) + int_of_u64 (HeadArg h))) \<noteq> None"
    if "uint (HeadArg h) \<le> maxBytes opts"
      "go_int (int (off + HeadN h) + int_of_u64 (HeadArg h)) \<le> int (length src)"
    using sane_slice [OF assms(1) that(1) assms(2) that(2)] by simp
  moreover have "\<not> ZeroCopy opts"
    using assms(1) by (simp add: sane_limits_def)
  ultimately show ?thesis
    using decodeIndefChunks_nopanic [OF assms(1)]
    by (auto simp: decodeText_def decodeIndefiniteText_def res_simps Let_def not_less
        split: if_splits sum.splits prod.splits option.splits)
qed

lemma decodeOther_nopanic: "decodeOther off h opts st \<noteq> (Inl Panic, st')"
  by (auto simp: decodeOther_def res_simps Let_def split: if_splits)

lemma mapInsert_nopanic: "mapInsert m k v ko ek dedup opts \<noteq> Inl Panic"
  by (auto simp: mapInsert_def Let_def split: if_splits option.splits)

lemma shortText_nopanic: "\<not> ZeroCopy opts \<Longrightarrow> shortText src pos e opts st \<noteq> (Inl Panic, st')"
  by (auto simp: shortText_def res_simps Let_def split: if_splits option.splits prod.splits)

lemma sane_no_zerocopy: "sane_limits src opts \<Longrightarrow> \<not> ZeroCopy opts"
  by (simp add: sane_limits_def)

locale panic_free_decoder = item_decoder +
  assumes dec_nopanic: "sane_limits src opts \<Longrightarrow> dec off depth strip st \<noteq> (Inl Panic, st')"
begin

lemma decodeArrayElem_nopanic: "sane_limits src opts \<Longrightarrow> decodeArrayElem dec src opts cd pos st \<noteq> (Inl Panic, st')"
  using shortText_nopanic [OF sane_no_zerocopy]
  by (auto simp: decodeArrayElem_def arrayIntElem_def arrayInt_def res_simps Let_def dec_nopanic
      split: if_splits)

lemma decodeArrayLoop_nopanic: "sane_limits src opts \<Longrightarrow> decodeArrayLoop dec src opts cd k pos arr st \<noteq> (Inl Panic, st')"
  by (induction k arbitrary: pos arr st)
    (auto simp: res_simps decodeArrayElem_nopanic split: prod.splits sum.splits)

lemma decodeIndefArrayLoop_nopanic:
  "sane_limits src opts \<Longrightarrow> decodeIndefArrayLoop fuel dec src opts depth pos arr st \<noteq> (Inl Panic, st')"
  by (induction fuel arbitrary: pos arr st)
    (auto simp: decodeIndefArrayLoop.simps res_simps dec_nopanic split: prod.splits sum.splits)

lemma decodeArray_nopanic: "sane_limits src opts \<Longrightarrow> decodeArray dec src off h depth opts st \<noteq> (Inl Panic, st')"
  by (auto simp: decodeArray_def decodeIndefiniteArray_def res_simps Let_def
      decodeArrayLoop_nopanic decodeIndefArrayLoop_nopanic split: if_splits prod.splits)

lemma decodeMapKey_nopanic: "sane_limits src opts \<Longrightarrow> decodeMapKey dec src opts depth pos st \<noteq> (Inl Panic, st')"
  using shortText_nopanic [OF sane_no_zerocopy]
  by (auto simp: decodeMapKey_def dec_nopanic split: if_splits)

lemma decodeMapRest_nopanic:
  "sane_limits src opts \<Longrightarrow> decodeMapRest dec src opts depth ko k pos m dedup st \<noteq> (Inl Panic, st')"
  by (auto simp: decodeMapRest_def res_simps dec_nopanic mapInsert_nopanic
      split: if_splits prod.splits sum.splits)

lemma decodeMapLoop_nopanic:
  "sane_limits src opts \<Longrightarrow> decodeMapLoop dec src opts depth c pos m dedup st \<noteq> (Inl Panic, st')"
  by (induction c arbitrary: pos m dedup st)
    (auto simp: res_simps decodeMapKey_nopanic decodeMapRest_nopanic split: prod.splits sum.splits)

lemma decodeIndefMapLoop_nopanic:
  "sane_limits src opts \<Longrightarrow> decodeIndefMapLoop fuel dec src opts depth pos m st \<noteq> (Inl Panic, st')"
  by (induction fuel arbitrary: pos m st)
    (auto simp: decodeIndefMapLoop.simps res_simps dec_nopanic decodeMapRest_nopanic
      split: prod.splits sum.splits)

lemma decodeMap_nopanic: "sane_limits src opts \<Longrightarrow> decodeMap dec src off h depth opts st \<noteq> (Inl Panic, st')"
  by (auto simp: decodeMap_def decodeIndefiniteMap_def res_simps Let_def
      decodeMapLoop_nopanic decodeIndefMapLoop_nopanic split: if_splits prod.splits)

lemma decodeTag_nopanic: "sane_limits src opts \<Longrightarrow> decodeTag dec off h depth opts strip st \<noteq> (Inl Panic, st')"
  by (auto simp: decodeTag_def res_simps Let_def dec_nopanic split: if_splits prod.splits sum.splits)

lemma decodeValueBody_nopanic:
  assumes limits: "sane_limits src opts"
  shows "decodeValueBody dec src opts off depth strip st \<noteq> (Inl Panic, st')"
proof (cases "HeadN (ParseHead (drop off src)) = 0")
  case True
  then show ?thesis
    by (auto simp: decodeValueBody_def Let_def res_simps)
next
  case False
  define h where "h = ParseHead (drop off src)"
  have "off + HeadN h \<le> length src"
    using head_at [OF False] by (simp add: h_def)
  then show ?thesis
    unfolding decodeValueBody_def Let_def h_def [symmetric]
    by (auto simp: res_simps decodeBytes_nopanic [OF limits] decodeText_nopanic [OF limits]
        decodeArray_nopanic [OF limits] decodeMap_nopanic [OF limits] decodeTag_nopanic [OF limits]
        decodeOther_nopanic)
qed

end

lemma decodeValue_nopanic:
  "sane_limits src opts \<Longrightarrow> decodeValue fuel src opts off depth strip st \<noteq> (Inl Panic, st')"
proof (induction fuel arbitrary: off depth strip st st')
  case 0
  then show ?case by simp
next
  case (Suc fuel)
  then have "panic_free_decoder (decodeValue fuel src opts) src opts"
    by unfold_locales auto
  from panic_free_decoder.decodeValueBody_nopanic [OF this Suc.prems] show ?case
    by simp
qed

interpretation dvs: panic_free_decoder "decodeValue fuel src opts" src opts for fuel src opts
  by unfold_locales (rule decodeValue_nopanic)

section \<open>Totality of \<open>Decode\<close>\<close>

lemma Decode_not_OutOfFuel: "fst (Decode src opts st) \<noteq> Inl OutOfFuel"
  unfolding Decode_def by (rule decodeValue_fuel) simp

lemma Decode_not_Panic: "sane_limits src opts \<Longrightarrow> fst (Decode src opts st) \<noteq> Inl Panic"
  using decodeValue_nopanic [of src opts] unfolding Decode_def by (metis fst_conv prod.collapse)

lemma Decode_progress:
  "Decode src opts st = (Inr (v, next), st') \<Longrightarrow> 0 < next \<and> next \<le> length src"
  unfolding Decode_def using decodeValue_progress by fastforce

end
