(* ===== verification/Decode_Limits.thy ===== *)
theory Decode_Limits
  imports Decode_Safety
begin

text \<open>
  What the options guarantee about a decoded value. \<open>accepted opts depth v\<close> is the abstract
  specification: a value that respects every limit and every Reject flag at a given nesting
  depth. The locale \<open>bounded_decoder\<close> carries it through the container decoders, and
  \<open>decodeValue\<close> interprets it. The bound on a string is the larger of the configured one
  and 23, because the fast paths of \<open>decodeArray\<close> and \<open>decodeMap\<close> do not check the limit.
\<close>

section \<open>The specification\<close>

definition f32_finite :: "u32 \<Rightarrow> bool" where "f32_finite f \<longleftrightarrow> f32_exp f \<noteq> 255"
definition f64_finite :: "u64 \<Rightarrow> bool" where "f64_finite f \<longleftrightarrow> f64_exp f \<noteq> 2047"

text \<open>No two entries have keys that the decoder takes for equal.\<close>

fun distinct_keys :: "MapEntry list \<Rightarrow> bool" where
  "distinct_keys [] = True"
| "distinct_keys (p # ps) = ((\<forall>q \<in> set ps. \<not> valuesEqual (Key p) (Key q)) \<and> distinct_keys ps)"

definition string_bound :: "DecodeOpts \<Rightarrow> int" where
  "string_bound opts = max (maxBytes opts) 23"

inductive accepted :: "DecodeOpts \<Rightarrow> nat \<Rightarrow> Value \<Rightarrow> bool" for opts where
  w_uint: "accepted opts d (Uint n)"
| w_negint: "accepted opts d (NegInt n)"
| w_bool: "accepted opts d (Bool b)"
| w_null: "accepted opts d Null"
| w_undefined: "accepted opts d Undefined"
| w_simple: "s < 20 \<or> 32 \<le> s \<Longrightarrow> accepted opts d (Simple s)"
| w_float32: "RejectNonFiniteFloats opts \<longrightarrow> f32_finite f \<Longrightarrow> accepted opts d (Float32 f)"
| w_float64: "RejectNonFiniteFloats opts \<longrightarrow> f64_finite g \<Longrightarrow> accepted opts d (Float64 g)"
| w_bytes: "int (length s) \<le> string_bound opts \<Longrightarrow> accepted opts d (Bytes s)"
| w_text: "int (length s) \<le> string_bound opts \<Longrightarrow> (RejectInvalidUTF8 opts \<longrightarrow> utf8_Valid s)
    \<Longrightarrow> accepted opts d (Text s)"
| w_array: "int (length xs) \<le> maxArray opts \<Longrightarrow> int (d + 1) \<le> maxNesting opts
    \<Longrightarrow> \<forall>x \<in> set xs. accepted opts (d + 1) x \<Longrightarrow> accepted opts d (MakeArray xs)"
| w_map: "int (length ps) \<le> maxArray opts \<Longrightarrow> int (d + 1) \<le> maxNesting opts
    \<Longrightarrow> \<forall>p \<in> set ps. accepted opts (d + 1) (fst p) \<and> accepted opts (d + 1) (snd p)
    \<Longrightarrow> (RejectNullMapKeys opts \<longrightarrow> (\<forall>p \<in> set ps. Kind (Key p) \<noteq> KindNull))
    \<Longrightarrow> (RejectDuplicateMapKeys opts \<and> length ps \<le> dedupThreshold \<longrightarrow> distinct_keys ps)
    \<Longrightarrow> accepted opts d (MakeMap ps)"
| w_tag: "int (d + 1) \<le> maxNesting opts \<Longrightarrow> (RejectUnknownTags opts \<longrightarrow> knownTags i)
    \<Longrightarrow> accepted opts (d + 1) v \<Longrightarrow> accepted opts d (MakeTag i v)"

lemma ucast_widen_inject [simp]:
  "((ucast (a :: byte) :: u64) = ucast b) = (a = b)"
  "((ucast (c :: u32) :: u64) = ucast e) = (c = e)"
proof -
  have "ucast (ucast x :: u64) = x" for x :: byte
    by (rule word_eqI_unat) (use unat_bounds(1) [of x] in \<open>simp add: unat_ucast_mod\<close>)
  then show "((ucast (a :: byte) :: u64) = ucast b) = (a = b)" by metis
  have "ucast (ucast x :: u64) = x" for x :: u32
    by (rule word_eqI_unat) (use unat_bounds(3) [of x] in \<open>simp add: unat_ucast_mod\<close>)
  then show "((ucast (c :: u32) :: u64) = ucast e) = (c = e)" by metis
qed

declare val_defs [simp]

inductive_simps accepted_simps:
  "accepted opts d (Uint n)" "accepted opts d (NegInt n)" "accepted opts d (Bool b)"
  "accepted opts d Null" "accepted opts d Undefined" "accepted opts d (Simple s)"
  "accepted opts d (Float32 f)" "accepted opts d (Float64 g)" "accepted opts d (Bytes s)"
  "accepted opts d (Text s)" "accepted opts d (MakeArray xs)" "accepted opts d (MakeMap ps)"
  "accepted opts d (MakeTag i v)" "accepted opts d ZeroValue"

declare val_defs [simp del]

text \<open>The number of containers and tags around the deepest component of a value.\<close>

function nesting :: "Value \<Rightarrow> nat" where
  "nesting (Value k n s b items pairs) =
     (if k \<in> {KindArray, KindMap, KindTag}
      then 1 + max (foldr max (map nesting items) 0)
                   (foldr max (map (\<lambda>p. max (nesting (fst p)) (nesting (snd p))) pairs) 0)
      else 0)"
  by pat_completeness auto
termination
  by (relation "measure size") (simp_all only: in_measure wf_measure size_item size_pair)

lemma foldr_max_le: "foldr max ns 0 \<le> (m :: nat) \<longleftrightarrow> (\<forall>n \<in> set ns. n \<le> m)"
  by (induction ns) auto

lemma accepted_nesting:
  "accepted opts d v \<Longrightarrow> int d \<le> maxNesting opts \<Longrightarrow> int (d + nesting v) \<le> maxNesting opts"
proof (induction rule: accepted.induct)
  case (w_array xs d)
  then have "foldr max (map nesting xs) 0 \<le> nat (maxNesting opts) - (d + 1)"
    by (auto simp: foldr_max_le)
  with w_array show ?case by (simp add: MakeArray_def)
next
  case (w_map ps d)
  then have "foldr max (map (\<lambda>p. max (nesting (fst p)) (nesting (snd p))) ps) 0
      \<le> nat (maxNesting opts) - (d + 1)"
    by (auto simp: foldr_max_le)
  with w_map show ?case by (simp add: MakeMap_def)
qed (simp_all add: val_defs)

lemma accepted_clean: "accepted opts d v \<Longrightarrow> clean v"
proof (induction rule: accepted.induct)
  case (w_float32 f d)
  have "unat (ucast f :: u64) < 2 ^ 32"
    using unat_bounds(3) [of f] by (simp add: unat_ucast_mod)
  then show ?case by (simp add: val_defs word_le_nat_alt)
next
  case (w_simple s d)
  have "unat (ucast s :: u64) < 2 ^ 8"
    using unat_bounds(1) [of s] by (simp add: unat_ucast_mod)
  then show ?case by (simp add: val_defs word_le_nat_alt)
qed (auto simp: val_defs)

section \<open>Strings\<close>

text \<open>The interner, when there is one, only maps strings to themselves.\<close>

definition st_ok :: "dstate \<Rightarrow> bool" where
  "st_ok st \<longleftrightarrow> (case Interner st of None \<Rightarrow> True | Some si \<Rightarrow> interner_ok si)"

lemma st_ok_frame [simp]:
  "st_ok (fst (charge_st n st)) = st_ok st" "st_ok (allocValues k st) = st_ok st"
  "st_ok (allocPairs k st) = st_ok st"
  by (simp_all add: st_ok_def charge_st_frame allocs_frame)

lemma charge_st_ok: "charge_st n st = (st', good) \<Longrightarrow> st_ok st' = st_ok st"
  using st_ok_frame(1) [of n st] by simp

lemma internString_ok:
  "st_ok st \<Longrightarrow> Interner st = Some si \<Longrightarrow> internString raw si st = (s, st')
    \<Longrightarrow> s = raw \<and> st_ok st'"
  by (auto simp: internString_def st_ok_def split: prod.splits
      dest: interner.intern_both [rotated])

lemma go_int_le: "- (2 ^ 63) \<le> i \<Longrightarrow> go_int i \<le> i"
proof -
  assume "- (2 ^ 63) \<le> i"
  then have "(i + 2 ^ 63) mod 2 ^ 64 \<le> i + 2 ^ 63"
    by (intro zmod_le_nonneg_dividend) simp
  then show ?thesis by (simp add: go_int_def)
qed

lemma int_of_u64_le: "int_of_u64 x \<le> uint x"
proof -
  have "- (2 ^ 63) \<le> uint x"
    by (rule order_trans [OF _ uint_ge_0]) simp
  then show ?thesis
    unfolding int_of_u64_def by (rule go_int_le)
qed

lemma go_end_le: "go_int (int a + int_of_u64 x) \<le> int a + uint x"
proof -
  have "- (2 ^ 63) \<le> int a + int_of_u64 x"
    using go_int_range [of "uint x"] by (simp add: int_of_u64_def)
  from go_int_le [OF this] int_of_u64_le [of x] show ?thesis by linarith
qed

lemma arg_slice_length:
  assumes "go_slice src (int a) (go_int (int a + int_of_u64 x)) = Some t"
  shows "int (length t) \<le> uint x"
  using go_slice_length [OF assms] go_end_le [of a x] by linarith

lemma arg_slice_bound:
  "go_slice src (int a) (go_int (int a + int_of_u64 x)) = Some t \<Longrightarrow> uint x \<le> maxBytes opts
    \<Longrightarrow> int (length t) \<le> string_bound opts"
  using arg_slice_length [of src a x t] by (simp add: string_bound_def)

lemma go_end_exact:
  assumes "int n = go_int (int a + int_of_u64 x)" and "a \<le> n" and "n < 2 ^ 61"
  shows "int_of_u64 x = int n - int a"
proof -
  have r: "- (2 ^ 63) \<le> int_of_u64 x" "int_of_u64 x < 2 ^ 63"
    using go_int_range [of "uint x"] by (simp_all add: int_of_u64_def)
  have b: "int n < 2 ^ 61" "int a \<le> int n" "0 \<le> int a"
    using assms(2,3) by simp_all
  show ?thesis
  proof (cases "int a + int_of_u64 x < 2 ^ 63")
    case True
    then have "go_int (int a + int_of_u64 x) = int a + int_of_u64 x"
      using r b by (intro go_int_id) linarith+
    with assms(1) show ?thesis by linarith
  next
    case False
    then have "go_int (int a + int_of_u64 x) = int a + int_of_u64 x - 2 ^ 64"
      using r b by (intro go_int_wraps) simp_all
    with assms(1) r b show ?thesis by simp
  qed
qed

text \<open>The chunks of an indefinite-length string stay within the limit together.\<close>

lemma decodeIndefChunks_length:
  assumes "length src < 2 ^ 61"
  shows "decodeIndefChunks major src off buf opts = Inr (b, e) \<Longrightarrow> length buf \<le> off
    \<Longrightarrow> int (length buf) \<le> maxBytes opts \<Longrightarrow> int (length b) \<le> maxBytes opts"
proof (induction "length src - off" arbitrary: off buf rule: less_induct)
  case less
  from less.prems(1) show ?case
  proof (cases rule: decodeIndefChunks_Inr)
    case brk
    with less.prems show ?thesis by simp
  next
    case (chunk h n)
    then have chk: "0 < HeadN h" "uint (HeadArg h) \<le> maxBytes opts"
      "go_int (int (length buf) + int_of_u64 (HeadArg h)) \<le> maxBytes opts"
      using decodeIndefCheck_None by blast+
    have c: "int_of_u64 (HeadArg h) = int n - int (off + HeadN h)"
      using chunk(5,6,7) assms by (intro go_end_exact) simp_all
    have "int (length buf) + int_of_u64 (HeadArg h) \<le> maxBytes opts"
    proof -
      have "int (length buf) + int_of_u64 (HeadArg h) \<le> int n"
        using c less.prems(2) by linarith
      moreover have "int n < 2 ^ 61"
        using chunk(6) assms by simp
      ultimately have "go_int (int (length buf) + int_of_u64 (HeadArg h))
          = int (length buf) + int_of_u64 (HeadArg h)"
        using c chunk(5) by (intro go_int_id) simp_all
      with chk(3) show ?thesis by simp
    qed
    with c chunk(5,6) less.prems(2)
    have "int (length (buf @ take (n - (off + HeadN h)) (drop (off + HeadN h) src))) \<le> maxBytes opts"
      and "length (buf @ take (n - (off + HeadN h)) (drop (off + HeadN h) src)) \<le> n"
      by auto
    with chunk(2,5,6,8) chk(1) less.hyps [of n] show ?thesis
      by simp
  qed
qed

section \<open>Items\<close>

lemma f64_finite_iff: "f64_finite g \<longleftrightarrow> \<not> f64_IsNaN g \<and> \<not> f64_IsInf g"
  by (auto simp: f64_finite_def f64_IsNaN_def f64_IsInf_def)

lemma f32_finite_widen: "f64_finite (f32_to_f64 f) \<Longrightarrow> f32_finite f"
proof (rule ccontr)
  assume fin: "f64_finite (f32_to_f64 f)" and "\<not> f32_finite f"
  then have e: "f32_exp f = 255" by (simp add: f32_finite_def)
  have "(if f32_man f < 2 ^ 22 then f32_man f + 2 ^ 22 else f32_man f) * 2 ^ 29 < 4503599627370496"
    using f32_fields_less(3) [of f] by simp
  then have "f64_exp (f32_to_f64 f) = 2047"
    using e f32_fields_less(1) [of f] by (simp add: f32_to_f64_def Let_def f64_fields_mk)
  with fin show False by (simp add: f64_finite_def)
qed

lemma decodeIndefChunks_bound:
  "decodeIndefChunks major src off [] opts = Inr (b, e) \<Longrightarrow> length src < 2 ^ 61
    \<Longrightarrow> int (length b) \<le> string_bound opts"
  using decodeIndefChunks_length [of src major off "[]" opts b e]
  by (simp add: string_bound_def less_imp_le)

lemma decodeBytes_accepted:
  assumes "length src < 2 ^ 61" and "decodeBytes src off h opts st = (Inr (v, n), st')" and "st_ok st"
  shows "st_ok st' \<and> accepted opts d v"
  using assms
  by (auto simp: decodeBytes_def decodeIndefiniteBytes_def res_simps Let_def accepted_simps not_less
      simp del: of_nat_add dest: charge_st_ok decodeIndefChunks_bound [simplified] arg_slice_bound
      split: if_splits sum.splits prod.splits option.splits)

lemma decodeText_accepted:
  assumes "length src < 2 ^ 61" and "decodeText src off h opts st = (Inr (v, n), st')" and "st_ok st"
  shows "st_ok st' \<and> accepted opts d v"
proof (cases "AI h = AIIndefinite")
  case True
  with assms show ?thesis
    by (auto simp: decodeText_def decodeIndefiniteText_def res_simps Let_def accepted_simps
        dest: decodeIndefChunks_bound [simplified] split: if_splits sum.splits prod.splits)
next
  case False
  define e where "e = go_int (int (off + HeadN h) + int_of_u64 (HeadArg h))"
  obtain st1 good where ch: "charge_st (int_of_u64 (HeadArg h)) st = (st1, good)"
    by (cases "charge_st (int_of_u64 (HeadArg h)) st")
  with assms have ok1: "st_ok st1" by (simp add: charge_st_ok)
  from False assms have lim: "uint (HeadArg h) \<le> maxBytes opts"
    by (auto simp: decodeText_def res_simps split: if_splits)
  obtain raw where raw: "go_slice src (int (off + HeadN h)) e = Some raw"
    and "RejectInvalidUTF8 opts \<longrightarrow> utf8_Valid raw" and "v = Text raw" and "st_ok st'"
    using assms(2) ok1 False ch unfolding decodeText_def Let_def e_def [symmetric]
    by (auto simp: res_simps simp del: of_nat_add split: if_splits option.splits prod.splits
        dest!: zeroCopyString_Some dest: internString_ok)
  then show ?thesis
    using arg_slice_bound [OF raw [unfolded e_def] lim] by (simp add: accepted_simps)
qed

lemma decodeOther_accepted:
  "decodeOther off h opts st = (Inr (v, n), st') \<Longrightarrow> st_ok st \<Longrightarrow> st_ok st' \<and> accepted opts d v"
  by (auto simp: decodeOther_def res_simps Let_def accepted_simps not_less f64_finite_iff
      split: if_splits intro!: f32_finite_widen)

lemma shortText_accepted:
  assumes "shortText src pos e opts st = (Inr (v, n), st')" and "st_ok st" and "e < pos + 25"
  shows "st_ok st' \<and> accepted opts d v"
proof -
  define raw where "raw = take (e - (pos + 1)) (drop (pos + 1) src)"
  have "int (length raw) \<le> string_bound opts"
    using assms(3) by (simp add: raw_def string_bound_def)
  moreover have "zeroCopyString src (int (pos + 1)) (int e) = Some s \<Longrightarrow> s = raw" for s
    by (auto simp: raw_def nat_diff_distrib' simp del: of_nat_Suc of_nat_add
        dest!: zeroCopyString_Some go_slice_end)
  ultimately show ?thesis
    using assms(1,2) unfolding shortText_def raw_def [symmetric] Let_def
    by (auto simp: res_simps accepted_simps simp del: of_nat_add
        split: if_splits option.splits prod.splits dest: internString_ok)
qed

lemma shortText_head_accepted:
  "shortText src pos (Suc (pos + unat (b AND 0x1f :: byte))) opts st = (Inr (v, n), st') \<Longrightarrow> st_ok st
    \<Longrightarrow> b AND 0x1f < 24 \<Longrightarrow> st_ok st' \<and> accepted opts d v"
  by (rule shortText_accepted, assumption+) (simp add: word_less_nat_alt)

section \<open>Map insertion\<close>

lemma find_idx_None: "find_idx m key is = None \<longleftrightarrow> (\<forall>i \<in> set is. \<not> valuesEqual (Key (m ! i)) key)"
  by (induction "is") auto

lemma find_idx_Some: "find_idx m key is = Some i \<Longrightarrow> i \<in> set is \<and> valuesEqual (Key (m ! i)) key"
  by (induction "is") (auto split: if_splits)

lemma find_idx_upt_None:
  "find_idx m key [0..<length m] = None \<longleftrightarrow> (\<forall>q \<in> set m. \<not> valuesEqual (Key q) key)"
  by (force simp: find_idx_None in_set_conv_nth)

text \<open>Every index in the table is an index of the map under construction.\<close>

definition dedup_ok :: "MapEntry list \<Rightarrow> keyDedup option \<Rightarrow> bool" where
  "dedup_ok m dedup \<longleftrightarrow> (\<forall>seen h. dedup = Some seen \<longrightarrow> (\<forall>i \<in> set (seen h). i < length m))"

lemma mapInsert_Inr:
  assumes "mapInsert m k v ko ek dedup opts = Inr (m', dedup')" and "dedup_ok m dedup"
  obtains (added) "m' = m @ [(k, v)]" "dedup_ok m' dedup'" "dedup' = None \<longleftrightarrow> dedup = None"
      "dedup = None \<Longrightarrow> \<forall>q \<in> set m. \<not> valuesEqual (Key q) k"
  | (replaced) i where "\<not> RejectDuplicateMapKeys opts" "i < length m" "valuesEqual (Key (m ! i)) k"
      "m' = m[i := (Key (m ! i), v)]" "dedup_ok m' dedup'" "dedup' = None \<longleftrightarrow> dedup = None"
proof (cases dedup)
  case None
  show ?thesis
  proof (cases "find_idx m k [0..<length m]")
    case None': None
    with None assms(1) have "m' = m @ [(k, v)]" "dedup' = None"
      by (simp_all add: mapInsert_def split: if_splits)
    with None None' show ?thesis
      by (intro added) (simp_all add: dedup_ok_def find_idx_upt_None)
  next
    case (Some i)
    with None assms(1) have "\<not> RejectDuplicateMapKeys opts" "m' = m[i := (Key (m ! i), v)]" "dedup' = None"
      by (simp_all add: mapInsert_def split: if_splits)
    with None find_idx_Some [OF Some] show ?thesis
      by (intro replaced) (simp_all add: dedup_ok_def)
  qed
next
  case seen: (Some seen)
  show ?thesis
  proof (cases "find_idx m k (seen (fnv1a ek))")
    case None
    with seen assms(1) have "m' = m @ [(k, v)]"
      and "dedup' = Some (seen(fnv1a ek := seen (fnv1a ek) @ [length m]))"
      by (simp_all add: mapInsert_def Let_def split: if_splits)
    with seen assms(2) show ?thesis
      by (intro added) (auto simp: dedup_ok_def less_Suc_eq)
  next
    case (Some i)
    with seen assms(1) have r: "\<not> RejectDuplicateMapKeys opts" "m' = m[i := (Key (m ! i), v)]" "dedup' = Some seen"
      by (simp_all add: mapInsert_def Let_def split: if_splits)
    have "i < length m"
      using find_idx_Some [OF Some] assms(2) seen by (auto simp: dedup_ok_def)
    with r find_idx_Some [OF Some] seen assms(2) show ?thesis
      by (intro replaced) (simp_all add: dedup_ok_def)
  qed
qed

lemma distinct_keys_snoc:
  "distinct_keys (m @ [p]) \<longleftrightarrow> distinct_keys m \<and> (\<forall>q \<in> set m. \<not> valuesEqual (Key q) (Key p))"
  by (induction m) auto

text \<open>The map under construction at nesting depth \<open>d\<close>.\<close>

definition entries_ok :: "DecodeOpts \<Rightarrow> nat \<Rightarrow> MapEntry list \<Rightarrow> keyDedup option \<Rightarrow> bool" where
  "entries_ok opts d m dedup \<longleftrightarrow>
     (\<forall>p \<in> set m. accepted opts d (fst p) \<and> accepted opts d (snd p))
     \<and> (RejectNullMapKeys opts \<longrightarrow> (\<forall>p \<in> set m. Kind (Key p) \<noteq> KindNull))
     \<and> (RejectDuplicateMapKeys opts \<and> dedup = None \<longrightarrow> distinct_keys m) \<and> dedup_ok m dedup"

lemma mapInsert_entries:
  assumes "mapInsert m k v ko ek dedup opts = Inr (m', dedup')" and "entries_ok opts d m dedup"
    and "accepted opts d k" "accepted opts d v" "RejectNullMapKeys opts \<longrightarrow> Kind k \<noteq> KindNull"
  shows "entries_ok opts d m' dedup' \<and> (dedup' = None \<longleftrightarrow> dedup = None) \<and> length m' \<le> Suc (length m)
    \<and> (RejectDuplicateMapKeys opts \<longrightarrow> length m' = Suc (length m))"
proof -
  have "dedup_ok m dedup" using assms(2) by (simp add: entries_ok_def)
  with assms(1) show ?thesis
  proof (cases rule: mapInsert_Inr)
    case added
    with assms(2-) show ?thesis
      by (auto simp: entries_ok_def distinct_keys_snoc)
  next
    case (replaced i)
    with assms(2-) nth_mem [of i m] show ?thesis
      by (fastforce simp: entries_ok_def dest!: set_update_subset_insert [THEN subsetD])
  qed
qed

section \<open>Containers\<close>

locale bounded_decoder = item_decoder +
  assumes dec_accepted: "length src < 2 ^ 61 \<Longrightarrow> dec off depth strip st = (Inr (v, next), st')
      \<Longrightarrow> st_ok st \<Longrightarrow> int depth \<le> maxNesting opts \<Longrightarrow> st_ok st' \<and> accepted opts depth v"
begin

lemma decodeArrayElem_accepted:
  assumes "length src < 2 ^ 61" and "decodeArrayElem dec src opts cd pos st = (Inr (v, next), st')"
    and "st_ok st" and "int cd \<le> maxNesting opts"
  shows "st_ok st' \<and> accepted opts cd v"
proof -
  have "arrayIntElem dec src opts cd pos st = (Inr (v, next), st') \<Longrightarrow> st_ok st' \<and> accepted opts cd v"
    using assms dec_accepted [OF assms(1), of pos cd False st v "next" st']
    by (auto simp: arrayIntElem_def arrayInt_def res_simps Let_def accepted_simps split: if_splits)
  moreover have "uint (b AND 0x1f) \<le> string_bound opts" if "b AND 0x1f < 24" for b :: byte
    using that by (simp add: string_bound_def word_less_def)
  ultimately show ?thesis
    using assms dec_accepted [OF assms(1), of pos cd False st v "next" st']
    by (auto simp: decodeArrayElem_def res_simps Let_def accepted_simps
        split: if_splits dest: shortText_head_accepted)
qed

lemma decodeArrayLoop_accepted:
  assumes "length src < 2 ^ 61"
  shows "decodeArrayLoop dec src opts cd k pos arr st = (Inr (v, next), st') \<Longrightarrow> st_ok st
    \<Longrightarrow> int cd \<le> maxNesting opts \<Longrightarrow> \<forall>x \<in> set arr. accepted opts cd x
    \<Longrightarrow> st_ok st' \<and> (\<exists>xs. v = MakeArray xs \<and> length xs = length arr + k \<and> (\<forall>x \<in> set xs. accepted opts cd x))"
proof (induction k arbitrary: pos arr st)
  case 0
  then show ?case by (auto simp: res_simps)
next
  case (Suc k)
  from Suc.prems(1) obtain x n st1 where x: "decodeArrayElem dec src opts cd pos st = (Inr (x, n), st1)"
    and r: "decodeArrayLoop dec src opts cd k n (arr @ [x]) st1 = (Inr (v, next), st')"
    by (auto split: prod.splits sum.splits)
  from decodeArrayElem_accepted [OF assms x Suc.prems(2,3)] Suc.IH [OF r] Suc.prems show ?case
    by auto
qed

lemma decodeIndefArrayLoop_accepted:
  assumes "length src < 2 ^ 61"
  shows "decodeIndefArrayLoop fuel dec src opts d pos arr st = (Inr (v, next), st') \<Longrightarrow> st_ok st
    \<Longrightarrow> int (d + 1) \<le> maxNesting opts \<Longrightarrow> \<forall>x \<in> set arr. accepted opts (d + 1) x
    \<Longrightarrow> int (length arr) \<le> maxArray opts \<Longrightarrow> st_ok st' \<and> accepted opts d v"
proof (induction fuel arbitrary: pos arr st)
  case 0
  then show ?case by (simp add: decodeIndefArrayLoop.simps)
next
  case (Suc fuel)
  show ?case
  proof (cases "src ! pos = BreakCode")
    case True
    with Suc.prems show ?thesis
      by (auto simp: decodeIndefArrayLoop.simps res_simps accepted_simps split: if_splits)
  next
    case False
    with Suc.prems(1) obtain x n st1 where x: "dec pos (d + 1) False st = (Inr (x, n), st1)"
      and l: "int (length arr) < maxArray opts"
      and r: "decodeIndefArrayLoop fuel dec src opts d n (arr @ [x]) st1 = (Inr (v, next), st')"
      by (auto simp: decodeIndefArrayLoop.simps res_simps split: if_splits prod.splits sum.splits)
    from dec_accepted [OF assms x Suc.prems(2,3)] Suc.IH [OF r] Suc.prems l show ?thesis
      by auto
  qed
qed

lemma count_bound:
  "uint x \<le> maxArray opts \<Longrightarrow> 0 \<le> int_of_u64 x \<Longrightarrow> int (nat (int_of_u64 x)) \<le> maxArray opts"
  using int_of_u64_le [of x] by simp

lemma decodeArray_accepted:
  assumes "length src < 2 ^ 61" and "decodeArray dec src off h d opts st = (Inr (v, next), st')"
    and "st_ok st"
  shows "st_ok st' \<and> accepted opts d v"
proof (cases "AI h = AIIndefinite")
  case True
  with assms show ?thesis
    by (auto simp: decodeArray_def decodeIndefiniteArray_def res_simps not_less less_imp_le split: if_splits
        dest!: decodeIndefArrayLoop_accepted [OF assms(1)])
next
  case False
  define c where "c = nat (int_of_u64 (HeadArg h))"
  obtain st1 good where ch: "charge_st (go_int (int_of_u64 (HeadArg h) * 16)) st = (st1, good)"
    by (cases "charge_st (go_int (int_of_u64 (HeadArg h) * 16)) st")
  with assms have ok1: "st_ok (allocValues c st1)" by (simp add: charge_st_ok)
  from assms(2) False ch have lim: "uint (HeadArg h) \<le> maxArray opts" "0 \<le> int_of_u64 (HeadArg h)"
    and nest: "int (d + 1) \<le> maxNesting opts"
    and r: "(if int_of_u64 (HeadArg h) = 0 then ok (MakeArray []) (off + HeadN h) (allocValues c st1)
         else decodeArrayLoop dec src opts (d + 1) c (off + HeadN h) [] (allocValues c st1))
       = (Inr (v, next), st')"
    by (auto simp: decodeArray_def Let_def c_def res_simps not_less split: if_splits)
  have c: "int c \<le> maxArray opts"
    unfolding c_def using lim by (rule count_bound)
  from r have "decodeArrayLoop dec src opts (d + 1) c (off + HeadN h) [] (allocValues c st1)
       = (Inr (v, next), st')"
    by (auto simp: c_def split: if_splits)
  from decodeArrayLoop_accepted [OF assms(1) this ok1 nest] c nest show ?thesis
    by (auto simp: accepted_simps)
qed

lemma decodeMapKey_accepted:
  assumes "length src < 2 ^ 61" and "decodeMapKey dec src opts d pos st = (Inr (v, next), st')"
    and "st_ok st" and "int (d + 1) \<le> maxNesting opts"
  shows "st_ok st' \<and> accepted opts (d + 1) v"
  using assms dec_accepted [OF assms(1), of pos "d + 1" False st v "next" st']
  by (auto simp: decodeMapKey_def split: if_splits dest: shortText_head_accepted)

lemma decodeMapRest_entries:
  assumes "length src < 2 ^ 61"
    and "decodeMapRest dec src opts d ko k pos m dedup st = (Inr ((m', dedup'), next), st')"
    and "st_ok st" and "int (d + 1) \<le> maxNesting opts"
    and "entries_ok opts (d + 1) m dedup" and "accepted opts (d + 1) k"
  shows "st_ok st' \<and> entries_ok opts (d + 1) m' dedup' \<and> (dedup' = None \<longleftrightarrow> dedup = None)
    \<and> length m' \<le> Suc (length m) \<and> (RejectDuplicateMapKeys opts \<longrightarrow> length m' = Suc (length m))"
proof -
  from assms(2) obtain v where "dec pos (d + 1) False st = (Inr (v, next), st')"
    and ins: "mapInsert m k v ko (take (pos - ko) (drop ko src)) dedup opts = Inr (m', dedup')"
    and null: "RejectNullMapKeys opts \<longrightarrow> Kind k \<noteq> KindNull"
    by (auto simp: decodeMapRest_def res_simps split: if_splits prod.splits sum.splits)
  from dec_accepted [OF assms(1) this(1) assms(3,4)] mapInsert_entries [OF ins assms(5,6) _ null]
  show ?thesis by blast
qed

lemma decodeMapLoop_accepted:
  assumes "length src < 2 ^ 61" and "int (d + 1) \<le> maxNesting opts"
  shows "decodeMapLoop dec src opts d c pos m dedup st = (Inr (v, next), st') \<Longrightarrow> st_ok st
    \<Longrightarrow> entries_ok opts (d + 1) m dedup \<Longrightarrow> st_ok st' \<and> (\<exists>ps dedup'. v = MakeMap ps
      \<and> entries_ok opts (d + 1) ps dedup' \<and> (dedup' = None \<longleftrightarrow> dedup = None)
      \<and> length ps \<le> length m + c \<and> (RejectDuplicateMapKeys opts \<longrightarrow> length ps = length m + c))"
proof (induction c arbitrary: pos m dedup st)
  case 0
  then show ?case by (auto simp: res_simps)
next
  case (Suc c)
  from Suc.prems(1) obtain k n st1 m1 dd1 n1 st2
    where k: "decodeMapKey dec src opts d pos st = (Inr (k, n), st1)"
      and e: "decodeMapRest dec src opts d pos k n m dedup st1 = (Inr ((m1, dd1), n1), st2)"
      and r: "decodeMapLoop dec src opts d c n1 m1 dd1 st2 = (Inr (v, next), st')"
    by (auto split: prod.splits sum.splits)
  have k': "st_ok st1 \<and> accepted opts (d + 1) k"
    using decodeMapKey_accepted [OF assms(1) k Suc.prems(2) assms(2)] .
  then have e': "st_ok st2 \<and> entries_ok opts (d + 1) m1 dd1 \<and> (dd1 = None \<longleftrightarrow> dedup = None)
      \<and> length m1 \<le> Suc (length m) \<and> (RejectDuplicateMapKeys opts \<longrightarrow> length m1 = Suc (length m))"
    using decodeMapRest_entries [OF assms(1) e _ assms(2) Suc.prems(3)] by blast
  with Suc.IH [OF r] show ?case by fastforce
qed

lemma decodeIndefMapLoop_accepted:
  assumes "length src < 2 ^ 61" and "int (d + 1) \<le> maxNesting opts"
  shows "decodeIndefMapLoop fuel dec src opts d pos m st = (Inr (v, next), st') \<Longrightarrow> st_ok st
    \<Longrightarrow> entries_ok opts (d + 1) m None \<Longrightarrow> int (length m) \<le> maxArray opts
    \<Longrightarrow> st_ok st' \<and> accepted opts d v"
proof (induction fuel arbitrary: pos m st)
  case 0
  then show ?case by (simp add: decodeIndefMapLoop.simps)
next
  case (Suc fuel)
  show ?case
  proof (cases "src ! pos = BreakCode")
    case True
    with Suc.prems assms(2) show ?thesis
      by (auto simp: decodeIndefMapLoop.simps res_simps accepted_simps entries_ok_def split: if_splits)
  next
    case False
    with Suc.prems(1) obtain k n st1 m1 dd1 n1 st2
      where k: "dec pos (d + 1) False st = (Inr (k, n), st1)" and l: "int (length m) < maxArray opts"
        and e: "decodeMapRest dec src opts d pos k n m None st1 = (Inr ((m1, dd1), n1), st2)"
        and r: "decodeIndefMapLoop fuel dec src opts d n1 m1 st2 = (Inr (v, next), st')"
      by (auto simp: decodeIndefMapLoop.simps res_simps split: if_splits prod.splits sum.splits)
    have k': "st_ok st1 \<and> accepted opts (d + 1) k"
      using dec_accepted [OF assms(1) k Suc.prems(2) assms(2)] .
    then have "st_ok st2 \<and> entries_ok opts (d + 1) m1 dd1 \<and> dd1 = None \<and> length m1 \<le> Suc (length m)"
      using decodeMapRest_entries [OF assms(1) e _ assms(2) Suc.prems(3)] by blast
    with Suc.IH [OF r] l show ?thesis by auto
  qed
qed

lemma decodeMap_accepted:
  assumes "length src < 2 ^ 61" and "decodeMap dec src off h d opts st = (Inr (v, next), st')"
    and "st_ok st"
  shows "st_ok st' \<and> accepted opts d v"
proof (cases "AI h = AIIndefinite")
  case True
  with assms show ?thesis
    by (auto simp: decodeMap_def decodeIndefiniteMap_def res_simps not_less less_imp_le
        entries_ok_def dedup_ok_def split: if_splits dest!: decodeIndefMapLoop_accepted [OF assms(1), rotated])
next
  case False
  define c where "c = nat (int_of_u64 (HeadArg h))"
  define dd :: "keyDedup option" where
    "dd = (if int_of_u64 (HeadArg h) > int dedupThreshold then Some (\<lambda>_. []) else None)"
  obtain st1 good where ch: "charge_st (go_int (int_of_u64 (HeadArg h) * 32)) st = (st1, good)"
    by (cases "charge_st (go_int (int_of_u64 (HeadArg h) * 32)) st")
  with assms have ok1: "st_ok (allocPairs c st1)" by (simp add: charge_st_ok)
  from assms(2) False ch have lim: "uint (HeadArg h) \<le> maxArray opts" "0 \<le> int_of_u64 (HeadArg h)"
    and nest: "int (d + 1) \<le> maxNesting opts"
    and r: "decodeMapLoop dec src opts d c (off + HeadN h) [] dd (allocPairs c st1) = (Inr (v, next), st')"
    by (auto simp: decodeMap_def Let_def c_def dd_def res_simps not_less split: if_splits)
  have c: "int c \<le> maxArray opts"
    unfolding c_def using lim by (rule count_bound)
  have "entries_ok opts (d + 1) [] dd"
    by (simp add: entries_ok_def dedup_ok_def dd_def)
  from decodeMapLoop_accepted [OF assms(1) nest r ok1 this] obtain ps dd'
    where ps: "st_ok st'" "v = MakeMap ps" "entries_ok opts (d + 1) ps dd'" "dd' = None \<longleftrightarrow> dd = None"
      "length ps \<le> c" "RejectDuplicateMapKeys opts \<longrightarrow> length ps = c"
    by auto
  have "distinct_keys ps" if "RejectDuplicateMapKeys opts" "length ps \<le> dedupThreshold"
  proof -
    have "dd = None" using that ps(6) lim(2) by (simp add: dd_def c_def)
    with that ps(3,4) show ?thesis by (simp add: entries_ok_def)
  qed
  with ps nest c show ?thesis
    by (auto simp: accepted_simps entries_ok_def)
qed

lemma decodeTag_accepted:
  assumes "length src < 2 ^ 61" and "decodeTag dec off h d opts strip st = (Inr (v, next), st')"
    and "st_ok st" and "int d \<le> maxNesting opts"
  shows "st_ok st' \<and> accepted opts d v"
  using assms(2-) dec_accepted [OF assms(1), of "off + HeadN h" "d + 1" False st]
    dec_accepted [OF assms(1), of "off + HeadN h" d True st]
  by (fastforce simp: decodeTag_def res_simps Let_def accepted_simps not_less
      split: if_splits prod.splits sum.splits)

lemma decodeValueBody_accepted:
  assumes len: "length src < 2 ^ 61"
    and "decodeValueBody dec src opts off d strip st = (Inr (v, next), st')"
    and "st_ok st" and "int d \<le> maxNesting opts"
  shows "st_ok st' \<and> accepted opts d v"
  using assms(2-)
  by (auto simp: decodeValueBody_def Let_def res_simps accepted_simps split: if_splits
      dest: decodeBytes_accepted [OF len] decodeText_accepted [OF len] decodeArray_accepted [OF len]
        decodeMap_accepted [OF len] decodeTag_accepted [OF len] decodeOther_accepted)

end

lemma decodeValue_accepted:
  "length src < 2 ^ 61 \<Longrightarrow> decodeValue fuel src opts off d strip st = (Inr (v, next), st')
    \<Longrightarrow> st_ok st \<Longrightarrow> int d \<le> maxNesting opts \<Longrightarrow> st_ok st' \<and> accepted opts d v"
proof (induction fuel arbitrary: off d strip st v "next" st')
  case 0
  then show ?case by simp
next
  case (Suc fuel)
  then have "bounded_decoder (decodeValue fuel src opts) src opts"
    by unfold_locales blast
  from bounded_decoder.decodeValueBody_accepted [OF this] Suc.prems show ?case
    by simp
qed

interpretation dva: bounded_decoder "decodeValue fuel src opts" src opts for fuel src opts
  by unfold_locales (rule decodeValue_accepted)

lemma Decode_accepted:
  "length src < 2 ^ 61 \<Longrightarrow> Decode src opts st = (Inr (v, next), st') \<Longrightarrow> st_ok st
    \<Longrightarrow> st_ok st' \<and> accepted opts 0 v"
  unfolding Decode_def
  using decodeValue_accepted [of src "Suc (length src)" opts 0 0 True st v "next" st']
  by (simp add: less_imp_le del: decodeValue.simps)

end
