(* ===== verification/Decode_Fast.thy ===== *)
theory Decode_Fast
  imports Decode_Limits
begin

text \<open>
  The fast paths. \<open>decodeArray\<close> and \<open>decodeMap\<close> decode integers, short strings and simple
  values in place instead of calling \<open>decodeValue\<close>. Without a budget, without zero-copy
  strings and with a string limit of at least 23, a fast path gives the same value, the same
  end, the same error and the same state as \<open>decodeValue\<close> on every input. The three
  conditions are necessary: the fast paths neither charge the budget nor check the limit, and
  they prefer the interner to zero-copy views.
\<close>

section \<open>Bytes and big-endian reads\<close>

lemma byte_lo: "unat ((b :: byte) AND 0x1f) = unat b mod 32"
  by (simp add: byte_lo_mod unat_mod)

lemma byte_hi: "unat ((b :: byte) AND 0xe0) = unat b div 32 * 32"
proof -
  have "(b AND 0xe0) AND (b AND 0x1f) = b AND (0xe0 AND 0x1f)"
    by (simp add: ac_simps)
  then have "(b AND 0xe0) AND (b AND 0x1f) = 0" by simp
  then have "(b AND 0xe0) + (b AND 0x1f) = b"
    using byte_lo_hi [of b] by (simp add: disjunctive_add_eq_or)
  then have "b AND 0xe0 = b - (b AND 0x1f)" by (simp add: algebra_simps)
  moreover have "b AND 0x1f \<le> b"
    by (simp add: word_le_nat_alt byte_lo)
  ultimately have "unat (b AND 0xe0) = unat b - unat b mod 32"
    by (simp add: unat_sub byte_lo)
  then show ?thesis
    by (simp add: minus_mod_eq_div_mult)
qed

lemma byte_majors:
  "(b :: byte) < 0x40 \<Longrightarrow> b AND 0xe0 = (if b < 0x20 then 0 else 0x20)"
  by (auto intro!: word_eqI_unat simp: byte_hi word_less_nat_alt)

lemma shift_or:
  fixes x :: u64 and b :: byte
  assumes "unat x < 2 ^ 56"
  shows "unat (push_bit 8 x OR ucast b) = unat x * 256 + unat b"
proof -
  have x: "unat (push_bit 8 x) = unat x * 256"
    using assms by (simp add: push_bit_eq_mult unat_word_ariths)
  have b: "unat (ucast b :: u64) = unat b"
    using unat_bounds(1) [of b] by (simp add: unat_ucast_mod)
  have "push_bit 8 x AND (ucast b :: u64) = 0"
    by (rule bit_word_eqI) (auto simp: bit_simps dest: bit_imp_le_length)
  then have "push_bit 8 x OR ucast b = push_bit 8 x + ucast b"
    by (rule disjunctive_add_eq_or [symmetric])
  moreover have "unat x * 256 + unat b < 2 ^ 64"
    using assms unat_bounds(1) [of b] by simp
  ultimately show ?thesis
    by (simp add: unat_word_ariths x b)
qed

text \<open>Reading bytes with shifts, as the fast path does, is reading a big-endian number.\<close>

lemma shift_read:
  fixes a b c d e f g h :: byte
  shows "push_bit 8 (ucast a) OR ucast b = (of_nat (be_val [a, b]) :: u64)"
    and "push_bit 24 (ucast a) OR push_bit 16 (ucast b) OR push_bit 8 (ucast c) OR ucast d
      = (of_nat (be_val [a, b, c, d]) :: u64)"
    and "push_bit 56 (ucast a) OR push_bit 48 (ucast b) OR push_bit 40 (ucast c)
      OR push_bit 32 (ucast d) OR push_bit 24 (ucast e) OR push_bit 16 (ucast f)
      OR push_bit 8 (ucast g) OR ucast h = (of_nat (be_val [a, b, c, d, e, f, g, h]) :: u64)"
proof -
  have step: "push_bit 8 (of_nat (be_val xs)) OR ucast y = (of_nat (be_val (xs @ [y])) :: u64)"
    if "length xs \<le> 7" for xs and y :: byte
  proof (rule word_eqI_unat)
    have "(256 :: nat) ^ length xs \<le> 256 ^ 7"
      using that by (intro power_increasing) auto
    then have small: "be_val xs < 2 ^ 56"
      using be_val_less [of xs] by simp
    then have "unat (of_nat (be_val xs) :: u64) = be_val xs"
      by (simp add: unat_of_nat)
    moreover have "be_val xs * 256 + unat y < 2 ^ 64"
      using small unat_bounds(1) [of y] by simp
    ultimately show "unat (push_bit 8 (of_nat (be_val xs)) OR ucast y :: u64)
        = unat (of_nat (be_val (xs @ [y])) :: u64)"
      using small by (subst shift_or) (simp_all add: unat_of_nat del: of_nat_add of_nat_mult)
  qed
  have one: "(of_nat (be_val [a]) :: u64) = ucast a"
    by (rule word_eqI_unat) (use unat_bounds(1) [of a] in \<open>simp add: unat_of_nat unat_ucast_mod\<close>)
  have two: "push_bit 8 (ucast a) OR ucast b = (of_nat (be_val [a, b]) :: u64)"
    using step [of "[a]" b] by (simp add: one del: be_val_singleton)
  then show "push_bit 8 (ucast a) OR ucast b = (of_nat (be_val [a, b]) :: u64)" .
  have three: "push_bit 16 (ucast a) OR push_bit 8 (ucast b) OR ucast c
      = (of_nat (be_val [a, b, c]) :: u64)"
    using step [of "[a, b]" c] by (simp add: push_bit_or or.assoc flip: two)
  show four: "push_bit 24 (ucast a) OR push_bit 16 (ucast b) OR push_bit 8 (ucast c) OR ucast d
      = (of_nat (be_val [a, b, c, d]) :: u64)"
    using step [of "[a, b, c]" d] by (simp add: push_bit_or or.assoc flip: three)
  have five: "push_bit 32 (ucast a) OR push_bit 24 (ucast b) OR push_bit 16 (ucast c)
      OR push_bit 8 (ucast d) OR ucast e = (of_nat (be_val [a, b, c, d, e]) :: u64)"
    using step [of "[a, b, c, d]" e] by (simp add: push_bit_or or.assoc flip: four)
  have six: "push_bit 40 (ucast a) OR push_bit 32 (ucast b) OR push_bit 24 (ucast c)
      OR push_bit 16 (ucast d) OR push_bit 8 (ucast e) OR ucast f
      = (of_nat (be_val [a, b, c, d, e, f]) :: u64)"
    using step [of "[a, b, c, d, e]" f] by (simp add: push_bit_or or.assoc flip: five)
  have seven: "push_bit 48 (ucast a) OR push_bit 40 (ucast b) OR push_bit 32 (ucast c)
      OR push_bit 24 (ucast d) OR push_bit 16 (ucast e) OR push_bit 8 (ucast f) OR ucast g
      = (of_nat (be_val [a, b, c, d, e, f, g]) :: u64)"
    using step [of "[a, b, c, d, e, f]" g] by (simp add: push_bit_or or.assoc flip: six)
  show "push_bit 56 (ucast a) OR push_bit 48 (ucast b) OR push_bit 40 (ucast c)
      OR push_bit 32 (ucast d) OR push_bit 24 (ucast e) OR push_bit 16 (ucast f)
      OR push_bit 8 (ucast g) OR ucast h = (of_nat (be_val [a, b, c, d, e, f, g, h]) :: u64)"
    using step [of "[a, b, c, d, e, f, g]" h] by (simp add: push_bit_or or.assoc flip: seven)
qed

section \<open>The head at an offset\<close>

lemma nth_drop_0 [simp]: "pos < length src \<Longrightarrow> drop pos src ! 0 = src ! pos"
  by simp

lemma take_drop_Suc: "Suc n \<le> length xs \<Longrightarrow> take (Suc n) xs = xs ! 0 # take n (drop 1 xs)"
  by (cases xs) simp_all

lemma Uint_read:
  "pos + 2 < length src \<Longrightarrow> ucast (Uint16 (drop (Suc pos) src)) =
     (of_nat (be_val [src ! (pos + 1), src ! (pos + 2)]) :: u64)"
  "pos + 4 < length src \<Longrightarrow> ucast (Uint32 (drop (Suc pos) src)) =
     (of_nat (be_val [src ! (pos + 1), src ! (pos + 2), src ! (pos + 3), src ! (pos + 4)]) :: u64)"
  "pos + 8 < length src \<Longrightarrow> Uint64 (drop (Suc pos) src) =
     (of_nat (be_val [src ! (pos + 1), src ! (pos + 2), src ! (pos + 3), src ! (pos + 4),
        src ! (pos + 5), src ! (pos + 6), src ! (pos + 7), src ! (pos + 8)]) :: u64)"
proof -
  have two: "take 2 (drop (Suc pos) src) = [src ! (pos + 1), src ! (pos + 2)]" if "pos + 2 < length src"
    using that by (simp add: eval_nat_numeral take_drop_Suc)
  have four: "take 4 (drop (Suc pos) src) = [src ! (pos + 1), src ! (pos + 2), src ! (pos + 3), src ! (pos + 4)]"
    if "pos + 4 < length src"
    using that by (simp add: eval_nat_numeral take_drop_Suc)
  have eight: "take 8 (drop (Suc pos) src) = [src ! (pos + 1), src ! (pos + 2), src ! (pos + 3), src ! (pos + 4),
      src ! (pos + 5), src ! (pos + 6), src ! (pos + 7), src ! (pos + 8)]" if "pos + 8 < length src"
    using that by (simp add: eval_nat_numeral take_drop_Suc)
  have "be_val (take k bs) < 256 ^ k" for k and bs :: bytes
  proof -
    have "(256 :: nat) ^ length (take k bs) \<le> 256 ^ k"
      by (intro power_increasing) auto
    with be_val_less [of "take k bs"] show ?thesis by linarith
  qed
  from this [of 2] this [of 4]
  have "ucast (of_nat (be_val (take 2 bs)) :: u16) = (of_nat (be_val (take 2 bs)) :: u64)"
    and "ucast (of_nat (be_val (take 4 bs)) :: u32) = (of_nat (be_val (take 4 bs)) :: u64)" for bs
    by (auto intro!: word_eqI_unat simp: unat_ucast_mod unat_of_nat)
  then show "pos + 2 < length src \<Longrightarrow> ucast (Uint16 (drop (Suc pos) src)) =
     (of_nat (be_val [src ! (pos + 1), src ! (pos + 2)]) :: u64)"
    and "pos + 4 < length src \<Longrightarrow> ucast (Uint32 (drop (Suc pos) src)) =
     (of_nat (be_val [src ! (pos + 1), src ! (pos + 2), src ! (pos + 3), src ! (pos + 4)]) :: u64)"
    unfolding Uint16_def Uint32_def using two four by metis+
  show "pos + 8 < length src \<Longrightarrow> Uint64 (drop (Suc pos) src) =
     (of_nat (be_val [src ! (pos + 1), src ! (pos + 2), src ! (pos + 3), src ! (pos + 4),
        src ! (pos + 5), src ! (pos + 6), src ! (pos + 7), src ! (pos + 8)]) :: u64)"
    unfolding Uint64_def using eight by metis
qed

lemma byte_ai_range: "24 \<le> x \<and> x \<le> 27 \<longleftrightarrow> x = 24 \<or> x = 25 \<or> x = 26 \<or> x = 27" for x :: byte
  by (auto simp: word_le_nat_alt word_unat_eq_iff)

lemma byte_ai_cases:
  fixes b :: byte
  obtains "b AND 0x1f < 24" | "b AND 0x1f = 24" | "b AND 0x1f = 25" | "b AND 0x1f = 26" | "b AND 0x1f = 27"
  | "28 \<le> b AND 0x1f" "b AND 0x1f \<le> 30" | "b AND 0x1f = 31"
proof -
  have "unat (b AND 0x1f) < 32" by (simp add: byte_lo)
  with that show thesis
    by (simp add: word_le_nat_alt word_less_nat_alt word_unat_eq_iff) linarith
qed

text \<open>\<open>ParseHead\<close> at an offset, by the additional information of the initial byte.\<close>

definition head_bytes :: "byte \<Rightarrow> nat" where
  "head_bytes ai = (if ai = 24 then 1 else if ai = 25 then 2 else if ai = 26 then 4
     else if ai = 27 then 8 else 0)"

definition head_value :: "byte \<Rightarrow> bytes \<Rightarrow> nat \<Rightarrow> u64" where
  "head_value ai src pos = (if ai < 24 then ucast ai
     else if ai = 24 \<or> ai = 25 \<or> ai = 26 \<or> ai = 27
       then of_nat (be_val (map (\<lambda>i. src ! (pos + i)) [1..<Suc (head_bytes ai)]))
     else 0)"

lemma of_nat_unat_byte: "(of_nat (unat (b :: byte)) :: u64) = ucast b"
  by (rule word_eqI_unat) (use unat_bounds(1) [of b] in \<open>simp add: unat_of_nat unat_ucast_mod\<close>)

lemma upt_read:
  "[Suc 0..<Suc (Suc (Suc 0))] = [1, 2]" "[Suc 0..<3] = [1, 2]" "[Suc 0..<5] = [1, 2, 3, 4]"
  "[Suc 0..<9] = [1, 2, 3, 4, 5, 6, 7, 8]"
  by (simp_all add: upt_rec)

lemma ParseHead_at:
  assumes "pos < length src"
  defines "ai \<equiv> src ! pos AND 0x1f"
  shows "ParseHead (drop pos src) =
    (if pos + head_bytes ai \<ge> length src then HeadZero
     else \<lparr>Major = src ! pos AND 0xe0, AI = ai, HeadArg = head_value ai src pos,
            HeadN = Suc (head_bytes ai)\<rparr>)"
proof -
  have ne: "\<not> length src \<le> pos" using assms(1) by simp
  show ?thesis
  proof (cases "src ! pos" rule: byte_ai_cases [folded ai_def])
    case 1
    then have "ai < 24" by (simp add: ai_def)
    moreover from this have "ai \<noteq> 24" "ai \<noteq> 25" "ai \<noteq> 26" "ai \<noteq> 27" by auto
    ultimately show ?thesis using assms(1) ne
      by (simp add: ParseHead_def Let_def head_bytes_def head_value_def flip: ai_def)
  next
    case 2
    with assms(1) show ?thesis
      by (auto simp: ParseHead_def Let_def head_bytes_def head_value_def of_nat_unat_byte simp flip: ai_def)
  next
    case 3
    with assms(1) show ?thesis
      by (auto simp: ParseHead_def Let_def head_bytes_def head_value_def Uint_read upt_read
          simp flip: ai_def)
  next
    case 4
    with assms(1) show ?thesis
      by (auto simp: ParseHead_def Let_def head_bytes_def head_value_def Uint_read upt_read
          simp flip: ai_def)
  next
    case 5
    with assms(1) show ?thesis
      by (auto simp: ParseHead_def Let_def head_bytes_def head_value_def Uint_read upt_read
          simp flip: ai_def)
  next
    case 6
    then have "28 \<le> ai" by (simp add: ai_def)
    then have "ai \<noteq> 24" "ai \<noteq> 25" "ai \<noteq> 26" "ai \<noteq> 27" "\<not> ai < 24"
      by (auto simp: word_le_nat_alt word_less_nat_alt)
    with assms(1) ne show ?thesis
      by (simp add: ParseHead_def Let_def head_bytes_def head_value_def flip: ai_def)
  next
    case 7
    with assms(1) ne show ?thesis
      by (simp add: ParseHead_def Let_def head_bytes_def head_value_def flip: ai_def)
  qed
qed

section \<open>The fast path of \<open>decodeArray\<close>\<close>

lemma arrayIntElem_slow:
  assumes pos: "pos < length src" and ib: "src ! pos < 0x40"
    and dec: "dec pos cd False st = decodeValueBody dec' src opts pos cd False st"
  shows "arrayIntElem dec src opts cd pos st = decodeValueBody dec' src opts pos cd False st"
proof -
  define ai where "ai = src ! pos AND 0x1f"
  have m: "src ! pos AND 0xe0 = (if src ! pos < 0x20 then 0 else 0x20)"
    using byte_majors ib by blast
  have ne: "\<not> length src \<le> pos" using pos by simp
  note head = ParseHead_at [OF pos, folded ai_def]
  note defs = arrayIntElem_def arrayInt_def decodeValueBody_def Let_def head m ne res_simps
    head_bytes_def head_value_def IsShortest_def HeadZero_def
  show ?thesis
  proof (cases "src ! pos" rule: byte_ai_cases [folded ai_def])
    case 1
    then have "ai < 24" by (simp add: ai_def)
    moreover from this have "ai \<noteq> 24" "ai \<noteq> 25" "ai \<noteq> 26" "ai \<noteq> 27" "\<not> 28 \<le> ai" "\<not> 24 \<le> ai"
      by (auto simp: word_le_nat_alt word_less_nat_alt)
    ultimately show ?thesis
      by (simp add: defs flip: ai_def)
  next
    case 2
    then show ?thesis by (auto simp: defs of_nat_unat_byte not_less not_le simp flip: ai_def)
  next
    case 3
    then show ?thesis by (auto simp: defs shift_read(1) upt_read not_less not_le simp flip: ai_def)
  next
    case 4
    then show ?thesis by (auto simp: defs shift_read(2) upt_read not_less not_le simp flip: ai_def)
  next
    case 5
    then show ?thesis by (auto simp: defs shift_read(3) upt_read not_less not_le simp flip: ai_def)
  next
    case 6
    then have "28 \<le> ai" "ai \<le> 30" by (simp_all add: ai_def)
    moreover from this have "ai \<noteq> 24" "ai \<noteq> 25" "ai \<noteq> 26" "ai \<noteq> 27" "\<not> ai < 24"
      by (auto simp: word_le_nat_alt word_less_nat_alt)
    ultimately show ?thesis using ne by (simp add: defs flip: ai_def)
  next
    case 7
    then show ?thesis using dec by (simp add: arrayIntElem_def Let_def flip: ai_def)
  qed
qed

lemma charge_st_nil: "Budget st = None \<Longrightarrow> charge_st n st = (st, True)"
  by (simp add: charge_st_def charge_def)

lemma small_arg:
  assumes "unat (ai :: byte) < 24" and "a + unat ai < 2 ^ 62"
  shows "int_of_u64 (ucast ai) = int (unat ai)" and "uint (ucast ai :: u64) = int (unat ai)"
    and "go_int (int a + int_of_u64 (ucast ai)) = int (a + unat ai)"
proof -
  have "unat (ucast ai :: u64) = unat ai"
    using unat_bounds(1) [of ai] by (simp add: unat_ucast_mod)
  then show u: "uint (ucast ai :: u64) = int (unat ai)"
    by (metis of_nat_unat)
  have "int (unat ai) < int 24"
    using assms(1) by (simp only: of_nat_less_iff)
  also have "int 24 < 2 ^ 63"
    by simp
  finally have "uint (ucast ai :: u64) < 2 ^ 63"
    unfolding u .
  with u show i: "int_of_u64 (ucast ai) = int (unat ai)"
    using int_of_u64_small by metis
  show "go_int (int a + int_of_u64 (ucast ai)) = int (a + unat ai)"
    unfolding i of_nat_add [symmetric] using assms(2) by (rule go_int_nat)
qed

locale plain_decoding =
  fixes src :: bytes and opts :: DecodeOpts
  assumes no_view: "\<not> ZeroCopy opts" and long_enough: "23 \<le> maxBytes opts"
    and addressable: "length src < 2 ^ 61"
begin

lemma short_string_slow:
  assumes pos: "pos < length src" and ai: "src ! pos AND 0x1f < 24"
    and e: "pos + 1 + unat (src ! pos AND 0x1f) \<le> length src" and nobudget: "Budget st = None"
  shows "src ! pos AND 0xe0 = 0x60 \<Longrightarrow>
      shortText src pos (pos + 1 + unat (src ! pos AND 0x1f)) opts st
        = decodeValueBody dec src opts pos cd strip st"
    and "src ! pos AND 0xe0 = 0x40 \<Longrightarrow>
      ok (Bytes (take (pos + 1 + unat (src ! pos AND 0x1f) - (pos + 1)) (drop (pos + 1) src)))
          (pos + 1 + unat (src ! pos AND 0x1f)) st
        = decodeValueBody dec src opts pos cd strip st"
proof -
  define ai where "ai = src ! pos AND 0x1f"
  define e where "e = pos + 1 + unat ai"
  define raw where "raw = take (unat ai) (drop (Suc pos) src)"
  have small: "unat ai < 24" using ai by (simp add: ai_def word_less_nat_alt)
  have ne: "\<not> length src \<le> pos" using pos by simp
  have ai': "ai < 24" "ai \<noteq> 24" "ai \<noteq> 25" "ai \<noteq> 26" "ai \<noteq> 27" "ai \<noteq> 31" "\<not> 28 \<le> ai" "\<not> 24 \<le> ai"
    using small by (auto simp: word_le_nat_alt word_less_nat_alt)
  have le: "e \<le> length src" using assms(3) by (simp add: e_def ai_def)
  then have in_range: "\<not> length src < e" by simp
  from le have "Suc pos + unat ai < 2 ^ 62"
    using addressable by (simp add: e_def)
  note arg = small_arg [OF small this]
  have end_eq: "go_int (int (Suc pos) + int_of_u64 (ucast ai)) = int e"
    using arg(3) by (simp add: e_def)
  have head: "ParseHead (drop pos src) =
      \<lparr>Major = src ! pos AND 0xe0, AI = ai, HeadArg = ucast ai, HeadN = Suc 0\<rparr>"
    using ParseHead_at [OF pos] ai' ne by (simp add: head_bytes_def head_value_def flip: ai_def)
  have raw_eq: "take (e - (pos + 1)) (drop (pos + 1) src) = raw"
    by (simp add: raw_def e_def)
  have slice: "go_slice src (int (Suc pos)) (int e) = Some raw"
    using go_slice_nat [of "Suc pos" "unat ai" src] le by (simp add: e_def raw_def)
  have lim: "\<not> maxBytes opts < uint (ucast ai :: u64)"
    using small long_enough unfolding arg(2) by linarith
  note facts = head ai' ne res_simps lim end_eq slice in_range no_view charge_st_nil [OF nobudget]
  show "src ! pos AND 0xe0 = 0x60 \<Longrightarrow>
      shortText src pos (pos + 1 + unat (src ! pos AND 0x1f)) opts st
        = decodeValueBody dec src opts pos cd strip st"
    unfolding ai_def [symmetric] e_def [symmetric] shortText_def Let_def raw_eq
    by (auto simp: decodeValueBody_def decodeText_def Let_def facts
        simp del: of_nat_Suc split: option.splits prod.splits)
  show "src ! pos AND 0xe0 = 0x40 \<Longrightarrow>
      ok (Bytes (take (pos + 1 + unat (src ! pos AND 0x1f) - (pos + 1)) (drop (pos + 1) src)))
          (pos + 1 + unat (src ! pos AND 0x1f)) st
        = decodeValueBody dec src opts pos cd strip st"
    unfolding ai_def [symmetric] e_def [symmetric] raw_eq
    by (auto simp: decodeValueBody_def decodeBytes_def Let_def facts
        simp del: of_nat_Suc split: option.splits prod.splits)
qed

text \<open>Simple values.\<close>

lemma simple_slow:
  assumes pos: "pos < length src"
  shows "src ! pos = SimpleTrue \<Longrightarrow> decodeValueBody dec src opts pos cd strip st = ok (Bool True) (pos + 1) st"
    and "src ! pos = SimpleFalse \<Longrightarrow> decodeValueBody dec src opts pos cd strip st = ok (Bool False) (pos + 1) st"
    and "src ! pos = SimpleNull \<Longrightarrow> decodeValueBody dec src opts pos cd strip st = ok Null (pos + 1) st"
    and "src ! pos = SimpleUndefined \<Longrightarrow> decodeValueBody dec src opts pos cd strip st = ok Undefined (pos + 1) st"
  using pos by (simp_all add: decodeValueBody_def ParseHead_at head_bytes_def head_value_def decodeOther_def Let_def)

lemma decodeArrayElem_slow:
  assumes nobudget: "Budget st = None"
    and dec: "dec pos cd False st = decodeValueBody dec' src opts pos cd False st"
  shows "decodeArrayElem dec src opts cd pos st = decodeValueBody dec' src opts pos cd False st"
proof (cases "pos < length src")
  case False
  then show ?thesis by (simp add: decodeArrayElem_def decodeValueBody_def)
next
  case True
  then show ?thesis
    using arrayIntElem_slow [where dec = dec and dec' = dec', OF True _ dec]
      short_string_slow [OF True _ _ nobudget, where dec = dec' and cd = cd and strip = False]
      simple_slow [OF True, where dec = dec' and cd = cd and strip = False and st = st] dec
    unfolding decodeArrayElem_def Let_def by (auto simp del: of_nat_Suc)
qed

lemma decodeMapKey_slow:
  assumes nobudget: "Budget st = None"
    and dec: "dec pos (d + 1) False st = decodeValueBody dec' src opts pos (d + 1) False st"
  shows "decodeMapKey dec src opts d pos st = decodeValueBody dec' src opts pos (d + 1) False st"
proof (cases "pos < length src")
  case False
  then show ?thesis using dec by (simp add: decodeMapKey_def)
next
  case True
  then show ?thesis
    using short_string_slow [OF True _ _ nobudget, where dec = dec' and cd = "d + 1" and strip = False] dec
    unfolding decodeMapKey_def by auto
qed

end

text \<open>The conditions hold for the options of \<open>New\<close> and \<open>NewStrict\<close>, here on inputs of up to a
  mebibyte; a proof that knows a better bound on its input instantiates the locale itself.\<close>

interpretation plain_default: plain_decoding "take 1048576 src" DefaultOpts for src
  by unfold_locales (simp_all add: DefaultOpts_def maxBytes_def)

interpretation plain_strict: plain_decoding "take 1048576 src" StrictOpts for src
  by unfold_locales (simp_all add: StrictOpts_def maxBytes_def)

end
