(* ===== verification/Roundtrip.thy ===== *)
theory Roundtrip
  imports Encode_Props Decode_Fast
begin

text \<open>
  Decoding what was encoded. \<open>canon opts v\<close> is the value that an encoding stands for: the
  entries of a map in the order in which they were written, floats in the width that was
  chosen. \<open>reads dopts d out v\<close> is the specification of a decoder at one byte string: in
  whatever input it occurs, \<open>out\<close> decodes to \<open>v\<close> at nesting depth \<open>d\<close>. The lemmas
  build \<open>reads\<close> up from heads to containers; the round trip follows by induction.
\<close>

section \<open>The value that is written\<close>

definition canonSimple :: "byte \<Rightarrow> Value" where
  "canonSimple s = (if s = 20 then Bool False else if s = 21 then Bool True
     else if s = 22 then Null else if s = 23 then Undefined else Simple s)"

definition canonShortest :: "u64 \<Rightarrow> Value" where
  "canonShortest f = (case EncodeFloat16 f of
      (b, True) \<Rightarrow> Float64 (DecodeFloat16 b)
    | (b, False) \<Rightarrow> if CanFloat32Lossless f then Float32 (f64_to_f32 f) else Float64 f)"

definition canonFloat32 :: "EncodeOpts \<Rightarrow> u32 \<Rightarrow> Value" where
  "canonFloat32 opts w = (case EncFloatMode opts of
      FloatForce64 \<Rightarrow> Float64 (f32_to_f64 w)
    | FloatShortest \<Rightarrow> if Deterministic opts then canonShortest (f32_to_f64 w) else Float32 w
    | FloatPreserve \<Rightarrow> Float32 w)"

definition canonFloat64 :: "EncodeOpts \<Rightarrow> u64 \<Rightarrow> Value" where
  "canonFloat64 opts f = (case EncFloatMode opts of
      FloatForce64 \<Rightarrow> Float64 f
    | FloatShortest \<Rightarrow> if Deterministic opts then canonShortest f else Float64 f
    | FloatPreserve \<Rightarrow> Float64 f)"

text \<open>The entries of a map in the order in which \<open>encodeMap\<close> writes them.\<close>

definition entryOrder :: "EncodeOpts \<Rightarrow> MapEntry list \<Rightarrow> MapEntry list" where
  "entryOrder opts m =
     (if \<not> Deterministic opts \<or> length m \<le> 1 then m
      else SortFunc (\<lambda>a b. compareKeys (EncSortMode opts) (fst (encode opts [] (fst a)))
                             (fst (encode opts [] (fst b)))) m)"

lemma set_entryOrder [simp]: "set (entryOrder opts m) = set m"
proof -
  have "set_mset (mset (SortFunc c m)) = set_mset (mset m)" for c
    by simp
  then have "set (SortFunc c m) = set m" for c
    by (simp only: set_mset_mset)
  then show ?thesis by (simp add: entryOrder_def)
qed

lemma length_entryOrder [simp]: "length (entryOrder opts m) = length m"
  by (simp add: entryOrder_def flip: size_mset)

function canon :: "EncodeOpts \<Rightarrow> Value \<Rightarrow> Value" where
  "canon opts v =
     (case Kind v of
        KindInvalid \<Rightarrow> ZeroValue
      | KindUint \<Rightarrow> Uint (Num v)
      | KindNegInt \<Rightarrow> NegInt (Num v)
      | KindBytes \<Rightarrow> Bytes (Bstr v)
      | KindText \<Rightarrow> Text (Str v)
      | KindArray \<Rightarrow> MakeArray (map (canon opts) (Items v))
      | KindMap \<Rightarrow> MakeMap (map (\<lambda>p. (canon opts (fst p), canon opts (snd p)))
                               (entryOrder opts (Pairs v)))
      | KindTag \<Rightarrow> (if Items v = [] then ZeroValue else MakeTag (Num v) (canon opts (Items v ! 0)))
      | KindBool \<Rightarrow> Bool (Num v \<noteq> 0)
      | KindNull \<Rightarrow> Null
      | KindUndefined \<Rightarrow> Undefined
      | KindSimple \<Rightarrow> canonSimple (ucast (Num v))
      | KindFloat32 \<Rightarrow> canonFloat32 opts (ucast (Num v))
      | KindFloat64 \<Rightarrow> canonFloat64 opts (Num v))"
  by pat_completeness auto

lemma size_item': "x \<in> set (Items v) \<Longrightarrow> size x < size v"
  by (metis Value.collapse size_item)

lemma size_pair':
  "p \<in> set (Pairs v) \<Longrightarrow> size (fst p) < size v" "p \<in> set (Pairs v) \<Longrightarrow> size (snd p) < size v"
  by (metis Value.collapse size_pair)+

termination canon
  by (relation "measure (\<lambda>(opts, v). size v)")
    (simp_all add: size_item' size_pair' size_Value_tag)

declare canon.simps [simp del]

lemma SortFunc_map:
  "map g (SortFunc (\<lambda>a b. c (h (g a)) (h (g b))) xs) = SortFunc (\<lambda>a b. c (h a) (h b)) (map g xs)"
proof -
  have ins: "map g (insert_by (\<lambda>a b. c (h (g a)) (h (g b))) x ys)
      = insert_by (\<lambda>a b. c (h a) (h b)) (g x) (map g ys)" for x ys
    by (induction ys) auto
  show ?thesis
    unfolding SortFunc_def by (induction xs) (simp_all add: ins)
qed

lemma SortFunc_cong:
  "(\<And>a b. a \<in> set xs \<Longrightarrow> b \<in> set xs \<Longrightarrow> c a b = c' a b) \<Longrightarrow> SortFunc c xs = SortFunc c' xs"
proof -
  assume eq: "\<And>a b. a \<in> set xs \<Longrightarrow> b \<in> set xs \<Longrightarrow> c a b = c' a b"
  have ins: "insert_by c x ys = insert_by c' x ys" if "x \<in> set xs" "set ys \<subseteq> set xs" for x ys
    using that by (induction ys) (auto simp: eq)
  have "foldr (insert_by c) zs [] = foldr (insert_by c') zs [] \<and> set (foldr (insert_by c') zs []) \<subseteq> set xs"
    if "set zs \<subseteq> set xs" for zs
    using that
  proof (induction zs)
    case Nil
    then show ?case by simp
  next
    case (Cons z zs)
    have "set (insert_by c' z ys) = insert z (set ys)" for ys
      by (induction ys) auto
    with Cons show ?case by (auto simp: ins)
  qed
  then show ?thesis unfolding SortFunc_def by blast
qed

section \<open>The encodings of the parts\<close>

lemma encode_dst: "encode opts dst v = (dst @ fst (encode opts [] v), snd (encode opts [] v))"
  using encode_append(1) [of opts dst "[]" v] by (cases "encode opts [] v") simp

lemma inline_dst:
  "itemVal opts dst v = (dst @ fst (itemVal opts [] v), snd (itemVal opts [] v))"
  "pairKey opts dst v = (dst @ fst (pairKey opts [] v), snd (pairKey opts [] v))"
  "pairVal opts dst v = (dst @ fst (pairVal opts [] v), snd (pairVal opts [] v))"
  using inline_append [of dst "[]" v] encode_dst [of opts dst v]
  by (auto simp: itemVal_def pairKey_def pairVal_def split: option.splits)

lemma encodeItems_ok:
  "encodeItems opts dst vs = (out, None) \<Longrightarrow>
    (\<forall>v \<in> set vs. snd (itemVal opts [] v) = None)
    \<and> out = dst @ concat (map (\<lambda>v. fst (itemVal opts [] v)) vs)"
proof (induction vs arbitrary: dst)
  case Nil
  then show ?case by simp
next
  case (Cons v vs)
  then show ?case
    using inline_dst(1) [of opts dst v]
    by (fastforce simp: encodeItems_Cons split: prod.splits option.splits)
qed

lemma encodePairs_ok:
  "encodePairs opts dst m = (out, None) \<Longrightarrow>
    (\<forall>p \<in> set m. snd (pairKey opts [] (fst p)) = None \<and> snd (pairVal opts [] (snd p)) = None)
    \<and> out = dst @ concat (map (\<lambda>p. fst (pairKey opts [] (fst p)) @ fst (pairVal opts [] (snd p))) m)"
proof (induction m arbitrary: dst)
  case Nil
  then show ?case by simp
next
  case (Cons p m)
  let ?k = "dst @ fst (pairKey opts [] (fst p))"
  let ?v = "?k @ fst (pairVal opts [] (snd p))"
  have "snd (pairKey opts [] (fst p)) = None \<and> snd (pairVal opts [] (snd p)) = None
      \<and> encodePairs opts ?v m = (out, None)"
    using Cons.prems inline_dst(2) [of opts dst "fst p"] inline_dst(3) [of opts ?k "snd p"]
    by (auto simp: encodePairs_Cons split: prod.splits option.splits)
  with Cons.IH [of ?v] show ?case by simp
qed

lemma encodeKeys_ok:
  "encodeKeys opts kb m = ((kb', extents), None) \<Longrightarrow>
    (\<forall>p \<in> set m. snd (encode opts [] (fst p)) = None) \<and> length extents = length m
    \<and> (\<exists>t. kb' = kb @ t)
    \<and> (\<forall>e \<in> set (zip extents m). snd (fst e) \<le> length kb' \<and> keyOf kb' e = fst (encode opts [] (fst (snd e))))"
proof (induction m arbitrary: kb extents)
  case Nil
  then show ?case by simp
next
  case (Cons p m)
  define k where "k = fst (encode opts [] (fst p))"
  from Cons.prems obtain es where none: "snd (encode opts [] (fst p)) = None"
    and rest: "encodeKeys opts (kb @ k) m = ((kb', es), None)"
    and es: "extents = (length kb, length (kb @ k)) # es"
    using encode_dst [of opts kb "fst p"]
    by (auto simp: k_def split: prod.splits option.splits)
  from Cons.IH [OF rest] obtain t where t: "kb' = (kb @ k) @ t" by blast
  with Cons.IH [OF rest] none es show ?case
    by (auto simp: keyOf_def k_def)
qed

lemma encodeSorted_ok:
  "encodeSorted opts kb dst es = (out, None) \<Longrightarrow>
    (\<forall>e \<in> set es. snd (encode opts [] (snd (snd e))) = None)
    \<and> out = dst @ concat (map (\<lambda>e. keyOf kb e @ fst (encode opts [] (snd (snd e)))) es)"
proof (induction es arbitrary: dst)
  case Nil
  then show ?case by simp
next
  case (Cons e es)
  then show ?case
    using encode_dst [of opts "dst @ keyOf kb e" "snd (snd e)"]
    by (fastforce split: prod.splits option.splits)
qed

text \<open>A deterministic map: the key buffer is gone, the entries are in \<open>entryOrder\<close>.\<close>

lemma encodeMap_sorted_ok:
  assumes "encodeMap opts dst m = (out, None)" and "Deterministic opts" and "1 < length m"
  shows "(\<forall>p \<in> set m. snd (encode opts [] (fst p)) = None \<and> snd (encode opts [] (snd p)) = None)
    \<and> out = AppendHead dst MajorMap (of_nat (length m))
        @ concat (map (\<lambda>p. fst (encode opts [] (fst p)) @ fst (encode opts [] (snd p))) (entryOrder opts m))"
proof -
  from assms obtain kb xs where ks: "encodeKeys opts [] m = ((kb, xs), None)"
    and so: "encodeSorted opts kb (AppendHead dst MajorMap (of_nat (length m)))
        (sortEntries (EncSortMode opts) kb xs m) = (out, None)"
    by (auto simp: encodeMap.simps Let_def split: prod.splits option.splits)
  define h where "h p = fst (encode opts [] (fst p))" for p :: MapEntry
  define es where "es = sortEntries (EncSortMode opts) kb xs m"
  note k = encodeKeys_ok [OF ks]
  have keys: "keyOf kb e = h (snd e)" if "e \<in> set (zip xs m)" for e
    using k that by (auto simp: h_def)
  have "es = SortFunc (\<lambda>a b. compareKeys (EncSortMode opts) (h (snd a)) (h (snd b))) (zip xs m)"
    unfolding es_def sortEntries_def by (rule SortFunc_cong) (simp add: keys)
  then have "map snd es = SortFunc (\<lambda>a b. compareKeys (EncSortMode opts) (h a) (h b)) (map snd (zip xs m))"
    by (simp only: SortFunc_map [where g = snd and h = h])
  then have order: "map snd es = entryOrder opts m"
    using k assms(2,3) by (simp add: entryOrder_def h_def)
  have "set_mset (mset es) = set_mset (mset (zip xs m))"
    by (simp only: es_def sortEntries_def mset_SortFunc)
  then have "set es = set (zip xs m)" by (simp only: set_mset_mset)
  with keys have "map (\<lambda>e. keyOf kb e @ fst (encode opts [] (snd (snd e)))) es
      = map (\<lambda>p. h p @ fst (encode opts [] (snd p))) (map snd es)"
    by simp
  moreover have "set m = snd ` set es"
    using order by (metis set_entryOrder set_map)
  ultimately show ?thesis
    using encodeSorted_ok [OF so] k order by (auto simp: es_def [symmetric] h_def)
qed

section \<open>Reading one item\<close>

definition plain :: "DecodeOpts \<Rightarrow> bool" where
  "plain dopts \<longleftrightarrow> \<not> ZeroCopy dopts \<and> 23 \<le> maxBytes dopts \<and> maxArray dopts < 2 ^ 61"

definition quiet :: "dstate \<Rightarrow> bool" where
  "quiet st \<longleftrightarrow> Budget st = None \<and> st_ok st"

definition reads :: "DecodeOpts \<Rightarrow> nat \<Rightarrow> bytes \<Rightarrow> Value \<Rightarrow> bool" where
  "reads dopts d out v \<longleftrightarrow>
     (\<forall>src off rest fuel st. drop off src = out @ rest \<longrightarrow> off < length src \<longrightarrow> length src < 2 ^ 61
        \<longrightarrow> length src - off \<le> fuel \<longrightarrow> quiet st
        \<longrightarrow> (\<exists>st'. decodeValueBody (decodeValue fuel src dopts) src dopts off d False st
                  = (Inr (v, off + length out), st') \<and> quiet st'))"

text \<open>The head of an item whose additional information is below 28.\<close>

lemma body_head:
  assumes "drop off src = AppendHead [] m a @ rest" and "is_major m" and "off < length src"
  shows "decodeValueBody dec src opts off d strip st =
    (let h = \<lparr>Major = m, AI = head_ai a, HeadArg = a, HeadN = headSize a\<rparr> in
     if m = MajorUint then ok (Uint a) (off + headSize a) st
     else if m = MajorNegInt then ok (NegInt a) (off + headSize a) st
     else if m = MajorBytes then decodeBytes src off h opts st
     else if m = MajorText then decodeText src off h opts st
     else if m = MajorArray then decodeArray dec src off h d opts st
     else if m = MajorMap then decodeMap dec src off h d opts st
     else if m = MajorTag then decodeTag dec off h d opts strip st
     else if m = MajorOther then decodeOther off h opts st
     else err ErrTruncated off st)"
proof -
  have h: "ParseHead (drop off src) = \<lparr>Major = m, AI = head_ai a, HeadArg = a, HeadN = headSize a\<rparr>"
    using assms by (simp add: ParseHead_AppendHead)
  have ai: "\<not> 28 \<le> head_ai a"
    using head_ai_less [of a] by (simp add: not_le)
  have n: "headSize a \<noteq> 0" "\<not> length src \<le> off"
    using headSize_pos [of a] assms(3) by linarith+
  show ?thesis
    unfolding decodeValueBody_def h by (simp add: ai n IsShortest_AppendHead Let_def)
qed

lemma head_ai_definite: "head_ai a \<noteq> AIIndefinite"
  using head_ai_less [of a] by auto

lemma reads_int: "reads dopts d (AppendHead [] MajorUint n) (Uint n)"
  "reads dopts d (AppendHead [] MajorNegInt n) (NegInt n)"
  by (auto simp: reads_def body_head [OF _ is_major_consts(1)] body_head [OF _ is_major_consts(2)]
      length_AppendHead res_simps)

lemma len_arg:
  assumes "n < 2 ^ 61"
  shows "uint (of_nat n :: u64) = int n" "int_of_u64 (of_nat n) = int n" "unat (of_nat n :: u64) = n"
proof -
  show n: "unat (of_nat n :: u64) = n" using assms by (simp add: unat_of_nat)
  then show u: "uint (of_nat n :: u64) = int n" by (metis of_nat_unat)
  show "int_of_u64 (of_nat n) = int n"
    unfolding int_of_u64_def u using assms by (intro go_int_nat) simp
qed

text \<open>The slice behind the head of a string.\<close>

lemma body_slice:
  assumes "drop off src = AppendHead [] m (of_nat (length b)) @ b @ rest" and "off < length src"
    and "length src < 2 ^ 61"
  defines "e \<equiv> off + headSize (of_nat (length b)) + length b"
  shows "uint (of_nat (length b) :: u64) = int (length b)"
    and "go_int (int (off + headSize (of_nat (length b))) + int_of_u64 (of_nat (length b))) = int e"
    and "e \<le> length src" and "go_slice src (int (off + headSize (of_nat (length b)))) (int e) = Some b"
    and "drop e src = rest"
proof -
  let ?n = "headSize (of_nat (length b))"
  have "length (drop off src) = ?n + length b + length rest"
    unfolding assms(1) by (simp add: length_AppendHead)
  then have len: "length src = off + ?n + length b + length rest"
    using assms(2) by simp
  then show "e \<le> length src" by (simp add: e_def)
  have b: "length b < 2 ^ 61" using len assms(3) by linarith
  show "uint (of_nat (length b) :: u64) = int (length b)" using b by (rule len_arg)
  have "e < 2 ^ 62" using len assms(3) by (simp add: e_def)
  then show "go_int (int (off + ?n) + int_of_u64 (of_nat (length b))) = int e"
    unfolding len_arg(2) [OF b] of_nat_add [symmetric] e_def by (rule go_int_nat)
  have "drop ?n (drop off src) = b @ rest"
    unfolding assms(1) by (simp add: length_AppendHead)
  then have d: "drop (off + ?n) src = b @ rest" by (simp add: add.commute)
  then have "drop (length b) (drop (off + ?n) src) = rest" by simp
  then show "drop e src = rest" by (simp add: e_def add.commute add.left_commute)
  show "go_slice src (int (off + ?n)) (int e) = Some b"
    unfolding e_def using go_slice_nat [of "off + ?n" "length b" src] len d by simp
qed

lemma reads_bytes:
  assumes "int (length b) \<le> maxBytes dopts"
  shows "reads dopts d (AppendHead [] MajorBytes (of_nat (length b)) @ b) (Bytes b)"
  unfolding reads_def
proof (intro allI impI)
  fix src off rest fuel st
  assume a: "drop off src = (AppendHead [] MajorBytes (of_nat (length b)) @ b) @ rest" "off < length src"
    "length src < 2 ^ 61" "quiet st"
  from a(1) have a1: "drop off src = AppendHead [] MajorBytes (of_nat (length b)) @ b @ rest" by simp
  have q: "charge_st n st = (st, True)" for n
    using a(4) by (simp add: quiet_def charge_st_nil)
  show "\<exists>st'. decodeValueBody (decodeValue fuel src dopts) src dopts off d False st
      = (Inr (Bytes b, off + length (AppendHead [] MajorBytes (of_nat (length b)) @ b)), st') \<and> quiet st'"
    using body_slice [OF a1 a(2,3)] assms a(4) head_ai_definite [of "of_nat (length b)"]
    by (simp add: body_head [OF a1 is_major_consts(3) a(2)] decodeBytes_def Let_def q res_simps length_AppendHead
        del: of_nat_add)
qed

lemma internString_frame: "internString raw si st = (s, st') \<Longrightarrow> Budget st' = Budget st"
  by (auto simp: internString_def split: prod.splits)

lemma reads_text:
  assumes "plain dopts" and "int (length b) \<le> maxBytes dopts" and "RejectInvalidUTF8 dopts \<longrightarrow> utf8_Valid b"
  shows "reads dopts d (AppendHead [] MajorText (of_nat (length b)) @ b) (Text b)"
  unfolding reads_def
proof (intro allI impI)
  fix src off rest fuel st
  assume a: "drop off src = (AppendHead [] MajorText (of_nat (length b)) @ b) @ rest" "off < length src"
    "length src < 2 ^ 61" "quiet st"
  from a(1) have a1: "drop off src = AppendHead [] MajorText (of_nat (length b)) @ b @ rest" by simp
  have q: "charge_st n st = (st, True)" for n
    using a(4) by (simp add: quiet_def charge_st_nil)
  have i: "s = b \<and> quiet st'" if "Interner st = Some si" "internString b si st = (s, st')" for si s st'
    using internString_ok [of st si b s st'] internString_frame [of b si st s st'] that a(4)
    by (auto simp: quiet_def)
  show "\<exists>st'. decodeValueBody (decodeValue fuel src dopts) src dopts off d False st
      = (Inr (Text b, off + length (AppendHead [] MajorText (of_nat (length b)) @ b)), st') \<and> quiet st'"
    using body_slice [OF a1 a(2,3)] assms a(4) head_ai_definite [of "of_nat (length b)"] i
    by (auto simp: body_head [OF a1 is_major_consts(4) a(2)] decodeText_def Let_def q res_simps length_AppendHead plain_def
        simp del: of_nat_add split: option.splits prod.splits)
qed

lemma drop_Cons: "drop off src = x # r \<Longrightarrow> off < length src \<and> src ! off = x \<and> drop (Suc off) src = r"
  by (metis Cons_nth_drop_Suc drop_all list.distinct(1) list.inject not_le)

lemma reads_const:
  "reads dopts d [SimpleFalse] (Bool False)" "reads dopts d [SimpleTrue] (Bool True)"
  "reads dopts d [SimpleNull] Null" "reads dopts d [SimpleUndefined] Undefined"
  by (auto simp: reads_def dest!: drop_Cons)
    (simp_all add: decodeValueBody_def ParseHead_at head_bytes_def head_value_def decodeOther_def
      Let_def res_simps)

lemma simple_byte:
  "(s :: byte) < 24 \<Longrightarrow> (0xe0 OR s) AND 0xe0 = 0xe0" "s < 24 \<Longrightarrow> (0xe0 OR s) AND 0x1f = s"
  using initial_byte_major [of MajorOther s] initial_byte_ai [of MajorOther s]
  by (auto simp: word_less_nat_alt is_major_def)

lemma reads_simple_short:
  assumes "s < 24"
  shows "reads dopts d [MajorOther OR s] (canonSimple s)"
proof -
  have ne: "s \<noteq> 24" "s \<noteq> 25" "s \<noteq> 26" "s \<noteq> 27" "s \<noteq> 31" "\<not> 28 \<le> s" "\<not> 24 \<le> s"
    using assms by (auto simp: word_le_nat_alt word_less_nat_alt)
  have cases: "\<not> s < 20 \<Longrightarrow> s = 20 \<or> s = 21 \<or> s = 22 \<or> s = 23"
    using assms by (auto simp: word_less_nat_alt word_unat_eq_iff)
  show ?thesis
    using assms ne cases
    by (auto simp: reads_def dest!: drop_Cons)
      (auto simp: decodeValueBody_def ParseHead_at head_bytes_def decodeOther_def
        Let_def res_simps simple_byte canonSimple_def)
qed

lemma reads_simple_long:
  assumes "32 \<le> s"
  shows "reads dopts d [SimpleOneByte, s] (canonSimple s)"
  unfolding reads_def
proof (intro allI impI)
  fix src off rest fuel st
  assume a: "drop off src = [SimpleOneByte, s] @ rest" "off < length src" "quiet st"
  then have h: "ParseHead (drop off src) = \<lparr>Major = 0xe0, AI = 24, HeadArg = ucast s, HeadN = 2\<rparr>"
    by (simp add: ParseHead_def)
  have s: "\<not> ucast s < (24 :: u64)" "(ucast (ucast s :: u64) :: byte) = s" "\<not> s < 32"
    using assms unat_bounds(1) [of s]
    by (auto simp: word_less_nat_alt word_le_nat_alt unat_ucast_mod intro!: word_eqI_unat)
  have "s \<noteq> 20" "s \<noteq> 21" "s \<noteq> 22" "s \<noteq> 23"
    using assms by (auto simp: word_le_nat_alt)
  with h s a(2,3) show "\<exists>st'. decodeValueBody (decodeValue fuel src dopts) src dopts off d False st
      = (Inr (canonSimple s, off + length [SimpleOneByte, s]), st') \<and> quiet st'"
    by (simp add: decodeValueBody_def h IsShortest_def decodeOther_def Let_def res_simps canonSimple_def not_less)
qed

lemma f32_finite_iff: "f64_finite (f32_to_f64 f) \<longleftrightarrow> f32_finite f"
proof
  assume fin: "f32_finite f"
  define m where "m = f32_man f"
  have m: "m < 8388608" "f32_exp f < 255"
    using f32_fields_less [of f] fin by (auto simp: m_def f32_finite_def)
  show "f64_finite (f32_to_f64 f)"
  proof (cases "f32_exp f = 0 \<and> m \<noteq> 0")
    case True
    then have b: "2 ^ nlog2 m \<le> m" "m < 2 ^ Suc (nlog2 m)" using nlog2_bounds [of m] by auto
    then have "(2 :: nat) ^ nlog2 m < 2 ^ 23" using m by simp
    then have l: "nlog2 m < 23" by (simp only: power_strict_increasing_iff)
    then have "(2 :: nat) ^ Suc (nlog2 m) * 2 ^ (52 - nlog2 m) = 2 ^ 53"
      by (simp flip: power_add)
    moreover have "m * 2 ^ (52 - nlog2 m) < 2 ^ Suc (nlog2 m) * 2 ^ (52 - nlog2 m)"
      using b(2) by simp
    ultimately have "m * 2 ^ (52 - nlog2 m) < 2 ^ 53"
      by (simp only:)
    then have "m * 2 ^ (52 - nlog2 m) - 2 ^ 52 < 4503599627370496"
      by simp
    with True l f32_fields_less(1) [of f] show ?thesis
      by (simp add: f32_to_f64_def Let_def f64_finite_def f64_fields_mk flip: m_def)
  next
    case False
    with m f32_fields_less(1) [of f] show ?thesis
      by (auto simp: f32_to_f64_def Let_def f64_finite_def f64_fields_mk simp flip: m_def)
  qed
qed (rule f32_finite_widen)

lemma reads_float:
  assumes "\<not> RejectNonShortest dopts"
  shows "RejectNonFiniteFloats dopts \<longrightarrow> f64_finite (DecodeFloat16 b)
      \<Longrightarrow> reads dopts d (AppendFloat16 [] b) (Float64 (DecodeFloat16 b))"
    and "RejectNonFiniteFloats dopts \<longrightarrow> f32_finite w \<Longrightarrow> reads dopts d (AppendFloat32 [] w) (Float32 w)"
    and "RejectNonFiniteFloats dopts \<longrightarrow> f64_finite f \<Longrightarrow> reads dopts d (AppendFloat64 [] f) (Float64 f)"
proof -
  have h16: "ParseHead (0xf9 # be_bytes 2 (unat b) @ rest)
      = \<lparr>Major = 0xe0, AI = 25, HeadArg = ucast b, HeadN = 3\<rparr>" for rest
    by (simp add: ParseHead_def Uint_be_bytes)
  have h32: "ParseHead (0xfa # be_bytes 4 (unat w) @ rest)
      = \<lparr>Major = 0xe0, AI = 26, HeadArg = ucast w, HeadN = 5\<rparr>" for rest
    by (simp add: ParseHead_def Uint_be_bytes)
  have h64: "ParseHead (0xfb # be_bytes 8 (unat f) @ rest)
      = \<lparr>Major = 0xe0, AI = 27, HeadArg = f, HeadN = 9\<rparr>" for rest
    by (simp add: ParseHead_def Uint_be_bytes)
  have "(ucast (ucast b :: u64) :: u16) = b" "(ucast (ucast w :: u64) :: u32) = w"
    using unat_bounds(2) [of b] unat_bounds(3) [of w]
    by (auto intro!: word_eqI_unat simp: unat_ucast_mod)
  note facts = this h16 h32 h64 assms decodeValueBody_def IsShortest_def decodeOther_def Let_def res_simps

  show "RejectNonFiniteFloats dopts \<longrightarrow> f64_finite (DecodeFloat16 b)
      \<Longrightarrow> reads dopts d (AppendFloat16 [] b) (Float64 (DecodeFloat16 b))"
    by (auto simp: reads_def AppendFloat16_def AppendUint16_def facts f64_finite_iff)
  show "RejectNonFiniteFloats dopts \<longrightarrow> f32_finite w \<Longrightarrow> reads dopts d (AppendFloat32 [] w) (Float32 w)"
    by (auto simp: reads_def AppendFloat32_def AppendUint32_def facts f64_finite_iff f32_finite_iff [symmetric])
  show "RejectNonFiniteFloats dopts \<longrightarrow> f64_finite f \<Longrightarrow> reads dopts d (AppendFloat64 [] f) (Float64 f)"
    by (auto simp: reads_def AppendFloat64_def AppendUint64_def facts f64_finite_iff)
qed

section \<open>Reading containers\<close>

lemma quiet_nil: "quiet NilState"
  by (simp add: quiet_def NilState_def st_ok_def)

lemma reads_nonempty: "reads dopts d out v \<Longrightarrow> out \<noteq> []"
proof
  assume r: "reads dopts d out v" and "out = []"
  then obtain st' where "decodeValueBody (decodeValue 1 [0] dopts) [0] dopts 0 d False NilState
      = (Inr (v, 0 + 0), st')"
    using quiet_nil unfolding reads_def by (metis append_Nil drop0 le_refl length_Cons list.size(3)
        One_nat_def zero_less_Suc diff_zero one_less_power one_less_numeral_iff semiring_norm(76)
        zero_less_numeral)
  then show False using dv.decodeValueBody_progress by blast
qed

lemma reads_step:
  assumes r: "reads dopts d out v" and "drop off src = out @ rest" and "length src < 2 ^ 61"
    and "length src - off < fuel" and "quiet st"
  shows "\<exists>st'. decodeValue fuel src dopts off d False st = (Inr (v, off + length out), st') \<and> quiet st'"
    and "drop (off + length out) src = rest"
    and "off < length src" and "decodeValue fuel src dopts off d False st
      = decodeValueBody (decodeValue (fuel - 1) src dopts) src dopts off d False st"
proof -
  show off: "off < length src"
    using reads_nonempty [OF r] assms(2) by (metis append_is_Nil_conv drop_all not_le)
  obtain f where f: "fuel = Suc f" using assms(4) by (cases fuel) auto
  then show "decodeValue fuel src dopts off d False st
      = decodeValueBody (decodeValue (fuel - 1) src dopts) src dopts off d False st" by simp
  have "length src - off \<le> f" using assms(4) f by simp
  from r [unfolded reads_def, rule_format, OF assms(2) off assms(3) this assms(5)]
  show "\<exists>st'. decodeValue fuel src dopts off d False st = (Inr (v, off + length out), st') \<and> quiet st'"
    unfolding f decodeValue.simps .
  have "drop (length out) (drop off src) = rest" by (simp add: assms(2))
  then show "drop (off + length out) src = rest" by (simp add: add.commute)
qed

lemma reads_tag:
  assumes r: "reads dopts (d + 1) out v" and "int (d + 1) \<le> maxNesting dopts"
    and "RejectUnknownTags dopts \<longrightarrow> knownTags i"
  shows "reads dopts d (AppendHead [] MajorTag i @ out) (MakeTag i v)"
  unfolding reads_def
proof (intro allI impI)
  fix src off rest fuel st
  assume a: "drop off src = (AppendHead [] MajorTag i @ out) @ rest" "off < length src"
    "length src < 2 ^ 61" "length src - off \<le> fuel" "quiet st"
  from a(1) have a1: "drop off src = AppendHead [] MajorTag i @ out @ rest" by simp
  have "drop (headSize i) (drop off src) = out @ rest"
    unfolding a1 by (simp add: length_AppendHead)
  then have d: "drop (off + headSize i) src = out @ rest" by (simp add: add.commute)
  have "length src - (off + headSize i) < fuel"
    using a(2,4) headSize_pos [of i] by linarith
  from reads_step(1) [OF r d a(3) this a(5)] obtain st' where
    "decodeValue fuel src dopts (off + headSize i) (d + 1) False st
      = (Inr (v, off + headSize i + length out), st')" and "quiet st'" by blast
  then show "\<exists>st'. decodeValueBody (decodeValue fuel src dopts) src dopts off d False st
      = (Inr (MakeTag i v, off + length (AppendHead [] MajorTag i @ out)), st') \<and> quiet st'"
    using assms(2,3) by (simp add: body_head [OF a1 is_major_consts(7) a(2)] decodeTag_def Let_def res_simps
        length_AppendHead add.assoc)
qed

lemma array_loop_reads:
  assumes p: "plain dopts" and "length src < 2 ^ 61"
  shows "list_all2 (reads dopts cd) outs vs \<Longrightarrow> drop pos src = concat outs @ rest
    \<Longrightarrow> length src - pos < fuel \<Longrightarrow> quiet st
    \<Longrightarrow> \<exists>st'. decodeArrayLoop (decodeValue fuel src dopts) src dopts cd (length vs) pos arr st
          = (Inr (MakeArray (arr @ vs), pos + length (concat outs)), st') \<and> quiet st'"
proof (induction outs vs arbitrary: pos arr st rule: list_all2_induct)
  case Nil
  then show ?case by (simp add: res_simps)
next
  case (Cons out outs v vs)
  from Cons.prems(1) have d: "drop pos src = out @ concat outs @ rest" by simp
  note step = reads_step [OF Cons.hyps(1) d assms(2) Cons.prems(2,3)]
  from step(1) obtain st1 where s1: "decodeValue fuel src dopts pos cd False st
      = (Inr (v, pos + length out), st1)" "quiet st1" by blast
  have "plain_decoding src dopts"
    using p assms(2) by unfold_locales (simp_all add: plain_def)
  moreover have "Budget st = None" using Cons.prems(3) by (simp add: quiet_def)
  ultimately have "decodeArrayElem (decodeValue fuel src dopts) src dopts cd pos st
      = (Inr (v, pos + length out), st1)"
    using plain_decoding.decodeArrayElem_slow [where dec = "decodeValue fuel src dopts"
        and dec' = "decodeValue (fuel - 1) src dopts"] step(4) s1(1) by metis
  moreover have "length src - (pos + length out) < fuel" using Cons.prems(2) by linarith
  from Cons.IH [OF step(2) this s1(2), of "arr @ [v]"] obtain st' where
    "decodeArrayLoop (decodeValue fuel src dopts) src dopts cd (length vs) (pos + length out) (arr @ [v]) st1
      = (Inr (MakeArray ((arr @ [v]) @ vs), pos + length out + length (concat outs)), st')" "quiet st'" by blast
  ultimately show ?case by (simp add: add.assoc)
qed

lemma allocs_quiet [simp]: "quiet (allocValues n st) = quiet st" "quiet (allocPairs n st) = quiet st"
  by (simp_all add: quiet_def allocs_frame)

lemma drop_head: "drop off src = AppendHead [] m a @ r \<Longrightarrow> drop (off + headSize a) src = r"
proof -
  assume "drop off src = AppendHead [] m a @ r"
  then have "drop (headSize a) (drop off src) = r" by (simp add: length_AppendHead)
  then show ?thesis by (simp add: add.commute)
qed

lemma reads_array:
  assumes p: "plain dopts" and vs: "list_all2 (reads dopts (d + 1)) outs vs"
    and nest: "int (d + 1) \<le> maxNesting dopts" and len: "int (length vs) \<le> maxArray dopts" "length vs < 2 ^ 61"
  shows "reads dopts d (AppendHead [] MajorArray (of_nat (length vs)) @ concat outs) (MakeArray vs)"
  unfolding reads_def
proof (intro allI impI)
  fix src off rest fuel st
  let ?n = "of_nat (length vs) :: u64"
  assume a: "drop off src = (AppendHead [] MajorArray ?n @ concat outs) @ rest" "off < length src"
    "length src < 2 ^ 61" "length src - off \<le> fuel" "quiet st"
  from a(1) have a1: "drop off src = AppendHead [] MajorArray ?n @ concat outs @ rest" by simp
  have f: "length src - (off + headSize ?n) < fuel"
    using a(2,4) headSize_pos [of ?n] by linarith
  have q: "charge_st n st = (st, True)" for n
    using a(5) by (simp add: quiet_def charge_st_nil)
  have "quiet (allocValues (length vs) st)" using a(5) by simp
  from array_loop_reads [OF p a(3) vs drop_head [OF a1] f this, of "[]"] obtain st' where
    l: "decodeArrayLoop (decodeValue fuel src dopts) src dopts (d + 1) (length vs) (off + headSize ?n) []
        (allocValues (length vs) st) = (Inr (MakeArray vs, off + headSize ?n + length (concat outs)), st')"
    and "quiet st'" by auto
  moreover have "vs = [] \<Longrightarrow> outs = []" using vs by (cases outs) auto
  ultimately show "\<exists>st'. decodeValueBody (decodeValue fuel src dopts) src dopts off d False st
      = (Inr (MakeArray vs, off + length (AppendHead [] MajorArray ?n @ concat outs)), st') \<and> quiet st'"
    using nest len head_ai_definite [of ?n] len_arg [OF len(2)] a(5)
    by (auto simp: body_head [OF a1 is_major_consts(5) a(2)] decodeArray_def Let_def res_simps
        length_AppendHead add.assoc q)
qed

lemma distinct_keys_append:
  "distinct_keys (xs @ ys) \<longleftrightarrow> distinct_keys xs \<and> distinct_keys ys
     \<and> (\<forall>x \<in> set xs. \<forall>y \<in> set ys. \<not> valuesEqual (Key x) (Key y))"
  by (induction xs) auto

lemma mapInsert_fresh:
  assumes "dedup_ok m dedup" and "\<forall>q \<in> set m. \<not> valuesEqual (Key q) k"
  shows "\<exists>dedup'. mapInsert m k v ko ek dedup opts = Inr (m @ [(k, v)], dedup')
    \<and> dedup_ok (m @ [(k, v)]) dedup'"
proof (cases dedup)
  case None
  with assms(2) show ?thesis
    by (simp add: mapInsert_def find_idx_upt_None [THEN iffD2] dedup_ok_def)
next
  case (Some seen)
  with assms have "find_idx m k (seen (fnv1a ek)) = None"
    by (auto simp: find_idx_None dedup_ok_def)
  with Some assms(1) show ?thesis
    by (auto simp: mapInsert_def Let_def dedup_ok_def less_Suc_eq)
qed

definition reads_pair :: "DecodeOpts \<Rightarrow> nat \<Rightarrow> bytes \<times> bytes \<Rightarrow> MapEntry \<Rightarrow> bool" where
  "reads_pair dopts d kv p \<longleftrightarrow> reads dopts d (fst kv) (fst p) \<and> reads dopts d (snd kv) (snd p)
     \<and> (RejectNullMapKeys dopts \<longrightarrow> Kind (fst p) \<noteq> KindNull)"

definition pair_bytes :: "(bytes \<times> bytes) list \<Rightarrow> bytes" where
  "pair_bytes os = concat (map (\<lambda>kv. fst kv @ snd kv) os)"

lemma map_loop_reads:
  assumes p: "plain dopts" and len: "length src < 2 ^ 61"
  shows "list_all2 (reads_pair dopts (d + 1)) os ps \<Longrightarrow> drop pos src = pair_bytes os @ rest
    \<Longrightarrow> length src - pos < fuel \<Longrightarrow> quiet st \<Longrightarrow> distinct_keys (m @ ps) \<Longrightarrow> dedup_ok m dedup
    \<Longrightarrow> \<exists>st'. decodeMapLoop (decodeValue fuel src dopts) src dopts d (length ps) pos m dedup st
          = (Inr (MakeMap (m @ ps), pos + length (pair_bytes os)), st') \<and> quiet st'"
proof (induction os ps arbitrary: pos m dedup st rule: list_all2_induct)
  case Nil
  then show ?case by (simp add: res_simps pair_bytes_def)
next
  case (Cons kv os p ps)
  obtain ko vo where kv: "kv = (ko, vo)" by (cases kv)
  obtain k v where p: "p = (k, v)" by (cases p)
  from Cons.hyps(1) kv p have k: "reads dopts (d + 1) ko k" and v: "reads dopts (d + 1) vo v"
    and null: "RejectNullMapKeys dopts \<longrightarrow> Kind k \<noteq> KindNull"
    by (simp_all add: reads_pair_def)
  from Cons.prems(1) kv have d: "drop pos src = ko @ vo @ pair_bytes os @ rest"
    by (simp add: pair_bytes_def)
  note ks = reads_step [OF k d len Cons.prems(2,3)]
  from ks(1) obtain st1 where s1: "decodeValue fuel src dopts pos (d + 1) False st
      = (Inr (k, pos + length ko), st1)" "quiet st1" by blast
  have "plain_decoding src dopts"
    using assms by unfold_locales (simp_all add: plain_def)
  moreover have "Budget st = None" using Cons.prems(3) by (simp add: quiet_def)
  ultimately have key: "decodeMapKey (decodeValue fuel src dopts) src dopts d pos st
      = (Inr (k, pos + length ko), st1)"
    using plain_decoding.decodeMapKey_slow [where dec = "decodeValue fuel src dopts"
        and dec' = "decodeValue (fuel - 1) src dopts"] ks(4) s1(1) by metis
  have "length src - (pos + length ko) < fuel" using Cons.prems(2) by linarith
  note vs = reads_step [OF v ks(2) len this s1(2)]
  from vs(1) obtain st2 where s2: "decodeValue fuel src dopts (pos + length ko) (d + 1) False st1
      = (Inr (v, pos + length ko + length vo), st2)" "quiet st2" by blast
  have fresh: "\<forall>q \<in> set m. \<not> valuesEqual (Key q) k" and dist: "distinct_keys ((m @ [(k, v)]) @ ps)"
    using Cons.prems(4) p by (auto simp: distinct_keys_append)
  obtain dd where ins: "mapInsert m k v pos (take (pos + length ko - pos) (drop pos src)) dedup dopts
        = Inr (m @ [(k, v)], dd)" and dd: "dedup_ok (m @ [(k, v)]) dd"
    using mapInsert_fresh [OF Cons.prems(5) fresh] by blast
  have "decodeMapRest (decodeValue fuel src dopts) src dopts d pos k (pos + length ko) m dedup st1
      = (Inr ((m @ [(k, v)], dd), pos + length ko + length vo), st2)"
    using null s2(1) ins by (auto simp: decodeMapRest_def res_simps)
  moreover have "length src - (pos + length ko + length vo) < fuel" using Cons.prems(2) by linarith
  from Cons.IH [OF vs(2) this s2(2) dist dd] obtain st' where
    "decodeMapLoop (decodeValue fuel src dopts) src dopts d (length ps) (pos + length ko + length vo)
      (m @ [(k, v)]) dd st2
      = (Inr (MakeMap ((m @ [(k, v)]) @ ps), pos + length ko + length vo + length (pair_bytes os)), st')"
    "quiet st'" by blast
  ultimately show ?case
    using key by (simp add: kv p pair_bytes_def add.assoc)
qed

lemma reads_map:
  assumes p: "plain dopts" and ps: "list_all2 (reads_pair dopts (d + 1)) os ps"
    and nest: "int (d + 1) \<le> maxNesting dopts" and len: "int (length ps) \<le> maxArray dopts" "length ps < 2 ^ 61"
    and dist: "distinct_keys ps"
  shows "reads dopts d (AppendHead [] MajorMap (of_nat (length ps)) @ pair_bytes os) (MakeMap ps)"
  unfolding reads_def
proof (intro allI impI)
  fix src off rest fuel st
  let ?n = "of_nat (length ps) :: u64"
  let ?dd = "if int (length ps) > int dedupThreshold then Some (\<lambda>_. []) else None :: keyDedup option"
  assume a: "drop off src = (AppendHead [] MajorMap ?n @ pair_bytes os) @ rest" "off < length src"
    "length src < 2 ^ 61" "length src - off \<le> fuel" "quiet st"
  from a(1) have a1: "drop off src = AppendHead [] MajorMap ?n @ pair_bytes os @ rest" by simp
  have f: "length src - (off + headSize ?n) < fuel"
    using a(2,4) headSize_pos [of ?n] by linarith
  have q: "charge_st n st = (st, True)" for n
    using a(5) by (simp add: quiet_def charge_st_nil)
  have dd: "dedup_ok [] ?dd" by (simp add: dedup_ok_def)
  have dk: "distinct_keys ([] @ ps)" using dist by simp
  have "quiet (allocPairs (length ps) st)" using a(5) by simp
  from map_loop_reads [OF p a(3) ps drop_head [OF a1] f this dk dd] obtain st' where
    l: "decodeMapLoop (decodeValue fuel src dopts) src dopts d (length ps) (off + headSize ?n) [] ?dd
        (allocPairs (length ps) st) = (Inr (MakeMap ps, off + headSize ?n + length (pair_bytes os)), st')"
    and "quiet st'" by auto
  then show "\<exists>st'. decodeValueBody (decodeValue fuel src dopts) src dopts off d False st
      = (Inr (MakeMap ps, off + length (AppendHead [] MajorMap ?n @ pair_bytes os)), st') \<and> quiet st'"
    using nest len head_ai_definite [of ?n] len_arg [OF len(2)] a(5)
    by (auto simp: body_head [OF a1 is_major_consts(6) a(2)] decodeMap_def Let_def res_simps
        length_AppendHead add.assoc q)
qed

section \<open>The round trip\<close>

text \<open>What the encoder writes for an item inside a container: its encoding, or a text without
  the UTF-8 check.\<close>

definition item_bytes :: "EncodeOpts \<Rightarrow> Value \<Rightarrow> bytes \<Rightarrow> bool" where
  "item_bytes opts v b \<longleftrightarrow> encode opts [] v = (b, None)
     \<or> (Kind v = KindText \<and> b = AppendHead [] MajorText (of_nat (length (Str v))) @ Str v)"

lemma inline_item_bytes:
  "snd (itemVal opts [] v) = None \<Longrightarrow> item_bytes opts v (fst (itemVal opts [] v))"
  "snd (pairKey opts [] v) = None \<Longrightarrow> item_bytes opts v (fst (pairKey opts [] v))"
  "snd (pairVal opts [] v) = None \<Longrightarrow> item_bytes opts v (fst (pairVal opts [] v))"
  "snd (encode opts [] v) = None \<Longrightarrow> item_bytes opts v (fst (encode opts [] v))"
proof -
  note defs = item_bytes_def itemVal_def pairKey_def pairVal_def inlineItem_def inlineKey_def inlineVal_def
  show "snd (itemVal opts [] v) = None \<Longrightarrow> item_bytes opts v (fst (itemVal opts [] v))"
    by (cases "encode opts [] v"; cases "Kind v") (auto simp: defs encode.simps [of opts "[]" v])
  show "snd (pairKey opts [] v) = None \<Longrightarrow> item_bytes opts v (fst (pairKey opts [] v))"
    by (cases "encode opts [] v"; cases "Kind v") (auto simp: defs encode.simps [of opts "[]" v])
  show "snd (pairVal opts [] v) = None \<Longrightarrow> item_bytes opts v (fst (pairVal opts [] v))"
    by (cases "encode opts [] v"; cases "Kind v") (auto simp: defs encode.simps [of opts "[]" v])
  show "snd (encode opts [] v) = None \<Longrightarrow> item_bytes opts v (fst (encode opts [] v))"
    by (cases "encode opts [] v") (simp add: item_bytes_def)
qed

lemma encodeMap_items:
  assumes "encodeMap opts [] m = (out, None)"
  obtains K V where "out = AppendHead [] MajorMap (of_nat (length m))
      @ pair_bytes (map (\<lambda>p. (K p, V p)) (entryOrder opts m))"
    and "\<And>p. p \<in> set m \<Longrightarrow> item_bytes opts (fst p) (K p) \<and> item_bytes opts (snd p) (V p)"
proof (cases "\<not> Deterministic opts \<or> length m \<le> 1")
  case True
  with assms have "encodePairs opts (AppendHead [] MajorMap (of_nat (length m))) m = (out, None)"
    by (simp add: encodeMap.simps)
  from encodePairs_ok [OF this] True show ?thesis
    by (intro that [of "\<lambda>p. fst (pairKey opts [] (fst p))" "\<lambda>p. fst (pairVal opts [] (snd p))"])
      (auto simp: pair_bytes_def entryOrder_def comp_def inline_item_bytes)
next
  case False
  then have "Deterministic opts" "1 < length m" by auto
  from encodeMap_sorted_ok [OF assms this] show ?thesis
    by (intro that [of "\<lambda>p. fst (encode opts [] (fst p))" "\<lambda>p. fst (encode opts [] (snd p))"])
      (auto simp: pair_bytes_def comp_def inline_item_bytes)
qed

lemma encodeItems_items:
  assumes "encodeItems opts (AppendHead [] m n) vs = (out, None)"
  obtains I where "out = AppendHead [] m n @ concat (map I vs)"
    and "\<And>v. v \<in> set vs \<Longrightarrow> item_bytes opts v (I v)"
  using encodeItems_ok [OF assms]
  by (intro that [of "\<lambda>v. fst (itemVal opts [] v)"]) (auto simp: inline_item_bytes)

text \<open>Every map inside has keys that the decoder tells apart; there are no floats.\<close>

function distinct_maps :: "Value \<Rightarrow> bool" where
  "distinct_maps (Value k n s b items pairs) =
     ((\<forall>x \<in> set items. distinct_maps x)
      \<and> (\<forall>p \<in> set pairs. distinct_maps (fst p) \<and> distinct_maps (snd p)) \<and> distinct_keys pairs)"
  by pat_completeness auto
termination
  by (relation "measure size") (simp_all only: in_measure wf_measure size_item size_pair)

function float_free :: "Value \<Rightarrow> bool" where
  "float_free (Value k n s b items pairs) =
     ((\<forall>x \<in> set items. float_free x)
      \<and> (\<forall>p \<in> set pairs. float_free (fst p) \<and> float_free (snd p))
      \<and> k \<noteq> KindFloat32 \<and> k \<noteq> KindFloat64)"
  by pat_completeness auto
termination
  by (relation "measure size") (simp_all only: in_measure wf_measure size_item size_pair)

lemma plain_string: "plain dopts \<Longrightarrow> string_bound dopts = maxBytes dopts"
  by (simp add: plain_def string_bound_def)

lemma reads_shortest:
  assumes "\<not> RejectNonShortest dopts" and "accepted dopts d (canonShortest f)"
  shows "reads dopts d (appendShortestFloat [] f) (canonShortest f)"
  using assms reads_float [OF assms(1), where d = d]
  by (auto simp: canonShortest_def appendShortestFloat_def accepted_simps split: prod.splits bool.splits)

lemma reads_encodeFloat:
  assumes "\<not> RejectNonShortest dopts"
  shows "encodeFloat32 [] w opts = (out, None) \<Longrightarrow> accepted dopts d (canonFloat32 opts w)
      \<Longrightarrow> reads dopts d out (canonFloat32 opts w)"
    and "encodeFloat64 [] f opts = (out, None) \<Longrightarrow> accepted dopts d (canonFloat64 opts f)
      \<Longrightarrow> reads dopts d out (canonFloat64 opts f)"
  using reads_float [OF assms, where d = d] reads_shortest [OF assms, of d]
  by (auto simp: encodeFloat32_def canonFloat32_def encodeFloat64_def canonFloat64_def Let_def accepted_simps
      split: FloatMode.splits if_splits)

lemma reads_simple:
  assumes "accepted dopts d (canonSimple s)"
    and "out = (if s < 24 then [MajorOther OR s] else [SimpleOneByte, s])"
  shows "reads dopts d out (canonSimple s)"
proof (cases "s < 24")
  case True
  with assms(2) reads_simple_short [OF True] show ?thesis by simp
next
  case False
  then have "s \<noteq> 20" "s \<noteq> 21" "s \<noteq> 22" "s \<noteq> 23" "\<not> s < 20"
    by (auto simp: word_less_nat_alt)
  with assms have "32 \<le> s" by (auto simp: canonSimple_def accepted_simps)
  with assms(2) False reads_simple_long show ?thesis by simp
qed

definition readable :: "EncodeOpts \<Rightarrow> DecodeOpts \<Rightarrow> Value \<Rightarrow> bool" where
  "readable opts dopts v \<longleftrightarrow> (\<forall>d out. encode opts [] v = (out, None) \<longrightarrow> accepted dopts d (canon opts v)
     \<longrightarrow> distinct_maps (canon opts v) \<longrightarrow> reads dopts d out (canon opts v))"

lemma item_reads:
  assumes "plain dopts" and "readable opts dopts v" and "item_bytes opts v b"
    and "accepted dopts d (canon opts v)" and "distinct_maps (canon opts v)"
  shows "reads dopts d b (canon opts v)"
proof (cases "encode opts [] v = (b, None)")
  case True
  with assms show ?thesis by (simp add: readable_def)
next
  case False
  with assms(3) have "Kind v = KindText" "b = AppendHead [] MajorText (of_nat (length (Str v))) @ Str v"
    by (auto simp: item_bytes_def)
  with assms(1,4) reads_text [OF assms(1), of "Str v" d] show ?thesis
    by (simp add: canon.simps accepted_simps plain_string)
qed

lemma array_length_plain: "plain dopts \<Longrightarrow> int n \<le> maxArray dopts \<Longrightarrow> n < 2 ^ 61"
  by (simp add: plain_def)

lemma encode_readable:
  "plain dopts \<Longrightarrow> RejectNonShortest dopts \<longrightarrow> float_free v \<Longrightarrow> readable opts dopts v"
proof (induction v rule: value_induct)
  case (Value k n s b items pairs)
  let ?v = "Value k n s b items pairs"
  note plain = Value.prems(1)
  have items: "\<And>x. x \<in> set items \<Longrightarrow> readable opts dopts x"
    and pairs: "\<And>p. p \<in> set pairs \<Longrightarrow> readable opts dopts (fst p) \<and> readable opts dopts (snd p)"
    using Value by auto
  show ?case
    unfolding readable_def
  proof (intro allI impI)
    fix d out
    assume enc: "encode opts [] ?v = (out, None)" and acc: "accepted dopts d (canon opts ?v)"
      and dist: "distinct_maps (canon opts ?v)"
    note simps = encode.simps [of opts "[]" "Value k' n s b items pairs" for k']
      canon.simps [of opts "Value k' n s b items pairs" for k']
    show "reads dopts d out (canon opts ?v)"
    proof (cases k)
      case KindArray
      with enc have "encodeItems opts (AppendHead [] MajorArray (of_nat (length items))) items = (out, None)"
        by (simp add: simps)
      then obtain I where out: "out = AppendHead [] MajorArray (of_nat (length items)) @ concat (map I items)"
        and I: "\<And>v. v \<in> set items \<Longrightarrow> item_bytes opts v (I v)" by (rule encodeItems_items) blast
      have c: "canon opts ?v = MakeArray (map (canon opts) items)"
        using KindArray by (simp add: simps)
      from acc have lim: "int (length items) \<le> maxArray dopts" "int (d + 1) \<le> maxNesting dopts"
        and el: "\<forall>x \<in> set items. accepted dopts (d + 1) (canon opts x)"
        unfolding c by (auto simp: accepted_simps)
      from dist have "\<forall>x \<in> set items. distinct_maps (canon opts x)"
        unfolding c by (simp add: MakeArray_def)
      with el items I have "\<forall>x \<in> set items. reads dopts (d + 1) (I x) (canon opts x)"
        by (auto intro: item_reads [OF plain])
      then have "list_all2 (reads dopts (d + 1)) (map I items) (map (canon opts) items)"
        by (simp add: list_all2_conv_all_nth)
      from reads_array [OF plain this lim(2)] lim(1) array_length_plain [OF plain lim(1)]
      show ?thesis by (simp add: out c)
    next
      case KindMap
      with enc have "encodeMap opts [] pairs = (out, None)" by (simp add: simps)
      then obtain K V where out: "out = AppendHead [] MajorMap (of_nat (length pairs))
          @ pair_bytes (map (\<lambda>p. (K p, V p)) (entryOrder opts pairs))"
        and KV: "\<And>p. p \<in> set pairs \<Longrightarrow> item_bytes opts (fst p) (K p) \<and> item_bytes opts (snd p) (V p)"
        by (rule encodeMap_items) blast
      let ?c = "\<lambda>p. (canon opts (fst p), canon opts (snd p))"
      have c: "canon opts ?v = MakeMap (map ?c (entryOrder opts pairs))"
        using KindMap by (simp add: simps)
      from acc have lim: "int (length pairs) \<le> maxArray dopts" "int (d + 1) \<le> maxNesting dopts"
        and el: "\<forall>p \<in> set pairs. accepted dopts (d + 1) (canon opts (fst p)) \<and> accepted dopts (d + 1) (canon opts (snd p))"
        and null: "RejectNullMapKeys dopts \<longrightarrow> (\<forall>p \<in> set pairs. Kind (canon opts (fst p)) \<noteq> KindNull)"
        unfolding c by (auto simp: accepted_simps)
      from dist have dk: "distinct_keys (map ?c (entryOrder opts pairs))"
        and "\<forall>p \<in> set pairs. distinct_maps (canon opts (fst p)) \<and> distinct_maps (canon opts (snd p))"
        unfolding c by (simp_all add: MakeMap_def)
      with el pairs KV null have "\<forall>p \<in> set pairs. reads_pair dopts (d + 1) (K p, V p) (?c p)"
        by (auto simp: reads_pair_def intro: item_reads [OF plain])
      then have "list_all2 (reads_pair dopts (d + 1)) (map (\<lambda>p. (K p, V p)) (entryOrder opts pairs))
          (map ?c (entryOrder opts pairs))"
        by (simp add: list_all2_conv_all_nth) (metis length_entryOrder nth_mem set_entryOrder)
      from reads_map [OF plain this lim(2)] lim(1) array_length_plain [OF plain lim(1)] dk
      show ?thesis by (simp add: out c)
    next
      case KindTag
      define o1 where "o1 = fst (encode opts [] (items ! 0))"
      from KindTag enc have ne: "items \<noteq> []" and "snd (encode opts [] (items ! 0)) = None"
        and out: "out = AppendHead [] MajorTag n @ o1"
        using encode_dst [of opts "AppendHead [] MajorTag n" "items ! 0"]
        by (auto simp: simps o1_def split: if_splits prod.splits)
      then have o1: "encode opts [] (items ! 0) = (o1, None)"
        by (simp add: o1_def prod_eq_iff)
      have c: "canon opts ?v = MakeTag n (canon opts (items ! 0))"
        using KindTag ne by (simp add: simps)
      from dist have "distinct_maps (canon opts (items ! 0))"
        unfolding c by (simp add: MakeTag_def)
      moreover from acc have "accepted dopts (d + 1) (canon opts (items ! 0))"
        unfolding c by (simp add: accepted_simps)
      ultimately have "reads dopts (d + 1) o1 (canon opts (items ! 0))"
        using items [of "items ! 0"] ne o1 by (simp add: readable_def)
      with acc show ?thesis unfolding c out by (intro reads_tag) (auto simp: accepted_simps)
    next
      case KindFloat32
      with Value.prems(2) have "\<not> RejectNonShortest dopts" by simp
      with KindFloat32 enc acc show ?thesis by (simp add: simps reads_encodeFloat)
    next
      case KindFloat64
      with Value.prems(2) have "\<not> RejectNonShortest dopts" by simp
      with KindFloat64 enc acc show ?thesis by (simp add: simps reads_encodeFloat)
    next
      case KindSimple
      with enc have "out = (if ucast n < (24 :: byte) then [MajorOther OR ucast n] else [SimpleOneByte, ucast n])"
        by (auto simp: simps Let_def split: if_splits)
      with KindSimple acc show ?thesis by (simp add: simps reads_simple)
    next
      case KindText
      with enc acc show ?thesis
        using reads_text [OF plain, of s d]
        by (auto simp: simps accepted_simps plain_string [OF plain] split: if_splits)
    next
      case KindBytes
      with enc acc show ?thesis
        using reads_bytes [of b dopts d]
        by (auto simp: simps accepted_simps plain_string [OF plain])
    next
      case KindBool
      with enc show ?thesis
        using reads_const [of dopts d] by (auto simp: simps split: if_splits)
    qed (use enc reads_const [of dopts d] reads_int [of dopts d] in \<open>auto simp: simps\<close>)
  qed
qed

lemma encode_reads:
  "encode opts [] v = (out, None) \<Longrightarrow> plain dopts \<Longrightarrow> RejectNonShortest dopts \<longrightarrow> float_free v
    \<Longrightarrow> accepted dopts d (canon opts v) \<Longrightarrow> distinct_maps (canon opts v)
    \<Longrightarrow> reads dopts d out (canon opts v)"
  using encode_readable unfolding readable_def by blast

end
