(* ===== verification/Canonical.thy ===== *)
theory Canonical
  imports Roundtrip
begin

text \<open>
  Consequences of the round trip for the exported operations: \<open>Decode\<close> after \<open>Encode\<close> with
  and without the self-described tag, encoding after decoding, and the canonicity of the
  deterministic encoding: reordering the entries of the maps inside a value, at any depth,
  does not change its encoding.
\<close>

section \<open>The exported decoder\<close>

lemma strip_irrelevant:
  assumes "decodeValueBody dec src opts off d False st = (Inr (v, n), st')"
    and "Kind v = KindTag \<longrightarrow> Num v \<noteq> 55799"
  shows "decodeValueBody dec src opts off d True st = (Inr (v, n), st')"
  using assms by (auto simp: decodeValueBody_def decodeTag_def Let_def res_simps MakeTag_def
      split: if_splits prod.splits sum.splits)

lemma Decode_reads:
  assumes r: "reads dopts 0 out v" and "length (out @ rest) < 2 ^ 61" and "quiet st"
    and "Kind v = KindTag \<longrightarrow> Num v \<noteq> 55799"
  shows "\<exists>st'. Decode (out @ rest) dopts st = (Inr (v, length out), st') \<and> quiet st'"
proof -
  have "0 < length (out @ rest)" using reads_nonempty [OF r] by simp
  from r [unfolded reads_def, rule_format, of 0 "out @ rest", OF _ this assms(2) _ assms(3)]
  obtain st' where "decodeValueBody (decodeValue (length (out @ rest)) (out @ rest) dopts) (out @ rest) dopts 0 0
      False st = (Inr (v, length out), st')" and q: "quiet st'" by auto
  from strip_irrelevant [OF this(1) assms(4)] q show ?thesis
    unfolding Decode_def decodeValue.simps by blast
qed

lemma Decode_self_described:
  assumes r: "reads dopts 0 out v" and "length (AppendHead [] MajorTag 55799 @ out @ rest) < 2 ^ 61"
    and "quiet st" and "Kind v = KindTag \<longrightarrow> Num v \<noteq> 55799"
  shows "\<exists>st'. Decode (AppendHead [] MajorTag 55799 @ out @ rest) dopts st
      = (Inr (v, 3 + length out), st') \<and> quiet st'"
proof -
  define src where "src = AppendHead [] MajorTag 55799 @ out @ rest"
  have n: "headSize 55799 = 3" by (simp add: headSize_def)
  have len: "length src = 3 + (length out + length rest)"
    by (simp add: src_def length_AppendHead n)
  have d: "drop 3 src = out @ rest" by (simp add: src_def length_AppendHead n)
  have "3 < length src" using len reads_nonempty [OF r] by simp
  moreover have "length src < 2 ^ 61" using assms(2) by (simp add: src_def)
  ultimately obtain st' where "decodeValueBody (decodeValue (length src - 1) src dopts) src dopts 3 0 False st
      = (Inr (v, 3 + length out), st')" and q: "quiet st'"
    using r [unfolded reads_def, rule_format, OF d _ _ _ assms(3), of "length src - 1"] by fastforce
  from strip_irrelevant [OF this(1) assms(4)]
  have inner: "decodeValue (length src) src dopts 3 0 True st = (Inr (v, 3 + length out), st')"
    using \<open>3 < length src\<close> by (cases "length src") auto
  have "decodeValueBody (decodeValue (length src) src dopts) src dopts 0 0 True st
      = (Inr (v, 3 + length out), st')"
  proof (subst body_head [OF _ is_major_consts(7)])
    show "drop 0 src = AppendHead [] MajorTag 55799 @ out @ rest" by (simp add: src_def)
    show "0 < length src" using \<open>3 < length src\<close> by linarith
  qed (use inner in \<open>simp add: decodeTag_def knownTags_def n\<close>)
  with q show ?thesis unfolding src_def [symmetric] Decode_def decodeValue.simps by blast
qed

lemma decodeArray_kind:
  "decodeArray dec src off h d opts st = (Inr (v, n), st') \<Longrightarrow> Kind v = KindArray"
proof -
  have "decodeArrayLoop dec src opts cd k pos arr st = (Inr (v, n), st') \<Longrightarrow> Kind v = KindArray"
    for cd k pos arr st
    by (induction k arbitrary: pos arr st) (auto simp: res_simps split: prod.splits sum.splits)
  moreover have "decodeIndefArrayLoop fuel dec src opts d pos arr st = (Inr (v, n), st') \<Longrightarrow> Kind v = KindArray"
    for fuel pos arr st
    by (induction fuel arbitrary: pos arr st)
      (auto simp: decodeIndefArrayLoop.simps res_simps split: prod.splits sum.splits if_splits)
  moreover assume "decodeArray dec src off h d opts st = (Inr (v, n), st')"
  ultimately show ?thesis
    by (auto simp: decodeArray_def decodeIndefiniteArray_def res_simps Let_def split: if_splits prod.splits)
qed

lemma decodeMap_kind:
  "decodeMap dec src off h d opts st = (Inr (v, n), st') \<Longrightarrow> Kind v = KindMap"
proof -
  have "decodeMapLoop dec src opts d k pos m dd st = (Inr (v, n), st') \<Longrightarrow> Kind v = KindMap"
    for k pos m dd st
    by (induction k arbitrary: pos m dd st) (auto simp: res_simps split: prod.splits sum.splits)
  moreover have "decodeIndefMapLoop fuel dec src opts d pos m st = (Inr (v, n), st') \<Longrightarrow> Kind v = KindMap"
    for fuel pos m st
    by (induction fuel arbitrary: pos m st)
      (auto simp: decodeIndefMapLoop.simps res_simps split: prod.splits sum.splits if_splits)
  moreover assume "decodeMap dec src off h d opts st = (Inr (v, n), st')"
  ultimately show ?thesis
    by (auto simp: decodeMap_def decodeIndefiniteMap_def res_simps Let_def split: if_splits prod.splits)
qed

lemma decodeValue_stripped:
  "decodeValue fuel src opts off d True st = (Inr (v, n), st') \<Longrightarrow> Kind v = KindTag \<longrightarrow> Num v \<noteq> 55799"
proof (induction fuel arbitrary: off d st)
  case 0
  then show ?case by simp
next
  case (Suc fuel)
  show ?case
  proof (cases "decodeValue fuel src opts (off + HeadN (ParseHead (drop off src))) d True st = (Inr (v, n), st')")
    case True
    then show ?thesis by (rule Suc.IH)
  next
    case False
    with Suc.prems show ?thesis
      by (auto simp: decodeValueBody_def decodeTag_def decodeBytes_def decodeIndefiniteBytes_def
          decodeText_def decodeIndefiniteText_def decodeOther_def res_simps Let_def MakeTag_def
          dest!: decodeArray_kind decodeMap_kind split: if_splits prod.splits sum.splits option.splits)
  qed
qed

section \<open>Encoding what was decoded\<close>

lemma canon_accepted:
  assumes "\<not> Deterministic opts" and "EncFloatMode opts \<noteq> FloatForce64"
  shows "accepted dopts d v \<Longrightarrow> canon opts v = v"
proof (induction rule: accepted.induct)
  case (w_simple s d)
  then have "s \<noteq> 20" "s \<noteq> 21" "s \<noteq> 22" "s \<noteq> 23" by (auto simp: word_less_nat_alt word_le_nat_alt)
  moreover have "ucast (ucast s :: u64) = s"
    using unat_bounds(1) [of s] by (intro word_eqI_unat) (simp add: unat_ucast_mod)
  ultimately show ?case
    by (simp add: canon.simps Simple_def canonSimple_def)
next
  case (w_float32 f d)
  have "ucast (ucast f :: u64) = f"
    using unat_bounds(3) [of f] by (intro word_eqI_unat) (simp add: unat_ucast_mod)
  with assms show ?case
    by (cases "EncFloatMode opts") (simp_all add: canon.simps Float32_def canonFloat32_def)
next
  case (w_float64 f d)
  with assms show ?case
    by (cases "EncFloatMode opts") (simp_all add: canon.simps Float64_def canonFloat64_def)
next
  case (w_array xs d)
  then have "map (canon opts) xs = xs" by (intro map_idI) auto
  then show ?case by (simp add: canon.simps MakeArray_def)
next
  case (w_map ps d)
  have "map (\<lambda>p. (canon opts (fst p), canon opts (snd p))) ps = ps"
    using w_map by (intro map_idI) auto
  then show ?case using assms by (simp add: canon.simps MakeMap_def entryOrder_def)
qed (simp_all add: canon.simps val_defs)

text \<open>The encoder accepts every value that respects the limits of some decoder configuration,
  under any options that allow its texts and floats.\<close>

lemma itemVal_total: "snd (encode opts [] v) = None \<Longrightarrow> snd (itemVal opts [] v) = None"
  "snd (encode opts [] v) = None \<Longrightarrow> snd (pairKey opts [] v) = None"
  "snd (encode opts [] v) = None \<Longrightarrow> snd (pairVal opts [] v) = None"
  by (simp_all add: itemVal_def pairKey_def pairVal_def split: option.splits)

text \<open>Where \<open>encode\<close> succeeds, the fast paths of the loops write the same bytes.\<close>

lemma inline_same:
  assumes "snd (encode opts [] v) = None"
  shows "itemVal opts [] v = encode opts [] v" "pairKey opts [] v = encode opts [] v"
    "pairVal opts [] v = encode opts [] v"
  using assms
  by (cases "Kind v"; auto simp: itemVal_def pairKey_def pairVal_def inlineItem_def inlineKey_def
      inlineVal_def encode.simps [of opts "[]" v] split: if_splits)+

lemma encodeItems_total:
  "\<forall>v \<in> set vs. snd (encode opts [] v) = None \<Longrightarrow> snd (encodeItems opts dst vs) = None"
proof (induction vs arbitrary: dst)
  case Nil
  then show ?case by simp
next
  case (Cons v vs)
  then show ?case
    using inline_dst(1) [of opts dst v] itemVal_total(1) [of opts v]
    by (auto simp: encodeItems_Cons split: prod.splits option.splits)
qed

lemma encodePairs_total:
  "\<forall>p \<in> set m. snd (encode opts [] (fst p)) = None \<and> snd (encode opts [] (snd p)) = None
    \<Longrightarrow> snd (encodePairs opts dst m) = None"
proof (induction m arbitrary: dst)
  case Nil
  then show ?case by simp
next
  case (Cons p m)
  define k where "k = dst @ fst (pairKey opts [] (fst p))"
  define v where "v = k @ fst (pairVal opts [] (snd p))"
  have "pairKey opts dst (fst p) = (k, None)"
    using inline_dst(2) [of opts dst "fst p"] itemVal_total(2) [of opts "fst p"] Cons.prems
    by (simp add: k_def)
  moreover have "pairVal opts k (snd p) = (v, None)"
    using inline_dst(3) [of opts k "snd p"] itemVal_total(3) [of opts "snd p"] Cons.prems
    by (simp add: v_def)
  ultimately show ?case
    using Cons by (simp add: encodePairs_Cons)
qed

lemma encodeKeys_total:
  "\<forall>p \<in> set m. snd (encode opts [] (fst p)) = None \<Longrightarrow> snd (encodeKeys opts kb m) = None"
proof (induction m arbitrary: kb)
  case Nil
  then show ?case by simp
next
  case (Cons p m)
  then show ?case
    using encode_dst [of opts kb "fst p"]
    by (simp split: prod.splits option.splits) (metis snd_conv)
qed

lemma encodeSorted_total:
  "\<forall>e \<in> set es. snd (encode opts [] (snd (snd e))) = None \<Longrightarrow> snd (encodeSorted opts kb dst es) = None"
proof (induction es arbitrary: dst)
  case Nil
  then show ?case by simp
next
  case (Cons e es)
  then show ?case
    using encode_dst [of opts "dst @ keyOf kb e" "snd (snd e)"] by (auto split: prod.splits option.splits)
qed

lemma encodeMap_total:
  assumes "\<forall>p \<in> set m. snd (encode opts [] (fst p)) = None \<and> snd (encode opts [] (snd p)) = None"
  shows "snd (encodeMap opts dst m) = None"
proof -
  have "snd ` set (sortEntries mode kb xs m) \<subseteq> set m" for mode kb xs
  proof -
    have "set_mset (mset (sortEntries mode kb xs m)) = set_mset (mset (zip xs m))"
      by (simp only: sortEntries_def mset_SortFunc)
    then have "set (sortEntries mode kb xs m) = set (zip xs m)" by (simp only: set_mset_mset)
    then show ?thesis by (auto dest: set_zip_rightD)
  qed
  with assms have "snd (encodeSorted opts kb d (sortEntries mode kb xs m)) = None" for kb d mode xs
    by (intro encodeSorted_total) blast
  moreover have "snd (encodeKeys opts [] m) = None"
    using assms by (intro encodeKeys_total) blast
  moreover have "snd (encodePairs opts d m) = None" for d
    using assms by (rule encodePairs_total)
  ultimately show ?thesis
    by (auto simp: encodeMap.simps Let_def split: prod.splits option.splits)
qed

lemma encode_total:
  assumes "AllowInvalidUTF8 opts \<or> SkipUTF8Validation opts \<or> RejectInvalidUTF8 dopts"
    and "AllowNonFiniteFloats opts \<or> RejectNonFiniteFloats dopts"
  shows "accepted dopts d v \<Longrightarrow> snd (encode opts [] v) = None"
proof (induction rule: accepted.induct)
  case (w_float32 f d)
  have "ucast (ucast f :: u64) = f"
    using unat_bounds(3) [of f] by (intro word_eqI_unat) (simp add: unat_ucast_mod)
  with w_float32 assms(2) show ?case
    by (auto simp: encode.simps Float32_def encodeFloat32_def Let_def f64_finite_iff f32_finite_iff [symmetric]
        split: FloatMode.splits)
next
  case (w_float64 f d)
  with assms(2) show ?case
    by (auto simp: encode.simps Float64_def encodeFloat64_def Let_def f64_finite_iff split: FloatMode.splits)
next
  case (w_array xs d)
  then show ?case by (simp add: encode.simps MakeArray_def encodeItems_total)
next
  case (w_map ps d)
  then show ?case by (simp add: encode.simps MakeMap_def encodeMap_total)
next
  case (w_tag d i v)
  have "Kind v \<noteq> KindInvalid"
    using w_tag(3) by (cases rule: accepted.cases) auto
  with w_tag show ?case
    using encode_dst [of opts "AppendHead [] MajorTag i" v] by (simp add: encode.simps MakeTag_def)
next
  case (w_text s d)
  with assms(1) show ?case by (auto simp: encode.simps Text_def)
qed (simp_all add: encode.simps val_defs Let_def)

section \<open>Canonicity\<close>

text \<open>\<open>reordered v w\<close>: the same value up to the order of the entries of its maps.\<close>

inductive reordered :: "Value \<Rightarrow> Value \<Rightarrow> bool" where
  ro_refl: "reordered v v"
| ro_array: "list_all2 reordered xs ys \<Longrightarrow> reordered (MakeArray xs) (MakeArray ys)"
| ro_map: "list_all2 (\<lambda>p q. reordered (fst p) (fst q) \<and> reordered (snd p) (snd q)) ps qs
    \<Longrightarrow> mset qs' = mset qs \<Longrightarrow> reordered (MakeMap ps) (MakeMap qs')"
| ro_tag: "reordered v w \<Longrightarrow> reordered (MakeTag i v) (MakeTag i w)"

text \<open>Every part of a value encodes, and in every map the encoded keys differ.\<close>

function parts_encode :: "EncodeOpts \<Rightarrow> Value \<Rightarrow> bool" where
  "parts_encode opts (Value k n s b items pairs) =
     ((\<forall>x \<in> set items. parts_encode opts x)
      \<and> (\<forall>p \<in> set pairs. parts_encode opts (fst p) \<and> parts_encode opts (snd p))
      \<and> distinct (map (\<lambda>p. fst (encode opts [] (fst p))) pairs)
      \<and> snd (encode opts [] (Value k n s b items pairs)) = None)"
  by pat_completeness auto
termination
  by (relation "measure (\<lambda>(opts, v). size v)")
    (simp_all only: in_measure wf_measure size_item size_pair prod.case)

lemma parts_encode_ok: "parts_encode opts v \<Longrightarrow> snd (encode opts [] v) = None"
  by (cases v) simp

lemma entryOrder_perm:
  assumes "Deterministic opts" and "mset m' = mset m"
    and "distinct (map (\<lambda>p. fst (encode opts [] (fst p))) m)"
  shows "entryOrder opts m' = entryOrder opts m"
proof (cases "length m \<le> 1")
  case True
  then have "m' = m"
    using assms(2) by (cases m) (auto simp: size_eq_Suc_imp_eq_union)
  then show ?thesis by simp
next
  case False
  moreover have "length m' = length m" using assms(2) by (rule mset_eq_length)
  moreover have "SortFunc (\<lambda>a b. compareKeys (EncSortMode opts) (fst (encode opts [] (fst a)))
        (fst (encode opts [] (fst b)))) m'
      = SortFunc (\<lambda>a b. compareKeys (EncSortMode opts) (fst (encode opts [] (fst a)))
        (fst (encode opts [] (fst b)))) m"
    using assms(2,3) keys.SortFunc_sorted
    by (intro keys.SortFunc_unique [where k = "\<lambda>p. fst (encode opts [] (fst p))"]) simp_all
  ultimately show ?thesis using assms(1) by (simp add: entryOrder_def)
qed

text \<open>Both ways of writing a map, in terms of the encodings of its entries.\<close>

lemma encodeMap_value:
  assumes "\<forall>p \<in> set m. snd (encode opts [] (fst p)) = None \<and> snd (encode opts [] (snd p)) = None"
  shows "encodeMap opts [] m = (AppendHead [] MajorMap (of_nat (length m))
    @ concat (map (\<lambda>p. fst (encode opts [] (fst p)) @ fst (encode opts [] (snd p))) (entryOrder opts m)), None)"
proof -
  obtain out where out: "encodeMap opts [] m = (out, None)"
    using encodeMap_total [OF assms, of "[]"] by (cases "encodeMap opts [] m") simp
  show ?thesis
  proof (cases "\<not> Deterministic opts \<or> length m \<le> 1")
    case True
    with out have "encodePairs opts (AppendHead [] MajorMap (of_nat (length m))) m = (out, None)"
      by (simp add: encodeMap.simps)
    from encodePairs_ok [OF this]
    have "out = AppendHead [] MajorMap (of_nat (length m))
        @ concat (map (\<lambda>p. fst (pairKey opts [] (fst p)) @ fst (pairVal opts [] (snd p))) m)" by blast
    moreover have "pairKey opts [] (fst p) = encode opts [] (fst p)"
      and "pairVal opts [] (snd p) = encode opts [] (snd p)" if "p \<in> set m" for p
      using assms that by (auto intro: inline_same)
    ultimately show ?thesis
      using out True by (simp add: entryOrder_def cong: map_cong)
  next
    case False
    with encodeMap_sorted_ok [OF out] out show ?thesis by simp
  qed
qed

lemma encodeItems_value:
  assumes "\<forall>v \<in> set vs. snd (encode opts [] v) = None"
  shows "encodeItems opts dst vs = (dst @ concat (map (\<lambda>v. fst (encode opts [] v)) vs), None)"
proof -
  obtain out where out: "encodeItems opts dst vs = (out, None)"
    using encodeItems_total [OF assms, of dst] by (cases "encodeItems opts dst vs") simp
  moreover have "itemVal opts [] v = encode opts [] v" if "v \<in> set vs" for v
    using assms that by (auto intro: inline_same)
  ultimately show ?thesis
    using encodeItems_ok [OF out] by (simp cong: map_cong)
qed

lemma entryOrder_bytes:
  "map (\<lambda>p. (fst (encode opts [] (fst p)), fst (encode opts [] (snd p)))) (entryOrder opts m) =
    (let es = map (\<lambda>p. (fst (encode opts [] (fst p)), fst (encode opts [] (snd p)))) m in
     if \<not> Deterministic opts \<or> length es \<le> 1 then es
     else SortFunc (\<lambda>a b. compareKeys (EncSortMode opts) (fst a) (fst b)) es)"
  using SortFunc_map [where g = "\<lambda>p. (fst (encode opts [] (fst p)), fst (encode opts [] (snd p)))" and h = fst
      and c = "compareKeys (EncSortMode opts)" and xs = m]
  by (simp add: entryOrder_def Let_def)

lemma concat_pairs: "concat (map (\<lambda>p. f p @ g p) xs) = concat (map (\<lambda>(a, b). a @ b) (map (\<lambda>p. (f p, g p)) xs))"
  by (simp add: comp_def)

lemma reordered_encode:
  assumes "Deterministic opts"
  shows "reordered v w \<Longrightarrow> parts_encode opts v \<Longrightarrow> encode opts [] w = encode opts [] v"
proof (induction rule: reordered.induct)
  case (ro_refl v)
  show ?case by simp
next
  case (ro_array xs ys)
  from ro_array.prems have xs: "\<forall>x \<in> set xs. parts_encode opts x"
    by (simp add: MakeArray_def)
  with ro_array.IH have eq: "list_all2 (\<lambda>x y. encode opts [] y = encode opts [] x) xs ys"
    by (auto simp: list_all2_conv_all_nth)
  then have m: "map (\<lambda>v. fst (encode opts [] v)) ys = map (\<lambda>v. fst (encode opts [] v)) xs"
    and len: "length ys = length xs"
    by (auto simp: list_all2_conv_all_nth intro: nth_equalityI)
  have "\<forall>x \<in> set xs. snd (encode opts [] x) = None"
    using xs parts_encode_ok by blast
  moreover from this have "\<forall>y \<in> set ys. snd (encode opts [] y) = None"
    using eq by (metis (mono_tags, lifting) in_set_conv_nth list_all2_conv_all_nth)
  ultimately show ?case
    by (simp add: encode.simps [of opts "[]" "Value KindArray 0 [] [] zs []" for zs] MakeArray_def encodeItems_value m len)
next
  case (ro_map ps qs qs')
  let ?h = "\<lambda>p. (fst (encode opts [] (fst p)), fst (encode opts [] (snd p)))"
  from ro_map.prems have ps: "\<forall>p \<in> set ps. parts_encode opts (fst p) \<and> parts_encode opts (snd p)"
    and dist: "distinct (map (\<lambda>p. fst (encode opts [] (fst p))) ps)"
    by (simp_all add: MakeMap_def)
  with ro_map.IH have eq: "list_all2 (\<lambda>p q. encode opts [] (fst q) = encode opts [] (fst p)
      \<and> encode opts [] (snd q) = encode opts [] (snd p)) ps qs"
    by (auto simp: list_all2_conv_all_nth)
  then have h: "map ?h qs = map ?h ps" and keys: "map (\<lambda>p. fst (encode opts [] (fst p))) qs
      = map (\<lambda>p. fst (encode opts [] (fst p))) ps" and len: "length qs = length ps"
    by (auto simp: list_all2_conv_all_nth intro: nth_equalityI)
  have ok: "\<forall>p \<in> set ps. snd (encode opts [] (fst p)) = None \<and> snd (encode opts [] (snd p)) = None"
    using ps parts_encode_ok by blast
  moreover from this have ok_qs: "\<forall>q \<in> set qs. snd (encode opts [] (fst q)) = None \<and> snd (encode opts [] (snd q)) = None"
    using eq by (metis (mono_tags, lifting) in_set_conv_nth list_all2_conv_all_nth)
  moreover from this have "\<forall>q \<in> set qs'. snd (encode opts [] (fst q)) = None \<and> snd (encode opts [] (snd q)) = None"
    using ro_map.hyps mset_eq_setD by blast
  moreover have "entryOrder opts qs' = entryOrder opts qs"
    using assms ro_map.hyps dist keys by (intro entryOrder_perm) simp_all
  moreover have "length qs' = length qs"
    using ro_map.hyps by (rule mset_eq_length)
  moreover have "map ?h (entryOrder opts qs) = map ?h (entryOrder opts ps)"
    unfolding entryOrder_bytes h by (rule refl)
  ultimately show ?case
    by (simp add: encode.simps [of opts "[]" "Value KindMap 0 [] [] [] zs" for zs] MakeMap_def encodeMap_value len
        concat_pairs [where f = "\<lambda>p. fst (encode opts [] (fst p))"])
next
  case (ro_tag v w i)
  from ro_tag.prems have "parts_encode opts v" by (simp add: MakeTag_def)
  with ro_tag.IH have eq: "encode opts [] w = encode opts [] v" and "snd (encode opts [] v) = None"
    by (simp_all add: parts_encode_ok)
  then have "Kind v \<noteq> KindInvalid" "Kind w \<noteq> KindInvalid"
    by (auto simp: encode.simps [of opts "[]"])
  with eq show ?case
    using encode_dst [of opts "AppendHead [] MajorTag i" v] encode_dst [of opts "AppendHead [] MajorTag i" w]
    by (simp add: encode.simps [of opts "[]" "Value KindTag i [] [] zs []" for zs] MakeTag_def)
qed

end
