(* ===== verification/Codec.thy ===== *)
theory Codec
  imports Canonical
begin

text \<open>
  The exported encoder and decoder (\<^verbatim>\<open>encoder.go\<close>, \<^verbatim>\<open>decoder.go\<close>), sequences (\<^verbatim>\<open>sequence.go\<close>)
  and raw items (\<^verbatim>\<open>raw.go\<close>). An option is the update of the configuration that the Go option
  function makes; a decoder owns the budget, interner and arena that its configuration
  points to, so its operations return the decoder after the call. A Go slice that may be nil
  is an \<open>option\<close> where the code distinguishes the two.
\<close>

section \<open>The encoder\<close>

type_synonym Mode = int

definition ModePermissive :: Mode where [simp]: "ModePermissive = 0"
definition ModeCoreDeterministic :: Mode where [simp]: "ModeCoreDeterministic = 1"
definition ModeCanonical :: Mode where [simp]: "ModeCanonical = 2"
definition ModeCTAP2 :: Mode where [simp]: "ModeCTAP2 = 3"

text \<open>The buffer that \<open>bufferPool\<close> hands out is emptied before use, so only its presence
  matters.\<close>

record encodeConfig =
  allowNonFiniteFloats :: bool
  allowInvalidUTF8 :: bool
  bufferPool :: bool

definition OptAllowNonFiniteFloats :: "encodeConfig \<Rightarrow> encodeConfig" where
  "OptAllowNonFiniteFloats c = c\<lparr>allowNonFiniteFloats := True\<rparr>"
definition OptAllowInvalidUTF8 :: "encodeConfig \<Rightarrow> encodeConfig" where
  "OptAllowInvalidUTF8 c = c\<lparr>allowInvalidUTF8 := True\<rparr>"
definition OptWithBufferPool :: "encodeConfig \<Rightarrow> encodeConfig" where
  "OptWithBufferPool c = c\<lparr>bufferPool := True\<rparr>"

record Encoder =
  enc_mode :: Mode
  enc_cfg :: encodeConfig
  enc_shared :: bool

definition NewEncoder :: "Mode \<Rightarrow> (encodeConfig \<Rightarrow> encodeConfig) list \<Rightarrow> Encoder" where
  "NewEncoder mode opts =
     \<lparr>enc_mode = mode,
      enc_cfg = fold (\<lambda>f c. f c) opts
        \<lparr>allowNonFiniteFloats = False, allowInvalidUTF8 = False, bufferPool = False\<rparr>,
      enc_shared = False\<rparr>"

definition NewShared :: "Mode \<Rightarrow> (encodeConfig \<Rightarrow> encodeConfig) list \<Rightarrow> Encoder" where
  "NewShared mode opts = (NewEncoder mode opts)\<lparr>enc_shared := True\<rparr>"

definition encodeOpts :: "Encoder \<Rightarrow> EncodeOpts" where
  "encodeOpts e =
     (let opts = \<lparr>Deterministic = False, EncSortMode = SortBytewiseLex, EncFloatMode = FloatShortest,
            AllowNonFiniteFloats = allowNonFiniteFloats (enc_cfg e),
            AllowInvalidUTF8 = allowInvalidUTF8 (enc_cfg e), SkipUTF8Validation = False\<rparr>
      in if enc_mode e = ModePermissive then opts\<lparr>EncFloatMode := FloatPreserve\<rparr>
         else if enc_mode e = ModeCoreDeterministic then
           opts\<lparr>Deterministic := True, EncSortMode := SortBytewiseLex, EncFloatMode := FloatShortest\<rparr>
         else if enc_mode e = ModeCanonical then
           opts\<lparr>Deterministic := True, EncSortMode := SortLengthFirst, EncFloatMode := FloatShortest\<rparr>
         else if enc_mode e = ModeCTAP2 then
           opts\<lparr>Deterministic := True, EncSortMode := SortLengthFirst, EncFloatMode := FloatForce64\<rparr>
         else opts)"

definition Encode :: "Encoder \<Rightarrow> bytes \<Rightarrow> Value \<Rightarrow> enc_result" where
  "Encode e dst v =
     (if enc_mode e < ModePermissive \<or> enc_mode e > ModeCTAP2 then (dst, Some ErrInvalidMode)
      else if bufferPool (enc_cfg e) then
        (case encode (encodeOpts e) [] v of
           (buf, Some er) \<Rightarrow> (dst, Some er)
         | (buf, None) \<Rightarrow> (dst @ buf, None))
      else encode (encodeOpts e) dst v)"

fun EncodeSequence :: "Encoder \<Rightarrow> bytes \<Rightarrow> Value list \<Rightarrow> enc_result" where
  "EncodeSequence e dst [] = (dst, None)"
| "EncodeSequence e dst (item # items) =
     (case Encode e dst item of
        (dst', Some er) \<Rightarrow> (dst', Some er)
      | (dst', None) \<Rightarrow> EncodeSequence e dst' items)"

section \<open>The decoder\<close>

record decodeConfig =
  dec_opts :: DecodeOpts
  dec_state :: dstate
  noInternalArena :: bool

definition WithRejectIndefiniteLength :: "decodeConfig \<Rightarrow> decodeConfig" where
  "WithRejectIndefiniteLength c = c\<lparr>dec_opts := (dec_opts c)\<lparr>RejectIndefiniteLength := True\<rparr>\<rparr>"
definition WithRejectNonShortest :: "decodeConfig \<Rightarrow> decodeConfig" where
  "WithRejectNonShortest c = c\<lparr>dec_opts := (dec_opts c)\<lparr>RejectNonShortest := True\<rparr>\<rparr>"
definition WithRejectInvalidUTF8 :: "decodeConfig \<Rightarrow> decodeConfig" where
  "WithRejectInvalidUTF8 c = c\<lparr>dec_opts := (dec_opts c)\<lparr>RejectInvalidUTF8 := True\<rparr>\<rparr>"
definition WithRejectDuplicateMapKeys :: "decodeConfig \<Rightarrow> decodeConfig" where
  "WithRejectDuplicateMapKeys c = c\<lparr>dec_opts := (dec_opts c)\<lparr>RejectDuplicateMapKeys := True\<rparr>\<rparr>"
definition WithRejectUnknownTags :: "decodeConfig \<Rightarrow> decodeConfig" where
  "WithRejectUnknownTags c = c\<lparr>dec_opts := (dec_opts c)\<lparr>RejectUnknownTags := True\<rparr>\<rparr>"
definition WithRejectNonFiniteFloats :: "decodeConfig \<Rightarrow> decodeConfig" where
  "WithRejectNonFiniteFloats c = c\<lparr>dec_opts := (dec_opts c)\<lparr>RejectNonFiniteFloats := True\<rparr>\<rparr>"
definition WithRejectNullMapKeys :: "decodeConfig \<Rightarrow> decodeConfig" where
  "WithRejectNullMapKeys c = c\<lparr>dec_opts := (dec_opts c)\<lparr>RejectNullMapKeys := True\<rparr>\<rparr>"
definition WithMaxNestingDepth :: "int \<Rightarrow> decodeConfig \<Rightarrow> decodeConfig" where
  "WithMaxNestingDepth n c = c\<lparr>dec_opts := (dec_opts c)\<lparr>MaxNestingDepth := n\<rparr>\<rparr>"
definition WithMaxArrayLength :: "int \<Rightarrow> decodeConfig \<Rightarrow> decodeConfig" where
  "WithMaxArrayLength n c = c\<lparr>dec_opts := (dec_opts c)\<lparr>MaxArrayLength := n\<rparr>\<rparr>"
definition WithMaxByteStringLength :: "int \<Rightarrow> decodeConfig \<Rightarrow> decodeConfig" where
  "WithMaxByteStringLength n c = c\<lparr>dec_opts := (dec_opts c)\<lparr>MaxByteStringLength := n\<rparr>\<rparr>"
definition WithMemoryBudget :: "int \<Rightarrow> decodeConfig \<Rightarrow> decodeConfig" where
  "WithMemoryBudget limit c =
     (if limit > 0 then c\<lparr>dec_state := (dec_state c)\<lparr>Budget := Some (NewBudget limit)\<rparr>\<rparr> else c)"
definition WithStringIntern :: "StringInterner option \<Rightarrow> decodeConfig \<Rightarrow> decodeConfig" where
  "WithStringIntern si c = c\<lparr>dec_state := (dec_state c)\<lparr>Interner := si\<rparr>\<rparr>"
definition WithArena :: "Arena option \<Rightarrow> decodeConfig \<Rightarrow> decodeConfig" where
  "WithArena a c = c\<lparr>dec_state := (dec_state c)\<lparr>ArenaOf := a\<rparr>\<rparr>"
definition WithZeroCopy :: "decodeConfig \<Rightarrow> decodeConfig" where
  "WithZeroCopy c = c\<lparr>dec_opts := (dec_opts c)\<lparr>ZeroCopy := True\<rparr>\<rparr>"
definition WithoutInternalArena :: "decodeConfig \<Rightarrow> decodeConfig" where
  "WithoutInternalArena c = c\<lparr>noInternalArena := True\<rparr>"

record Decoder =
  dec_cfg :: decodeConfig
  int_arena :: "Arena option"

definition mkDecoder :: "DecodeOpts \<Rightarrow> (decodeConfig \<Rightarrow> decodeConfig) list \<Rightarrow> Decoder" where
  "mkDecoder base opts =
     (let cfg = fold (\<lambda>f c. f c) opts \<lparr>dec_opts = base, dec_state = NilState, noInternalArena = False\<rparr>
      in \<lparr>dec_cfg = cfg,
          int_arena = (if \<not> noInternalArena cfg \<and> ArenaOf (dec_state cfg) = None
                       then Some (NewArena 256 64) else None)\<rparr>)"

definition NewDecoder :: "(decodeConfig \<Rightarrow> decodeConfig) list \<Rightarrow> Decoder" where
  "NewDecoder opts = mkDecoder DefaultOpts opts"
definition StrictDecoder :: "(decodeConfig \<Rightarrow> decodeConfig) list \<Rightarrow> Decoder" where
  "StrictDecoder opts = mkDecoder StrictOpts opts"

text \<open>\<open>Decoder.Decode\<close>: the budget starts again, the internal arena is reset and replaces the
  configured one for this call.\<close>

definition resetBudget :: "dstate \<Rightarrow> dstate" where
  "resetBudget st = (case Budget st of None \<Rightarrow> st | Some b \<Rightarrow> st\<lparr>Budget := Some (b\<lparr>Allocated := 0\<rparr>)\<rparr>)"

definition DecodeWith :: "Decoder \<Rightarrow> bytes \<Rightarrow> (fault + Value) \<times> Decoder" where
  "DecodeWith d src =
     (let st0 = resetBudget (dec_state (dec_cfg d));
          arena = map_option Reset (int_arena d);
          st1 = (case arena of None \<Rightarrow> st0 | Some a \<Rightarrow> st0\<lparr>ArenaOf := Some a\<rparr>);
          (r, st2) = Decode src (dec_opts (dec_cfg d)) st1;
          d' = (case arena of
                  None \<Rightarrow> d\<lparr>dec_cfg := (dec_cfg d)\<lparr>dec_state := st2\<rparr>\<rparr>
                | Some a \<Rightarrow> d\<lparr>dec_cfg := (dec_cfg d)\<lparr>dec_state := st2\<lparr>ArenaOf := ArenaOf st0\<rparr>\<rparr>,
                             int_arena := ArenaOf st2\<rparr>)
      in case r of
           Inl f \<Rightarrow> (Inl f, d')
         | Inr (v, n) \<Rightarrow>
             if n \<noteq> length src then (Inl (Err ErrTrailingBytes 0), d') else (Inr v, d'))"

section \<open>Sequences\<close>

text \<open>\<open>DecodeSequence\<close> hands the configured options to every item: the budget is not reset
  and the internal arena is not used.\<close>

function DecodeSequenceLoop ::
  "DecodeOpts \<Rightarrow> bytes \<Rightarrow> Value list \<Rightarrow> dstate \<Rightarrow> (fault + Value list) \<times> dstate" where
  "DecodeSequenceLoop opts remaining sq st =
     (if length remaining > 0 then
        (case Decode remaining opts st of
           (Inl f, st') \<Rightarrow> (Inl f, st')
         | (Inr (v, n), st') \<Rightarrow> DecodeSequenceLoop opts (drop n remaining) (sq @ [v]) st')
      else (Inr sq, st))"
  by pat_completeness auto
termination
  by (relation "measure (\<lambda>(opts, remaining, sq, st). length remaining)")
    (auto dest!: sym [of "(Inr _, _)"] Decode_progress)

declare DecodeSequenceLoop.simps [simp del]

definition DecodeSequence :: "Decoder \<Rightarrow> bytes \<Rightarrow> (fault + Value list) \<times> Decoder" where
  "DecodeSequence d src =
     (case DecodeSequenceLoop (dec_opts (dec_cfg d)) src [] (dec_state (dec_cfg d)) of
        (r, st) \<Rightarrow> (r, d\<lparr>dec_cfg := (dec_cfg d)\<lparr>dec_state := st\<rparr>\<rparr>))"

definition defaultEncoder :: Encoder where "defaultEncoder = NewEncoder ModeCoreDeterministic []"
definition defaultDecoder :: Decoder where "defaultDecoder = NewDecoder []"

section \<open>Raw items\<close>

record RawTag =
  RawID :: u64
  Content :: "bytes option"

text \<open>\<open>RawMessage.MarshalCBOR\<close> and \<open>RawTag.MarshalCBOR\<close>; \<open>None\<close> is a nil message.\<close>

definition RawMessage_MarshalCBOR :: "bytes option \<Rightarrow> enc_result" where
  "RawMessage_MarshalCBOR r =
     (case r of None \<Rightarrow> Encode (NewEncoder ModeCoreDeterministic []) [] Null | Some b \<Rightarrow> (b, None))"

definition RawTag_MarshalCBOR :: "RawTag \<Rightarrow> enc_result" where
  "RawTag_MarshalCBOR t =
     (case Content t of
        None \<Rightarrow> Encode (NewEncoder ModeCoreDeterministic []) [] (MakeTag (RawID t) Null)
      | Some c \<Rightarrow> (AppendHead [] MajorTag (RawID t) @ c, None))"

datatype raw_error = RawDecode fault | RawNotTag kind | RawEncode cbor_error

definition RawTag_UnmarshalCBOR :: "bytes \<Rightarrow> raw_error + RawTag" where
  "RawTag_UnmarshalCBOR data =
     (case fst (DecodeWith (NewDecoder []) data) of
        Inl f \<Rightarrow> Inl (RawDecode f)
      | Inr val \<Rightarrow>
          if Kind val \<noteq> KindTag then Inl (RawNotTag (Kind val))
          else (case Encode (NewEncoder ModeCoreDeterministic []) [] (TagInner val) of
                  (inner, Some er) \<Rightarrow> Inl (RawEncode er)
                | (inner, None) \<Rightarrow> Inr \<lparr>RawID = TagID val, Content = Some inner\<rparr>))"

section \<open>Encoders\<close>

definition valid_mode :: "Encoder \<Rightarrow> bool" where
  "valid_mode e \<longleftrightarrow> ModePermissive \<le> enc_mode e \<and> enc_mode e \<le> ModeCTAP2"

lemma Encode_dst:
  "snd (Encode e dst v) = snd (Encode e [] v)"
  "snd (Encode e dst v) = None \<Longrightarrow> fst (Encode e dst v) = dst @ fst (Encode e [] v)"
  using encode_dst [of "encodeOpts e" dst v]
  by (auto simp: Encode_def split: prod.splits option.splits)

lemma Encode_encode:
  "Encode e [] v = (out, None) \<longleftrightarrow> valid_mode e \<and> encode (encodeOpts e) [] v = (out, None)"
  by (auto simp: Encode_def valid_mode_def split: prod.splits option.splits)

lemma Encode_pool:
  assumes "bufferPool (enc_cfg e)"
  shows "Encode e dst v =
    (case Encode (e\<lparr>enc_cfg := (enc_cfg e)\<lparr>bufferPool := False\<rparr>\<rparr>) dst v of
       (out, None) \<Rightarrow> (out, None) | (_, Some er) \<Rightarrow> (dst, Some er))"
proof -
  have "encodeOpts (e\<lparr>enc_cfg := (enc_cfg e)\<lparr>bufferPool := False\<rparr>\<rparr>) = encodeOpts e"
    by (simp add: encodeOpts_def Let_def)
  with assms encode_dst [of "encodeOpts e" dst v] show ?thesis
    by (auto simp: Encode_def split: prod.splits option.splits)
qed

lemma EncodeSequence_ok:
  "EncodeSequence e dst vs = (out, None) \<Longrightarrow>
    list_all2 (\<lambda>v b. Encode e [] v = (b, None)) vs (map (\<lambda>v. fst (Encode e [] v)) vs)
    \<and> out = dst @ concat (map (\<lambda>v. fst (Encode e [] v)) vs)"
proof (induction vs arbitrary: dst)
  case Nil
  then show ?case by simp
next
  case (Cons v vs)
  from Cons.prems obtain d' where d: "Encode e dst v = (d', None)" "EncodeSequence e d' vs = (out, None)"
    by (auto split: prod.splits option.splits)
  from Encode_dst [of e dst v] d(1) have "d' = dst @ fst (Encode e [] v)" "snd (Encode e [] v) = None"
    by auto
  with Cons.IH [OF d(2)] show ?case
    by (cases "Encode e [] v") simp
qed

lemma encodeOpts_fields [simp]:
  "SkipUTF8Validation (encodeOpts e) = False"
  "AllowInvalidUTF8 (encodeOpts e) = allowInvalidUTF8 (enc_cfg e)"
  "AllowNonFiniteFloats (encodeOpts e) = allowNonFiniteFloats (enc_cfg e)"
  by (simp_all add: encodeOpts_def Let_def)

section \<open>Decoders\<close>

text \<open>A decoder whose calls are neither cut short by a budget nor changed by its interner.\<close>

definition quiet_decoder :: "Decoder \<Rightarrow> bool" where
  "quiet_decoder d \<longleftrightarrow> plain (dec_opts (dec_cfg d)) \<and> quiet (dec_state (dec_cfg d))"

lemma quiet_arena [simp]: "quiet (st\<lparr>ArenaOf := a\<rparr>) = quiet st"
  by (simp add: quiet_def st_ok_def)

lemma resetBudget_quiet [simp]: "quiet st \<Longrightarrow> resetBudget st = st"
  by (simp add: quiet_def resetBudget_def)

lemma DecodeWith_opts: "dec_opts (dec_cfg (snd (DecodeWith d src))) = dec_opts (dec_cfg d)"
  by (auto simp: DecodeWith_def Let_def split: prod.splits sum.splits option.splits)

lemma DecodeWith_prefix:
  assumes q: "quiet_decoder d" and r: "reads (dec_opts (dec_cfg d)) 0 out v" and len: "length (out @ rest) < 2 ^ 61"
    and k: "Kind v = KindTag \<longrightarrow> Num v \<noteq> 55799"
  shows "\<exists>d'. DecodeWith d (out @ rest) = (if rest = [] then Inr v else Inl (Err ErrTrailingBytes 0), d')
    \<and> quiet_decoder d'"
proof -
  define st1 where "st1 = (case map_option Reset (int_arena d) of None \<Rightarrow> dec_state (dec_cfg d)
      | Some a \<Rightarrow> (dec_state (dec_cfg d))\<lparr>ArenaOf := Some a\<rparr>)"
  have "quiet st1"
    using q by (auto simp: st1_def quiet_decoder_def split: option.splits)
  from Decode_reads [OF r len this k] obtain st2
    where "Decode (out @ rest) (dec_opts (dec_cfg d)) st1 = (Inr (v, length out), st2)" "quiet st2"
    by auto
  with q show ?thesis
    by (cases "int_arena d") (auto simp: DecodeWith_def quiet_decoder_def st1_def)
qed

lemmas DecodeWith_reads = DecodeWith_prefix [where rest = "[]", unfolded append_Nil2 simp_thms if_True]

lemma DecodeWith_accepted:
  assumes "DecodeWith d src = (Inr v, d')" and "length src < 2 ^ 61" and "st_ok (dec_state (dec_cfg d))"
  shows "accepted (dec_opts (dec_cfg d)) 0 v" "Kind v = KindTag \<longrightarrow> Num v \<noteq> 55799"
proof -
  define st1 where "st1 = (case map_option Reset (int_arena d) of None \<Rightarrow> resetBudget (dec_state (dec_cfg d))
      | Some a \<Rightarrow> (resetBudget (dec_state (dec_cfg d)))\<lparr>ArenaOf := Some a\<rparr>)"
  from assms(1) obtain st2 n where dec: "Decode src (dec_opts (dec_cfg d)) st1 = (Inr (v, n), st2)"
    by (auto simp: DecodeWith_def Let_def st1_def split: prod.splits sum.splits if_splits option.splits)
  have "st_ok st1"
    using assms(3) by (auto simp: st1_def resetBudget_def st_ok_def split: option.splits)
  from Decode_accepted [OF assms(2) dec this] show "accepted (dec_opts (dec_cfg d)) 0 v" by blast
  show "Kind v = KindTag \<longrightarrow> Num v \<noteq> 55799"
    using dec unfolding Decode_def by (rule decodeValue_stripped)
qed

lemma DecodeSequenceLoop_reads:
  "list_all2 (reads opts 0) outs vs \<Longrightarrow> \<forall>v \<in> set vs. Kind v = KindTag \<longrightarrow> Num v \<noteq> 55799
    \<Longrightarrow> length (concat outs) < 2 ^ 61 \<Longrightarrow> quiet st
    \<Longrightarrow> \<exists>st'. DecodeSequenceLoop opts (concat outs) sq st = (Inr (sq @ vs), st') \<and> quiet st'"
proof (induction outs vs arbitrary: sq st rule: list_all2_induct)
  case Nil
  then show ?case by (simp add: DecodeSequenceLoop.simps)
next
  case (Cons b outs v vs)
  then obtain st' where st: "Decode (b @ concat outs) opts st = (Inr (v, length b), st')" "quiet st'"
    using Decode_reads [OF Cons.hyps(1), of "concat outs" st] by auto
  with Cons.IH [of st' "sq @ [v]"] Cons.prems reads_nonempty [OF Cons.hyps(1)] show ?case
    by (subst DecodeSequenceLoop.simps) auto
qed

text \<open>The parts of an encoded sequence, each with the value it is read as.\<close>

lemma sequence_reads:
  assumes enc: "EncodeSequence e [] vs = (out, None)" and q: "quiet_decoder d"
    and ns: "\<not> RejectNonShortest (dec_opts (dec_cfg d))"
    and items: "\<forall>v \<in> set vs. accepted (dec_opts (dec_cfg d)) 0 (canon (encodeOpts e) v)
      \<and> distinct_maps (canon (encodeOpts e) v)
      \<and> (Kind (canon (encodeOpts e) v) = KindTag \<longrightarrow> Num (canon (encodeOpts e) v) \<noteq> 55799)"
  obtains outs where "out = concat outs"
    and "list_all2 (reads (dec_opts (dec_cfg d)) 0) outs (map (canon (encodeOpts e)) vs)"
proof
  let ?outs = "map (\<lambda>v. fst (Encode e [] v)) vs"
  from EncodeSequence_ok [OF enc] show "out = concat ?outs" by simp
  have "reads (dec_opts (dec_cfg d)) 0 b (canon (encodeOpts e) v)"
    if "v \<in> set vs" "Encode e [] v = (b, None)" for v b
    using encode_reads [of "encodeOpts e" v b "dec_opts (dec_cfg d)" 0] that items q ns
    by (simp add: Encode_encode quiet_decoder_def)
  with EncodeSequence_ok [OF enc] show "list_all2 (reads (dec_opts (dec_cfg d)) 0) ?outs (map (canon (encodeOpts e)) vs)"
    by (auto simp: list_all2_conv_all_nth)
qed

end
