(* ===== verification/Float_Narrow.thy ===== *)
theory Float_Narrow
  imports Roundtrip
begin

text \<open>
  Narrowing and widening floats: a \<^verbatim>\<open>float32\<close> survives the detour through \<^verbatim>\<open>float64\<close>, and the shortest encoding of a
  \<^verbatim>\<open>float64\<close> is of the same number.
\<close>

section \<open>A single float is its own shortest form\<close>

lemma f32_mk_fields: "of_nat (f32_sign b * 2 ^ 31 + (f32_exp b * 2 ^ 23 + f32_man b)) = b"
proof -
  define q where "q = unat b div 8388608"
  have "unat b = q * 8388608 + unat b mod 8388608" and "q = q div 256 * 256 + q mod 256"
    unfolding q_def by simp_all
  moreover have "unat b div 2147483648 = q div 256"
    by (simp add: q_def div_mult2_eq [symmetric])
  ultimately have "unat b = unat b div 2147483648 * 2147483648 + (q mod 256 * 8388608 + unat b mod 8388608)"
    by linarith
  then have "of_nat (f32_sign b * 2 ^ 31 + (f32_exp b * 2 ^ 23 + f32_man b)) = (of_nat (unat b) :: u32)"
    by (simp add: f32_sign_def f32_exp_def f32_man_def q_def del: of_nat_add of_nat_mult of_nat_unat)
  then show ?thesis by simp
qed

lemma round_mag_exact:
  assumes "M = k * 2 ^ j" "2 ^ 52 \<le> M" "M < 2 ^ 53" "max (52 + e - 23) (- 149) = e + int j"
    and "nat (e + int j + 149) * 2 ^ 23 + k < 255 * 2 ^ 23"
  shows "round_mag 23 (- 149) 255 M e = nat (e + int j + 149) * 2 ^ 23 + k"
proof -
  have "nlog2 M = 52" by (rule nlog2_unique) (use assms in simp_all)
  moreover have "(if e + int j \<le> e then M * 2 ^ nat (e - (e + int j)) else round_half_even M (nat (e + int j - e))) = k"
    using assms(1) by simp
  moreover have "M \<noteq> 0" using assms(2) by auto
  ultimately show ?thesis using assms(4,5) by (simp add: round_mag_def Let_def)
qed

lemma narrow_widen:
  assumes "\<not> f32_IsNaN w"
  shows "f64_to_f32 (f32_to_f64 w) = w"
proof -
  let ?s = "f32_sign w" and ?e = "f32_exp w" and ?m = "f32_man w"
  note fl = f32_fields_less [of w]
  note w = f32_mk_fields [of w]
  consider "?e = 255" | "?e = 0" "?m = 0" | "?e = 0" "?m \<noteq> 0" | "0 < ?e" "?e < 255"
    using fl by linarith
  then show ?thesis
  proof cases
    case 1
    with assms have "?m = 0" by (simp add: f32_IsNaN_def)
    with 1 fl w show ?thesis
      by (simp add: f32_to_f64_def f64_to_f32_def Let_def f64_fields_mk f32_mk_def)
  next
    case 2
    with fl w show ?thesis
      by (simp add: f32_to_f64_def f64_to_f32_def Let_def f64_fields_mk f64_sig_def round_mag_def)
  next
    case 3
    define l where "l = nlog2 ?m"
    have b: "2 ^ l \<le> ?m" "?m < 2 ^ Suc l" using nlog2_bounds [of ?m] 3 by (auto simp: l_def)
    have "(2 :: nat) ^ l < 2 ^ 23" using b fl by simp
    then have l: "l < 23" by (simp only: power_strict_increasing_iff)
    define M where "M = ?m * 2 ^ (52 - l)"
    have "(2 :: nat) ^ l * 2 ^ (52 - l) = 2 ^ 52" "(2 :: nat) ^ Suc l * 2 ^ (52 - l) = 2 ^ 53"
      using l by (simp_all flip: power_add)
    moreover have "2 ^ l * 2 ^ (52 - l) \<le> M" "M < 2 ^ Suc l * 2 ^ (52 - l)"
      unfolding M_def using b by (simp_all del: power_Suc)
    ultimately have M: "2 ^ 52 \<le> M" "M < 2 ^ 53" by (simp_all only:)
    have "round_mag 23 (- 149) 255 M (int l - 201) = nat (int l - 201 + int (52 - l) + 149) * 2 ^ 23 + ?m"
      by (rule round_mag_exact [OF M_def M]) (use l fl in \<open>simp_all add: of_nat_diff\<close>)
    moreover have "f32_to_f64 w = f64_mk ?s (l + 874) (M - 2 ^ 52)"
      using 3 by (simp add: f32_to_f64_def Let_def M_def l_def)
    moreover have "f64_sign (f64_mk ?s (l + 874) (M - 2 ^ 52)) = ?s"
      "f64_exp (f64_mk ?s (l + 874) (M - 2 ^ 52)) = l + 874" "f64_man (f64_mk ?s (l + 874) (M - 2 ^ 52)) = M - 2 ^ 52"
      using M l fl by (simp_all add: f64_fields_mk)
    moreover have "2 ^ 52 + (M - 2 ^ 52) = M" using M by simp
    ultimately show ?thesis
      using w l 3 by (simp add: f64_to_f32_def Let_def f64_sig_def f64_pow_def of_nat_diff algebra_simps)
  next
    case 4
    have "round_mag 23 (- 149) 255 ((2 ^ 23 + ?m) * 2 ^ 29) (int ?e - 179)
        = nat (int ?e - 179 + int 29 + 149) * 2 ^ 23 + (2 ^ 23 + ?m)"
      by (rule round_mag_exact [OF refl]) (use 4 fl in \<open>simp_all add: nat_diff_distrib\<close>)
    also have "\<dots> = ?e * 2 ^ 23 + ?m" using 4 by (simp add: nat_diff_distrib diff_mult_distrib)
    finally have "round_mag 23 (- 149) 255 (2 ^ 52 + ?m * 2 ^ 29) (int ?e - 179) = ?e * 2 ^ 23 + ?m"
      by (simp add: algebra_simps)
    with 4 fl w show ?thesis
      by (simp add: f32_to_f64_def f64_to_f32_def Let_def f64_fields_mk f64_sig_def f64_pow_def)
  qed
qed

lemma CanFloat32Lossless_widened: "CanFloat32Lossless (f32_to_f64 w)"
proof (cases "f32_IsNaN w")
  case True
  then have "f64_IsNaN (f32_to_f64 w)"
    using f32_fields_less [of w] by (auto simp: f32_IsNaN_def f64_IsNaN_def f32_to_f64_def Let_def f64_fields_mk)
  then show ?thesis by (simp add: CanFloat32Lossless_def)
next
  case False
  then show ?thesis by (simp add: CanFloat32Lossless_def narrow_widen f64_eq_def)
qed

section \<open>The shortest form has the same number\<close>

lemma canonShortest_number:
  assumes "\<not> f64_IsNaN f"
  shows "canonShortest f = Float64 f \<or> (\<exists>w. canonShortest f = Float32 w \<and> f32_to_f64 w = f)"
proof -
  have "f32_to_f64 (f64_to_f32 f) = f" if "CanFloat32Lossless f" "EncodeFloat16 f = (b, False)" for b
  proof (rule f64_eq_nonzero)
    show "f64_eq (f32_to_f64 (f64_to_f32 f)) f" using that assms by (simp add: CanFloat32Lossless_def)
    show "\<not> f64_is_zero f"
    proof
      assume "f64_is_zero f"
      then have "f64_is_zero (if f64_Signbit f then f64_neg f else f)"
        and "\<not> f64_IsInf (if f64_Signbit f then f64_neg f else f)"
        by (simp_all add: f64_is_zero_def f64_IsInf_def)
      with that(2) assms show False by (simp add: EncodeFloat16_def Let_def)
    qed
  qed
  then show "canonShortest f = Float64 f \<or> (\<exists>w. canonShortest f = Float32 w \<and> f32_to_f64 w = f)"
    using EncodeFloat16_sound [OF _ assms] by (auto simp: canonShortest_def split: prod.splits bool.splits)
qed

end
