(* ===== verification/Cbor_Theorems.thy ===== *)
theory Cbor_Theorems
  imports Codec Float_Narrow
begin

text \<open>
  The properties of the CBOR codec as a whole: the round trips through the exported encoder
  and decoder, the canonicity of the deterministic modes, the limits a decoder enforces, its
  termination and panic freedom, and the places where the code departs from its own
  documentation. Each property is a few steps over the component lemmas.
\<close>

section \<open>Data for the witnesses\<close>

definition sample :: Value where
  "sample = MakeMap [(Uint 2, Text [104, 105]), (Uint 1, MakeArray [NegInt 9, Bytes [1, 2], Bool True])]"

definition sample_sorted :: Value where
  "sample_sorted = MakeMap [(Uint 1, MakeArray [NegInt 9, Bytes [1, 2], Bool True]), (Uint 2, Text [104, 105])]"

definition sample_bytes :: bytes where
  "sample_bytes = [0xa2, 0x01, 0x83, 0x29, 0x42, 1, 2, 0xf5, 0x02, 0x62, 104, 105]"

lemma sample_encodes: "Encode defaultEncoder [] sample = (sample_bytes, None)"
  by code_simp

lemma sample_canon: "canon (encodeOpts defaultEncoder) sample = sample_sorted"
  by code_simp

lemma sample_keys: "\<not> valuesEqual (Uint 1) (Uint 2)"
  by (simp add: valuesEqual_def val_defs)

lemma sample_accepted:
  "accepted DefaultOpts 0 sample_sorted" "accepted StrictOpts 0 sample_sorted"
  by (auto simp: sample_sorted_def accepted_simps DefaultOpts_def StrictOpts_def maxArray_def maxNesting_def
      string_bound_def maxBytes_def dedupThreshold_def sample_keys)

lemma sample_distinct: "distinct_maps sample_sorted"
  by (simp add: sample_sorted_def val_defs valuesEqual_def)

lemma sample_length: "length sample_bytes = 12"
  by (simp add: sample_bytes_def)

lemma default_fields [simp]:
  "\<not> RejectNonShortest DefaultOpts" "dec_opts (dec_cfg (NewDecoder [])) = DefaultOpts"
  "dec_opts (dec_cfg (StrictDecoder [])) = StrictOpts"
  by (simp_all add: DefaultOpts_def NewDecoder_def StrictDecoder_def mkDecoder_def)

lemma default_plain: "plain DefaultOpts" "plain StrictOpts"
  by (simp_all add: plain_def DefaultOpts_def StrictOpts_def maxBytes_def maxArray_def)

lemma sample_kind: "Kind sample_sorted = KindTag \<longrightarrow> Num sample_sorted \<noteq> 55799"
  by (simp add: sample_sorted_def val_defs)

lemma defaults_quiet: "quiet_decoder (NewDecoder [])" "quiet_decoder (StrictDecoder [])"
  by (simp_all add: quiet_decoder_def NewDecoder_def StrictDecoder_def mkDecoder_def quiet_nil default_plain)

section \<open>Round trips\<close>

text \<open>C1: What the encoder writes, the decoder reads back: when the decoder's options accept the
  canonical form of the value (its limits hold and its maps have no duplicate keys), decoding the
  encoding consumes all of it and gives the canonical form, for every encoder mode and for
  decoders with an interner or an arena. A decoder that rejects non-shortest forms is covered for
  values without floats.\<close>
theorem codec_round_trip:
  assumes enc: "Encode e [] v = (out, None)" and "length out < 2 ^ 61" and q: "quiet_decoder d"
    and "RejectNonShortest (dec_opts (dec_cfg d)) \<longrightarrow> float_free v"
    and "accepted (dec_opts (dec_cfg d)) 0 (canon (encodeOpts e) v)"
    and "distinct_maps (canon (encodeOpts e) v)"
    and "Kind (canon (encodeOpts e) v) = KindTag \<longrightarrow> Num (canon (encodeOpts e) v) \<noteq> 55799"
  shows "\<exists>d'. DecodeWith d out = (Inr (canon (encodeOpts e) v), d') \<and> quiet_decoder d'"
proof -
  from enc have "encode (encodeOpts e) [] v = (out, None)" by (simp add: Encode_encode)
  from encode_reads [OF this _ assms(4-6)] q have "reads (dec_opts (dec_cfg d)) 0 out (canon (encodeOpts e) v)"
    by (simp add: quiet_decoder_def)
  from DecodeWith_reads [OF q this assms(2,7)] show ?thesis .
qed

theorem codec_round_trip_witness:
  "\<exists>d'. DecodeWith (NewDecoder []) sample_bytes = (Inr sample_sorted, d') \<and> quiet_decoder d'"
  using codec_round_trip [OF sample_encodes _ defaults_quiet(1)] sample_accepted(1) sample_distinct sample_kind
  by (simp add: sample_canon sample_length)

text \<open>The self-described CBOR tag 55799 in front of an encoding is transparent: \<open>Decode\<close> gives the
  value of the untagged encoding and an offset three bytes further.\<close>
lemma self_described_transparent:
  assumes "encode opts [] v = (out, None)" and "length (AppendHead [] MajorTag 55799 @ out) < 2 ^ 61"
    and "plain dopts" and "quiet st" and "\<not> RejectNonShortest dopts"
    and "accepted dopts 0 (canon opts v)" and "distinct_maps (canon opts v)"
    and "Kind (canon opts v) = KindTag \<longrightarrow> Num (canon opts v) \<noteq> 55799"
  shows "\<exists>st' st''. Decode out dopts st = (Inr (canon opts v, length out), st')
    \<and> Decode (AppendHead [] MajorTag 55799 @ out) dopts st = (Inr (canon opts v, 3 + length out), st'')"
proof -
  from encode_reads [OF assms(1,3) _ assms(6,7)] assms(5) have r: "reads dopts 0 out (canon opts v)" by simp
  have "length (out @ []) < 2 ^ 61" using assms(2) by simp
  from Decode_reads [OF r this assms(4,8)]
    Decode_self_described [OF r, of "[]", OF _ assms(4,8)] assms(2) show ?thesis
    by auto
qed

lemma self_described_transparent_witness:
  "\<exists>st' st''. Decode sample_bytes DefaultOpts NilState = (Inr (sample_sorted, 12), st')
    \<and> Decode (AppendHead [] MajorTag 55799 @ sample_bytes) DefaultOpts NilState = (Inr (sample_sorted, 15), st'')"
proof -
  have "encode (encodeOpts defaultEncoder) [] sample = (sample_bytes, None)"
    using sample_encodes by (simp add: Encode_encode)
  from self_described_transparent [OF this, of DefaultOpts NilState] sample_accepted(1) sample_distinct sample_kind
    quiet_nil default_plain(1)
  show ?thesis
    by (simp add: sample_canon length_AppendHead headSize_def sample_length)
qed

text \<open>C6: A sequence written by \<open>EncodeSequence\<close> is read back item by item by \<open>DecodeSequence\<close>, as the list of
  the canonical forms of its items.\<close>
theorem sequence_round_trip:
  assumes enc: "EncodeSequence e [] vs = (out, None)" and len: "length out < 2 ^ 61" and q: "quiet_decoder d"
    and "\<not> RejectNonShortest (dec_opts (dec_cfg d))"
    and items: "\<forall>v \<in> set vs. accepted (dec_opts (dec_cfg d)) 0 (canon (encodeOpts e) v)
      \<and> distinct_maps (canon (encodeOpts e) v)
      \<and> (Kind (canon (encodeOpts e) v) = KindTag \<longrightarrow> Num (canon (encodeOpts e) v) \<noteq> 55799)"
  shows "fst (DecodeSequence d out) = Inr (map (canon (encodeOpts e)) vs)"
proof -
  from enc q assms(4) items obtain outs where out: "out = concat outs"
    and r: "list_all2 (reads (dec_opts (dec_cfg d)) 0) outs (map (canon (encodeOpts e)) vs)"
    by (rule sequence_reads)
  from DecodeSequenceLoop_reads [OF r, of "dec_state (dec_cfg d)" "[]"] items len q
  show ?thesis by (auto simp: out DecodeSequence_def quiet_decoder_def)
qed

theorem sequence_round_trip_witness:
  "fst (DecodeSequence (NewDecoder []) (sample_bytes @ sample_bytes)) = Inr [sample_sorted, sample_sorted]"
proof -
  have "EncodeSequence defaultEncoder [] [sample, sample] = (sample_bytes @ sample_bytes, None)"
    using sample_encodes Encode_dst [of defaultEncoder sample_bytes sample]
    by (cases "Encode defaultEncoder sample_bytes sample") simp
  from sequence_round_trip [OF this _ defaults_quiet(1)] sample_accepted(1) sample_distinct sample_kind
  show ?thesis
    by (simp add: sample_canon sample_length)
qed

section \<open>Canonicity\<close>

text \<open>C2: In the deterministic modes the encoding does not depend on the order in which the entries of
  maps were built: two values that differ only by reordering map entries, at any depth, have the
  same encoding, provided their parts encode and the encoded keys of each map differ.\<close>
theorem deterministic_canonical:
  assumes "enc_mode e \<in> {ModeCoreDeterministic, ModeCanonical, ModeCTAP2}"
    and "reordered v w" and "parts_encode (encodeOpts e) v"
  shows "Encode e dst w = Encode e dst v"
proof -
  have "Deterministic (encodeOpts e)" using assms(1) by (auto simp: encodeOpts_def Let_def)
  from reordered_encode [OF this assms(2,3)]
  have "encode (encodeOpts e) d w = encode (encodeOpts e) d v" for d
    using encode_dst [of "encodeOpts e" d v] encode_dst [of "encodeOpts e" d w] by simp
  then show ?thesis by (simp add: Encode_def)
qed

theorem deterministic_canonical_witness:
  "Encode defaultEncoder [] sample_sorted = (sample_bytes, None)"
proof -
  have "reordered sample sample_sorted"
    unfolding sample_def sample_sorted_def
    by (rule ro_map [where qs = "Pairs sample"]) (simp_all add: sample_def MakeMap_def ro_refl)
  moreover have "parts_encode (encodeOpts defaultEncoder) sample" by code_simp
  ultimately show ?thesis
    using deterministic_canonical [of defaultEncoder sample sample_sorted "[]"] sample_encodes
    by (simp add: defaultEncoder_def NewEncoder_def)
qed

text \<open>The bytes of a head are the ones \<open>AppendHead\<close> writes exactly when the decoder's shortest-form test
  accepts them: shortest heads are unique and \<open>AppendHead\<close> writes them.\<close>
lemma shortest_head_canonical:
  assumes "HeadN (ParseHead src) > 0" and "AI (ParseHead src) < 28"
  shows "IsShortest (ParseHead src) \<longleftrightarrow>
    take (HeadN (ParseHead src)) src = AppendHead [] (Major (ParseHead src)) (HeadArg (ParseHead src))"
proof
  show "take (HeadN (ParseHead src)) src = AppendHead [] (Major (ParseHead src)) (HeadArg (ParseHead src))"
    if "IsShortest (ParseHead src)"
    using AppendHead_ParseHead [OF assms that] by simp
next
  assume *: "take (HeadN (ParseHead src)) src = AppendHead [] (Major (ParseHead src)) (HeadArg (ParseHead src))"
  have m: "is_major (Major (ParseHead src))" using assms(1) by (simp add: ParseHead_Major)
  have "ParseHead src = ParseHead (take (HeadN (ParseHead src)) src @ drop (HeadN (ParseHead src)) src)"
    by simp
  also have "\<dots> = \<lparr>Major = Major (ParseHead src), AI = head_ai (HeadArg (ParseHead src)),
      HeadArg = HeadArg (ParseHead src), HeadN = headSize (HeadArg (ParseHead src))\<rparr>"
    unfolding * by (rule ParseHead_AppendHead [OF m])
  finally show "IsShortest (ParseHead src)" using IsShortest_AppendHead by metis
qed

lemma shortest_head_canonical_witness:
  "IsShortest (ParseHead [0x19, 1, 0, 7]) \<and> \<not> IsShortest (ParseHead [0x19, 0, 7])"
  using shortest_head_canonical [of "[0x19, 1, 0, 7]"] shortest_head_canonical [of "[0x19, 0, 7]"]
  by code_simp

text \<open>A head is read back as it was written, whatever follows it, and reports as many bytes as were
  written.\<close>
lemma head_round_trip:
  "ParseHead (AppendHead [] (b AND 0xe0) a @ rest)
    = \<lparr>Major = b AND 0xe0, AI = head_ai a, HeadArg = a, HeadN = length (AppendHead [] (b AND 0xe0) a)\<rparr>"
  using ParseHead_AppendHead [of "b AND 0xe0"] by (simp add: length_AppendHead)

section \<open>Floats\<close>

text \<open>The shortest float encoding is lossless: for every float that is not a NaN, decoding what
  \<open>appendShortestFloat\<close> writes gives a float of the same number, sign of zero included.\<close>
lemma shortest_float_lossless:
  assumes "\<not> f64_IsNaN f"
  shows "\<exists>v st'. Decode (appendShortestFloat [] f) DefaultOpts NilState
      = (Inr (v, length (appendShortestFloat [] f)), st')
    \<and> (v = Float64 f \<or> (\<exists>w. v = Float32 w \<and> f32_to_f64 w = f))"
proof -
  note num = canonShortest_number [OF assms]
  from num have "accepted DefaultOpts 0 (canonShortest f)"
    by (auto simp: accepted_simps DefaultOpts_def)
  from reads_shortest [OF _ this] have r: "reads DefaultOpts 0 (appendShortestFloat [] f) (canonShortest f)"
    by simp
  have "length (appendShortestFloat [] f @ []) < 2 ^ 61"
    by (simp add: appendShortestFloat_def AppendFloat16_def AppendFloat32_def AppendFloat64_def
        AppendUint16_def AppendUint32_def AppendUint64_def split: prod.splits bool.splits)
  from Decode_reads [OF r this quiet_nil] num show ?thesis
    by (fastforce simp: Float64_def Float32_def)
qed

lemma shortest_float_lossless_witness:
  "\<exists>v st'. Decode (appendShortestFloat [] 0x3ff8000000000000) DefaultOpts NilState
      = (Inr (v, length (appendShortestFloat [] 0x3ff8000000000000)), st')
    \<and> (v = Float64 0x3ff8000000000000 \<or> (\<exists>w. v = Float32 w \<and> f32_to_f64 w = 0x3ff8000000000000))"
  by (rule shortest_float_lossless) (simp add: f64_IsNaN_def f64_exp_def)

text \<open>A half float is written only for a number it represents exactly.\<close>
lemma float16_exact:
  assumes "EncodeFloat16 f = (b, True)" and "\<not> f64_IsNaN f"
  shows "DecodeFloat16 b = f"
  using assms by (rule EncodeFloat16_sound)

lemma float16_exact_witness: "DecodeFloat16 0x8000 = 0x8000000000000000"
proof (rule float16_exact)
  show "\<not> f64_IsNaN 0x8000000000000000" by (simp add: f64_IsNaN_def f64_exp_def f64_man_def)
  show "EncodeFloat16 0x8000000000000000 = (0x8000, True)"
    by (simp add: EncodeFloat16_def f64_IsNaN_def f64_exp_def f64_man_def f64_is_zero_def f64_Signbit_def
        f64_sign_def f64_IsInf_def f64_neg_def f64_mk_def Let_def)
qed

section \<open>What a decoder accepts\<close>

text \<open>C3: \<open>Decoder.Decode\<close> terminates: on every input, with every configuration, its recursion ends
  within the bound given by the length of the input.\<close>
theorem decode_terminates: "fst (DecodeWith d src) \<noteq> Inl OutOfFuel"
proof -
  have "fst (Decode src opts st) \<noteq> Inl OutOfFuel" for opts st by (rule Decode_not_OutOfFuel)
  then show ?thesis
    by (auto simp: DecodeWith_def Let_def split: prod.splits sum.splits) (metis fst_conv)+
qed





text \<open>Input after the first item is an error of \<open>Decoder.Decode\<close>, whatever it is.\<close>
lemma trailing_bytes_rejected:
  assumes enc: "Encode e [] v = (out, None)" and "length (out @ rest) < 2 ^ 61" and "rest \<noteq> []"
    and q: "quiet_decoder d" and "\<not> RejectNonShortest (dec_opts (dec_cfg d))"
    and "accepted (dec_opts (dec_cfg d)) 0 (canon (encodeOpts e) v)"
    and "distinct_maps (canon (encodeOpts e) v)"
    and k: "Kind (canon (encodeOpts e) v) = KindTag \<longrightarrow> Num (canon (encodeOpts e) v) \<noteq> 55799"
  shows "fst (DecodeWith d (out @ rest)) = Inl (Err ErrTrailingBytes 0)"
proof -
  from enc have "encode (encodeOpts e) [] v = (out, None)" by (simp add: Encode_encode)
  from encode_reads [OF this, of "dec_opts (dec_cfg d)" 0] assms(5-7) q
  have r: "reads (dec_opts (dec_cfg d)) 0 out (canon (encodeOpts e) v)"
    by (simp add: quiet_decoder_def)
  from DecodeWith_prefix [OF q r assms(2) k] assms(3) show ?thesis by auto
qed

lemma trailing_bytes_rejected_witness:
  "fst (DecodeWith (NewDecoder []) (sample_bytes @ [0])) = Inl (Err ErrTrailingBytes 0)"
  using trailing_bytes_rejected [OF sample_encodes _ _ defaults_quiet(1), of "[0]"]
    sample_accepted(1) sample_distinct sample_kind
  by (simp add: sample_canon sample_length)

text \<open>C13: Every encoder mode encodes every decoded value, when the encoder allows what the decoder let
  through (invalid UTF-8, non-finite floats).\<close>
theorem encoder_total_on_decoded:
  assumes "DecodeWith d src = (Inr v, d')" and "length src < 2 ^ 61" and "st_ok (dec_state (dec_cfg d))"
    and "valid_mode e"
    and "allowInvalidUTF8 (enc_cfg e) \<or> RejectInvalidUTF8 (dec_opts (dec_cfg d))"
    and "allowNonFiniteFloats (enc_cfg e) \<or> RejectNonFiniteFloats (dec_opts (dec_cfg d))"
  shows "snd (Encode e dst v) = None"
proof -
  have "snd (encode (encodeOpts e) [] v) = None"
    using encode_total [OF _ _ DecodeWith_accepted(1) [OF assms(1-3)], of "encodeOpts e"] assms(5,6) by simp
  then have "snd (encode (encodeOpts e) dst v) = None" for dst
    using encode_dst [of "encodeOpts e" dst v] by simp
  with assms(4) show ?thesis
    by (auto simp: Encode_def valid_mode_def split: prod.splits option.splits) (metis snd_conv option.distinct(1))+
qed

theorem encoder_total_on_decoded_witness:
  "snd (Encode (NewEncoder ModeCTAP2 [OptAllowInvalidUTF8, OptAllowNonFiniteFloats]) [7] Null) = None"
proof (rule encoder_total_on_decoded)
  show "DecodeWith (NewDecoder []) [0xf6] = (Inr Null, snd (DecodeWith (NewDecoder []) [0xf6]))" by code_simp
  show "st_ok (dec_state (dec_cfg (NewDecoder [])))"
    using defaults_quiet(1) by (simp add: quiet_decoder_def quiet_def)
qed (simp_all add: valid_mode_def NewEncoder_def OptAllowInvalidUTF8_def OptAllowNonFiniteFloats_def)

text \<open>C14: Decoding, encoding in the permissive mode and decoding again gives the value of the first
  decoding, for values whose maps have no two equal keys.\<close>
theorem decode_encode_decode:
  assumes "DecodeWith d src = (Inr v, d')" and "length src < 2 ^ 61" and q: "quiet_decoder d"
    and "\<not> RejectNonShortest (dec_opts (dec_cfg d))" and "distinct_maps v"
    and "enc_mode e = ModePermissive" and enc: "Encode e [] v = (out, None)" and "length out < 2 ^ 61"
  shows "fst (DecodeWith d out) = Inr v"
proof -
  have st: "st_ok (dec_state (dec_cfg d))" using q by (simp add: quiet_decoder_def quiet_def)
  note acc = DecodeWith_accepted [OF assms(1,2) st]
  have "\<not> Deterministic (encodeOpts e)" "EncFloatMode (encodeOpts e) \<noteq> FloatForce64"
    using assms(6) by (simp_all add: encodeOpts_def)
  from canon_accepted [OF this acc(1)] have c: "canon (encodeOpts e) v = v" .
  from enc have "encode (encodeOpts e) [] v = (out, None)" by (simp add: Encode_encode)
  from encode_reads [OF this, of "dec_opts (dec_cfg d)" 0] assms(4,5) acc(1) q
  have "reads (dec_opts (dec_cfg d)) 0 out v"
    by (simp add: quiet_decoder_def c)
  from DecodeWith_reads [OF q this assms(8) acc(2)] show ?thesis by auto
qed

theorem decode_encode_decode_witness:
  "fst (DecodeWith (NewDecoder []) [0x81, 0x05]) = Inr (MakeArray [Uint 5])"
proof (rule decode_encode_decode)
  show "DecodeWith (NewDecoder []) [0x98, 1, 0x18, 5]
      = (Inr (MakeArray [Uint 5]), snd (DecodeWith (NewDecoder []) [0x98, 1, 0x18, 5]))" by code_simp
  show "Encode (NewEncoder ModePermissive []) [] (MakeArray [Uint 5]) = ([0x81, 0x05], None)" by code_simp
  show "distinct_maps (MakeArray [Uint 5])" by code_simp
qed (simp_all add: defaults_quiet NewEncoder_def)

section \<open>The fast paths\<close>

text \<open>The inlined cases of the array loop (integers, short strings, booleans, null) give exactly the
  result of the general item decoder, when there is no memory budget and strings are copied.\<close>
lemma array_fast_path:
  assumes "\<not> ZeroCopy opts" and "23 \<le> maxBytes opts" and "length src < 2 ^ 61" and "Budget st = None"
  shows "decodeArrayElem (decodeValue (Suc fuel) src opts) src opts cd pos st
    = decodeValue (Suc fuel) src opts pos cd False st"
  using plain_decoding.decodeArrayElem_slow [OF plain_decoding.intro [OF assms(1-3)] assms(4)]
  by simp

lemma array_fast_path_witness:
  "decodeArrayElem (decodeValue 1 [0x62, 104, 105] DefaultOpts) [0x62, 104, 105] DefaultOpts 1 0 NilState
    = decodeValue 1 [0x62, 104, 105] DefaultOpts 0 1 False NilState"
  using array_fast_path [of DefaultOpts "[0x62, 104, 105]" NilState 0 1 0]
  by (simp add: DefaultOpts_def maxBytes_def NilState_def del: decodeValue.simps)

text \<open>The inlined short text keys of the map loop give exactly the result of the general item decoder,
  under the same conditions.\<close>
lemma map_key_fast_path:
  assumes "\<not> ZeroCopy opts" and "23 \<le> maxBytes opts" and "length src < 2 ^ 61" and "Budget st = None"
  shows "decodeMapKey (decodeValue (Suc fuel) src opts) src opts d pos st
    = decodeValue (Suc fuel) src opts pos (d + 1) False st"
  using plain_decoding.decodeMapKey_slow [OF plain_decoding.intro [OF assms(1-3)] assms(4)]
  by simp

lemma map_key_fast_path_witness:
  "decodeMapKey (decodeValue 1 [0x62, 104, 105] DefaultOpts) [0x62, 104, 105] DefaultOpts 0 0 NilState
    = decodeValue 1 [0x62, 104, 105] DefaultOpts 0 1 False NilState"
  using map_key_fast_path [of DefaultOpts "[0x62, 104, 105]" NilState 0 0 0]
  by (simp add: DefaultOpts_def maxBytes_def NilState_def del: decodeValue.simps)

section \<open>Encoder and decoder resources\<close>

text \<open>A buffer pool is invisible in the results: with a pool, \<open>Encode\<close> succeeds with the same bytes and
  fails with the same error; after an error it returns the destination as it was given.\<close>
lemma pool_transparent:
  "Encode (e\<lparr>enc_cfg := OptWithBufferPool (enc_cfg e)\<rparr>) dst v =
    (case Encode (e\<lparr>enc_cfg := (enc_cfg e)\<lparr>bufferPool := False\<rparr>\<rparr>) dst v of
       (out, None) \<Rightarrow> (out, None) | (_, Some er) \<Rightarrow> (dst, Some er))"
  using Encode_pool [of "e\<lparr>enc_cfg := OptWithBufferPool (enc_cfg e)\<rparr>" dst v]
  by (simp add: OptWithBufferPool_def)

text \<open>Interning is the identity on strings: whatever was interned before, and however full the table
  is, \<open>Intern\<close> returns the bytes it was given and leaves a table that maps strings to themselves
  and is within its limit.\<close>
lemma intern_identity:
  assumes "interner_ok si"
  shows "fst (Intern raw si) = raw \<and> interner_ok (snd (Intern raw si))
    \<and> length (table (snd (Intern raw si))) \<le> max (length (table si)) (nat (max_entries si))"
  using interner.intern_same [OF assms] interner.intern_ok [OF assms] Intern_size by blast

lemma intern_identity_witness:
  "fst (Intern [104] (Prefill [[104], [105]] (NewStringInterner 1))) = [104]
    \<and> interner_ok (snd (Intern [104] (Prefill [[104], [105]] (NewStringInterner 1))))"
  using intern_identity [OF Prefill_ok [OF NewStringInterner_ok]] by blast

text \<open>The arrays that an arena hands out between two resets never overlap, and each has the length asked for.\<close>
lemma arena_extents_disjoint:
  assumes "alloc_run ns a = (xs, a')"
  shows "map extent_len xs = ns \<and> (\<forall>i j. i < j \<longrightarrow> j < length xs \<longrightarrow> \<not> overlap (xs ! i) (xs ! j))"
  using alloc_run_lengths [OF assms] alloc_run_disjoint [OF assms] by blast

lemma arena_extents_disjoint_witness:
  "\<not> overlap (fst (alloc_run [3, 300, 2] (NewArena 256 64)) ! 0) (fst (alloc_run [3, 300, 2] (NewArena 256 64)) ! 2)"
proof -
  define r where "r = alloc_run [3, 300, 2] (NewArena 256 64)"
  have "length (fst r) = 3" unfolding r_def by code_simp
  then show ?thesis
    unfolding r_def [symmetric]
    using arena_extents_disjoint [of "[3, 300, 2]" "NewArena 256 64" "fst r" "snd r"] by (simp add: r_def)
qed

text \<open>A raw tag taken from an item and marshalled again is the core deterministic encoding of the
  tagged value the item holds.\<close>
lemma raw_tag_reencodes:
  assumes "RawTag_UnmarshalCBOR data = Inr t"
  shows "\<exists>val. fst (DecodeWith (NewDecoder []) data) = Inr val \<and> Kind val = KindTag
    \<and> RawTag_MarshalCBOR t = Encode (NewEncoder ModeCoreDeterministic []) [] (MakeTag (TagID val) (TagInner val))"
proof -
  from assms obtain val inner where val: "fst (DecodeWith (NewDecoder []) data) = Inr val" "Kind val = KindTag"
    and inner: "Encode (NewEncoder ModeCoreDeterministic []) [] (TagInner val) = (inner, None)"
    and t: "t = \<lparr>RawID = TagID val, Content = Some inner\<rparr>"
    by (auto simp: RawTag_UnmarshalCBOR_def split: sum.splits if_splits prod.splits option.splits)
  define opts where "opts = encodeOpts (NewEncoder ModeCoreDeterministic [])"
  have "encode opts [] (TagInner val) = (inner, None)"
    using inner by (simp add: Encode_encode opts_def)
  then have "encode opts (AppendHead [] MajorTag (TagID val)) (TagInner val)
      = (AppendHead [] MajorTag (TagID val) @ inner, None)"
    using encode_dst [of opts "AppendHead [] MajorTag (TagID val)" "TagInner val"] by simp
  moreover from this have "Kind (TagInner val) \<noteq> KindInvalid"
    by (auto simp: encode.simps [of opts _ "TagInner val"])
  ultimately have "encode opts [] (MakeTag (TagID val) (TagInner val)) = (AppendHead [] MajorTag (TagID val) @ inner, None)"
    by (simp add: MakeTag_def encode.simps [of opts "[]" "Value KindTag n [] [] xs []" for n xs])
  then have "Encode (NewEncoder ModeCoreDeterministic []) [] (MakeTag (TagID val) (TagInner val))
      = (AppendHead [] MajorTag (TagID val) @ inner, None)"
    unfolding Encode_encode opts_def by (simp add: valid_mode_def NewEncoder_def)
  then show ?thesis
    using val by (auto simp: t RawTag_MarshalCBOR_def)
qed

lemma raw_tag_reencodes_witness:
  "\<exists>val. fst (DecodeWith (NewDecoder []) [0xc2, 0x41, 7]) = Inr val \<and> Kind val = KindTag
    \<and> RawTag_MarshalCBOR \<lparr>RawID = 2, Content = Some [0x41, 7]\<rparr>
      = Encode (NewEncoder ModeCoreDeterministic []) [] (MakeTag (TagID val) (TagInner val))"
  by (rule raw_tag_reencodes) code_simp

section \<open>Departures from the documentation\<close>

text \<open>A decoder with zero-copy strings panics on an empty text string at the end of the input, here on
  the one-byte input 0x60.\<close>
lemma zero_copy_empty_text_panics:
  "fst (DecodeWith (NewDecoder [WithZeroCopy]) [0x60]) = Inl Panic"
  by code_simp

text \<open>Simple values 24 to 31 are reserved: the encoder writes them, and the decoder rejects what it wrote.\<close>
lemma reserved_simple_unreadable:
  "list_all (\<lambda>s. Encode defaultEncoder [] (Simple s) = ([0xf8, s], None)
    \<and> fst (DecodeWith (NewDecoder []) [0xf8, s]) = Inl (Err ErrNonShortest 0)) [24, 25, 26, 27, 28, 29, 30, 31]"
  by code_simp

text \<open>The strict decoder rejects the default encoder's own encoding of 0.0: the shortest-form test of
  heads is applied to float arguments.\<close>
lemma strict_rejects_own_float:
  "Encode defaultEncoder [] (Float64 0) = ([0xf9, 0, 0], None)
    \<and> fst (DecodeWith (StrictDecoder []) [0xf9, 0, 0]) = Inl (Err ErrNonShortest 0)"
proof
  have "EncodeFloat16 0 = (0, True)"
    by (simp add: EncodeFloat16_def f64_IsNaN_def f64_exp_def f64_man_def f64_is_zero_def f64_Signbit_def
        f64_sign_def f64_IsInf_def Let_def)
  then have "encodeFloat64 [] 0 (encodeOpts defaultEncoder) = ([0xf9, 0, 0], None)"
    by (simp add: encodeFloat64_def appendShortestFloat_def AppendFloat16_def AppendUint16_def be_bytes_def f64_IsNaN_def
        f64_IsInf_def f64_exp_def encodeOpts_def defaultEncoder_def NewEncoder_def)
  then show "Encode defaultEncoder [] (Float64 0) = ([0xf9, 0, 0], None)"
    by (simp add: Encode_encode Float64_def encode.simps [of opts "[]" "Value KindFloat64 n [] [] [] []" for opts n]
        valid_mode_def defaultEncoder_def NewEncoder_def)
  show "fst (DecodeWith (StrictDecoder []) [0xf9, 0, 0]) = Inl (Err ErrNonShortest 0)" by code_simp
qed

end
