(* ===== verification/Stream_Encode.thy ===== *)
theory Stream_Encode
  imports Codec
begin

text \<open>
  The streaming encoder (\<^verbatim>\<open>stream.go\<close>, \<^verbatim>\<open>rfc8949/stream_encode.go\<close>): a stack of open
  containers over an \<open>io.Writer\<close>. The writer is the parameter \<open>wr\<close>, a function from the bytes
  and the writer's state to an error and its next state; \<open>buffer_like\<close> is what
  \<open>bytes.Buffer\<close> promises. The top of the stack is the head of the list. Calls are also the steps of
  a transition system, whose reachable states keep the stack invariant.
\<close>

section \<open>The stream encoder\<close>

datatype 'e stream_error =
    ErrIndefiniteNotPermitted | ErrContainerOverflow | ErrContainerUnderflow | ErrNoOpenContainer
  | StreamCbor cbor_error | StreamIO 'e

type_synonym ('w, 'e) writer = "bytes \<Rightarrow> 'w \<Rightarrow> 'e option \<times> 'w"

record containerState =
  remaining :: int
  written :: int

record 'w StreamEncoder =
  sw :: 'w
  senc :: Encoder
  stack :: "containerState list"

type_synonym ('w, 'e) sres = "'e stream_error option \<times> 'w StreamEncoder"

definition EncoderStream :: "Encoder \<Rightarrow> 'w \<Rightarrow> 'w StreamEncoder" where
  "EncoderStream e w = \<lparr>sw = w, senc = e, stack = []\<rparr>"

text \<open>\<open>s.w.Write(b)\<close>.\<close>

definition sWrite :: "('w, 'e) writer \<Rightarrow> bytes \<Rightarrow> 'w StreamEncoder \<Rightarrow> ('w, 'e) sres" where
  "sWrite wr b s = (case wr b (sw s) of (e, w) \<Rightarrow> (map_option StreamIO e, s\<lparr>sw := w\<rparr>))"

definition sThen :: "('w, 'e) sres \<Rightarrow> ('w StreamEncoder \<Rightarrow> ('w, 'e) sres) \<Rightarrow> ('w, 'e) sres" where
  "sThen r k = (case r of (Some e, s) \<Rightarrow> (Some e, s) | (None, s) \<Rightarrow> k s)"

definition trackWrite :: "'w StreamEncoder \<Rightarrow> ('w, 'e) sres" where
  "trackWrite s =
     (case stack s of
        [] \<Rightarrow> (None, s)
      | cur # rest \<Rightarrow>
          if remaining cur \<ge> 0 \<and> written cur \<ge> remaining cur then (Some ErrContainerOverflow, s)
          else (None, s\<lparr>stack := cur\<lparr>written := go_int (written cur + 1)\<rparr> # rest\<rparr>))"

definition pushState :: "int \<Rightarrow> 'w StreamEncoder \<Rightarrow> 'w StreamEncoder" where
  "pushState r s = s\<lparr>stack := \<lparr>remaining = r, written = 0\<rparr> # stack s\<rparr>"

definition BeginArray :: "('w, 'e) writer \<Rightarrow> int \<Rightarrow> 'w StreamEncoder \<Rightarrow> ('w, 'e) sres" where
  "BeginArray wr n s =
     (if n < 0 then
        if enc_mode (senc s) \<noteq> ModePermissive then (Some ErrIndefiniteNotPermitted, s)
        else sThen (sWrite wr [MajorArray OR AIIndefinite] s) (\<lambda>s. (None, pushState (- 1) s))
      else sThen (sWrite wr (AppendHead [] MajorArray (word_of_int n)) s) (\<lambda>s. (None, pushState n s)))"

definition BeginMap :: "('w, 'e) writer \<Rightarrow> int \<Rightarrow> 'w StreamEncoder \<Rightarrow> ('w, 'e) sres" where
  "BeginMap wr n s =
     (if n < 0 then
        if enc_mode (senc s) \<noteq> ModePermissive then (Some ErrIndefiniteNotPermitted, s)
        else sThen (sWrite wr [MajorMap OR AIIndefinite] s) (\<lambda>s. (None, pushState (- 1) s))
      else sThen (sWrite wr (AppendHead [] MajorMap (word_of_int n)) s)
             (\<lambda>s. (None, pushState (go_int (n * 2)) s)))"

definition writeHead :: "('w, 'e) writer \<Rightarrow> byte \<Rightarrow> u64 \<Rightarrow> 'w StreamEncoder \<Rightarrow> ('w, 'e) sres" where
  "writeHead wr major arg s = sWrite wr (AppendHead [] major arg) s"

text \<open>\<open>rfc8949.EncodeTo\<close> and \<open>Encoder.EncodeTo\<close>, which passes the options on without the mode check
  of \<open>Encode\<close>.\<close>

definition EncodeTo :: "('w, 'e) writer \<Rightarrow> Value \<Rightarrow> EncodeOpts \<Rightarrow> 'w \<Rightarrow> 'e stream_error option \<times> 'w" where
  "EncodeTo wr v opts w =
     (case encode opts [] v of
        (_, Some er) \<Rightarrow> (Some (StreamCbor er), w)
      | (buf, None) \<Rightarrow> (case wr buf w of (e, w') \<Rightarrow> (map_option StreamIO e, w')))"

definition Encoder_EncodeTo :: "Encoder \<Rightarrow> ('w, 'e) writer \<Rightarrow> Value \<Rightarrow> 'w \<Rightarrow> 'e stream_error option \<times> 'w" where
  "Encoder_EncodeTo e wr v w = EncodeTo wr v (encodeOpts e) w"

definition WriteValue :: "('w, 'e) writer \<Rightarrow> Value \<Rightarrow> 'w StreamEncoder \<Rightarrow> ('w, 'e) sres" where
  "WriteValue wr v s0 = sThen (trackWrite s0) (\<lambda>s.
     case Kind v of
       KindUint \<Rightarrow> writeHead wr MajorUint (Num v) s
     | KindNegInt \<Rightarrow> writeHead wr MajorNegInt (Num v) s
     | KindBool \<Rightarrow> sWrite wr [if Num v \<noteq> 0 then SimpleTrue else SimpleFalse] s
     | KindNull \<Rightarrow> sWrite wr [SimpleNull] s
     | KindUndefined \<Rightarrow> sWrite wr [SimpleUndefined] s
     | KindText \<Rightarrow> sThen (writeHead wr MajorText (of_nat (length (Str v))) s) (sWrite wr (Str v))
     | KindBytes \<Rightarrow> sThen (writeHead wr MajorBytes (of_nat (length (Bstr v))) s) (sWrite wr (Bstr v))
     | KindFloat32 \<Rightarrow> sWrite wr (AppendFloat32 [] (ucast (Num v))) s
     | KindFloat64 \<Rightarrow> sWrite wr (AppendFloat64 [] (Num v)) s
     | KindSimple \<Rightarrow>
         if Num v < 24 then sWrite wr [MajorOther OR ucast (Num v)] s
         else sWrite wr [SimpleOneByte, ucast (Num v)] s
     | _ \<Rightarrow> (case EncodeTo wr v (encodeOpts (senc s)) (sw s) of (e, w) \<Rightarrow> (e, s\<lparr>sw := w\<rparr>)))"

definition EndContainer :: "('w, 'e) writer \<Rightarrow> 'w StreamEncoder \<Rightarrow> ('w, 'e) sres" where
  "EndContainer wr s =
     (case stack s of
        [] \<Rightarrow> (Some ErrNoOpenContainer, s)
      | cur # rest \<Rightarrow>
          let s' = s\<lparr>stack := rest\<rparr> in
          if remaining cur < 0 then sWrite wr [BreakCode] s'
          else if written cur \<noteq> remaining cur then (Some ErrContainerUnderflow, s')
          else (None, s'))"

definition WriteUint :: "('w, 'e) writer \<Rightarrow> u64 \<Rightarrow> 'w StreamEncoder \<Rightarrow> ('w, 'e) sres" where
  "WriteUint wr v s = sThen (trackWrite s) (writeHead wr MajorUint v)"

definition WriteNegInt :: "('w, 'e) writer \<Rightarrow> u64 \<Rightarrow> 'w StreamEncoder \<Rightarrow> ('w, 'e) sres" where
  "WriteNegInt wr v s = sThen (trackWrite s) (writeHead wr MajorNegInt v)"

definition WriteBytes :: "('w, 'e) writer \<Rightarrow> bytes \<Rightarrow> 'w StreamEncoder \<Rightarrow> ('w, 'e) sres" where
  "WriteBytes wr b s = sThen (trackWrite s) (\<lambda>s.
     sThen (writeHead wr MajorBytes (of_nat (length b)) s) (sWrite wr b))"

definition WriteText :: "('w, 'e) writer \<Rightarrow> bytes \<Rightarrow> 'w StreamEncoder \<Rightarrow> ('w, 'e) sres" where
  "WriteText wr t s = sThen (trackWrite s) (\<lambda>s.
     if \<not> allowInvalidUTF8 (enc_cfg (senc s)) \<and> \<not> utf8_Valid t then (Some (StreamCbor ErrInvalidUTF8), s)
     else sThen (writeHead wr MajorText (of_nat (length t)) s) (sWrite wr t))"

definition WriteBool :: "('w, 'e) writer \<Rightarrow> bool \<Rightarrow> 'w StreamEncoder \<Rightarrow> ('w, 'e) sres" where
  "WriteBool wr v s = sThen (trackWrite s) (sWrite wr [if v then SimpleTrue else SimpleFalse])"

definition WriteNull :: "('w, 'e) writer \<Rightarrow> 'w StreamEncoder \<Rightarrow> ('w, 'e) sres" where
  "WriteNull wr s = sThen (trackWrite s) (sWrite wr [SimpleNull])"

definition WriteUndefined :: "('w, 'e) writer \<Rightarrow> 'w StreamEncoder \<Rightarrow> ('w, 'e) sres" where
  "WriteUndefined wr s = sThen (trackWrite s) (sWrite wr [SimpleUndefined])"

definition WriteFloat32 :: "('w, 'e) writer \<Rightarrow> u32 \<Rightarrow> 'w StreamEncoder \<Rightarrow> ('w, 'e) sres" where
  "WriteFloat32 wr v s = sThen (trackWrite s) (\<lambda>s.
     let f = f32_to_f64 v in
     if \<not> allowNonFiniteFloats (enc_cfg (senc s)) \<and> (f64_IsNaN f \<or> f64_IsInf f)
     then (Some (StreamCbor ErrNonFiniteFloat), s)
     else sWrite wr (AppendFloat32 [] v) s)"

definition WriteFloat64 :: "('w, 'e) writer \<Rightarrow> u64 \<Rightarrow> 'w StreamEncoder \<Rightarrow> ('w, 'e) sres" where
  "WriteFloat64 wr v s = sThen (trackWrite s) (\<lambda>s.
     if \<not> allowNonFiniteFloats (enc_cfg (senc s)) \<and> (f64_IsNaN v \<or> f64_IsInf v)
     then (Some (StreamCbor ErrNonFiniteFloat), s)
     else sWrite wr (AppendFloat64 [] v) s)"

definition WriteSimple :: "('w, 'e) writer \<Rightarrow> byte \<Rightarrow> 'w StreamEncoder \<Rightarrow> ('w, 'e) sres" where
  "WriteSimple wr v s = sThen (trackWrite s) (\<lambda>s.
     if v < 24 then sWrite wr [MajorOther OR v] s else sWrite wr [SimpleOneByte, v] s)"

definition WriteTag :: "('w, 'e) writer \<Rightarrow> u64 \<Rightarrow> 'w StreamEncoder \<Rightarrow> ('w, 'e) sres" where
  "WriteTag wr tid s = writeHead wr MajorTag tid s"

definition WriteRawCBOR :: "('w, 'e) writer \<Rightarrow> bytes \<Rightarrow> 'w StreamEncoder \<Rightarrow> ('w, 'e) sres" where
  "WriteRawCBOR wr raw s = sThen (trackWrite s) (sWrite wr raw)"

section \<open>Runs of calls\<close>

datatype call =
    CBeginArray int | CBeginMap int | CEnd | CValue Value | CUint u64 | CNegInt u64 | CBytes bytes
  | CText bytes | CBool bool | CNull | CUndefined | CFloat32 u32 | CFloat64 u64 | CSimple byte
  | CTag u64 | CRaw bytes

fun exec :: "('w, 'e) writer \<Rightarrow> call \<Rightarrow> 'w StreamEncoder \<Rightarrow> ('w, 'e) sres" where
  "exec wr (CBeginArray n) s = BeginArray wr n s"
| "exec wr (CBeginMap n) s = BeginMap wr n s"
| "exec wr CEnd s = EndContainer wr s"
| "exec wr (CValue v) s = WriteValue wr v s"
| "exec wr (CUint n) s = WriteUint wr n s"
| "exec wr (CNegInt n) s = WriteNegInt wr n s"
| "exec wr (CBytes b) s = WriteBytes wr b s"
| "exec wr (CText t) s = WriteText wr t s"
| "exec wr (CBool b) s = WriteBool wr b s"
| "exec wr CNull s = WriteNull wr s"
| "exec wr CUndefined s = WriteUndefined wr s"
| "exec wr (CFloat32 f) s = WriteFloat32 wr f s"
| "exec wr (CFloat64 f) s = WriteFloat64 wr f s"
| "exec wr (CSimple b) s = WriteSimple wr b s"
| "exec wr (CTag n) s = WriteTag wr n s"
| "exec wr (CRaw b) s = WriteRawCBOR wr b s"

text \<open>A client that stops at the first error.\<close>

fun runs :: "('w, 'e) writer \<Rightarrow> call list \<Rightarrow> 'w StreamEncoder \<Rightarrow> ('w, 'e) sres" where
  "runs wr [] s = (None, s)"
| "runs wr (c # cs) s = sThen (exec wr c s) (runs wr cs)"



section \<open>The stack invariant\<close>

lemma sWrite_frame [simp]:
  "stack (snd (sWrite wr b s)) = stack s" "senc (snd (sWrite wr b s)) = senc s"
  by (simp_all add: sWrite_def split: prod.splits)

lemma writeHead_frame [simp]:
  "stack (snd (writeHead wr m a s)) = stack s" "senc (snd (writeHead wr m a s)) = senc s"
  by (simp_all add: writeHead_def)



text \<open>What a call does to the stack: nothing, one more item in the open container, a new container,
  or the end of one.\<close>

inductive stack_step :: "Encoder \<Rightarrow> containerState list \<Rightarrow> containerState list \<Rightarrow> bool" where
  step_same: "stack_step e cs cs"
| step_item: "remaining c < 0 \<or> written c < remaining c
    \<Longrightarrow> stack_step e (c # cs) (c\<lparr>written := go_int (written c + 1)\<rparr> # cs)"
| step_push: "r < 2 ^ 63 \<Longrightarrow> 0 \<le> r \<or> enc_mode e = ModePermissive
    \<Longrightarrow> stack_step e cs (\<lparr>remaining = r, written = 0\<rparr> # cs)"
| step_pop: "stack_step e (c # cs) cs"

inductive_cases stack_step_ConsE: "stack_step e (c # cs) ds"










section \<open>What is written\<close>

text \<open>A writer that takes every byte, like \<open>bytes.Buffer\<close>.\<close>

definition buffer_like :: "('w, 'e) writer \<Rightarrow> ('w \<Rightarrow> bytes) \<Rightarrow> bool" where
  "buffer_like wr content \<longleftrightarrow> (\<forall>b w. fst (wr b w) = None \<and> content (snd (wr b w)) = content w @ b)"

text \<open>The outcome of calls that all succeed, write \<open>b\<close> and leave the stack \<open>cs\<close>.\<close>

definition writes :: "('w \<Rightarrow> bytes) \<Rightarrow> 'w StreamEncoder \<Rightarrow> ('w, 'e) sres \<Rightarrow> bytes \<Rightarrow> containerState list \<Rightarrow> bool" where
  "writes content s r b cs \<longleftrightarrow> fst r = None \<and> content (sw (snd r)) = content (sw s) @ b
     \<and> stack (snd r) = cs \<and> senc (snd r) = senc s"

lemma sWrite_writes: "buffer_like wr content \<Longrightarrow> writes content s (sWrite wr b s) b (stack s)"
  by (auto simp: buffer_like_def writes_def sWrite_def split: prod.splits) (metis fst_conv snd_conv)+

lemma sThen_writes:
  assumes "writes content s r b cs" and "writes content (snd r) (k (snd r)) b' cs'"
  shows "writes content s (sThen r k) (b @ b') cs'"
  using assms by (cases r) (simp add: writes_def sThen_def)

lemma writes_trans:
  "writes content s r b cs \<Longrightarrow> writes content (snd r) r' b' cs' \<Longrightarrow> writes content s r' (b @ b') cs'"
  by (simp add: writes_def)

definition has_room :: "containerState list \<Rightarrow> bool" where
  "has_room cs \<longleftrightarrow> (case cs of [] \<Rightarrow> True | c # _ \<Rightarrow> remaining c < 0 \<or> written c < remaining c)"

definition counted :: "containerState list \<Rightarrow> containerState list" where
  "counted cs = (case cs of [] \<Rightarrow> [] | c # rest \<Rightarrow> c\<lparr>written := go_int (written c + 1)\<rparr> # rest)"

lemma trackWrite_writes: "has_room (stack s) \<Longrightarrow> writes content s (trackWrite s) [] (counted (stack s))"
  by (auto simp: writes_def trackWrite_def has_room_def counted_def split: list.splits)

lemma trackWrite_full:
  "\<not> has_room (stack s) \<Longrightarrow> sThen (trackWrite s) k = (Some ErrContainerOverflow, s)"
  by (auto simp: sThen_def trackWrite_def has_room_def split: list.splits)

lemma scalar_writes:
  fixes wr :: "('w, 'e) writer"
  assumes "buffer_like wr content" and "has_room (stack s)"
    and k: "\<And>t. writes content t (k t :: ('w, 'e) sres) b (stack t)"
  shows "writes content s (sThen (trackWrite s) k) b (counted (stack s))"
proof -
  have t: "writes content s (trackWrite s :: ('w, 'e) sres) [] (counted (stack s))"
    by (rule trackWrite_writes) (rule assms(2))
  then have "stack (snd (trackWrite s :: ('w, 'e) sres)) = counted (stack s)" by (simp add: writes_def)
  with k [of "snd (trackWrite s :: ('w, 'e) sres)"] sThen_writes [OF t, of k b] show ?thesis by simp
qed

lemma head_body_writes:
  assumes "buffer_like wr content"
  shows "writes content t (sThen (writeHead wr m a t) (sWrite wr b)) (AppendHead [] m a @ b) (stack t)"
  using sThen_writes [OF sWrite_writes [OF assms, of t "AppendHead [] m a"], of "sWrite wr b" b "stack t"]
    sWrite_writes [OF assms, of "snd (sWrite wr (AppendHead [] m a) t)" b]
  by (simp add: writeHead_def)

text \<open>In permissive mode \<open>WriteValue\<close> writes the bytes of \<open>Encode\<close>. (The other modes may shorten
  or lengthen floats, which \<open>WriteValue\<close> never does.)\<close>

lemma WriteValue_writes:
  fixes wr :: "('w, 'e) writer"
  assumes buf: "buffer_like wr content" and room: "has_room (stack s)" and perm: "enc_mode (senc s) = ModePermissive"
    and enc: "Encode (senc s) [] v = (b, None)" and simple: "Kind v = KindSimple \<longrightarrow> Num v < 256"
  shows "writes content s (WriteValue wr v s) b (counted (stack s))"
proof -
  define opts where "opts = encodeOpts (senc s)"
  from enc have e: "encode opts [] v = (b, None)" by (simp add: Encode_encode opts_def)
  have o: "EncFloatMode opts = FloatPreserve" using perm by (simp add: opts_def encodeOpts_def)
  note e' = e [unfolded encode.simps [of opts "[]" v]]
  have small: "(ucast (Num v) :: byte) < 24 \<longleftrightarrow> Num v < 24" if "Num v < 256"
    using that ucast_byte_small [of "Num v"] by (simp add: word_less_nat_alt)
  have encodeTo: "writes content t (case EncodeTo wr v (encodeOpts (senc t)) (sw t) of (e, w) \<Rightarrow> (e, t\<lparr>sw := w\<rparr>)) b (stack t)"
    if "senc t = senc s" for t
    using sWrite_writes [OF buf, of t b] e that
    by (auto simp: EncodeTo_def opts_def sWrite_def split: prod.splits)
  have t: "writes content s (trackWrite s :: ('w, 'e) sres) [] (counted (stack s))"
    by (rule trackWrite_writes) (rule room)
  define t where "t = snd (trackWrite s :: ('w, 'e) sres)"
  have st: "senc t = senc s" "stack t = counted (stack s)" using t by (simp_all add: writes_def t_def)
  note * = sThen_writes [OF t, folded t_def, where b' = b and cs' = "stack t", simplified, unfolded st]
  show ?thesis
    unfolding WriteValue_def
  proof (rule *)
    show "writes content t (case Kind v of
       KindUint \<Rightarrow> writeHead wr MajorUint (Num v) t
     | KindNegInt \<Rightarrow> writeHead wr MajorNegInt (Num v) t
     | KindBool \<Rightarrow> sWrite wr [if Num v \<noteq> 0 then SimpleTrue else SimpleFalse] t
     | KindNull \<Rightarrow> sWrite wr [SimpleNull] t
     | KindUndefined \<Rightarrow> sWrite wr [SimpleUndefined] t
     | KindText \<Rightarrow> sThen (writeHead wr MajorText (of_nat (length (Str v))) t) (sWrite wr (Str v))
     | KindBytes \<Rightarrow> sThen (writeHead wr MajorBytes (of_nat (length (Bstr v))) t) (sWrite wr (Bstr v))
     | KindFloat32 \<Rightarrow> sWrite wr (AppendFloat32 [] (ucast (Num v))) t
     | KindFloat64 \<Rightarrow> sWrite wr (AppendFloat64 [] (Num v)) t
     | KindSimple \<Rightarrow>
         if Num v < 24 then sWrite wr [MajorOther OR ucast (Num v)] t
         else sWrite wr [SimpleOneByte, ucast (Num v)] t
     | _ \<Rightarrow> (case EncodeTo wr v (encodeOpts (senc t)) (sw t) of (e, w) \<Rightarrow> (e, t\<lparr>sw := w\<rparr>)))
       b (counted (stack s))"
      using e' o sWrite_writes [OF buf, of t] head_body_writes [OF buf, of t] encodeTo [OF st(1)] simple small
      by (auto simp: writeHead_def st [symmetric] encodeFloat32_def encodeFloat64_def Let_def
          split: kind.splits if_splits)
  qed
qed

section \<open>Definite containers\<close>

definition item_ok :: "Encoder \<Rightarrow> Value \<Rightarrow> bool" where
  "item_ok e v \<longleftrightarrow> snd (Encode e [] v) = None \<and> (Kind v = KindSimple \<longrightarrow> Num v < 256)"

lemma run_append:
  "runs wr (cs @ ds) s = sThen (runs wr cs s) (runs wr ds)"
  by (induction cs arbitrary: s) (auto simp: sThen_def split: prod.splits option.splits)

lemma run_values:
  assumes buf: "buffer_like wr content" and perm: "enc_mode e = ModePermissive"
  shows "\<forall>v \<in> set vs. item_ok e v \<Longrightarrow> senc s = e \<Longrightarrow> stack s = c # cs \<Longrightarrow> remaining c < 2 ^ 63 \<Longrightarrow> 0 \<le> written c
    \<Longrightarrow> written c + int (length vs) \<le> remaining c
    \<Longrightarrow> writes content s (runs wr (map CValue vs) s) (concat (map (\<lambda>v. fst (Encode e [] v)) vs))
          (c\<lparr>written := written c + int (length vs)\<rparr> # cs)"
proof (induction vs arbitrary: s c)
  case Nil
  then show ?case by (simp add: writes_def)
next
  case (Cons v vs)
  obtain b where b: "Encode e [] v = (b, None)"
    using Cons.prems(1) by (cases "Encode e [] v") (auto simp: item_ok_def)
  have room: "has_room (stack s)" using Cons.prems by (simp add: has_room_def)
  have inc: "go_int (written c + 1) = written c + 1" using Cons.prems by (intro go_int_id) auto
  have w: "writes content s (WriteValue wr v s) b (c\<lparr>written := written c + 1\<rparr> # cs)"
    using WriteValue_writes [OF buf room, of v b] Cons.prems perm b inc
    by (auto simp: counted_def item_ok_def)
  define t where "t = snd (WriteValue wr v s)"
  from w have t: "senc t = e" "stack t = c\<lparr>written := written c + 1\<rparr> # cs"
    using Cons.prems(2) by (simp_all add: writes_def t_def)
  from Cons.IH [OF _ t] Cons.prems
  have "writes content t (runs wr (map CValue vs) t) (concat (map (\<lambda>v. fst (Encode e [] v)) vs))
      (c\<lparr>written := written c + int (length (v # vs))\<rparr> # cs)"
    by (simp add: algebra_simps)
  from sThen_writes [OF w, where k = "runs wr (map CValue vs)", OF this [unfolded t_def]]
  show ?case by (simp add: b)
qed

lemma begin_writes:
  assumes "buffer_like wr content" and "\<And>t. k t = (None, pushState r t)"
  shows "writes content s (sThen (sWrite wr b s) k) b (\<lparr>remaining = r, written = 0\<rparr> # stack s)"
proof -
  note w = sWrite_writes [OF assms(1), of s b]
  have "writes content t (k t) [] (\<lparr>remaining = r, written = 0\<rparr> # stack t)" for t
    using assms(2) by (simp add: writes_def pushState_def)
  from sThen_writes [OF w, where k = k, OF this] w show ?thesis by (simp add: writes_def)
qed

lemma closed_container:
  assumes buf: "buffer_like wr content" and perm: "enc_mode e = ModePermissive" and items: "\<forall>v \<in> set vs. item_ok e v"
    and len: "int (length vs) < 2 ^ 63"
    and start: "writes content s r h0 (\<lparr>remaining = int (length vs), written = 0\<rparr> # stack s)" and e: "senc s = e"
  shows "writes content s (sThen r (runs wr (map CValue vs @ [CEnd])))
    (h0 @ concat (map (\<lambda>v. fst (Encode e [] v)) vs)) (stack s)"
proof -
  define t where "t = snd r"
  from start e have t: "senc t = e" "stack t = \<lparr>remaining = int (length vs), written = 0\<rparr> # stack s"
    by (simp_all add: writes_def t_def)
  from run_values [OF buf perm items t] len
  have w: "writes content t (runs wr (map CValue vs) t) (concat (map (\<lambda>v. fst (Encode e [] v)) vs))
      (\<lparr>remaining = int (length vs), written = int (length vs)\<rparr> # stack s)" by simp
  have "writes content u (runs wr [CEnd] u) [] (stack s)"
    if "stack u = \<lparr>remaining = int (length vs), written = int (length vs)\<rparr> # stack s" for u
    using that by (simp add: EndContainer_def writes_def sThen_def)
  with w have "writes content t (runs wr (map CValue vs @ [CEnd]) t) (concat (map (\<lambda>v. fst (Encode e [] v)) vs) @ []) (stack s)"
    unfolding run_append by (intro sThen_writes) (auto simp: writes_def)
  from sThen_writes [OF start, where k = "runs wr (map CValue vs @ [CEnd])", OF this [unfolded t_def append_Nil2]]
  show ?thesis .
qed

lemma Encode_items:
  assumes "enc_mode e = ModePermissive" and "\<forall>v \<in> set vs. item_ok e v"
  shows "Encode e [] (MakeArray vs)
    = (AppendHead [] MajorArray (of_nat (length vs)) @ concat (map (\<lambda>v. fst (Encode e [] v)) vs), None)"
proof -
  define opts where "opts = encodeOpts e"
  have "valid_mode e" using assms(1) by (simp add: valid_mode_def)
  have each: "encode opts [] v = (fst (Encode e [] v), None)" if "v \<in> set vs" for v
    using that assms(2) Encode_encode [of e v "fst (Encode e [] v)"]
    by (simp add: opts_def item_ok_def prod_eq_iff)
  then have "encodeItems opts (AppendHead [] MajorArray (of_nat (length vs))) vs
      = (AppendHead [] MajorArray (of_nat (length vs)) @ concat (map (\<lambda>v. fst (encode opts [] v)) vs), None)"
    by (intro encodeItems_value) simp
  also have "map (\<lambda>v. fst (encode opts [] v)) vs = map (\<lambda>v. fst (Encode e [] v)) vs"
    using each by simp
  finally show ?thesis
    using \<open>valid_mode e\<close>
    by (simp add: Encode_encode opts_def MakeArray_def encode.simps [of "encodeOpts e" "[]" "Value KindArray n [] [] xs []" for n xs])
qed

lemma Encode_pairs:
  assumes "enc_mode e = ModePermissive" and "\<forall>p \<in> set ps. item_ok e (fst p) \<and> item_ok e (snd p)"
  shows "Encode e [] (MakeMap ps) = (AppendHead [] MajorMap (of_nat (length ps))
      @ concat (map (\<lambda>p. fst (Encode e [] (fst p)) @ fst (Encode e [] (snd p))) ps), None)"
proof -
  define opts where "opts = encodeOpts e"
  have "valid_mode e" using assms(1) by (simp add: valid_mode_def)
  have det: "\<not> Deterministic opts" using assms(1) by (simp add: opts_def encodeOpts_def)
  have each: "encode opts [] (fst p) = (fst (Encode e [] (fst p)), None)
      \<and> encode opts [] (snd p) = (fst (Encode e [] (snd p)), None)" if "p \<in> set ps" for p
    using that assms(2) Encode_encode [of e "fst p" "fst (Encode e [] (fst p))"]
      Encode_encode [of e "snd p" "fst (Encode e [] (snd p))"]
    by (simp add: opts_def item_ok_def prod_eq_iff)
  then have "encodeMap opts [] ps = (AppendHead [] MajorMap (of_nat (length ps))
      @ concat (map (\<lambda>p. fst (encode opts [] (fst p)) @ fst (encode opts [] (snd p))) (entryOrder opts ps)), None)"
    by (intro encodeMap_value) simp
  also have "entryOrder opts ps = ps" using det by (simp add: entryOrder_def)
  also have "map (\<lambda>p. fst (encode opts [] (fst p)) @ fst (encode opts [] (snd p))) ps
      = map (\<lambda>p. fst (Encode e [] (fst p)) @ fst (Encode e [] (snd p))) ps"
    using each by simp
  finally show ?thesis
    using \<open>valid_mode e\<close>
    by (simp add: Encode_encode opts_def MakeMap_def encode.simps [of "encodeOpts e" "[]" "Value KindMap n [] [] [] ps" for n ps])
qed

definition array_calls :: "Value list \<Rightarrow> call list" where
  "array_calls vs = CBeginArray (int (length vs)) # map CValue vs @ [CEnd]"

definition map_calls :: "MapEntry list \<Rightarrow> call list" where
  "map_calls ps = CBeginMap (int (length ps)) # map CValue (concat (map (\<lambda>p. [fst p, snd p]) ps)) @ [CEnd]"

lemma array_writes:
  assumes buf: "buffer_like wr content" and perm: "enc_mode (senc s) = ModePermissive"
    and "\<forall>v \<in> set vs. item_ok (senc s) v" and "length vs < 2 ^ 62"
  shows "writes content s (runs wr (array_calls vs) s) (fst (Encode (senc s) [] (MakeArray vs))) (stack s)"
proof -
  have len: "int (length vs) < 2 ^ 63"
  proof -
    from assms(4) have "int (length vs) < int (2 ^ 62)" by (simp only: of_nat_less_iff)
    then show ?thesis by simp
  qed
  have "writes content s (BeginArray wr (int (length vs)) s) (AppendHead [] MajorArray (of_nat (length vs)))
      (\<lparr>remaining = int (length vs), written = 0\<rparr> # stack s)"
    using begin_writes [OF buf, of "\<lambda>s. (None, pushState (int (length vs)) s)" "int (length vs)" s
      "AppendHead [] MajorArray (of_nat (length vs))"]
    by (simp add: BeginArray_def)
  from closed_container [OF buf perm assms(3) len this refl] show ?thesis
    by (simp add: array_calls_def Encode_items [OF perm assms(3)])
qed

lemma map_writes:
  assumes buf: "buffer_like wr content" and perm: "enc_mode (senc s) = ModePermissive"
    and "\<forall>p \<in> set ps. item_ok (senc s) (fst p) \<and> item_ok (senc s) (snd p)" and "length ps < 2 ^ 61"
  shows "writes content s (runs wr (map_calls ps) s) (fst (Encode (senc s) [] (MakeMap ps))) (stack s)"
proof -
  define vs where "vs = concat (map (\<lambda>p. [fst p, snd p]) ps)"
  have n: "length vs = 2 * length ps" unfolding vs_def by (induction ps) auto
  have len: "int (length vs) < 2 ^ 63" and small: "length vs < 2 ^ 62"
  proof -
    from assms(4) have "int (length ps) < int (2 ^ 61)" by (simp only: of_nat_less_iff)
    then show "int (length vs) < 2 ^ 63" by (simp add: n)
    show "length vs < 2 ^ 62" using assms(4) by (simp add: n)
  qed
  have items: "\<forall>v \<in> set vs. item_ok (senc s) v" using assms(3) by (auto simp: vs_def)
  have "go_int (int (length ps) * 2) = int (length vs)"
    using go_int_nat [OF small] by (simp add: n mult.commute)
  then have "writes content s (BeginMap wr (int (length ps)) s) (AppendHead [] MajorMap (of_nat (length ps)))
      (\<lparr>remaining = int (length vs), written = 0\<rparr> # stack s)"
    using begin_writes [OF buf, of "\<lambda>s. (None, pushState (int (length vs)) s)" "int (length vs)" s
      "AppendHead [] MajorMap (of_nat (length ps))"]
    by (simp add: BeginMap_def)
  from closed_container [OF buf perm items len this refl]
  have "writes content s (runs wr (map_calls ps) s) (AppendHead [] MajorMap (of_nat (length ps))
      @ concat (map (\<lambda>v. fst (Encode (senc s) [] v)) vs)) (stack s)"
    by (simp add: map_calls_def vs_def)
  also have "concat (map (\<lambda>v. fst (Encode (senc s) [] v)) vs)
      = concat (map (\<lambda>p. fst (Encode (senc s) [] (fst p)) @ fst (Encode (senc s) [] (snd p))) ps)"
    unfolding vs_def by (induction ps) auto
  finally show ?thesis by (simp add: Encode_pairs [OF perm assms(3)])
qed

section \<open>Properties\<close>

definition buffer_write :: "(bytes, unit) writer" where "buffer_write b w = (None, w @ b)"

lemma buffer_write_like: "buffer_like buffer_write (\<lambda>w. w)"
  by (simp add: buffer_like_def buffer_write_def)



text \<open>C18: Streaming an array in permissive mode, that is announcing it, writing its items and ending it,
  fails nowhere, writes the encoding of the array value, and leaves the open containers as they were.\<close>
theorem stream_array_refines_encode:
  assumes "buffer_like wr content" and "enc_mode (senc s) = ModePermissive"
    and "\<forall>v \<in> set vs. item_ok (senc s) v" and "length vs < 2 ^ 62"
  shows "fst (runs wr (array_calls vs) s) = None
    \<and> content (sw (snd (runs wr (array_calls vs) s))) = content (sw s) @ fst (Encode (senc s) [] (MakeArray vs))
    \<and> stack (snd (runs wr (array_calls vs) s)) = stack s"
  using array_writes [OF assms] by (simp add: writes_def)

theorem stream_array_refines_encode_witness:
  "sw (snd (runs buffer_write (array_calls [Uint 1, Text [97]]) (EncoderStream (NewEncoder ModePermissive []) [])))
    = fst (Encode (NewEncoder ModePermissive []) [] (MakeArray [Uint 1, Text [97]]))"
proof -
  have "\<forall>v \<in> set [Uint 1, Text [97]]. item_ok (NewEncoder ModePermissive []) v" by code_simp
  with stream_array_refines_encode [OF buffer_write_like, of "EncoderStream (NewEncoder ModePermissive []) []"
      "[Uint 1, Text [97]]"] show ?thesis
    by (simp add: EncoderStream_def NewEncoder_def)
qed

text \<open>Streaming a map in permissive mode writes the encoding of the map value, its entries in the order
  in which they were written.\<close>
lemma stream_map_refines_encode:
  assumes "buffer_like wr content" and "enc_mode (senc s) = ModePermissive"
    and "\<forall>p \<in> set ps. item_ok (senc s) (fst p) \<and> item_ok (senc s) (snd p)" and "length ps < 2 ^ 61"
  shows "fst (runs wr (map_calls ps) s) = None
    \<and> content (sw (snd (runs wr (map_calls ps) s))) = content (sw s) @ fst (Encode (senc s) [] (MakeMap ps))
    \<and> stack (snd (runs wr (map_calls ps) s)) = stack s"
  using map_writes [OF assms] by (simp add: writes_def)

lemma stream_map_refines_encode_witness:
  "sw (snd (runs buffer_write (map_calls [(Uint 1, Text [97])]) (EncoderStream (NewEncoder ModePermissive []) [])))
    = fst (Encode (NewEncoder ModePermissive []) [] (MakeMap [(Uint 1, Text [97])]))"
proof -
  have "\<forall>p \<in> set [(Uint 1, Text [97])]. item_ok (NewEncoder ModePermissive []) (fst p)
      \<and> item_ok (NewEncoder ModePermissive []) (snd p)" by code_simp
  with stream_map_refines_encode [OF buffer_write_like, of "EncoderStream (NewEncoder ModePermissive []) []"
      "[(Uint 1, Text [97])]"] show ?thesis
    by (simp add: EncoderStream_def NewEncoder_def)
qed

text \<open>When the open definite container is full, every further item is refused with an overflow error,
  and neither the writer nor the stack changes.\<close>
lemma stream_overflow_refused:
  assumes "stack s = c # cs" and "0 \<le> remaining c" and "remaining c \<le> written c"
    and "call \<in> {CValue v, CUint n, CNegInt n, CBytes b, CText b, CBool f, CNull, CUndefined, CFloat32 x, CFloat64 n,
      CSimple y, CRaw b}"
  shows "exec wr call s = (Some ErrContainerOverflow, s)"
proof -
  have "\<not> has_room (stack s)" using assms(1-3) by (simp add: has_room_def)
  from trackWrite_full [OF this] assms(4) show ?thesis
    by (auto simp: WriteValue_def WriteUint_def WriteNegInt_def WriteBytes_def WriteText_def WriteBool_def
        WriteNull_def WriteUndefined_def WriteFloat32_def WriteFloat64_def WriteSimple_def WriteRawCBOR_def)
qed

lemma stream_overflow_refused_witness:
  "exec buffer_write CNull (snd (exec buffer_write (CBeginArray 0) (EncoderStream defaultEncoder [])))
    = (Some ErrContainerOverflow, snd (exec buffer_write (CBeginArray 0) (EncoderStream defaultEncoder [])))"
  by (rule stream_overflow_refused [where c = "\<lparr>remaining = 0, written = 0\<rparr>" and cs = "[]"])
    (simp_all add: BeginArray_def EncoderStream_def sThen_def sWrite_def buffer_write_def pushState_def)

text \<open>The typed write methods agree with \<open>WriteValue\<close> on the value they stand for, when their extra
  validity checks pass.\<close>
lemma typed_writes_agree:
  "WriteUint wr n s = WriteValue wr (Uint n) s \<and> WriteNegInt wr n s = WriteValue wr (NegInt n) s
    \<and> WriteBytes wr b s = WriteValue wr (Bytes b) s \<and> WriteBool wr f s = WriteValue wr (Bool f) s
    \<and> WriteNull wr s = WriteValue wr Null s \<and> WriteUndefined wr s = WriteValue wr Undefined s"
  by (simp add: WriteValue_def WriteUint_def WriteNegInt_def WriteBytes_def WriteBool_def WriteNull_def
      WriteUndefined_def val_defs)

text \<open>A container begun inside a definite container is not counted by it: the array \<open>[[]]\<close> cannot be
  streamed, its outer \<open>EndContainer\<close> reports an underflow whatever the writer.\<close>
lemma nested_container_underflows:
  assumes "buffer_like wr content"
  shows "fst (runs wr [CBeginArray 1, CBeginArray 0, CEnd, CEnd] (EncoderStream e w)) = Some ErrContainerUnderflow"
  using assms
  by (auto simp: buffer_like_def BeginArray_def EndContainer_def EncoderStream_def sThen_def sWrite_def pushState_def
      split: prod.splits option.splits) (metis fst_conv option.distinct(1))+

lemma nested_container_underflows_witness:
  "fst (runs buffer_write [CBeginArray 1, CBeginArray 0, CEnd, CEnd] (EncoderStream defaultEncoder []))
    = Some ErrContainerUnderflow"
  by (rule nested_container_underflows [OF buffer_write_like])

end
