(* ===== verification/Decode_Prefix.thy ===== *)
theory Decode_Prefix
  imports Codec
begin

text \<open>
  What a decode returns does not depend on the bytes behind the item: a run that succeeds on a buffer
  succeeds with the same value, the same end and the same state on every longer buffer. This is what lets a
  stream decoder retry on a growing buffer. The recursive decoder on the longer input is the second decoder of
  the locale \<open>extended_decoder\<close>.
\<close>

section \<open>Reading below the end of the shorter input\<close>

lemma go_slice_extend: "go_slice s a b = Some t \<Longrightarrow> go_slice (s @ rest) a b = Some t"
  by (auto simp: go_slice_def split: if_splits)

lemma zeroCopy_extend: "zeroCopyString s a b = Some t \<Longrightarrow> zeroCopyString (s @ rest) a b = Some t"
  by (auto simp: zeroCopyString_def go_slice_extend split: if_splits)

lemma head_extend:
  "HeadN (ParseHead (drop off src)) \<noteq> 0 \<Longrightarrow> ParseHead (drop off (src @ rest)) = ParseHead (drop off src)"
  using head_at [of off src] ParseHead_append [of "drop off src" rest] by simp

lemma slice_extend: "a \<le> b \<Longrightarrow> b \<le> length s \<Longrightarrow> take (b - a) (drop a (s @ rest)) = take (b - a) (drop a s)"
  by simp

lemma indexFrom_extend: "i < length s \<Longrightarrow> (s @ rest) ! i = s ! i"
  by (simp add: nth_append)

lemma decodeIndefChunks_extend:
  "decodeIndefChunks major src off buf opts = Inr r \<Longrightarrow> decodeIndefChunks major (src @ rest) off buf opts = Inr r"
proof (induction "length src - off" arbitrary: off buf rule: less_induct)
  case less
  from less.prems show ?case
  proof (cases rule: decodeIndefChunks_Inr)
    case brk
    then show ?thesis by (subst decodeIndefChunks.simps) (simp add: nth_append)
  next
    case (chunk h n)
    from chunk(4) have "0 < HeadN h" using decodeIndefCheck_None by blast
    then have h: "ParseHead (drop off (src @ rest)) = h" and lt: "length src - n < length src - off"
      using head_extend [of off src rest] chunk by auto
    have "go_slice (src @ rest) (int (off + HeadN h)) (int n) = Some (take (n - (off + HeadN h)) (drop (off + HeadN h) src))"
      using chunk(5,6) by (simp add: go_slice_def nat_diff_distrib' flip: of_nat_add)
    moreover have "decodeIndefCheck major (src @ rest) off h (int (length buf)) opts = None"
      using chunk(4) by (simp add: decodeIndefCheck_def)
    ultimately show ?thesis
      using less.hyps [OF lt chunk(8)] chunk(2,3,6)
      by (subst decodeIndefChunks.simps)
        (simp add: h Let_def indexFrom_extend chunk(7) [symmetric] del: of_nat_add drop_append)
  qed
qed

lemma decodeBytes_extend:
  "decodeBytes src off h opts st = (Inr r, st') \<Longrightarrow> decodeBytes (src @ rest) off h opts st = (Inr r, st')"
  by (auto simp: decodeBytes_def decodeIndefiniteBytes_def res_simps Let_def decodeIndefChunks_extend go_slice_extend
      split: if_splits prod.splits sum.split_asm option.split_asm)

lemma decodeText_extend:
  "decodeText src off h opts st = (Inr r, st') \<Longrightarrow> decodeText (src @ rest) off h opts st = (Inr r, st')"
  by (auto simp: decodeText_def decodeIndefiniteText_def res_simps Let_def decodeIndefChunks_extend go_slice_extend
      zeroCopy_extend split: if_splits prod.splits sum.split_asm option.split_asm)

lemma shortText_extend:
  assumes "shortText src pos end opts st = (Inr r, st')" and "pos + 1 \<le> end" and "end \<le> length src"
  shows "shortText (src @ rest) pos end opts st = (Inr r, st')"
  using assms(1) unfolding shortText_def slice_extend [OF assms(2,3)]
  by (auto simp: res_simps Let_def zeroCopy_extend split: if_splits prod.splits option.split_asm)

lemma short_end:
  assumes "go_slice src (int a) (go_int (int a + n)) = Some t" and "0 \<le> n" and "n < 24"
  shows "int a + n \<le> int (length src)"
proof -
  from go_slice_SomeD [OF assms(1)] have r: "int a \<le> go_int (int a + n)" "go_int (int a + n) \<le> int (length src)" by auto
  with go_int_range [of "int a + n"] have "int a < 2 ^ 63" by linarith
  show ?thesis
  proof (cases "int a + n < 2 ^ 63")
    case True
    with assms(2) r show ?thesis by (simp add: go_int_id)
  next
    case False
    then have "go_int (int a + n) = int a + n - 2 ^ 64"
      using assms(3) \<open>int a < 2 ^ 63\<close> by (intro go_int_wraps) simp_all
    with r(1) assms(3) show ?thesis by simp
  qed
qed

lemma string_slice:
  assumes "AI h \<noteq> AIIndefinite"
    and "decodeBytes src off h opts st = (Inr r, st') \<or> decodeText src off h opts st = (Inr r, st')"
  shows "\<exists>t. go_slice src (int (off + HeadN h)) (go_int (int (off + HeadN h) + int_of_u64 (HeadArg h))) = Some t"
  using assms(2)
proof
  assume "decodeBytes src off h opts st = (Inr r, st')"
  with assms(1) show ?thesis
    by (auto simp: decodeBytes_def res_simps Let_def split: if_splits prod.splits option.splits)
next
  assume "decodeText src off h opts st = (Inr r, st')"
  with assms(1) show ?thesis
    by (auto simp: decodeText_def res_simps Let_def dest: zeroCopyString_Some split: if_splits prod.splits option.splits)
qed

text \<open>A string with a short head that was read lies inside the input, so the inlined cases of the container loops
  see it there as well.\<close>

lemma decodeValueBody_short:
  assumes r: "decodeValueBody dec src opts off depth strip st = (Inr r, st')"
    and m: "src ! off AND 0xe0 = 0x60 \<or> src ! off AND 0xe0 = 0x40" and ai: "src ! off AND 0x1f < 24"
  shows "off + 1 + unat (src ! off AND 0x1f) \<le> length src"
proof -
  define n :: u64 where "n = ucast (src ! off AND 0x1f)"
  have "unat (src ! off AND 0x1f) < 24" using ai by (simp add: word_less_nat_alt)
  then have "unat n = unat (src ! off AND 0x1f)" by (simp add: n_def unat_ucast_mod)
  then have un: "uint n = int (unat (src ! off AND 0x1f))" by (metis of_nat_unat)
  with \<open>unat (src ! off AND 0x1f) < 24\<close> have small: "uint n < 24" by linarith
  from small have int_n: "int_of_u64 n = uint n" by (simp add: int_of_u64_small)
  have off: "off < length src" using r by (auto simp: decodeValueBody_def Let_def res_simps split: if_splits)
  then have h: "ParseHead (drop off src) = \<lparr>Major = src ! off AND 0xe0, AI = src ! off AND 0x1f, HeadArg = n, HeadN = 1\<rparr>"
    using ai by (simp add: ParseHead_def Let_def n_def)
  have ne: "src ! off AND 0x1f \<noteq> 31" using ai by auto
  have "decodeBytes src off (ParseHead (drop off src)) opts st = (Inr r, st')
      \<or> decodeText src off (ParseHead (drop off src)) opts st = (Inr r, st')"
    using r m off unfolding decodeValueBody_def Let_def by (auto simp: h res_simps split: if_splits)
  from string_slice [OF _ this] ne
  have "\<exists>t. go_slice src (int (off + 1)) (go_int (int (off + 1) + uint n)) = Some t" by (simp add: h int_n)
  then obtain t where "go_slice src (int (off + 1)) (go_int (int (off + 1) + uint n)) = Some t" ..
  from short_end [OF this _ small] have "int (off + 1) + uint n \<le> int (length src)" by simp
  then show ?thesis unfolding un by linarith
qed

section \<open>Containers\<close>

locale extended_decoder = item_decoder +
  fixes dec' :: decoder and rest :: bytes
  assumes dec_extend: "dec off depth strip st = (Inr r, st') \<Longrightarrow> dec' off depth strip st = (Inr r, st')"
    and dec_short: "dec off depth strip st = (Inr r, st') \<Longrightarrow> src ! off AND 0xe0 = 0x60 \<or> src ! off AND 0xe0 = 0x40
      \<Longrightarrow> src ! off AND 0x1f < 24 \<Longrightarrow> off + 1 + unat (src ! off AND 0x1f) \<le> length src"
begin

lemma arrayIntElem_extend:
  "pos < length src \<Longrightarrow> arrayIntElem dec src opts cd pos st = (Inr r, st')
    \<Longrightarrow> arrayIntElem dec' (src @ rest) opts cd pos st = (Inr r, st')"
proof -
  assume pos: "pos < length src" and r: "arrayIntElem dec src opts cd pos st = (Inr r, st')"
  have get0: "(src @ rest) ! pos = src ! pos" using pos by (rule indexFrom_extend)
  define ai where "ai = src ! pos AND 0x1f"
  consider "ai < 24" | "ai = 24" | "ai = 25" | "ai = 26" | "ai = 27" | "\<not> ai < 24" "ai \<noteq> 24" "ai \<noteq> 25" "ai \<noteq> 26" "ai \<noteq> 27"
    by blast
  then show ?thesis
    using r dec_extend [of pos cd False st r st']
    by cases (simp_all add: arrayIntElem_def Let_def get0 indexFrom_extend res_simps flip: ai_def split: if_split_asm)
qed

lemma decodeArrayElem_extend:
  assumes "decodeArrayElem dec src opts cd pos st = (Inr r, st')"
  shows "decodeArrayElem dec' (src @ rest) opts cd pos st = (Inr r, st')"
proof -
  from assms have pos: "pos < length src" by (auto simp: decodeArrayElem_def res_simps split: if_splits)
  note get = indexFrom_extend [OF pos, of rest]
  let ?b = "src ! pos"
  define n where "n = unat (?b AND 0x1f)"
  note unfold = decodeArrayElem_def Let_def get n_def [symmetric]
  consider (num) "?b < 0x40" | (str) "\<not> ?b < 0x40" "?b AND 0xe0 = 0x60" "?b AND 0x1f < 24" "pos + 1 + n \<le> length src"
    | (byt) "\<not> ?b < 0x40" "?b AND 0xe0 = 0x40" "?b AND 0x1f < 24" "pos + 1 + n \<le> length src"
    | (short) "\<not> ?b < 0x40" "?b AND 0xe0 = 0x60 \<or> ?b AND 0xe0 = 0x40" "?b AND 0x1f < 24" "\<not> pos + 1 + n \<le> length src"
    | (other) "\<not> ?b < 0x40" "\<not> (?b AND 0xe0 = 0x60 \<and> ?b AND 0x1f < 24)" "\<not> (?b AND 0xe0 = 0x40 \<and> ?b AND 0x1f < 24)"
    by blast
  then show ?thesis
  proof cases
    case num
    with assms pos arrayIntElem_extend [OF pos] show ?thesis unfolding unfold by simp
  next
    case str
    with assms pos shortText_extend [of src pos "pos + 1 + n" opts st r st' rest] show ?thesis
      unfolding unfold by simp
  next
    case byt
    with assms pos slice_extend [of "pos + 1" "pos + 1 + n" src rest] show ?thesis
      unfolding unfold by simp
  next
    case short
    have "?b AND 0xe0 = 0xe0" if "?b = SimpleTrue \<or> ?b = SimpleFalse \<or> ?b = SimpleNull \<or> ?b = SimpleUndefined"
      using that by auto
    with short assms pos have "dec pos cd False st = (Inr r, st')"
      unfolding unfold by (auto split: if_splits)
    from dec_short [OF this short(2,3)] short(4) show ?thesis by (simp add: n_def)
  next
    case other
    with assms pos show ?thesis unfolding unfold
      by (auto simp: dec_extend res_simps split: if_splits)
  qed
qed

lemma decodeArrayLoop_extend:
  "decodeArrayLoop dec src opts cd k pos arr st = (Inr r, st')
    \<Longrightarrow> decodeArrayLoop dec' (src @ rest) opts cd k pos arr st = (Inr r, st')"
  by (induction k arbitrary: pos arr st)
    (auto split: prod.split_asm sum.split_asm dest!: decodeArrayElem_extend)

lemma decodeIndefArrayLoop_extend:
  "decodeIndefArrayLoop fuel dec src opts depth pos arr st = (Inr r, st') \<Longrightarrow> fuel \<le> fuel'
    \<Longrightarrow> decodeIndefArrayLoop fuel' dec' (src @ rest) opts depth pos arr st = (Inr r, st')"
proof (induction fuel arbitrary: fuel' pos arr st)
  case (Suc fuel)
  then obtain f' where "fuel' = Suc f'" "fuel \<le> f'" by (cases fuel') auto
  with Suc show ?case
    by (auto simp: decodeIndefArrayLoop.simps res_simps nth_append
        split: if_splits prod.split_asm sum.split_asm dest!: dec_extend)
qed (simp add: decodeIndefArrayLoop.simps)

lemma decodeArray_extend:
  "decodeArray dec src off h depth opts st = (Inr r, st') \<Longrightarrow> decodeArray dec' (src @ rest) off h depth opts st = (Inr r, st')"
  by (auto simp: decodeArray_def decodeIndefiniteArray_def res_simps Let_def decodeArrayLoop_extend
      split: if_splits prod.splits elim!: decodeIndefArrayLoop_extend)

lemma decodeMapKey_extend:
  assumes "decodeMapKey dec src opts depth pos st = (Inr r, st')"
  shows "decodeMapKey dec' (src @ rest) opts depth pos st = (Inr r, st')"
proof -
  define n where "n = unat (src ! pos AND 0x1f)"
  define T where "T \<longleftrightarrow> src ! pos AND 0xe0 = 0x60 \<and> src ! pos AND 0x1f < 24"
  obtain v nxt where r: "r = (v, nxt)" by (cases r)
  have pos: "pos < length src" using decodeMapKey_progress [OF assms [unfolded r]] by simp
  note get = indexFrom_extend [OF pos, of rest]
  show ?thesis
  proof (cases "T \<and> pos + 1 + n \<le> length src")
    case True
    with assms pos shortText_extend [of src pos "pos + 1 + n" opts st r st' rest] show ?thesis
      unfolding decodeMapKey_def get n_def [symmetric] by (simp add: T_def)
  next
    case False
    then have dec: "dec pos (depth + 1) False st = (Inr r, st')"
      using assms unfolding decodeMapKey_def n_def [symmetric] by (auto simp: T_def)
    then have "\<not> T" using dec_short [OF dec] False by (auto simp: T_def n_def)
    with dec_extend [OF dec] show ?thesis unfolding decodeMapKey_def get by (auto simp: T_def)
  qed
qed

lemma decodeMapRest_extend:
  "decodeMapRest dec src opts depth keyOff k pos m dedup st = (Inr r, st') \<Longrightarrow> keyOff \<le> pos \<Longrightarrow> pos \<le> length src
    \<Longrightarrow> decodeMapRest dec' (src @ rest) opts depth keyOff k pos m dedup st = (Inr r, st')"
  by (auto simp: decodeMapRest_def res_simps slice_extend simp del: take_append drop_append
      split: if_splits prod.split_asm sum.split_asm dest!: dec_extend)

lemma decodeMapLoop_extend:
  "decodeMapLoop dec src opts depth c pos m dedup st = (Inr r, st')
    \<Longrightarrow> decodeMapLoop dec' (src @ rest) opts depth c pos m dedup st = (Inr r, st')"
proof (induction c arbitrary: pos m dedup st)
  case (Suc c)
  obtain k kend st1 where key: "decodeMapKey dec src opts depth pos st = (Inr (k, kend), st1)"
    using Suc.prems by (auto split: prod.split_asm sum.split_asm)
  then obtain m' d' nxt st2 where rst: "decodeMapRest dec src opts depth pos k kend m dedup st1 = (Inr ((m', d'), nxt), st2)"
    using Suc.prems by (auto split: prod.split_asm sum.split_asm)
  have "decodeMapRest dec' (src @ rest) opts depth pos k kend m dedup st1 = (Inr ((m', d'), nxt), st2)"
    using decodeMapKey_progress [OF key] by (intro decodeMapRest_extend [OF rst]) simp_all
  with Suc key rst decodeMapKey_extend [OF key] show ?case by simp
qed simp

lemma decodeIndefMapLoop_extend:
  "decodeIndefMapLoop fuel dec src opts depth pos m st = (Inr r, st') \<Longrightarrow> fuel \<le> fuel'
    \<Longrightarrow> decodeIndefMapLoop fuel' dec' (src @ rest) opts depth pos m st = (Inr r, st')"
proof (induction fuel arbitrary: fuel' pos m st)
  case (Suc fuel)
  then obtain f' where f': "fuel' = Suc f'" "fuel \<le> f'" by (cases fuel') auto
  have pos: "pos < length src" using Suc.prems(1)
    by (auto simp: decodeIndefMapLoop.simps res_simps split: if_splits)
  show ?case
  proof (cases "src ! pos = BreakCode")
    case True
    with Suc.prems pos f' show ?thesis by (simp add: decodeIndefMapLoop.simps res_simps nth_append)
  next
    case False
    obtain k kend st1 where key: "dec pos (depth + 1) False st = (Inr (k, kend), st1)"
      using Suc.prems pos False by (auto simp: decodeIndefMapLoop.simps res_simps split: if_splits prod.split_asm sum.split_asm)
    then obtain m' d' nxt st2 where rst: "decodeMapRest dec src opts depth pos k kend m None st1 = (Inr ((m', d'), nxt), st2)"
      using Suc.prems pos False by (auto simp: decodeIndefMapLoop.simps res_simps split: if_splits prod.split_asm sum.split_asm)
    have "decodeMapRest dec' (src @ rest) opts depth pos k kend m None st1 = (Inr ((m', d'), nxt), st2)"
      using dec_progress [OF key] by (intro decodeMapRest_extend [OF rst]) simp_all
    with Suc f' key rst dec_extend [OF key] pos False show ?thesis
      by (simp add: decodeIndefMapLoop.simps nth_append split: if_splits)
  qed
qed (simp add: decodeIndefMapLoop.simps)

lemma decodeMap_extend:
  "decodeMap dec src off h depth opts st = (Inr r, st') \<Longrightarrow> decodeMap dec' (src @ rest) off h depth opts st = (Inr r, st')"
  by (auto simp: decodeMap_def decodeIndefiniteMap_def res_simps Let_def decodeMapLoop_extend
      split: if_splits prod.splits elim!: decodeIndefMapLoop_extend)

lemma decodeTag_extend:
  "decodeTag dec off h depth opts strip st = (Inr r, st') \<Longrightarrow> decodeTag dec' off h depth opts strip st = (Inr r, st')"
  by (auto simp: decodeTag_def res_simps Let_def dec_extend split: if_splits prod.split_asm sum.split_asm)

lemma decodeValueBody_extend:
  assumes "decodeValueBody dec src opts off depth strip st = (Inr r, st')"
  shows "decodeValueBody dec' (src @ rest) opts off depth strip st = (Inr r, st')"
proof -
  have n: "HeadN (ParseHead (drop off src)) \<noteq> 0" "off < length src"
    using assms by (auto simp: decodeValueBody_def Let_def res_simps split: if_splits)
  show ?thesis
    using assms n(2) unfolding decodeValueBody_def head_extend [OF n(1)]
    by (auto simp: Let_def res_simps decodeBytes_extend decodeText_extend decodeArray_extend decodeMap_extend
        decodeTag_extend split: if_splits)
qed

end

lemma decodeValue_short:
  "decodeValue fuel src opts off depth strip st = (Inr r, st') \<Longrightarrow> src ! off AND 0xe0 = 0x60 \<or> src ! off AND 0xe0 = 0x40
    \<Longrightarrow> src ! off AND 0x1f < 24 \<Longrightarrow> off + 1 + unat (src ! off AND 0x1f) \<le> length src"
  by (cases fuel) (simp, simp only: decodeValue.simps, rule decodeValueBody_short)

lemma decodeValue_extend:
  "decodeValue fuel src opts off depth strip st = (Inr r, st') \<Longrightarrow> fuel \<le> fuel'
    \<Longrightarrow> decodeValue fuel' (src @ rest) opts off depth strip st = (Inr r, st')"
proof (induction fuel arbitrary: fuel' off depth strip st r st')
  case (Suc fuel)
  then obtain f' where f': "fuel' = Suc f'" "fuel \<le> f'" by (cases fuel') auto
  then have "extended_decoder (decodeValue fuel src opts) src (decodeValue f' (src @ rest) opts)"
  proof unfold_locales
    show "decodeValue f' (src @ rest) opts off depth strip st = (Inr r, st')"
      if "decodeValue fuel src opts off depth strip st = (Inr r, st')" for off depth strip st r st'
      using that f'(2) by (rule Suc.IH)
  qed (rule decodeValue_short)
  from extended_decoder.decodeValueBody_extend [OF this] Suc.prems(1) f' show ?case by simp
qed simp

interpretation dve: extended_decoder "decodeValue fuel src opts" src opts "decodeValue fuel (src @ rest) opts" rest
  for fuel src opts rest
  by unfold_locales (rule decodeValue_extend [OF _ order_refl], assumption, rule decodeValue_short)

lemma Decode_extend:
  "Decode src opts st = (Inr r, st') \<Longrightarrow> Decode (src @ rest) opts st = (Inr r, st')"
  unfolding Decode_def by (erule decodeValue_extend) simp

section \<open>The state after any run\<close>

text \<open>Success or failure, a run without a budget leaves a state without a budget, and an interner that still
  interns correctly.\<close>

lemma charge_quiet: "charge_st n st = (st', good) \<Longrightarrow> quiet st \<Longrightarrow> quiet st'"
  using charge_st_ok [of n st st' good] by (auto simp: quiet_def charge_st_def charge_def)

lemma intern_quiet: "Interner st = Some si \<Longrightarrow> internString raw si st = (s, st') \<Longrightarrow> quiet st \<Longrightarrow> quiet st'"
  using internString_ok [of st si raw s st'] by (auto simp: quiet_def internString_def split: prod.splits)

named_theorems keeps

lemma decodeBytes_keeps [keeps]: "decodeBytes src off h opts st = (r, st') \<Longrightarrow> quiet st \<Longrightarrow> quiet st'"
  by (auto simp: decodeBytes_def decodeIndefiniteBytes_def res_simps Let_def dest: charge_quiet
      split: if_splits prod.splits sum.splits option.splits)

lemma decodeText_keeps [keeps]: "decodeText src off h opts st = (r, st') \<Longrightarrow> quiet st \<Longrightarrow> quiet st'"
  by (auto simp: decodeText_def decodeIndefiniteText_def res_simps Let_def dest: charge_quiet intern_quiet
      split: if_splits prod.splits sum.splits option.splits)

lemma decodeOther_keeps [keeps]: "decodeOther off h opts st = (r, st') \<Longrightarrow> quiet st \<Longrightarrow> quiet st'"
  by (auto simp: decodeOther_def res_simps Let_def split: if_splits)

lemma shortText_keeps: "shortText src pos end opts st = (r, st') \<Longrightarrow> quiet st \<Longrightarrow> quiet st'"
  by (auto simp: shortText_def res_simps Let_def dest: intern_quiet split: if_splits option.splits prod.splits)

locale quiet_decoding =
  fixes dec :: decoder
  assumes dec_keeps: "dec off depth strip st = (r, st') \<Longrightarrow> quiet st \<Longrightarrow> quiet st'"
begin

lemma decodeArrayElem_keeps: "decodeArrayElem dec src opts cd pos st = (r, st') \<Longrightarrow> quiet st \<Longrightarrow> quiet st'"
  by (auto simp: decodeArrayElem_def arrayIntElem_def arrayInt_def res_simps Let_def dest: dec_keeps shortText_keeps
      split: if_splits)

lemma decodeArrayLoop_keeps: "decodeArrayLoop dec src opts cd k pos arr st = (r, st') \<Longrightarrow> quiet st \<Longrightarrow> quiet st'"
  by (induction k arbitrary: pos arr st)
    (auto simp: res_simps split: prod.split_asm sum.split_asm dest!: decodeArrayElem_keeps)

lemma decodeIndefArrayLoop_keeps:
  "decodeIndefArrayLoop fuel dec src opts depth pos arr st = (r, st') \<Longrightarrow> quiet st \<Longrightarrow> quiet st'"
  by (induction fuel arbitrary: pos arr st)
    (auto simp: decodeIndefArrayLoop.simps res_simps split: if_splits prod.split_asm sum.split_asm dest!: dec_keeps)

lemma decodeArray_keeps: "decodeArray dec src off h depth opts st = (r, st') \<Longrightarrow> quiet st \<Longrightarrow> quiet st'"
  by (auto simp: decodeArray_def decodeIndefiniteArray_def res_simps Let_def
      dest!: charge_quiet decodeArrayLoop_keeps decodeIndefArrayLoop_keeps split: if_splits prod.splits)

lemma decodeMapKey_keeps: "decodeMapKey dec src opts depth pos st = (r, st') \<Longrightarrow> quiet st \<Longrightarrow> quiet st'"
  by (auto simp: decodeMapKey_def dest: dec_keeps shortText_keeps split: if_splits)

lemma decodeMapRest_keeps:
  "decodeMapRest dec src opts depth keyOff k pos m dedup st = (r, st') \<Longrightarrow> quiet st \<Longrightarrow> quiet st'"
  by (auto simp: decodeMapRest_def res_simps dest: dec_keeps split: if_splits prod.split_asm sum.split_asm)

lemma decodeMapLoop_keeps:
  "decodeMapLoop dec src opts depth c pos m dedup st = (r, st') \<Longrightarrow> quiet st \<Longrightarrow> quiet st'"
  by (induction c arbitrary: pos m dedup st)
    (auto simp: res_simps split: prod.split_asm sum.split_asm dest!: decodeMapKey_keeps decodeMapRest_keeps)

lemma decodeIndefMapLoop_keeps:
  "decodeIndefMapLoop fuel dec src opts depth pos m st = (r, st') \<Longrightarrow> quiet st \<Longrightarrow> quiet st'"
  by (induction fuel arbitrary: pos m st)
    (auto simp: decodeIndefMapLoop.simps res_simps split: if_splits prod.split_asm sum.split_asm
      dest!: dec_keeps decodeMapRest_keeps)

lemma decodeMap_keeps: "decodeMap dec src off h depth opts st = (r, st') \<Longrightarrow> quiet st \<Longrightarrow> quiet st'"
  by (auto simp: decodeMap_def decodeIndefiniteMap_def res_simps Let_def
      dest!: charge_quiet decodeMapLoop_keeps decodeIndefMapLoop_keeps split: if_splits prod.splits)

lemma decodeTag_keeps: "decodeTag dec off h depth opts strip st = (r, st') \<Longrightarrow> quiet st \<Longrightarrow> quiet st'"
  by (auto simp: decodeTag_def res_simps Let_def dest: dec_keeps split: if_splits prod.split_asm sum.split_asm)

lemma decodeValueBody_keeps: "decodeValueBody dec src opts off depth strip st = (r, st') \<Longrightarrow> quiet st \<Longrightarrow> quiet st'"
  by (auto simp: decodeValueBody_def Let_def res_simps
      dest: keeps decodeArray_keeps decodeMap_keeps decodeTag_keeps split: if_splits)

end

lemma decodeValue_keeps: "decodeValue fuel src opts off depth strip st = (r, st') \<Longrightarrow> quiet st \<Longrightarrow> quiet st'"
proof (induction fuel arbitrary: off depth strip st r st')
  case (Suc fuel)
  then have "quiet_decoding (decodeValue fuel src opts)" by unfold_locales blast
  from quiet_decoding.decodeValueBody_keeps [OF this] Suc.prems show ?case by simp
qed simp

interpretation dvq: quiet_decoding "decodeValue fuel src opts" for fuel src opts
  by unfold_locales (rule decodeValue_keeps)

lemma Decode_keeps: "Decode src opts st = (r, st') \<Longrightarrow> quiet st \<Longrightarrow> quiet st'"
  unfolding Decode_def by (rule decodeValue_keeps)

section \<open>Growing buffers\<close>

text \<open>The item at the front of the input is read from any buffer that holds it, whatever follows; from any shorter
  buffer the decoder fails, without a panic.\<close>

lemma Decode_growing:
  assumes r: "reads opts 0 out v" and k: "Kind v = KindTag \<longrightarrow> Num v \<noteq> 55799"
    and p: "plain opts" and q: "quiet st" and len: "length (out @ rest) < 2 ^ 61"
    and mb: "maxBytes opts < 2 ^ 62"
  shows "length out \<le> n \<Longrightarrow> \<exists>st'. Decode (take n (out @ rest)) opts st = (Inr (v, length out), st') \<and> quiet st'"
    and "n < length out \<Longrightarrow> \<exists>f st'. Decode (take n (out @ rest)) opts st = (Inl f, st') \<and> quiet st' \<and> f \<noteq> Panic"
proof -
  assume "length out \<le> n"
  then have "take n (out @ rest) = out @ take (n - length out) rest" by simp
  moreover have "length (out @ take (n - length out) rest) < 2 ^ 61" using len by simp
  ultimately show "\<exists>st'. Decode (take n (out @ rest)) opts st = (Inr (v, length out), st') \<and> quiet st'"
    using Decode_reads [OF r _ q k] by simp
next
  assume n: "n < length out"
  then have buf: "take n (out @ rest) = take n out" by simp
  obtain r' st' where dec: "Decode (take n out) opts st = (r', st')" by (cases "Decode (take n out) opts st")
  show "\<exists>f st'. Decode (take n (out @ rest)) opts st = (Inl f, st') \<and> quiet st' \<and> f \<noteq> Panic"
  proof (cases r')
    case (Inl f)
    have "sane_limits (take n out) opts" using p len mb n by (simp add: sane_limits_def plain_def)
    from Decode_not_Panic [OF this, of st] dec Inl have "f \<noteq> Panic" by auto
    with dec Decode_keeps [OF dec q] show ?thesis unfolding buf Inl by blast
  next
    case (Inr vn)
    obtain v' n' where vn: "vn = (v', n')" by (cases vn)
    have "n' \<le> length (take n out)" using dec dv.dec_progress unfolding Inr vn Decode_def by blast
    moreover have "Decode (take n out @ drop n out) opts st = (Inr (v', n'), st')"
      using dec unfolding Inr vn by (rule Decode_extend)
    then have "n' = length out" using Decode_reads [OF r _ q k, of "[]"] len by simp
    ultimately show ?thesis using n by simp
  qed
qed

text \<open>C23: What the decoder returns depends only on the item itself: if a buffer decodes to a value that ends at \<open>n\<close>,
  then \<open>n\<close> is within the buffer and every extension of the buffer decodes to the same value with the same end,
  and leaves the same decoder state, in every configuration.\<close>
theorem decode_ignores_suffix:
  assumes "Decode src opts st = (Inr (v, n), st')"
  shows "n \<le> length src \<and> Decode (src @ rest) opts st = (Inr (v, n), st')"
  using Decode_extend [OF assms] dv.dec_progress assms unfolding Decode_def by blast

theorem decode_ignores_suffix_witness:
  "2 \<le> length [0x81, 0x05 :: byte] \<and> Decode ([0x81, 0x05] @ [0xff, 0x1c]) DefaultOpts NilState = (Inr (MakeArray [Uint 5], 2), NilState)"
  by (rule decode_ignores_suffix) code_simp

end
