(* ===== verification/Stream_Decode.thy ===== *)
theory Stream_Decode
  imports Decode_Prefix
begin

text \<open>
  Decoding from an \<open>io.Reader\<close> (\<^verbatim>\<open>rfc8949/stream_decode.go\<close> and the end of \<^verbatim>\<open>stream.go\<close>). The reader is the
  parameter \<open>rd\<close>: from its state and the size of the buffer it gives the bytes read, an error if any, and its next
  state. The read loops retry until the decoder succeeds, so they are partial functions: \<open>None\<close> is a call that
  never returns. \<open>delivers\<close> says what a reader yields, whatever the sizes of its reads.
\<close>

section \<open>The readers\<close>

datatype 'e read_error = EOF | ReadError 'e

type_synonym ('r, 'e) reader = "'r \<Rightarrow> nat \<Rightarrow> bytes \<times> 'e read_error option \<times> 'r"

text \<open>What a call fails with: an error of the reader, or one of the decoder (a panic included).\<close>

datatype 'e from_error = ReadFailed "'e read_error" | DecodeFailed fault

text \<open>The loop of \<open>DecodeFrom\<close>. A panic of \<open>Decode\<close> leaves it at once.\<close>

partial_function (option) decodeFromLoop ::
  "('r, 'e) reader \<Rightarrow> DecodeOpts \<Rightarrow> bytes \<Rightarrow> 'r \<Rightarrow> dstate \<Rightarrow> (('e from_error + Value) \<times> 'r \<times> dstate) option" where
  "decodeFromLoop rd opts buf r st =
     (case rd r 256 of (chunk, e, r') \<Rightarrow>
        let buf' = buf @ chunk in
        case Decode buf' opts st of
          (Inr (v, n), st') \<Rightarrow> Some (Inr v, r', st')
        | (Inl f, st') \<Rightarrow>
            if f = Panic then Some (Inl (DecodeFailed Panic), r', st')
            else case e of
                Some er \<Rightarrow> Some (Inl (if length buf' = 0 then ReadFailed er else DecodeFailed f), r', st')
              | None \<Rightarrow> decodeFromLoop rd opts buf' r' st')"

definition DecodeFrom ::
  "('r, 'e) reader \<Rightarrow> 'r \<Rightarrow> DecodeOpts \<Rightarrow> dstate \<Rightarrow> (('e from_error + Value) \<times> 'r \<times> dstate) option" where
  "DecodeFrom rd r opts st = decodeFromLoop rd opts [] r st"

record 'r BufferedReader =
  br :: 'r
  leftover :: bytes

definition NewBufferedReader :: "'r \<Rightarrow> 'r BufferedReader" where
  "NewBufferedReader r = \<lparr>br = r, leftover = []\<rparr>"

definition BufferedReader_Read ::
  "('r, 'e) reader \<Rightarrow> nat \<Rightarrow> 'r BufferedReader \<Rightarrow> bytes \<times> 'e read_error option \<times> 'r BufferedReader" where
  "BufferedReader_Read rd n b =
     (if length (leftover b) > 0 then
        (take n (leftover b), None, b\<lparr>leftover := drop n (leftover b)\<rparr>)
      else case rd (br b) n of (chunk, e, r') \<Rightarrow> (chunk, e, b\<lparr>br := r'\<rparr>))"

text \<open>The loop of \<open>DecodeFromBuffered\<close>, which took the leftover bytes out of the reader.\<close>

partial_function (option) bufferedLoop ::
  "('r, 'e) reader \<Rightarrow> DecodeOpts \<Rightarrow> bytes \<Rightarrow> 'r \<Rightarrow> dstate
    \<Rightarrow> (('e from_error + Value) \<times> 'r BufferedReader \<times> dstate) option" where
  "bufferedLoop rd opts buf r st =
     (case Decode buf opts st of
        (Inr (v, n), st') \<Rightarrow> Some (Inr v, \<lparr>br = r, leftover = (if n < length buf then drop n buf else [])\<rparr>, st')
      | (Inl f, st') \<Rightarrow>
          if f = Panic then Some (Inl (DecodeFailed Panic), \<lparr>br = r, leftover = []\<rparr>, st')
          else case rd r 256 of (chunk, e, r') \<Rightarrow>
            if length chunk > 0 then bufferedLoop rd opts (buf @ chunk) r' st'
            else case e of
                Some er \<Rightarrow> Some (Inl (if length buf = 0 then ReadFailed er else DecodeFailed f), \<lparr>br = r', leftover = []\<rparr>, st')
              | None \<Rightarrow> bufferedLoop rd opts buf r' st')"

definition DecodeFromBuffered ::
  "('r, 'e) reader \<Rightarrow> 'r BufferedReader \<Rightarrow> DecodeOpts \<Rightarrow> dstate
    \<Rightarrow> (('e from_error + Value) \<times> 'r BufferedReader \<times> dstate) option" where
  "DecodeFromBuffered rd b opts st = bufferedLoop rd opts (leftover b) (br b) st"

section \<open>Streams\<close>

text \<open>\<open>Decoder.DecodeFrom\<close>: the options are those of the decoder, its budget, interner and arena included.\<close>

definition Decoder_DecodeFrom ::
  "Decoder \<Rightarrow> ('r, 'e) reader \<Rightarrow> 'r \<Rightarrow> (('e from_error + Value) \<times> 'r \<times> Decoder) option" where
  "Decoder_DecodeFrom d rd r =
     map_option (\<lambda>(res, r', st). (res, r', d\<lparr>dec_cfg := (dec_cfg d)\<lparr>dec_state := st\<rparr>\<rparr>))
       (DecodeFrom rd r (dec_opts (dec_cfg d)) (dec_state (dec_cfg d)))"

record ('r, 'e) Stream =
  sbr :: "'r BufferedReader"
  sdec :: Decoder
  sval :: Value
  serr :: "'e from_error option"

definition Decoder_Stream :: "Decoder \<Rightarrow> 'r \<Rightarrow> ('r, 'e) Stream" where
  "Decoder_Stream d r = \<lparr>sbr = NewBufferedReader r, sdec = d, sval = ZeroValue, serr = None\<rparr>"

text \<open>An error that \<open>Next\<close> takes for the end of the stream.\<close>

definition end_of_stream :: "'e from_error \<Rightarrow> bool" where
  "end_of_stream e = (case e of
      ReadFailed er \<Rightarrow> (case er of EOF \<Rightarrow> True | ReadError _ \<Rightarrow> False)
    | DecodeFailed f \<Rightarrow> (case f of Err c _ \<Rightarrow> c = ErrTruncated | _ \<Rightarrow> False))"

text \<open>\<open>Next\<close>: the result is \<open>Inl\<close> for a panic.\<close>

definition Stream_Next :: "('r, 'e) reader \<Rightarrow> ('r, 'e) Stream \<Rightarrow> ((unit + bool) \<times> ('r, 'e) Stream) option" where
  "Stream_Next rd s =
     map_option (\<lambda>(res, b, st).
        let s' = s\<lparr>sbr := b, sdec := (sdec s)\<lparr>dec_cfg := (dec_cfg (sdec s))\<lparr>dec_state := st\<rparr>\<rparr>\<rparr> in
        case res of
          Inl e \<Rightarrow>
            if e = DecodeFailed Panic then (Inl (), s')
            else (Inr False, if end_of_stream e then s' else s'\<lparr>serr := Some e\<rparr>)
        | Inr v \<Rightarrow> (Inr True, s'\<lparr>sval := v\<rparr>))
       (DecodeFromBuffered rd (sbr s) (dec_opts (dec_cfg (sdec s))) (dec_state (dec_cfg (sdec s))))"

definition Stream_Value :: "('r, 'e) Stream \<Rightarrow> Value" where "Stream_Value s = sval s"
definition Stream_Err :: "('r, 'e) Stream \<Rightarrow> 'e from_error option" where "Stream_Err s = serr s"

section \<open>What a reader delivers\<close>

text \<open>\<open>delivers rd r data\<close>: from state \<open>r\<close> the reads, in chunks of any size, some of them empty, give
  \<open>data\<close> and then the end of file, which stays.\<close>

inductive delivers :: "('r, 'e) reader \<Rightarrow> 'r \<Rightarrow> bytes \<Rightarrow> bool" for rd where
  at_end: "rd r 256 = ([], Some EOF, r) \<Longrightarrow> delivers rd r []"
| chunk: "rd r 256 = (c, None, r') \<Longrightarrow> delivers rd r' data \<Longrightarrow> delivers rd r (c @ data)"
| last: "rd r 256 = (c, Some EOF, r') \<Longrightarrow> c \<noteq> [] \<Longrightarrow> delivers rd r' [] \<Longrightarrow> delivers rd r c"

lemma Decode_empty: "Decode [] opts st = (Inl (Err ErrTruncated 0), st)"
  by (simp add: Decode_def decodeValueBody_def res_simps)

text \<open>One retry: the buffer either holds the item, or is too short and the decoder fails without a panic.\<close>

lemma buffer_cases:
  assumes split: "buf @ data = out @ rest" and q: "quiet st"
    and r: "reads opts 0 out v" and k: "Kind v = KindTag \<longrightarrow> Num v \<noteq> 55799"
    and p: "plain opts" "maxBytes opts < 2 ^ 62" and len: "length (out @ rest) < 2 ^ 61"
  obtains (full) st' where "Decode buf opts st = (Inr (v, length out), st')" "quiet st'"
      "length out \<le> length buf" "drop (length out) buf @ data = rest"
  | (short) f st' where "Decode buf opts st = (Inl f, st')" "quiet st'" "f \<noteq> Panic" "length buf < length out"
proof -
  have buf: "take (length buf) (out @ rest) = buf" using split by (metis append_eq_conv_conj)
  note grow = Decode_growing [OF r k p(1) q len p(2), of "length buf", unfolded buf]
  show thesis
  proof (cases "length out \<le> length buf")
    case True
    with split have "drop (length out) buf @ data = rest"
      by (metis append_eq_append_conv_if append_eq_conv_conj drop_append)
    with grow(1) [OF True] True show thesis using full by blast
  next
    case False
    then show thesis using grow(2) short by auto
  qed
qed

lemma bufferedLoop_item:
  assumes "delivers rd r data" and "buf @ data = out @ rest" and "quiet st"
    and r: "reads opts 0 out v" and k: "Kind v = KindTag \<longrightarrow> Num v \<noteq> 55799"
    and p: "plain opts" "maxBytes opts < 2 ^ 62" and len: "length (out @ rest) < 2 ^ 61"
  shows "\<exists>b data' st'. bufferedLoop rd opts buf r st = Some (Inr v, b, st') \<and> quiet st'
    \<and> delivers rd (br b) data' \<and> leftover b @ data' = rest"
  using assms(1-3)
proof (induction arbitrary: buf st rule: delivers.induct)
  case (at_end r)
  show ?case
  proof (rule buffer_cases [OF at_end.prems r k p len], goal_cases full short)
    case full
    with at_end delivers.at_end [of rd r] show ?thesis by (subst bufferedLoop.simps) auto
  qed (use at_end.prems in auto)
next
  case (chunk r c r' data)
  show ?case
  proof (rule buffer_cases [OF chunk.prems r k p len], goal_cases full short)
    case full
    with delivers.chunk [OF chunk.hyps(1,2)] show ?thesis by (subst bufferedLoop.simps) auto
  next
    case (short f st')
    with chunk.IH [of "buf @ c" st'] chunk.IH [of buf st'] chunk.prems chunk.hyps(1) show ?thesis
      by (subst bufferedLoop.simps) (cases "c = []"; simp)
  qed
next
  case (last r c r')
  show ?case
  proof (rule buffer_cases [OF last.prems r k p len], goal_cases full short)
    case full
    with delivers.last [OF last.hyps] show ?thesis by (subst bufferedLoop.simps) auto
  next
    case (short f st')
    with last.IH [of "buf @ c" st'] last.prems last.hyps(1,2) show ?thesis
      by (subst bufferedLoop.simps) simp
  qed
qed

lemma bufferedLoop_end:
  assumes "delivers rd r data" and "data = []"
  shows "\<exists>b. bufferedLoop rd opts [] r st = Some (Inl (ReadFailed EOF), b, st)"
  using assms
proof (induction rule: delivers.induct)
  case (at_end r)
  then show ?case by (subst bufferedLoop.simps) (simp add: Decode_empty)
next
  case (chunk r c r' data)
  then show ?case by (subst bufferedLoop.simps) (simp add: Decode_empty)
next
  case (last r c r')
  then show ?case by simp
qed

section \<open>A stream yields the items of the sequence\<close>

definition pending :: "('r, 'e) reader \<Rightarrow> ('r, 'e) Stream \<Rightarrow> bytes \<Rightarrow> bool" where
  "pending rd s data \<longleftrightarrow> (\<exists>d. delivers rd (br (sbr s)) d \<and> data = leftover (sbr s) @ d)"

definition quiet_stream :: "DecodeOpts \<Rightarrow> ('r, 'e) Stream \<Rightarrow> bool" where
  "quiet_stream opts s \<longleftrightarrow> dec_opts (dec_cfg (sdec s)) = opts \<and> quiet (dec_state (dec_cfg (sdec s))) \<and> serr s = None"

lemma Next_item:
  assumes "pending rd s (out @ rest)" and q: "quiet_stream opts s"
    and "reads opts 0 out v" and "Kind v = KindTag \<longrightarrow> Num v \<noteq> 55799"
    and "plain opts" "maxBytes opts < 2 ^ 62" and "length (out @ rest) < 2 ^ 61"
  obtains s' where "Stream_Next rd s = Some (Inr True, s')" "Stream_Value s' = v" "pending rd s' rest" "quiet_stream opts s'"
proof -
  from assms(1) obtain d where "delivers rd (br (sbr s)) d" "leftover (sbr s) @ d = out @ rest"
    by (auto simp: pending_def)
  from bufferedLoop_item [OF this _ assms(3-7), of "dec_state (dec_cfg (sdec s))"] q
  obtain b data' st' where "bufferedLoop rd opts (leftover (sbr s)) (br (sbr s)) (dec_state (dec_cfg (sdec s)))
      = Some (Inr v, b, st')" "quiet st'" "delivers rd (br b) data'" "leftover b @ data' = rest"
    by (auto simp: quiet_stream_def)
  moreover define s' where "s' = s\<lparr>sbr := b, sdec := (sdec s)\<lparr>dec_cfg := (dec_cfg (sdec s))\<lparr>dec_state := st'\<rparr>\<rparr>, sval := v\<rparr>"
  ultimately show thesis
    using q by (intro that [of s'])
      (auto simp: Stream_Next_def DecodeFromBuffered_def quiet_stream_def Stream_Value_def pending_def)
qed

lemma Next_end:
  assumes "pending rd s []" and "quiet_stream opts s"
  shows "\<exists>s'. Stream_Next rd s = Some (Inr False, s') \<and> quiet_stream opts s'"
proof -
  from assms(1) have "delivers rd (br (sbr s)) []" "leftover (sbr s) = []" by (auto simp: pending_def)
  from bufferedLoop_end [OF this(1) refl] this(2) assms(2) show ?thesis
    by (fastforce simp: Stream_Next_def DecodeFromBuffered_def quiet_stream_def end_of_stream_def)
qed

text \<open>The loop \<open>for s.Next() { use(s.Value()) }\<close>, with at most \<open>n\<close> calls of \<open>Next\<close>: the values in order, the result of
  the last call and the stream after it.\<close>

fun drain :: "('r, 'e) reader \<Rightarrow> nat \<Rightarrow> ('r, 'e) Stream \<Rightarrow> (Value list \<times> (unit + bool) \<times> ('r, 'e) Stream) option" where
  "drain rd 0 s = Some ([], Inr True, s)"
| "drain rd (Suc n) s =
     (case Stream_Next rd s of
        None \<Rightarrow> None
      | Some (res, s') \<Rightarrow>
          if res = Inr True then map_option (\<lambda>(vs, res', s''). (Stream_Value s' # vs, res', s'')) (drain rd n s')
          else Some ([], res, s'))"

lemma drain_items:
  assumes "list_all2 (reads opts 0) outs vs" and "\<forall>v \<in> set vs. Kind v = KindTag \<longrightarrow> Num v \<noteq> 55799"
    and "plain opts" "maxBytes opts < 2 ^ 62" and "length (concat outs) < 2 ^ 61"
    and "pending rd s (concat outs)" and "quiet_stream opts s"
  shows "\<exists>s'. drain rd (Suc (length vs)) s = Some (vs, Inr False, s') \<and> serr s' = None"
  using assms
proof (induction arbitrary: s rule: list_all2_induct)
  case Nil
  with Next_end [of rd s opts] show ?case by (auto simp: quiet_stream_def)
next
  case (Cons out outs v vs)
  then have len: "length (out @ concat outs) < 2 ^ 61" and pend: "pending rd s (out @ concat outs)" by simp_all
  obtain s1 where s1: "Stream_Next rd s = Some (Inr True, s1)" "Stream_Value s1 = v" "pending rd s1 (concat outs)"
    "quiet_stream opts s1"
    by (rule Next_item [OF pend Cons.prems(6) Cons.hyps(1) _ Cons.prems(2,3) len]) (use Cons.prems(1) in auto)
  from Cons.IH [OF _ Cons.prems(2,3) _ s1(3,4)] Cons.prems(1) len
  obtain s' where "drain rd (Suc (length vs)) s1 = Some (vs, Inr False, s')" "serr s' = None" by auto
  with s1 show ?case by simp
qed

text \<open>A reader over a list of chunks, for examples.\<close>

definition chunk_reader :: "(bytes list, unit) reader" where
  "chunk_reader r n = (case r of [] \<Rightarrow> ([], Some EOF, []) | c # cs \<Rightarrow> (c, None, cs))"

lemma chunk_reader_delivers: "delivers chunk_reader cs (concat cs)"
  by (induction cs) (auto simp: chunk_reader_def intro: delivers.at_end delivers.chunk)

text \<open>C22: Over any reader that delivers an encoded sequence, in chunks of whatever sizes, the loop over a \<open>Stream\<close>
  yields the canonical forms of the items in order, ends after the last one and reports no error.\<close>
theorem stream_reads_sequence:
  assumes enc: "EncodeSequence e [] vs = (out, None)" and del: "delivers rd r out" and len: "length out < 2 ^ 61"
    and q: "quiet_decoder d" and "\<not> RejectNonShortest (dec_opts (dec_cfg d))"
    and mb: "maxBytes (dec_opts (dec_cfg d)) < 2 ^ 62"
    and items: "\<forall>v \<in> set vs. accepted (dec_opts (dec_cfg d)) 0 (canon (encodeOpts e) v)
      \<and> distinct_maps (canon (encodeOpts e) v)
      \<and> (Kind (canon (encodeOpts e) v) = KindTag \<longrightarrow> Num (canon (encodeOpts e) v) \<noteq> 55799)"
  shows "\<exists>s. drain rd (Suc (length vs)) (Decoder_Stream d r) = Some (map (canon (encodeOpts e)) vs, Inr False, s)
    \<and> Stream_Err s = None"
proof -
  from enc q assms(5) items obtain outs where out: "out = concat outs"
    and "list_all2 (reads (dec_opts (dec_cfg d)) 0) outs (map (canon (encodeOpts e)) vs)"
    by (rule sequence_reads)
  moreover have "pending rd (Decoder_Stream d r) (concat outs)" "quiet_stream (dec_opts (dec_cfg d)) (Decoder_Stream d r)"
    using del q by (auto simp: pending_def Decoder_Stream_def NewBufferedReader_def out quiet_stream_def quiet_decoder_def)
  ultimately show ?thesis
    using drain_items [of "dec_opts (dec_cfg d)" outs "map (canon (encodeOpts e)) vs" rd "Decoder_Stream d r"] items len mb q
    by (auto simp: out Stream_Err_def quiet_decoder_def)
qed

theorem stream_reads_sequence_witness:
  "\<exists>s. drain chunk_reader 3 (Decoder_Stream (NewDecoder []) [[0x19], [0x01], [0xf4, 0xf6]])
      = Some ([Uint 500, Null], Inr False, s) \<and> Stream_Err s = None"
proof -
  let ?e = "NewEncoder ModePermissive []"
  have enc: "EncodeSequence ?e [] [Uint 500, Null] = ([0x19, 0x01, 0xf4, 0xf6], None)" by code_simp
  have canon: "canon opts (Uint 500) = Uint 500" "canon opts Null = Null" for opts
    by (simp_all add: canon.simps Uint_def Null_def)
  have del: "delivers chunk_reader [[0x19], [0x01], [0xf4, 0xf6]] [0x19, 0x01, 0xf4, 0xf6]"
    using chunk_reader_delivers [of "[[0x19], [0x01], [0xf4, 0xf6]]"] by simp
  have d: "quiet_decoder (NewDecoder [])" "dec_opts (dec_cfg (NewDecoder [])) = DefaultOpts"
    using quiet_nil by (simp_all add: quiet_decoder_def NewDecoder_def mkDecoder_def plain_def DefaultOpts_def maxBytes_def maxArray_def)
  have kinds: "Kind (Uint 500) = KindUint" "Kind Null = KindNull" "distinct_maps (Uint 500)" "distinct_maps Null"
    by (simp_all add: val_defs)
  have "\<exists>s. drain chunk_reader (Suc (length [Uint 500, Null])) (Decoder_Stream (NewDecoder []) [[0x19], [0x01], [0xf4, 0xf6]])
      = Some (map (canon (encodeOpts ?e)) [Uint 500, Null], Inr False, s) \<and> Stream_Err s = None"
    by (rule stream_reads_sequence [OF enc del _ d(1)])
      (simp_all add: d(2) canon kinds accepted_simps DefaultOpts_def maxBytes_def)
  then show ?thesis by (simp add: canon numeral_3_eq_3 del: drain.simps)
qed

lemma decodeFromLoop_bad:
  assumes "decodeFromLoop rd opts buf r st = Some y"
  shows "(\<forall>r n. fst (snd (rd r n)) = None) \<longrightarrow> (\<forall>xs. buf @ fst (rd r 256) \<noteq> 0x1c # xs)"
proof (rule decodeFromLoop.raw_induct [where P = "\<lambda>rd opts buf r st y. (\<forall>r n. fst (snd (rd r n)) = None)
      \<longrightarrow> (\<forall>xs. buf @ fst (rd r 256) \<noteq> 0x1c # xs)", OF _ assms], goal_cases)
  case (1 loop rd opts buf r st y)
  show ?case
  proof (intro impI allI notI)
    fix xs
    assume noerr: "\<forall>r n. fst (snd (rd r n)) = None" and buf: "buf @ fst (rd r 256) = 0x1c # xs"
    obtain c r' where rd: "rd r 256 = (c, None, r')" using noerr by (metis prod.collapse)
    have "Decode (0x1c # xs) opts st = (Inl (Err ErrReservedAI 0), st)"
      by (simp add: Decode_def decodeValueBody_def ParseHead_def Let_def res_simps)
    with 1(2) buf rd have "loop rd opts (0x1c # xs) r' st = Some y" by (simp add: Let_def)
    from 1(1) [OF this] noerr show False by simp
  qed
qed

text \<open>\<open>DecodeFrom\<close> retries after every error, not only after a truncation: on a reader that starts with a byte no
  CBOR item starts with and goes on without end, it never returns.\<close>
lemma decode_from_never_returns:
  assumes "\<forall>r n. fst (snd (rd r n)) = None" and "fst (rd r 256) = 0x1c # c"
  shows "DecodeFrom rd r opts st = None"
proof (cases "DecodeFrom rd r opts st")
  case (Some y)
  with decodeFromLoop_bad [of rd opts "[]" r st y] assms show ?thesis by (simp add: DecodeFrom_def)
qed

lemma decode_from_never_returns_witness:
  "DecodeFrom (\<lambda>r n. ([0x1c], None, r)) () DefaultOpts NilState = None"
  by (rule decode_from_never_returns) simp_all

text \<open>\<open>DecodeFrom\<close>, which is documented to read exactly one value, reads whole chunks and throws away what follows
  the value: the items behind it in the same chunk are lost to the next call.\<close>
lemma decode_from_drops_rest:
  assumes "rd r 256 = (out @ rest, None, r')" and "rd r' 256 = ([], Some EOF, r')"
    and "reads opts 0 out v" and "Kind v = KindTag \<longrightarrow> Num v \<noteq> 55799" and "length (out @ rest) < 2 ^ 61" and "quiet st"
  shows "\<exists>st' st''. DecodeFrom rd r opts st = Some (Inr v, r', st')
    \<and> DecodeFrom rd r' opts st' = Some (Inl (ReadFailed EOF), r', st'')"
proof -
  from Decode_reads [OF assms(3,5,6,4)] obtain st' where "Decode (out @ rest) opts st = (Inr (v, length out), st')" by blast
  with assms(1,2) show ?thesis
    unfolding DecodeFrom_def by (subst (1 2) decodeFromLoop.simps) (simp add: Decode_empty)
qed

lemma decode_from_drops_rest_witness:
  "\<exists>st' st''. DecodeFrom chunk_reader [[0x05, 0x06]] DefaultOpts NilState = Some (Inr (Uint 5), [], st')
    \<and> DecodeFrom chunk_reader [] DefaultOpts st' = Some (Inl (ReadFailed EOF), [], st'')"
proof -
  have "reads DefaultOpts 0 [0x05] (Uint 5)" using reads_int(1) [of DefaultOpts 0 5] by (simp add: AppendHead_def)
  from decode_from_drops_rest [OF _ _ this, of chunk_reader "[[0x05, 0x06]]" "[0x06]" "[]" NilState] show ?thesis
    by (simp add: chunk_reader_def quiet_nil Uint_def)
qed

text \<open>The memory budget of a decoder is per call for \<open>Decode\<close>, which resets it, but is never reset by a \<open>Stream\<close>: a
  second array that \<open>Decode\<close> accepts stops the stream with an error.\<close>
lemma stream_budget_accumulates:
  "fst (DecodeWith (NewDecoder [WithMemoryBudget 20]) [0x81, 0x00]) = Inr (MakeArray [Uint 0])
    \<and> fst (DecodeWith (snd (DecodeWith (NewDecoder [WithMemoryBudget 20]) [0x81, 0x00])) [0x81, 0x00]) = Inr (MakeArray [Uint 0])
    \<and> (\<exists>s. drain chunk_reader 3 (Decoder_Stream (NewDecoder [WithMemoryBudget 20]) [[0x81, 0x00], [0x81, 0x00]])
          = Some ([MakeArray [Uint 0]], Inr False, s)
        \<and> Stream_Err s = Some (DecodeFailed (Err ErrMemoryBudgetExceeded 0)))"
proof -
  let ?d = "NewDecoder [WithMemoryBudget 20]"
  define st where "st n = \<lparr>Budget = Some \<lparr>Allocated = n, Limit = 20\<rparr>, Interner = None, ArenaOf = None\<rparr>" for n
  have d: "fst (DecodeWith ?d [0x81, 0x00]) = Inr (MakeArray [Uint 0])"
    "fst (DecodeWith (snd (DecodeWith ?d [0x81, 0x00])) [0x81, 0x00]) = Inr (MakeArray [Uint 0])"
    by code_simp+
  have one: "Decode [0x81, 0x00] DefaultOpts (st 0) = (Inr (MakeArray [Uint 0], 2), st 16)"
    "Decode [0x81, 0x00] DefaultOpts (st 16) = (Inl (Err ErrMemoryBudgetExceeded 0), st 32)"
    unfolding st_def by code_simp+
  have "dec_opts (dec_cfg ?d) = DefaultOpts" "dec_state (dec_cfg ?d) = st 0"
    unfolding st_def by code_simp+
  then show ?thesis
    using d one by (simp add: numeral_3_eq_3 Stream_Next_def DecodeFromBuffered_def Decoder_Stream_def NewBufferedReader_def
      bufferedLoop.simps [of chunk_reader DefaultOpts "[]"] bufferedLoop.simps [of chunk_reader DefaultOpts "[0x81, 0x00]"]
      Decode_empty chunk_reader_def end_of_stream_def Stream_Err_def Stream_Value_def)
qed

end
