(* ===== verification/Item_Form.thy ===== *)
theory Item_Form
  imports Canonical
begin

text \<open>
  The grammar of the definite-length items that the encoder writes, as an inductive predicate on
  byte strings. Every encoding has this form, so an operation that walks over heads (skipping,
  the diagnostic printer, a typed decoder) is verified by rule induction on it.
\<close>

section \<open>The grammar\<close>

inductive item_form :: "bytes \<Rightarrow> bool" where
  form_int: "m = MajorUint \<or> m = MajorNegInt \<Longrightarrow> item_form (AppendHead [] m a)"
| form_string: "m = MajorBytes \<or> m = MajorText \<Longrightarrow> item_form (AppendHead [] m (of_nat (length s)) @ s)"
| form_array: "\<forall>b \<in> set bs. item_form b \<Longrightarrow> item_form (AppendHead [] MajorArray (of_nat (length bs)) @ concat bs)"
| form_map: "\<forall>b \<in> set bs. item_form b \<Longrightarrow> length bs = 2 * n
    \<Longrightarrow> item_form (AppendHead [] MajorMap (of_nat n) @ concat bs)"
| form_tag: "item_form b \<Longrightarrow> item_form (AppendHead [] MajorTag a @ b)"
| form_simple: "s < 24 \<Longrightarrow> item_form [MajorOther OR s]"
| form_simple_byte: "item_form [SimpleOneByte, s]"
| form_float16: "item_form (AppendFloat16 [] h)"
| form_float32: "item_form (AppendFloat32 [] w)"
| form_float64: "item_form (AppendFloat64 [] f)"

lemma form_consts [intro]:
  "item_form [SimpleTrue]" "item_form [SimpleFalse]" "item_form [SimpleNull]" "item_form [SimpleUndefined]"
  using form_simple [of 20] form_simple [of 21] form_simple [of 22] form_simple [of 23] by simp_all

lemma length_pos: "item_form b \<Longrightarrow> 0 < length b"
  by (induction rule: item_form.induct)
    (simp_all add: length_AppendHead AppendFloat16_def AppendFloat32_def AppendFloat64_def AppendUint16_def
      AppendUint32_def AppendUint64_def)

lemma forms_length: "\<forall>b \<in> set bs. item_form b \<Longrightarrow> length bs \<le> length (concat bs)"
proof (induction bs)
  case Nil
  then show ?case by simp
next
  case (Cons b bs)
  then have "Suc 0 \<le> length b" by (simp add: Suc_le_eq length_pos del: length_greater_0_conv)
  moreover have "length bs \<le> length (concat bs)" using Cons by simp
  ultimately show ?case using add_mono [of "Suc 0" "length b"] by simp
qed

section \<open>The heads of simple values and floats\<close>

lemma ParseHead_other:
  "s < 24 \<Longrightarrow> Major (ParseHead ((MajorOther OR s) # rest)) = MajorOther \<and> HeadN (ParseHead ((MajorOther OR s) # rest)) = 1"
  "Major (ParseHead (SimpleOneByte # s # rest)) = MajorOther \<and> HeadN (ParseHead (SimpleOneByte # s # rest)) = 2"
  "Major (ParseHead (AppendFloat16 [] h @ rest)) = MajorOther \<and> HeadN (ParseHead (AppendFloat16 [] h @ rest)) = 3"
  "Major (ParseHead (AppendFloat32 [] w @ rest)) = MajorOther \<and> HeadN (ParseHead (AppendFloat32 [] w @ rest)) = 5"
  "Major (ParseHead (AppendFloat64 [] f @ rest)) = MajorOther \<and> HeadN (ParseHead (AppendFloat64 [] f @ rest)) = 9"
  by (simp_all add: ParseHead_def Let_def simple_byte AppendFloat16_def AppendFloat32_def AppendFloat64_def AppendUint16_def
      AppendUint32_def AppendUint64_def)

lemma length_floats:
  "length (AppendFloat16 [] h) = 3" "length (AppendFloat32 [] w) = 5" "length (AppendFloat64 [] f) = 9"
  by (simp_all add: AppendFloat16_def AppendFloat32_def AppendFloat64_def AppendUint16_def
      AppendUint32_def AppendUint64_def)

section \<open>Encodings have the form\<close>

lemma form_item_bytes:
  "(\<And>out. encode opts [] v = (out, None) \<Longrightarrow> item_form out) \<Longrightarrow> item_bytes opts v b \<Longrightarrow> item_form b"
  by (auto simp: item_bytes_def intro: form_string)

lemma form_encode: "encode opts [] v = (out, None) \<Longrightarrow> item_form out"
proof (induction v arbitrary: out rule: value_induct)
  case (Value k n s b items pairs)
  let ?v = "Value k n s b items pairs"
  note simps = encode.simps [of opts "[]" "Value k' n s b items pairs" for k']
  show ?case
  proof (cases k)
    case KindArray
    with Value.prems have "encodeItems opts (AppendHead [] MajorArray (of_nat (length items))) items = (out, None)"
      by (simp add: simps)
    then obtain I where out: "out = AppendHead [] MajorArray (of_nat (length items)) @ concat (map I items)"
      and I: "\<And>v. v \<in> set items \<Longrightarrow> item_bytes opts v (I v)" by (rule encodeItems_items) blast
    have "\<forall>b \<in> set (map I items). item_form b"
      using I Value.IH(1) by (auto intro: form_item_bytes)
    from form_array [OF this] show ?thesis by (simp add: out)
  next
    case KindMap
    with Value.prems have "encodeMap opts [] pairs = (out, None)" by (simp add: simps)
    then obtain K V where out: "out = AppendHead [] MajorMap (of_nat (length pairs))
        @ pair_bytes (map (\<lambda>p. (K p, V p)) (entryOrder opts pairs))"
      and KV: "\<And>p. p \<in> set pairs \<Longrightarrow> item_bytes opts (fst p) (K p) \<and> item_bytes opts (snd p) (V p)"
      by (rule encodeMap_items) blast
    define bs where "bs = concat (map (\<lambda>p. [K p, V p]) (entryOrder opts pairs))"
    have "item_form (K p) \<and> item_form (V p)" if "p \<in> set pairs" for p
      using form_item_bytes [OF Value.IH(2) [OF that]] form_item_bytes [OF Value.IH(3) [OF that]] KV [OF that] by blast
    then have "\<forall>b \<in> set bs. item_form b" by (auto simp: bs_def)
    moreover have "length (concat (map (\<lambda>p. [K p, V p]) ps)) = 2 * length ps" for ps
      by (induction ps) auto
    then have "length bs = 2 * length pairs" by (simp add: bs_def)
    moreover have "concat (concat (map (\<lambda>p. [K p, V p]) ps)) = pair_bytes (map (\<lambda>p. (K p, V p)) ps)" for ps
      by (induction ps) (simp_all add: pair_bytes_def)
    then have "concat bs = pair_bytes (map (\<lambda>p. (K p, V p)) (entryOrder opts pairs))" by (simp add: bs_def)
    ultimately show ?thesis unfolding out by (metis form_map)
  next
    case KindTag
    define o1 where "o1 = fst (encode opts [] (items ! 0))"
    from KindTag Value.prems have ne: "items \<noteq> []" and "snd (encode opts [] (items ! 0)) = None"
      and out: "out = AppendHead [] MajorTag n @ o1"
      using encode_dst [of opts "AppendHead [] MajorTag n" "items ! 0"]
      by (auto simp: simps o1_def split: if_splits prod.splits)
    then have "encode opts [] (items ! 0) = (o1, None)"
      by (simp add: o1_def prod_eq_iff)
    with Value.IH(1) [of "items ! 0" o1] ne show ?thesis unfolding out by (intro form_tag) simp
  next
    case KindText
    with Value.prems form_string [of MajorText s] show ?thesis by (auto simp: simps split: if_splits)
  next
    case KindBytes
    with Value.prems form_string [of MajorBytes b] show ?thesis by (auto simp: simps)
  qed (use Value.prems form_simple form_simple_byte form_float16 form_float32 form_float64 form_int [of MajorUint n]
      form_int [of MajorNegInt n] form_consts
    in \<open>auto simp: simps encodeFloat32_def encodeFloat64_def appendShortestFloat_def Let_def
          split: if_splits FloatMode.splits prod.splits bool.splits\<close>)
qed

end
