(* ===== verification/Size_Order.thy ===== *)
theory Size_Order
  imports Codec Item_Form Float_Narrow
begin

text \<open>
  Two helpers around the encoder: the size estimate that capacity hints are computed from
  (\<^verbatim>\<open>rfc8949/estimate.go\<close>), and the precomputed order of a map whose keys are encoded once for many
  maps with the same keys (\<^verbatim>\<open>rfc8949/preorder.go\<close>).
\<close>

section \<open>The size estimate\<close>

definition maxHeadSize :: nat where "maxHeadSize = 9"

function EstimateSize :: "Value \<Rightarrow> nat" where
  "EstimateSize (Value k n s b items pairs) =
     (let v = Value k n s b items pairs in
      case k of
        KindInvalid \<Rightarrow> 0
      | KindUint \<Rightarrow> headSize (UintVal v)
      | KindNegInt \<Rightarrow> headSize (NegIntVal v)
      | KindBytes \<Rightarrow> headSize (of_nat (length b)) + length b
      | KindText \<Rightarrow> headSize (of_nat (length s)) + length s
      | KindArray \<Rightarrow> headSize (of_nat (length items)) + sum_list (map EstimateSize items)
      | KindMap \<Rightarrow> headSize (of_nat (length pairs))
          + sum_list (map (\<lambda>p. EstimateSize (fst p) + EstimateSize (snd p)) pairs)
      | KindTag \<Rightarrow> headSize (TagID v) + (if items = [] then 0 else EstimateSize (items ! 0))
      | KindBool \<Rightarrow> 1
      | KindNull \<Rightarrow> 1
      | KindUndefined \<Rightarrow> 1
      | KindSimple \<Rightarrow> if SimpleVal v < 24 then 1 else 2
      | KindFloat32 \<Rightarrow> 5
      | KindFloat64 \<Rightarrow> 9)"
  by pat_completeness auto
termination
proof (relation "measure size")
  fix items :: "Value list" and k n s b pairs
  show "items \<noteq> [] \<Longrightarrow> (items ! 0, Value k n s b items pairs) \<in> measure size"
    using nth_mem [of 0 items] size_item by simp
qed (simp_all only: in_measure wf_measure size_item size_pair)

declare EstimateSize.simps [simp del]

lemmas estimate_simps = EstimateSize.simps [of k n s b items pairs for k n s b items pairs, unfolded Let_def]

text \<open>\<open>EncodeWithHint\<close> only reserves memory before it encodes.\<close>

definition EncodeWithHint :: "bytes \<Rightarrow> Value \<Rightarrow> EncodeOpts \<Rightarrow> int \<Rightarrow> enc_result" where
  "EncodeWithHint dst v opts hint = encode opts dst v"

definition estimated :: "EncodeOpts \<Rightarrow> Value \<Rightarrow> bytes \<Rightarrow> bool" where
  "estimated opts v out \<longleftrightarrow> (EncFloatMode opts \<noteq> FloatForce64 \<longrightarrow> length out \<le> EstimateSize v)
     \<and> (float_free v \<longrightarrow> length out = EstimateSize v)"

lemma estimated_sum:
  assumes "\<And>x. x \<in> set xs \<Longrightarrow> estimated opts (f x) (B x)"
  shows "(EncFloatMode opts \<noteq> FloatForce64 \<longrightarrow> length (concat (map B xs)) \<le> sum_list (map (\<lambda>x. EstimateSize (f x)) xs))
    \<and> ((\<forall>x \<in> set xs. float_free (f x)) \<longrightarrow> length (concat (map B xs)) = sum_list (map (\<lambda>x. EstimateSize (f x)) xs))"
  using assms by (induction xs) (auto simp: estimated_def intro: add_mono)

lemma estimated_item_bytes:
  assumes "\<And>out. encode opts [] v = (out, None) \<Longrightarrow> estimated opts v out" and "item_bytes opts v b"
  shows "estimated opts v b"
proof (cases "encode opts [] v = (b, None)")
  case True
  then show ?thesis by (rule assms(1))
next
  case False
  with assms(2) have k: "Kind v = KindText" and b: "b = AppendHead [] MajorText (of_nat (length (Str v))) @ Str v"
    by (auto simp: item_bytes_def)
  obtain n s d items pairs where "v = Value KindText n s d items pairs" using k by (cases v) auto
  with b show ?thesis by (simp add: estimated_def length_AppendHead estimate_simps)
qed

lemma estimated_encode: "encode opts [] v = (out, None) \<Longrightarrow> estimated opts v out"
proof (induction v arbitrary: out rule: value_induct)
  case (Value k n s b items pairs)
  let ?v = "Value k n s b items pairs"
  note simps = encode.simps [of opts "[]" "Value k' n s b items pairs" for k']
  show ?case
  proof (cases k)
    case KindArray
    with Value.prems have "encodeItems opts (AppendHead [] MajorArray (of_nat (length items))) items = (out, None)"
      by (simp add: simps)
    then obtain I where out: "out = AppendHead [] MajorArray (of_nat (length items)) @ concat (map I items)"
      and I: "\<And>v. v \<in> set items \<Longrightarrow> item_bytes opts v (I v)" by (rule encodeItems_items) blast
    from estimated_sum [of items opts "\<lambda>x. x" I] estimated_item_bytes [OF Value.IH(1)] I
    show ?thesis by (simp add: estimated_def out length_AppendHead KindArray estimate_simps)
  next
    case KindMap
    with Value.prems have "encodeMap opts [] pairs = (out, None)" by (simp add: simps)
    then obtain K V where out: "out = AppendHead [] MajorMap (of_nat (length pairs))
        @ pair_bytes (map (\<lambda>p. (K p, V p)) (entryOrder opts pairs))"
      and KV: "\<And>p. p \<in> set pairs \<Longrightarrow> item_bytes opts (fst p) (K p) \<and> item_bytes opts (snd p) (V p)"
      by (rule encodeMap_items) blast
    have each: "estimated opts (fst p) (K p)" "estimated opts (snd p) (V p)" if "p \<in> set pairs" for p
      using estimated_item_bytes [OF Value.IH(2) [OF that]] estimated_item_bytes [OF Value.IH(3) [OF that]] KV [OF that] by blast+
    have "length (pair_bytes (map (\<lambda>p. (K p, V p)) ps)) = length (concat (map K ps)) + length (concat (map V ps))" for ps
      by (induction ps) (simp_all add: pair_bytes_def)
    moreover have "sum_list (map f (entryOrder opts pairs)) = sum_list (map f pairs)" for f :: "MapEntry \<Rightarrow> nat"
      by (simp add: entryOrder_def SortFunc_sum)
    then have "length (concat (map f (entryOrder opts pairs))) = length (concat (map f pairs))" for f :: "MapEntry \<Rightarrow> bytes"
      by (simp add: length_concat comp_def)
    ultimately have "length out = headSize (of_nat (length pairs)) + (length (concat (map K pairs)) + length (concat (map V pairs)))"
      by (simp add: out length_AppendHead)
    with estimated_sum [of pairs opts fst K] estimated_sum [of pairs opts snd V] each
    show ?thesis by (auto simp: estimated_def KindMap sum_list_addf estimate_simps intro: add_mono)
  next
    case KindTag
    define o1 where "o1 = fst (encode opts [] (items ! 0))"
    from KindTag Value.prems have ne: "items \<noteq> []" and "snd (encode opts [] (items ! 0)) = None"
      and out: "out = AppendHead [] MajorTag n @ o1"
      using encode_dst [of opts "AppendHead [] MajorTag n" "items ! 0"]
      by (auto simp: simps o1_def split: if_splits prod.splits)
    then have "encode opts [] (items ! 0) = (o1, None)" by (simp add: o1_def prod_eq_iff)
    with Value.IH(1) [of "items ! 0" o1] ne show ?thesis
      by (auto simp: estimated_def out length_AppendHead KindTag estimate_simps)
  qed (use Value.prems CanFloat32Lossless_widened in \<open>auto simp: simps encodeFloat32_def encodeFloat64_def appendShortestFloat_def Let_def
      estimated_def length_AppendHead length_floats estimate_simps split: if_splits FloatMode.splits prod.splits bool.splits\<close>)
qed

text \<open>The size estimate is exact for values without floats, and never below the size of the encoding unless the
  encoder widens every float to 64 bits.\<close>
lemma estimate_bounds_encoding:
  assumes "encode opts [] v = (out, None)" and "float_free v \<or> EncFloatMode opts \<noteq> FloatForce64"
  shows "length out \<le> EstimateSize v \<and> (float_free v \<longrightarrow> length out = EstimateSize v)"
  using estimated_encode [OF assms(1)] assms(2) by (auto simp: estimated_def)

lemma estimate_bounds_encoding_witness: "5 = EstimateSize (MakeArray [Uint 1, Uint 256])"
proof -
  have "encode \<lparr>Deterministic = True, EncSortMode = SortBytewiseLex, EncFloatMode = FloatShortest,
      AllowNonFiniteFloats = False, AllowInvalidUTF8 = False, SkipUTF8Validation = False\<rparr> []
      (MakeArray [Uint 1, Uint 256]) = ([0x82, 1, 0x19, 1, 0], None)" by code_simp
  moreover have "float_free (MakeArray [Uint 1, Uint 256])" by code_simp
  ultimately show ?thesis using estimate_bounds_encoding by fastforce
qed

section \<open>The precomputed order of a map\<close>

record MapKeyOrder =
  encodedKeys :: "bytes list"
  indices :: "nat list"

text \<open>The loop that encodes the keys, and the comparison that is passed to \<open>slices.SortFunc\<close>.\<close>

fun keyEntries :: "EncodeOpts \<Rightarrow> nat \<Rightarrow> Value list \<Rightarrow> cbor_error + (bytes \<times> nat) list" where
  "keyEntries opts i [] = Inr []"
| "keyEntries opts i (k # keys) =
     (case encode opts [] k of
        (enc, Some e) \<Rightarrow> Inl e
      | (enc, None) \<Rightarrow> (case keyEntries opts (Suc i) keys of Inl e \<Rightarrow> Inl e | Inr es \<Rightarrow> Inr ((enc, i) # es)))"

definition compareEntries :: "SortMode \<Rightarrow> bytes \<Rightarrow> bytes \<Rightarrow> int" where
  "compareEntries sortMode a b =
     (if sortMode = SortLengthFirst \<and> cmp_Compare (length a) (length b) \<noteq> 0
      then cmp_Compare (length a) (length b) else bytes_Compare a b)"

definition PrecomputeMapOrder :: "Value list \<Rightarrow> SortMode \<Rightarrow> EncodeOpts \<Rightarrow> cbor_error + MapKeyOrder" where
  "PrecomputeMapOrder keys sortMode opts =
     (case keyEntries opts 0 keys of
        Inl e \<Rightarrow> Inl e
      | Inr entries \<Rightarrow>
          (let es = SortFunc (\<lambda>a b. compareEntries sortMode (fst a) (fst b)) entries in
           Inr \<lparr>encodedKeys = map fst es, indices = map snd es\<rparr>))"

text \<open>\<open>None\<close> is the panic of an index that the map or the order does not have.\<close>

fun preorderedPairs :: "EncodeOpts \<Rightarrow> bytes \<Rightarrow> MapEntry list \<Rightarrow> bytes list \<Rightarrow> nat list \<Rightarrow> enc_result option" where
  "preorderedPairs opts dst m [] is = Some (dst, None)"
| "preorderedPairs opts dst m (kb # ks) [] = None"
| "preorderedPairs opts dst m (kb # ks) (i # is) =
     (if i \<ge> length m then None
      else case encode opts (dst @ kb) (snd (m ! i)) of
             (dst', Some e) \<Rightarrow> Some (dst', Some e)
           | (dst', None) \<Rightarrow> preorderedPairs opts dst' m ks is)"

definition EncodeMapPreordered :: "bytes \<Rightarrow> MapEntry list \<Rightarrow> MapKeyOrder \<Rightarrow> EncodeOpts \<Rightarrow> enc_result option" where
  "EncodeMapPreordered dst m order opts =
     preorderedPairs opts (AppendHead dst MajorMap (of_nat (length m))) m (encodedKeys order) (indices order)"

text \<open>A sort only looks at the signs of the comparison.\<close>

lemma SortFunc_sgn:
  assumes "\<And>a b. c a b \<le> 0 \<longleftrightarrow> c' a b \<le> 0"
  shows "SortFunc c xs = SortFunc c' xs"
proof -
  have "insert_by c x ys = insert_by c' x ys" for x ys
    by (induction ys) (simp_all add: assms)
  then show ?thesis unfolding SortFunc_def by (induction xs) simp_all
qed

lemma compareEntries_sgn: "compareEntries mode a b \<le> 0 \<longleftrightarrow> compareKeys mode a b \<le> 0"
proof -
  have "compareEntries mode a b = sgn (compareKeys mode a b)"
    by (auto simp: compareEntries_def compareKeys_sgn cmp_Compare_def)
  then show ?thesis by (simp add: sgn_if)
qed

lemma keyEntries_ok:
  "keyEntries opts i keys = Inr es \<Longrightarrow>
    (\<forall>k \<in> set keys. snd (encode opts [] k) = None)
    \<and> es = zip (map (\<lambda>k. fst (encode opts [] k)) keys) [i..<i + length keys]"
proof (induction keys arbitrary: i es)
  case (Cons k keys)
  then obtain es' where "snd (encode opts [] k) = None" "keyEntries opts (Suc i) keys = Inr es'"
    and "es = (fst (encode opts [] k), i) # es'"
    by (auto split: prod.split_asm option.split_asm sum.split_asm)
  with Cons.IH [of "Suc i" es'] show ?case
    by (simp add: upt_conv_Cons del: upt_Suc)
qed simp

lemma preorderedPairs_sorted:
  "map (\<lambda>e. (keyOf kb e, snd (snd e))) es = map (\<lambda>x. (fst x, snd (m ! snd x))) os \<Longrightarrow>
    \<forall>x \<in> set os. snd x < length m \<Longrightarrow>
    preorderedPairs opts dst m (map fst os) (map snd os) = Some (encodeSorted opts kb dst es)"
proof (induction os arbitrary: es dst)
  case (Cons x os)
  then obtain e es' where es: "es = e # es'" by (cases es) auto
  with Cons.prems have "keyOf kb e = fst x" "snd (snd e) = snd (m ! snd x)" by auto
  with Cons es show ?case by (auto split: prod.split option.split)
qed simp

text \<open>C25: A map order computed once from a list of keys encodes every map with those keys, in a deterministic mode,
  exactly as the encoder does: same bytes, same error, same partial output.\<close>
theorem preorder_equals_encodeMap:
  assumes "PrecomputeMapOrder (map fst m) (EncSortMode opts) opts = Inr order"
    and "Deterministic opts" and "1 < length m"
  shows "EncodeMapPreordered dst m order opts = Some (encodeMap opts dst m)"
proof -
  define enc where "enc k = fst (encode opts [] k)" for k
  define c where "c = compareKeys (EncSortMode opts)"
  obtain entries where "keyEntries opts 0 (map fst m) = Inr entries"
    using assms(1) by (auto simp: PrecomputeMapOrder_def split: sum.splits)
  from keyEntries_ok [OF this] have keys: "\<forall>p \<in> set m. snd (encode opts [] (fst p)) = None"
    and entries: "entries = zip (map (\<lambda>p. enc (fst p)) m) [0..<length m]"
    by (simp_all add: enc_def comp_def)
  from encodeKeys_total [OF keys, of "[]"] obtain kb xs where ks: "encodeKeys opts [] m = ((kb, xs), None)"
    by (metis prod.collapse)
  note k = encodeKeys_ok [OF ks]
  define F where "F e = (keyOf kb e, snd (snd e))" for e :: sortEntry
  define G where "G x = (fst x, snd (m ! snd x))" for x :: "bytes \<times> nat"
  define es where "es = sortEntries (EncSortMode opts) kb xs m"
  define os where "os = SortFunc (\<lambda>a b. c (fst a) (fst b)) entries"
  have "SortFunc (\<lambda>a b. compareEntries (EncSortMode opts) (fst a) (fst b)) entries = os"
    unfolding os_def c_def by (rule SortFunc_sgn) (rule compareEntries_sgn)
  then have order: "order = \<lparr>encodedKeys = map fst os, indices = map snd os\<rparr>"
    using assms(1) \<open>keyEntries opts 0 (map fst m) = Inr entries\<close>
    by (simp add: PrecomputeMapOrder_def Let_def)
  have len: "length xs = length m" and kk: "\<And>e. e \<in> set (zip xs m) \<Longrightarrow> keyOf kb e = enc (fst (snd e))"
    using k by (simp_all add: enc_def)
  have "keyOf kb (xs ! i, m ! i) = enc (fst (m ! i))" if "i < length m" for i
    using kk [of "(xs ! i, m ! i)"] that len by (auto simp: set_zip)
  then have "map F (zip xs m) = map G entries"
    by (intro nth_equalityI) (simp_all add: len F_def G_def entries)
  moreover have "map F es = SortFunc (\<lambda>a b. c (fst a) (fst b)) (map F (zip xs m))"
    using SortFunc_map [of F c fst "zip xs m"] by (simp add: es_def sortEntries_def F_def c_def)
  moreover have "map G os = SortFunc (\<lambda>a b. c (fst a) (fst b)) (map G entries)"
    using SortFunc_map [of G c fst entries] by (simp add: os_def G_def)
  ultimately have "map F es = map G os" by simp
  moreover have "set_mset (mset os) = set_mset (mset entries)" by (simp only: os_def mset_SortFunc)
  then have "\<forall>x \<in> set os. snd x < length m" by (auto simp: entries dest: set_zip_rightD)
  ultimately have "preorderedPairs opts d m (map fst os) (map snd os) = Some (encodeSorted opts kb d es)" for d
    unfolding F_def G_def by (rule preorderedPairs_sorted)
  with assms(2,3) ks show ?thesis
    by (simp add: EncodeMapPreordered_def order encodeMap.simps Let_def es_def)
qed

theorem preorder_equals_encodeMap_witness:
  "EncodeMapPreordered [] [(Text [0x62], Uint 1), (Text [0x61], Uint 2)]
      \<lparr>encodedKeys = [[0x61, 0x61], [0x61, 0x62]], indices = [1, 0]\<rparr>
      \<lparr>Deterministic = True, EncSortMode = SortBytewiseLex, EncFloatMode = FloatShortest,
        AllowNonFiniteFloats = False, AllowInvalidUTF8 = False, SkipUTF8Validation = False\<rparr>
    = Some (encodeMap \<lparr>Deterministic = True, EncSortMode = SortBytewiseLex, EncFloatMode = FloatShortest,
        AllowNonFiniteFloats = False, AllowInvalidUTF8 = False, SkipUTF8Validation = False\<rparr> [] [(Text [0x62], Uint 1), (Text [0x61], Uint 2)])"
  by (rule preorder_equals_encodeMap)
    (simp_all add: PrecomputeMapOrder_def Let_def encode.simps Text_def AppendHead_def SortFunc_def compareEntries_def cmp_Compare_def)

end
