(* ===== verification/Cursor.thy ===== *)
theory Cursor
  imports Codec Item_Form
begin

text \<open>
  The cursor (\<^verbatim>\<open>rfc8949/cursor.go\<close>): lazy forward traversal that reads heads and skips payloads.
  Positions are Go \<open>int\<close>s and wrap around as they do there; reading outside the source is a
  panic. Skipping is structured like the decoder, with fuel: a run that never returns is out of
  fuel for every amount. Its correctness is stated over \<open>item_form\<close>, the grammar of definite-length
  items, which every encoding belongs to.
\<close>

section \<open>Skipping\<close>

datatype cursor_error =
    CDecode fault | ErrNotInContainer | ErrKeyNotFound | ErrTypeMismatch

type_synonym skip = "cursor_error option \<times> int"

definition truncated :: "int \<Rightarrow> skip" where
  "truncated pos = (Some (CDecode (Err ErrTruncated (nat pos))), pos)"

text \<open>\<open>c.src[c.pos]\<close> and \<open>c.src[c.pos:]\<close> below the length of the source: \<open>None\<close> is a panic.\<close>

definition byteAt :: "bytes \<Rightarrow> int \<Rightarrow> byte option" where
  "byteAt src pos = (if 0 \<le> pos \<and> pos < int (length src) then Some (src ! nat pos) else None)"

definition headAt :: "bytes \<Rightarrow> int \<Rightarrow> HeadResult option" where
  "headAt src pos = (if 0 \<le> pos \<and> pos \<le> int (length src) then Some (ParseHead (drop (nat pos) src)) else None)"

definition skipThen :: "skip \<Rightarrow> (int \<Rightarrow> skip) \<Rightarrow> skip" where
  "skipThen r k = (case r of (Some e, p) \<Rightarrow> (Some e, p) | (None, p) \<Rightarrow> k p)"

fun skipTimes :: "nat \<Rightarrow> (int \<Rightarrow> skip) \<Rightarrow> int \<Rightarrow> skip" where
  "skipTimes 0 item pos = (None, pos)"
| "skipTimes (Suc n) item pos = skipThen (item pos) (skipTimes n item)"

fun skipIndefiniteString :: "nat \<Rightarrow> bytes \<Rightarrow> int \<Rightarrow> skip" where
  "skipIndefiniteString 0 src pos = (Some (CDecode OutOfFuel), pos)"
| "skipIndefiniteString (Suc fuel) src pos =
     (if pos \<ge> int (length src) then truncated pos
      else case byteAt src pos of
        None \<Rightarrow> (Some (CDecode Panic), pos)
      | Some b \<Rightarrow>
          if b = BreakCode then (None, go_int (pos + 1))
          else
            let h = ParseHead (drop (nat pos) src) in
            if HeadN h = 0 then truncated pos
            else
              let end = go_int (pos + int (HeadN h) + int_of_u64 (HeadArg h)) in
              if end > int (length src) then truncated pos else skipIndefiniteString fuel src end)"

fun skipIndefiniteItems :: "nat \<Rightarrow> (int \<Rightarrow> skip) \<Rightarrow> bool \<Rightarrow> bytes \<Rightarrow> int \<Rightarrow> skip" where
  "skipIndefiniteItems 0 item isMap src pos = (Some (CDecode OutOfFuel), pos)"
| "skipIndefiniteItems (Suc fuel) item isMap src pos =
     (if pos \<ge> int (length src) then truncated pos
      else case byteAt src pos of
        None \<Rightarrow> (Some (CDecode Panic), pos)
      | Some b \<Rightarrow>
          if b = BreakCode then (None, go_int (pos + 1))
          else skipThen (skipThen (item pos) (\<lambda>p. if isMap then item p else (None, p)))
                 (skipIndefiniteItems fuel item isMap src))"

definition skipItemBody :: "nat \<Rightarrow> (int \<Rightarrow> skip) \<Rightarrow> bytes \<Rightarrow> int \<Rightarrow> skip" where
  "skipItemBody fuel item src pos =
     (if pos \<ge> int (length src) then truncated pos
      else case headAt src pos of
        None \<Rightarrow> (Some (CDecode Panic), pos)
      | Some h \<Rightarrow>
          if HeadN h = 0 then truncated pos
          else
            let next = go_int (pos + int (HeadN h)) in
            if Major h = MajorUint \<or> Major h = MajorNegInt then (None, next)
            else if Major h = MajorBytes \<or> Major h = MajorText then
              (if AI h = AIIndefinite then skipIndefiniteString fuel src next
               else
                 let end = go_int (pos + int (HeadN h) + int_of_u64 (HeadArg h)) in
                 if end > int (length src) then truncated pos else (None, end))
            else if Major h = MajorArray then
              (if AI h = AIIndefinite then skipIndefiniteItems fuel item False src next
               else skipTimes (nat (int_of_u64 (HeadArg h))) item next)
            else if Major h = MajorMap then
              (if AI h = AIIndefinite then skipIndefiniteItems fuel item True src next
               else skipTimes (nat (go_int (int_of_u64 (HeadArg h) * 2))) item next)
            else if Major h = MajorTag then item next
            else if Major h = MajorOther then (None, next)
            else truncated pos)"

fun skipItem :: "nat \<Rightarrow> bytes \<Rightarrow> int \<Rightarrow> skip" where
  "skipItem 0 src pos = (Some (CDecode OutOfFuel), pos)"
| "skipItem (Suc fuel) src pos = skipItemBody fuel (skipItem fuel src) src pos"

section \<open>The cursor\<close>

record cursorFrame =
  cremaining :: int
  isMapFrame :: bool

record Cursor =
  csrc :: bytes
  cpos :: int
  cstack :: "cursorFrame list"
  copts :: DecodeOpts
  cstate :: dstate

definition NewCursor :: "bytes \<Rightarrow> DecodeOpts \<Rightarrow> dstate \<Rightarrow> Cursor" where
  "NewCursor src opts st = \<lparr>csrc = src, cpos = 0, cstack = [], copts = opts, cstate = st\<rparr>"

definition AtEnd :: "Cursor \<Rightarrow> bool" where
  "AtEnd c = (case cstack c of f # _ \<Rightarrow> cremaining f = 0 | [] \<Rightarrow> cpos c \<ge> int (length (csrc c)))"

text \<open>\<open>AtBreak\<close>, with \<open>None\<close> for the panic of an index below zero.\<close>

definition AtBreak :: "Cursor \<Rightarrow> bool option" where
  "AtBreak c = (if cpos c \<ge> int (length (csrc c)) then Some False
     else map_option (\<lambda>b. b = BreakCode) (byteAt (csrc c) (cpos c)))"

definition CursorKind :: "Cursor \<Rightarrow> cursor_error + byte" where
  "CursorKind c =
     (if cpos c \<ge> int (length (csrc c)) then Inl (CDecode (Err ErrTruncated (nat (cpos c))))
      else case byteAt (csrc c) (cpos c) of
        None \<Rightarrow> Inl (CDecode Panic)
      | Some b \<Rightarrow> Inr (b AND 0xe0))"

definition consumeFromFrame :: "Cursor \<Rightarrow> Cursor" where
  "consumeFromFrame c =
     (case cstack c of
        [] \<Rightarrow> c
      | f # fs \<Rightarrow> if cremaining f > 0 then c\<lparr>cstack := f\<lparr>cremaining := cremaining f - 1\<rparr> # fs\<rparr> else c)"

definition Skip :: "nat \<Rightarrow> Cursor \<Rightarrow> (cursor_error + int) \<times> Cursor" where
  "Skip fuel c =
     (case skipItem fuel (csrc c) (cpos c) of
        (Some e, p) \<Rightarrow> (Inl e, c\<lparr>cpos := p\<rparr>)
      | (None, p) \<Rightarrow> (Inr (go_int (p - cpos c)), consumeFromFrame (c\<lparr>cpos := p\<rparr>)))"

definition RawBytes :: "nat \<Rightarrow> Cursor \<Rightarrow> (cursor_error + bytes) \<times> Cursor" where
  "RawBytes fuel c =
     (case skipItem fuel (csrc c) (cpos c) of
        (Some e, p) \<Rightarrow> (Inl e, c\<lparr>cpos := p\<rparr>)
      | (None, p) \<Rightarrow>
          let c' = consumeFromFrame (c\<lparr>cpos := p\<rparr>) in
          if 0 \<le> cpos c \<and> cpos c \<le> p \<and> p \<le> int (length (csrc c))
          then (Inr (take (nat (p - cpos c)) (drop (nat (cpos c)) (csrc c))), c')
          else (Inl (CDecode Panic), c'))"

definition CursorDecode :: "Cursor \<Rightarrow> (cursor_error + Value) \<times> Cursor" where
  "CursorDecode c =
     (if 0 \<le> cpos c \<and> cpos c \<le> int (length (csrc c)) then
        (case Decode (drop (nat (cpos c)) (csrc c)) (copts c) (cstate c) of
           (Inl f, st) \<Rightarrow> (Inl (CDecode f), c\<lparr>cstate := st\<rparr>)
         | (Inr (v, n), st) \<Rightarrow> (Inr v, consumeFromFrame (c\<lparr>cpos := cpos c + int n, cstate := st\<rparr>)))
      else (Inl (CDecode Panic), c))"

text \<open>The head of the item at the cursor, for the two ways into a container.\<close>

definition enterHead :: "byte \<Rightarrow> Cursor \<Rightarrow> cursor_error + HeadResult" where
  "enterHead major c =
     (if cpos c \<ge> int (length (csrc c)) then Inl (CDecode (Err ErrTruncated (nat (cpos c))))
      else case headAt (csrc c) (cpos c) of
        None \<Rightarrow> Inl (CDecode Panic)
      | Some h \<Rightarrow>
          if HeadN h = 0 then Inl (CDecode (Err ErrTruncated (nat (cpos c))))
          else if Major h \<noteq> major then Inl ErrTypeMismatch
          else Inr h)"

definition EnterArray :: "Cursor \<Rightarrow> (cursor_error + int) \<times> Cursor" where
  "EnterArray c =
     (case enterHead MajorArray c of
        Inl e \<Rightarrow> (Inl e, c)
      | Inr h \<Rightarrow>
          let count = (if AI h \<noteq> AIIndefinite then int_of_u64 (HeadArg h) else - 1) in
          (Inr count, c\<lparr>cpos := cpos c + int (HeadN h), cstack := \<lparr>cremaining = count, isMapFrame = False\<rparr> # cstack c\<rparr>))"

definition EnterMap :: "Cursor \<Rightarrow> (cursor_error + int) \<times> Cursor" where
  "EnterMap c =
     (case enterHead MajorMap c of
        Inl e \<Rightarrow> (Inl e, c)
      | Inr h \<Rightarrow>
          let count = (if AI h \<noteq> AIIndefinite then go_int (int_of_u64 (HeadArg h) * 2) else - 1) in
          (Inr (if AI h \<noteq> AIIndefinite then int_of_u64 (HeadArg h) else - 1),
           c\<lparr>cpos := cpos c + int (HeadN h), cstack := \<lparr>cremaining = count, isMapFrame = True\<rparr> # cstack c\<rparr>))"

text \<open>\<open>skipRemaining\<close>: an indefinite container is skipped up to and including its break; where the
  source ends, \<open>AtBreak\<close> is false and the check inside the loop reports it.\<close>

definition skipRemaining :: "nat \<Rightarrow> cursorFrame \<Rightarrow> bytes \<Rightarrow> int \<Rightarrow> skip" where
  "skipRemaining fuel f src pos =
     (if cremaining f < 0 then skipIndefiniteItems fuel (skipItem fuel src) (isMapFrame f) src pos
      else skipTimes (nat (cremaining f)) (skipItem fuel src) pos)"

definition exitFrame :: "nat \<Rightarrow> bool \<Rightarrow> Cursor \<Rightarrow> cursor_error option \<times> Cursor" where
  "exitFrame fuel isMap c =
     (case cstack c of
        [] \<Rightarrow> (Some ErrNotInContainer, c)
      | f # fs \<Rightarrow>
          if isMapFrame f \<noteq> isMap then (Some ErrNotInContainer, c)
          else case skipRemaining fuel f (csrc c) (cpos c) of
            (Some e, p) \<Rightarrow> (Some e, c\<lparr>cpos := p\<rparr>)
          | (None, p) \<Rightarrow> (None, c\<lparr>cpos := p, cstack := fs\<rparr>))"

definition ExitArray :: "nat \<Rightarrow> Cursor \<Rightarrow> cursor_error option \<times> Cursor" where
  "ExitArray fuel c = exitFrame fuel False c"
definition ExitMap :: "nat \<Rightarrow> Cursor \<Rightarrow> cursor_error option \<times> Cursor" where
  "ExitMap fuel c = exitFrame fuel True c"

text \<open>One round of the loop of \<open>FindMapKey\<close>: \<open>Inl\<close> is a return (with the error, if any), \<open>Inr\<close>
  goes on with the next pair.\<close>

definition findKeyRound :: "nat \<Rightarrow> bytes \<Rightarrow> Cursor \<Rightarrow> cursorFrame \<Rightarrow> cursorFrame list
    \<Rightarrow> (cursor_error option \<times> Cursor) + Cursor" where
  "findKeyRound fuel key c f fs =
     (let src = csrc c; pos = cpos c; skipPair =
          (case skipThen (skipItem fuel src pos) (skipItem fuel src) of
             (Some e, p) \<Rightarrow> Inl (Some e, c\<lparr>cpos := p\<rparr>)
           | (None, p) \<Rightarrow> Inr (c\<lparr>cpos := p, cstack :=
               (if cremaining f > 0 then f\<lparr>cremaining := cremaining f - 2\<rparr> else f) # fs\<rparr>)) in
      if cremaining f = 0 then Inl (Some ErrKeyNotFound, c)
      else if cremaining f < 0 \<and> AtBreak c = None then Inl (Some (CDecode Panic), c)
      else if cremaining f < 0 \<and> AtBreak c = Some True then Inl (Some ErrKeyNotFound, c)
      else if pos \<ge> int (length src) then Inl (Some (CDecode (Err ErrTruncated (nat pos))), c)
      else case headAt src pos of
        None \<Rightarrow> Inl (Some (CDecode Panic), c)
      | Some h \<Rightarrow>
          if HeadN h = 0 then Inl (Some (CDecode (Err ErrTruncated (nat pos))), c)
          else if Major h = MajorText \<and> AI h \<noteq> AIIndefinite then
            let start = pos + int (HeadN h); end = go_int (start + int_of_u64 (HeadArg h)) in
            if end \<le> int (length src) then
              if end < start then Inl (Some (CDecode Panic), c)
              else if take (nat (end - start)) (drop (nat start) src) = key then
                Inl (None, c\<lparr>cpos := end, cstack :=
                  (if cremaining f > 0 then f\<lparr>cremaining := cremaining f - 1\<rparr> else f) # fs\<rparr>)
              else skipPair
            else skipPair
          else skipPair)"

fun FindMapKeyLoop :: "nat \<Rightarrow> nat \<Rightarrow> bytes \<Rightarrow> Cursor \<Rightarrow> cursor_error option \<times> Cursor" where
  "FindMapKeyLoop 0 fuel key c = (Some (CDecode OutOfFuel), c)"
| "FindMapKeyLoop (Suc n) fuel key c =
     (case cstack c of
        [] \<Rightarrow> (Some ErrNotInContainer, c)
      | f # fs \<Rightarrow>
          (case findKeyRound fuel key c f fs of
             Inl r \<Rightarrow> r
           | Inr c' \<Rightarrow> FindMapKeyLoop n fuel key c'))"

definition FindMapKey :: "nat \<Rightarrow> bytes \<Rightarrow> Cursor \<Rightarrow> cursor_error option \<times> Cursor" where
  "FindMapKey fuel key c =
     (case cstack c of
        [] \<Rightarrow> (Some ErrNotInContainer, c)
      | f # _ \<Rightarrow> if \<not> isMapFrame f then (Some ErrNotInContainer, c) else FindMapKeyLoop fuel fuel key c)"

section \<open>Skipping an item of the grammar\<close>

declare skipItem.simps(2) [simp del]

definition skips :: "bytes \<Rightarrow> bool" where
  "skips out \<longleftrightarrow> (\<forall>src pos rest fuel. drop pos src = out @ rest \<longrightarrow> length src < 2 ^ 61 \<longrightarrow> length out \<le> fuel
     \<longrightarrow> skipItem fuel src (int pos) = (None, int (pos + length out)))"

lemma headSize_nonzero [simp]: "headSize a \<noteq> 0"
  using headSize_pos [of a] by linarith

lemma skipsD:
  "skips out \<Longrightarrow> drop pos src = out @ rest \<Longrightarrow> length src < 2 ^ 61 \<Longrightarrow> length out \<le> fuel
    \<Longrightarrow> skipItem fuel src (int pos) = (None, int (pos + length out))"
  unfolding skips_def by blast

lemma drop_part:
  assumes "drop pos src = a @ b"
  shows "drop (pos + length a) src = b" "pos + length a + length b = length src \<or> (a = [] \<and> b = [])"
proof -
  have "drop (length a) (drop pos src) = b" using assms by simp
  then show "drop (pos + length a) src = b" by (simp add: add.commute)
  show "pos + length a + length b = length src \<or> (a = [] \<and> b = [])"
    using arg_cong [OF assms, of length] by (cases "pos \<le> length src") auto
qed

lemma skipTimes_skips:
  "\<forall>b \<in> set bs. skips b \<and> length b \<le> fuel \<Longrightarrow> drop pos src = concat bs @ rest \<Longrightarrow> length src < 2 ^ 61
    \<Longrightarrow> skipTimes (length bs) (skipItem fuel src) (int pos) = (None, int (pos + length (concat bs)))"
proof (induction bs arbitrary: pos)
  case Nil
  then show ?case by simp
next
  case (Cons b bs)
  then have "skipItem fuel src (int pos) = (None, int (pos + length b))"
    unfolding skips_def by (metis append.assoc concat.simps(2) list.set_intros(1))
  moreover have "drop (pos + length b) src = concat bs @ rest"
    using Cons.prems(2) by (intro drop_part) simp
  from Cons.IH [OF _ this Cons.prems(3)] Cons.prems(1)
  have "skipTimes (length bs) (skipItem fuel src) (int (pos + length b))
      = (None, int (pos + length b + length (concat bs)))"
    by simp
  ultimately show ?case by (simp add: skipThen_def add.assoc del: of_nat_add)
qed

text \<open>The head of the item at a position inside the source, and what \<open>skipItem\<close> does with it.\<close>

lemma skip_at:
  assumes "drop pos src = AppendHead [] m a @ rest" and "is_major m" and "length src < 2 ^ 61"
  shows "skipItem (Suc fuel) src (int pos) =
    (let next = int (pos + headSize a) in
     if m = MajorUint \<or> m = MajorNegInt \<or> m = MajorOther then (None, next)
     else if m = MajorBytes \<or> m = MajorText then
       (let end = go_int (next + int_of_u64 a) in
        if end > int (length src) then truncated (int pos) else (None, end))
     else if m = MajorArray then skipTimes (nat (int_of_u64 a)) (skipItem fuel src) next
     else if m = MajorMap then skipTimes (nat (go_int (int_of_u64 a * 2))) (skipItem fuel src) next
     else if m = MajorTag then skipItem fuel src next
     else truncated (int pos))"
proof -
  have "length (drop pos src) > 0" by (simp add: assms(1) length_AppendHead)
  then have pos: "pos < length src" by simp
  have h: "ParseHead (drop pos src) = \<lparr>Major = m, AI = head_ai a, HeadArg = a, HeadN = headSize a\<rparr>"
    unfolding assms(1) by (rule ParseHead_AppendHead [OF assms(2)])
  have ai: "head_ai a \<noteq> 31" using head_ai_less [of a] by auto
  have "pos + headSize a < 2 ^ 62" using pos assms(3) headSize_le_9 [of a] by simp
  then have nx: "go_int (int pos + int (headSize a)) = int (pos + headSize a)"
    using go_int_nat [of "pos + headSize a"] by simp
  show ?thesis
    using pos ai headSize_pos [of a] by (auto simp: skipItem.simps skipItemBody_def headAt_def h nx Let_def)
qed

lemma skip_other:
  assumes "Major (ParseHead (drop pos src)) = MajorOther" and "HeadN (ParseHead (drop pos src)) = n"
    and "0 < n" and "n \<le> 9" and "pos < length src" and "length src < 2 ^ 61"
  shows "skipItem (Suc fuel) src (int pos) = (None, int (pos + n))"
proof -
  have "pos + n < 2 ^ 62" using assms by simp
  then have "go_int (int pos + int n) = int (pos + n)"
    using go_int_nat [of "pos + n"] by simp
  with assms show ?thesis by (simp add: skipItem.simps skipItemBody_def headAt_def)
qed

lemma skips_other:
  assumes "\<And>rest. Major (ParseHead (out @ rest)) = MajorOther \<and> HeadN (ParseHead (out @ rest)) = length out"
    and "0 < length out" and "length out \<le> 9"
  shows "skips out"
  unfolding skips_def
proof (intro allI impI)
  fix src pos rest fuel
  assume d: "drop pos src = out @ rest" and len: "length src < 2 ^ 61" and f: "length out \<le> fuel"
  have "length (drop pos src) > 0" using d assms(2) by simp
  then have "pos < length src" by simp
  with skip_other [of pos src "length out" "fuel - 1"] assms d len f
  show "skipItem fuel src (int pos) = (None, int (pos + length out))"
    by (cases fuel) auto
qed

lemma skips_head:
  assumes "\<And>src pos rest fuel. drop pos src = AppendHead [] m a @ body @ rest \<Longrightarrow> length src < 2 ^ 61
      \<Longrightarrow> length body \<le> fuel \<Longrightarrow> pos + headSize a + length body \<le> length src
      \<Longrightarrow> skipItem (Suc fuel) src (int pos) = (None, int (pos + headSize a + length body))"
  shows "skips (AppendHead [] m a @ body)"
  unfolding skips_def
proof (intro allI impI)
  fix src pos rest fuel
  assume d: "drop pos src = (AppendHead [] m a @ body) @ rest" and len: "length src < 2 ^ 61"
    and f: "length (AppendHead [] m a @ body) \<le> fuel"
  define fuel' where "fuel' = fuel - 1"
  have "headSize a + length body \<le> fuel" using f by (simp add: length_AppendHead)
  moreover have "0 < headSize a" by simp
  ultimately have f': "fuel = Suc fuel'" "length body \<le> fuel'" unfolding fuel'_def by linarith+
  have "length (drop pos src) = headSize a + length body + length rest"
    by (simp add: d length_AppendHead)
  then have "pos + headSize a + length body \<le> length src" using headSize_pos [of a] by (simp; linarith)
  with assms [of pos src rest fuel'] d len f' show
    "skipItem fuel src (int pos) = (None, int (pos + length (AppendHead [] m a @ body)))"
    by (simp add: length_AppendHead add.assoc)
qed

lemma parts_le_concat: "b \<in> set bs \<Longrightarrow> length b \<le> length (concat bs)"
  by (induction bs) auto

lemma item_form_skips: "item_form out \<Longrightarrow> skips out"
proof (induction rule: item_form.induct)
  case (form_int m a)
  then have "is_major m" using is_major_consts(1,2) by metis
  with form_int have "skips (AppendHead [] m a @ [])"
    by (intro skips_head) (auto simp: skip_at)
  then show ?case by simp
next
  case (form_string m s)
  then have "is_major m" using is_major_consts(3,4) by metis
  show ?case
  proof (rule skips_head)
    fix src pos rest fuel
    assume a: "drop pos src = AppendHead [] m (of_nat (length s)) @ s @ rest" "length src < 2 ^ 61"
      "pos + headSize (of_nat (length s)) + length s \<le> length src"
    have "length s < 2 ^ 61" using a(2,3) by linarith
    moreover have "pos + headSize (of_nat (length s)) + length s < 2 ^ 62" using a(2,3) by simp
    ultimately have "go_int (int (pos + headSize (of_nat (length s))) + int_of_u64 (of_nat (length s)))
        = int (pos + headSize (of_nat (length s)) + length s)"
      using go_int_nat [of "pos + headSize (of_nat (length s)) + length s"] by (simp add: len_arg)
    with a form_string show "skipItem (Suc fuel) src (int pos) = (None, int (pos + headSize (of_nat (length s)) + length s))"
      using \<open>is_major m\<close> by (auto simp: skip_at [OF a(1)] Let_def)
  qed
next
  case (form_array bs)
  show ?case
  proof (rule skips_head)
    fix src pos rest fuel
    assume a: "drop pos src = AppendHead [] MajorArray (of_nat (length bs)) @ concat bs @ rest" "length src < 2 ^ 61"
      "length (concat bs) \<le> fuel" "pos + headSize (of_nat (length bs)) + length (concat bs) \<le> length src"
    have n: "length bs \<le> length (concat bs)"
      using form_array by (intro forms_length) simp
    then have i: "int_of_u64 (of_nat (length bs)) = int (length bs)"
      using a(2,4) by (intro len_arg) linarith
    have d: "drop (pos + headSize (of_nat (length bs))) src = concat bs @ rest"
      using drop_part(1) [OF a(1)] by (simp add: length_AppendHead)
    from skipTimes_skips [OF _ d a(2), of fuel] form_array a(3)
    have "skipTimes (length bs) (skipItem fuel src) (int (pos + headSize (of_nat (length bs))))
        = (None, int (pos + headSize (of_nat (length bs)) + length (concat bs)))"
      by (meson order_trans parts_le_concat)
    then show "skipItem (Suc fuel) src (int pos) = (None, int (pos + headSize (of_nat (length bs)) + length (concat bs)))"
      by (simp add: skip_at [OF a(1) is_major_consts(5) a(2)] i)
  qed
next
  case (form_map bs n)
  show ?case
  proof (rule skips_head)
    fix src pos rest fuel
    assume a: "drop pos src = AppendHead [] MajorMap (of_nat n) @ concat bs @ rest" "length src < 2 ^ 61"
      "length (concat bs) \<le> fuel" "pos + headSize (of_nat n) + length (concat bs) \<le> length src"
    have "length bs \<le> length (concat bs)"
      using form_map.IH by (intro forms_length) simp
    then have n: "n < 2 ^ 61" "length bs < 2 ^ 61" using a(2,4) form_map.hyps by linarith+
    have i: "nat (go_int (int_of_u64 (of_nat n) * 2)) = length bs"
      using go_int_nat [of "length bs"] n form_map.hyps by (simp add: len_arg mult.commute)
    have d: "drop (pos + headSize (of_nat n)) src = concat bs @ rest"
      using drop_part(1) [OF a(1)] by (simp add: length_AppendHead)
    from skipTimes_skips [OF _ d a(2), of fuel] form_map.IH a(3)
    have "skipTimes (length bs) (skipItem fuel src) (int (pos + headSize (of_nat n)))
        = (None, int (pos + headSize (of_nat n) + length (concat bs)))"
      by (meson order_trans parts_le_concat)
    then show "skipItem (Suc fuel) src (int pos) = (None, int (pos + headSize (of_nat n) + length (concat bs)))"
      by (simp add: skip_at [OF a(1) is_major_consts(6) a(2)] i)
  qed
next
  case (form_tag b a)
  show ?case
  proof (rule skips_head)
    fix src pos rest fuel
    assume a: "drop pos src = AppendHead [] MajorTag a @ b @ rest" "length src < 2 ^ 61" "length b \<le> fuel"
    have "drop (pos + headSize a) src = b @ rest"
      using drop_part(1) [OF a(1)] by (simp add: length_AppendHead)
    with form_tag a(2,3) have "skipItem fuel src (int (pos + headSize a)) = (None, int (pos + headSize a + length b))"
      unfolding skips_def by blast
    then show "skipItem (Suc fuel) src (int pos) = (None, int (pos + headSize a + length b))"
      by (simp add: skip_at [OF a(1) is_major_consts(7) a(2)] )
  qed
next
  case (form_simple s)
  then show ?case by (intro skips_other) (simp_all add: ParseHead_other(1) [simplified])
qed (rule skips_other; simp add: ParseHead_other [simplified] length_floats)+

section \<open>Walking through a container\<close>

lemma Skip_form:
  assumes "item_form out" and "drop pos (csrc c) = out @ rest" and "cpos c = int pos"
    and "length (csrc c) < 2 ^ 61" and "length out \<le> fuel"
  shows "Skip fuel c = (Inr (int (length out)), consumeFromFrame (c\<lparr>cpos := int (pos + length out)\<rparr>))"
    and "RawBytes fuel c = (Inr out, consumeFromFrame (c\<lparr>cpos := int (pos + length out)\<rparr>))"
proof -
  have sk: "skipItem fuel (csrc c) (int pos) = (None, int (pos + length out))"
    using item_form_skips [OF assms(1)] assms by (simp add: skips_def)
  have len: "pos + length out \<le> length (csrc c)"
    using drop_part(2) [OF assms(2)] length_pos [OF assms(1)] by auto
  then have "length out < 2 ^ 62" using assms(4) by simp
  then have g: "go_int (int (length out)) = int (length out)" by (rule go_int_nat)
  show "Skip fuel c = (Inr (int (length out)), consumeFromFrame (c\<lparr>cpos := int (pos + length out)\<rparr>))"
    using sk g by (simp add: Skip_def assms(3))
  show "RawBytes fuel c = (Inr out, consumeFromFrame (c\<lparr>cpos := int (pos + length out)\<rparr>))"
    using sk len by (simp add: RawBytes_def assms(2,3) Let_def)
qed

text \<open>Skipping \<open>k\<close> items one by one.\<close>

fun skipMany :: "nat \<Rightarrow> nat \<Rightarrow> Cursor \<Rightarrow> Cursor" where
  "skipMany 0 fuel c = c"
| "skipMany (Suc k) fuel c = skipMany k fuel (snd (Skip fuel c))"

lemma skipMany_form:
  "\<forall>b \<in> set bs. item_form b \<and> length b \<le> fuel \<Longrightarrow> drop pos (csrc c) = concat bs @ rest \<Longrightarrow> cpos c = int pos
    \<Longrightarrow> length (csrc c) < 2 ^ 61 \<Longrightarrow> cstack c = f # fs \<Longrightarrow> cremaining f = int n \<Longrightarrow> k \<le> n \<Longrightarrow> k \<le> length bs
    \<Longrightarrow> skipMany k fuel c = c\<lparr>cpos := int (pos + length (concat (take k bs))),
          cstack := f\<lparr>cremaining := int (n - k)\<rparr> # fs\<rparr>"
proof (induction k arbitrary: bs pos c f n)
  case 0
  then show ?case by (cases c) simp
next
  case (Suc k)
  obtain b bs' where bs: "bs = b # bs'" using Suc.prems(8) by (cases bs) auto
  define c' where "c' = c\<lparr>cpos := int (pos + length b), cstack := f\<lparr>cremaining := int (n - 1)\<rparr> # fs\<rparr>"
  have "snd (Skip fuel c) = c'"
    using Skip_form(1) [of b pos c "concat bs' @ rest" fuel] Suc.prems
    by (cases n) (auto simp: bs c'_def consumeFromFrame_def of_nat_diff)
  moreover have "drop (pos + length b) (csrc c') = concat bs' @ rest"
    using drop_part(1) [of pos "csrc c" b] Suc.prems(2) by (simp add: bs c'_def)
  from Suc.IH [OF _ this, of "f\<lparr>cremaining := int (n - 1)\<rparr>" "n - 1"] Suc.prems
  have "skipMany k fuel c' = c'\<lparr>cpos := int (pos + length b + length (concat (take k bs'))),
      cstack := f\<lparr>cremaining := int (n - Suc k)\<rparr> # fs\<rparr>"
    by (auto simp: c'_def bs)
  ultimately show ?case by (simp add: bs c'_def add.assoc)
qed

lemma EnterArray_form:
  assumes "drop pos (csrc c) = AppendHead [] MajorArray (of_nat n) @ rest" and "cpos c = int pos" and "n < 2 ^ 61"
  shows "EnterArray c = (Inr (int n), c\<lparr>cpos := int (pos + headSize (of_nat n)),
    cstack := \<lparr>cremaining = int n, isMapFrame = False\<rparr> # cstack c\<rparr>)"
proof -
  have "length (drop pos (csrc c)) > 0" by (simp add: assms(1) length_AppendHead)
  then have pos: "pos < length (csrc c)" by simp
  have h: "ParseHead (drop pos (csrc c)) = \<lparr>Major = MajorArray, AI = head_ai (of_nat n), HeadArg = of_nat n, HeadN = headSize (of_nat n)\<rparr>"
    unfolding assms(1) by (rule ParseHead_AppendHead) (rule is_major_consts)
  have "head_ai (of_nat n) \<noteq> 31" using head_ai_less [of "of_nat n"] by auto
  with pos h show ?thesis
    by (simp add: EnterArray_def enterHead_def headAt_def Let_def assms(2) len_arg(2) [OF assms(3)])
qed

lemma array_walk:
  assumes src: "drop pos (csrc c) = AppendHead [] MajorArray (of_nat (length bs)) @ concat bs @ rest"
    and pos: "cpos c = int pos" and len: "length (csrc c) < 2 ^ 61" and forms: "\<forall>b \<in> set bs. item_form b"
    and fuel: "length (concat bs) \<le> fuel" and k: "k \<le> length bs"
  shows "fst (EnterArray c) = Inr (int (length bs))
    \<and> ExitArray fuel (skipMany k fuel (snd (EnterArray c)))
      = (None, c\<lparr>cpos := int (pos + headSize (of_nat (length bs)) + length (concat bs))\<rparr>)"
proof -
  define p where "p = pos + headSize (of_nat (length bs))"
  have "length (drop pos (csrc c)) \<ge> length (concat bs)" by (simp add: src)
  then have n: "length bs < 2 ^ 61"
    using forms_length [OF forms] len by (simp; linarith)
  note enter = EnterArray_form [OF src pos n]
  define c1 where "c1 = snd (EnterArray c)"
  have c1: "c1 = c\<lparr>cpos := int p, cstack := \<lparr>cremaining = int (length bs), isMapFrame = False\<rparr> # cstack c\<rparr>"
    by (simp add: c1_def enter p_def)
  have d: "drop p (csrc c1) = concat bs @ rest"
    using drop_part(1) [OF src] by (simp add: c1 length_AppendHead p_def)
  have forms': "\<forall>b \<in> set bs. item_form b \<and> length b \<le> fuel"
    using forms fuel parts_le_concat order_trans by blast
  define q where "q = p + length (concat (take k bs))"
  have many: "skipMany k fuel c1 = c1\<lparr>cpos := int q,
      cstack := \<lparr>cremaining = int (length bs - k), isMapFrame = False\<rparr> # cstack c\<rparr>"
    using skipMany_form [OF forms' d, of "\<lparr>cremaining = int (length bs), isMapFrame = False\<rparr>" "cstack c" "length bs" k]
      k len by (simp add: c1 q_def)
  have parts: "concat bs = concat (take k bs) @ concat (drop k bs)"
    by (metis append_take_drop_id concat_append)
  with d have "drop q (csrc c) = concat (drop k bs) @ rest"
    unfolding q_def using drop_part(1) [of p "csrc c1" "concat (take k bs)"] by (simp add: c1)
  moreover have "\<forall>b \<in> set (drop k bs). skips b \<and> length b \<le> fuel"
    using forms' item_form_skips by (meson in_set_dropD)
  ultimately have "skipTimes (length bs - k) (skipItem fuel (csrc c)) (int q)
      = (None, int (q + length (concat (drop k bs))))"
    using skipTimes_skips [of "drop k bs" fuel q "csrc c" rest] len by simp
  moreover have "q + length (concat (drop k bs)) = p + length (concat bs)"
    using arg_cong [OF parts, of length] by (simp only: q_def length_append)
  ultimately have "ExitArray fuel (skipMany k fuel c1) = (None, c\<lparr>cpos := int (p + length (concat bs))\<rparr>)"
    by (simp only: many) (simp add: ExitArray_def exitFrame_def skipRemaining_def c1 nat_diff_distrib)
  then show ?thesis
    unfolding c1_def [symmetric] p_def [symmetric] using enter by (simp add: c1_def)
qed

text \<open>The entries of a map with text keys.\<close>

definition textBytes :: "bytes \<Rightarrow> bytes" where
  "textBytes t = AppendHead [] MajorText (of_nat (length t)) @ t"

definition entryBytes :: "(bytes \<times> bytes) list \<Rightarrow> bytes" where
  "entryBytes ps = concat (map (\<lambda>p. textBytes (fst p) @ snd p) ps)"

lemma entryBytes_simps [simp]:
  "entryBytes [] = []" "entryBytes (p # ps) = textBytes (fst p) @ snd p @ entryBytes ps"
  by (simp_all add: entryBytes_def)

lemma findKeyRound_text:
  assumes src: "drop pos (csrc c) = textBytes t @ b @ rest" and pos: "cpos c = int pos" and len: "length (csrc c) < 2 ^ 61"
    and b: "item_form b" and fuel: "length (textBytes t @ b) \<le> fuel" and f: "cremaining f = 2 * int (Suc n)"
  shows "findKeyRound fuel key c f fs =
    (if t = key then Inl (None, c\<lparr>cpos := int (pos + length (textBytes t)), cstack := f\<lparr>cremaining := 2 * int (Suc n) - 1\<rparr> # fs\<rparr>)
     else Inr (c\<lparr>cpos := int (pos + length (textBytes t @ b)), cstack := f\<lparr>cremaining := 2 * int n\<rparr> # fs\<rparr>))"
proof -
  have t: "item_form (textBytes t)" by (simp only: textBytes_def) (rule form_string, simp)
  have ends: "pos + length (textBytes t) + length (b @ rest) = length (csrc c)"
    using drop_part(2) [OF src] length_pos [OF t] by auto
  have tl: "length (textBytes t) = headSize (of_nat (length t)) + length t"
    by (simp add: textBytes_def length_AppendHead)
  have small: "length t < 2 ^ 61" using ends len tl by linarith
  have h: "ParseHead (drop pos (csrc c)) = \<lparr>Major = MajorText, AI = head_ai (of_nat (length t)), HeadArg = of_nat (length t),
      HeadN = headSize (of_nat (length t))\<rparr>"
    unfolding src textBytes_def append_assoc by (rule ParseHead_AppendHead) (rule is_major_consts)
  have ai: "head_ai (of_nat (length t)) \<noteq> 31" using head_ai_less [of "of_nat (length t)"] by auto
  have e: "go_int (int pos + int (headSize (of_nat (length t))) + int_of_u64 (of_nat (length t))) = int (pos + length (textBytes t))"
    using go_int_nat [of "pos + length (textBytes t)"] ends len by (simp add: len_arg(2) [OF small] tl add.assoc)
  have "drop (pos + headSize (of_nat (length t))) (csrc c) = t @ b @ rest"
    using drop_part(1) [of pos "csrc c" "AppendHead [] MajorText (of_nat (length t))"] src
    by (simp add: textBytes_def length_AppendHead)
  then have key: "take (nat (int (length (textBytes t)) - int (headSize (of_nat (length t)))))
      (drop (nat (int pos + int (headSize (of_nat (length t))))) (csrc c)) = t"
    by (simp add: tl nat_add_distrib)
  have s1: "skipItem fuel (csrc c) (int pos) = (None, int (pos + length (textBytes t)))"
    using skipsD [OF item_form_skips [OF t] src len] fuel by simp
  have "drop (pos + length (textBytes t)) (csrc c) = b @ rest" by (rule drop_part) (rule src)
  then have s2: "skipItem fuel (csrc c) (int (pos + length (textBytes t))) = (None, int (pos + length (textBytes t) + length b))"
    by (rule skipsD [OF item_form_skips [OF b] _ len]) (use fuel in simp)
  have "length (drop pos (csrc c)) > 0" using length_pos [OF t] by (simp add: src)
  then have "pos < length (csrc c)" by simp
  moreover have "int pos + int (headSize (of_nat (length t))) \<le> int (pos + length (textBytes t))" by (simp add: tl)
  ultimately show ?thesis
    using ends ai s2
    by (cases "key = t") (simp_all add: findKeyRound_def headAt_def Let_def pos f h s1 skipThen_def e key)
qed

lemma FindMapKeyLoop_text:
  "drop pos (csrc c) = entryBytes ps @ rest \<Longrightarrow> cpos c = int pos \<Longrightarrow> length (csrc c) < 2 ^ 61
    \<Longrightarrow> \<forall>p \<in> set ps. item_form (snd p) \<Longrightarrow> length (entryBytes ps) \<le> fuel \<Longrightarrow> length ps < n
    \<Longrightarrow> cstack c = f # fs \<Longrightarrow> cremaining f = 2 * int (length ps)
    \<Longrightarrow> FindMapKeyLoop n fuel key c =
      (if key \<in> fst ` set ps then
         let before = takeWhile (\<lambda>p. fst p \<noteq> key) ps in
         (None, c\<lparr>cpos := int (pos + length (entryBytes before) + length (textBytes key)),
            cstack := f\<lparr>cremaining := 2 * int (length ps - length before) - 1\<rparr> # fs\<rparr>)
       else (Some ErrKeyNotFound, c\<lparr>cpos := int (pos + length (entryBytes ps)), cstack := f\<lparr>cremaining := 0\<rparr> # fs\<rparr>))"
proof (induction ps arbitrary: pos c f n)
  case Nil
  then have "c = c\<lparr>cpos := int pos, cstack := f # fs\<rparr>" "f = f\<lparr>cremaining := 0\<rparr>" by simp_all
  with Nil show ?case by (cases n) (simp_all add: findKeyRound_def)
next
  case (Cons p ps)
  obtain n' where n: "n = Suc n'" using Cons.prems(6) by (cases n) auto
  obtain t b where p: "p = (t, b)" by (cases p)
  have src: "drop pos (csrc c) = textBytes t @ b @ entryBytes ps @ rest" using Cons.prems(1) by (simp add: p)
  have fuel: "length (textBytes t @ b) \<le> fuel" using Cons.prems(5) by (simp add: p)
  note round = findKeyRound_text [OF src Cons.prems(2,3) _ fuel, of f "length ps" key fs]
  show ?case
  proof (cases "t = key")
    case True
    with round Cons.prems show ?thesis by (simp add: n p)
  next
    case False
    define c' where "c' = c\<lparr>cpos := int (pos + length (textBytes t @ b)), cstack := f\<lparr>cremaining := 2 * int (length ps)\<rparr> # fs\<rparr>"
    have "findKeyRound fuel key c f fs = Inr c'"
      using round False Cons.prems by (simp add: c'_def p)
    moreover have "drop (pos + length (textBytes t @ b)) (csrc c') = entryBytes ps @ rest"
      using drop_part(1) [of pos "csrc c" "textBytes t @ b"] src by (simp add: c'_def)
    from Cons.IH [OF this, of n' "f\<lparr>cremaining := 2 * int (length ps)\<rparr>"] Cons.prems
    have "FindMapKeyLoop n' fuel key c' =
      (if key \<in> fst ` set ps then
         let before = takeWhile (\<lambda>p. fst p \<noteq> key) ps in
         (None, c\<lparr>cpos := int (pos + length (textBytes t @ b) + length (entryBytes before) + length (textBytes key)),
            cstack := f\<lparr>cremaining := 2 * int (length ps - length before) - 1\<rparr> # fs\<rparr>)
       else (Some ErrKeyNotFound, c\<lparr>cpos := int (pos + length (textBytes t @ b) + length (entryBytes ps)),
            cstack := f\<lparr>cremaining := 0\<rparr> # fs\<rparr>))"
      by (auto simp: c'_def n Let_def)
    ultimately show ?thesis
      using False Cons.prems(7) by (auto simp: n p Let_def add.assoc)
  qed
qed

section \<open>Properties\<close>

text \<open>C19: On an encoding, \<open>Skip\<close> moves exactly past it and reports its length, and \<open>RawBytes\<close> returns
  exactly its bytes, whatever follows, with fuel for its length.\<close>
theorem cursor_skips_encodings:
  assumes enc: "Encode e [] v = (out, None)" and "drop pos (csrc c) = out @ rest" and "cpos c = int pos"
    and "length (csrc c) < 2 ^ 61" and "length out \<le> fuel"
  shows "Skip fuel c = (Inr (int (length out)), consumeFromFrame (c\<lparr>cpos := int (pos + length out)\<rparr>))
    \<and> RawBytes fuel c = (Inr out, consumeFromFrame (c\<lparr>cpos := int (pos + length out)\<rparr>))"
proof -
  have "item_form out" using enc form_encode by (auto simp: Encode_encode)
  with Skip_form [OF this assms(2-5)] show ?thesis by blast
qed

theorem cursor_skips_encodings_witness:
  "fst (RawBytes 9 (NewCursor [0x82, 0x01, 0x02, 0x07] DefaultOpts NilState)) = Inr [0x82, 0x01, 0x02]"
proof -
  have "Encode defaultEncoder [] (MakeArray [Uint 1, Uint 2]) = ([0x82, 0x01, 0x02], None)" by code_simp
  from cursor_skips_encodings [OF this, where pos = 0 and c = "NewCursor [0x82, 0x01, 0x02, 0x07] DefaultOpts NilState"
      and rest = "[7]" and fuel = 9]
  show ?thesis by (simp add: NewCursor_def)
qed

text \<open>Entering an encoded array, skipping any number of its items and leaving it puts the cursor right
  behind the array and restores the stack of containers.\<close>
lemma cursor_array_walk:
  assumes "drop pos (csrc c) = AppendHead [] MajorArray (of_nat (length bs)) @ concat bs @ rest"
    and "cpos c = int pos" and "length (csrc c) < 2 ^ 61" and "\<forall>b \<in> set bs. item_form b"
    and "length (concat bs) \<le> fuel" and "k \<le> length bs"
  shows "fst (EnterArray c) = Inr (int (length bs))
    \<and> ExitArray fuel (skipMany k fuel (snd (EnterArray c)))
      = (None, c\<lparr>cpos := int (pos + headSize (of_nat (length bs)) + length (concat bs))\<rparr>)"
  using array_walk [OF assms] .

lemma cursor_array_walk_witness:
  "ExitArray 3 (skipMany 1 3 (snd (EnterArray (NewCursor [0x82, 0x01, 0x18, 0x63] DefaultOpts NilState))))
    = (None, (NewCursor [0x82, 0x01, 0x18, 0x63] DefaultOpts NilState)\<lparr>cpos := 4\<rparr>)"
  using cursor_array_walk [where pos = 0 and c = "NewCursor [0x82, 0x01, 0x18, 0x63] DefaultOpts NilState"
      and bs = "[[0x01], [0x18, 0x63]]" and rest = "[]" and fuel = 3 and k = 1]
    form_int [where m = MajorUint and a = 1] form_int [where m = MajorUint and a = "0x63"]
  by (simp add: NewCursor_def AppendHead_def headSize_def)

text \<open>In a definite map with text keys, \<open>FindMapKey\<close> stops at the value of the first entry with the key, and
  reports a missing key only when there is none, at the end of the map.\<close>
lemma cursor_find_key:
  assumes "drop pos (csrc c) = entryBytes ps @ rest" and "cpos c = int pos" and "length (csrc c) < 2 ^ 61"
    and "\<forall>p \<in> set ps. item_form (snd p)" and "length (entryBytes ps) \<le> fuel" and "length ps < fuel"
    and "cstack c = f # fs" and "isMapFrame f" and "cremaining f = 2 * int (length ps)"
  shows "FindMapKey fuel key c =
      (if key \<in> fst ` set ps then
         let before = takeWhile (\<lambda>p. fst p \<noteq> key) ps in
         (None, c\<lparr>cpos := int (pos + length (entryBytes before) + length (textBytes key)),
            cstack := f\<lparr>cremaining := 2 * int (length ps - length before) - 1\<rparr> # fs\<rparr>)
       else (Some ErrKeyNotFound, c\<lparr>cpos := int (pos + length (entryBytes ps)), cstack := f\<lparr>cremaining := 0\<rparr> # fs\<rparr>))"
  using FindMapKeyLoop_text [OF assms(1-7,9)] assms(7,8) by (simp add: FindMapKey_def)

lemma cursor_find_key_witness:
  "cpos (snd (FindMapKey 9 [98] (snd (EnterMap (NewCursor [0xa2, 0x61, 97, 1, 0x61, 98, 2] DefaultOpts NilState))))) = 6"
proof -
  define c where "c = snd (EnterMap (NewCursor [0xa2, 0x61, 97, 1, 0x61, 98, 2] DefaultOpts NilState))"
  have c: "c = \<lparr>csrc = [0xa2, 0x61, 97, 1, 0x61, 98, 2], cpos = 1, cstack = [\<lparr>cremaining = 4, isMapFrame = True\<rparr>],
      copts = DefaultOpts, cstate = NilState\<rparr>"
    unfolding c_def by code_simp
  show ?thesis
    unfolding c_def [symmetric]
    using cursor_find_key [where pos = 1 and c = c and ps = "[([97], [1]), ([98], [2])]" and rest = "[]" and fuel = 9
      and f = "\<lparr>cremaining = 4, isMapFrame = True\<rparr>" and fs = "[]" and key = "[98]"]
      form_int [where m = MajorUint and a = 1] form_int [where m = MajorUint and a = 2]
    by (simp add: c textBytes_def AppendHead_def)
qed

text \<open>C20: A byte string whose announced length is near 2^64 makes the cursor stand still: inside an indefinite
  array, \<open>Skip\<close> never returns on these ten bytes, whatever the fuel.\<close>
theorem cursor_skip_diverges:
  "fst (Skip fuel (NewCursor [0x9f, 0x5b, 0xff, 0xff, 0xff, 0xff, 0xff, 0xff, 0xff, 0xf7] DefaultOpts NilState))
    = Inl (CDecode OutOfFuel)"
proof -
  let ?src = "[0x9f, 0x5b, 0xff, 0xff, 0xff, 0xff, 0xff, 0xff, 0xff, 0xf7] :: bytes"
  have h: "ParseHead (drop 1 ?src) = \<lparr>Major = 0x40, AI = 27, HeadArg = 0xfffffffffffffff7, HeadN = 9\<rparr>"
    by (simp add: ParseHead_def Uint64_def be_val_def)
  have stay: "skipItem (Suc n) ?src 1 = (None, 1)" for n
    using h by (simp add: skipItem.simps skipItemBody_def headAt_def int_of_u64_def go_int_def)
  have inner: "skipIndefiniteItems n (skipItem m ?src) False ?src 1 = (Some (CDecode OutOfFuel), 1)" for n m
  proof (induction n)
    case (Suc n)
    show ?case
    proof (cases m)
      case (Suc m')
      have "skipIndefiniteItems (Suc n) (skipItem m ?src) False ?src 1
          = skipIndefiniteItems n (skipItem m ?src) False ?src 1"
        using stay [of m'] by (simp add: Suc byteAt_def skipThen_def)
      with Suc.IH show ?thesis by simp
    qed (simp add: byteAt_def skipThen_def)
  qed simp
  have "fst (skipItem fuel ?src 0) = Some (CDecode OutOfFuel)"
  proof (cases fuel)
    case (Suc n)
    have "skipItem (Suc n) ?src 0 = skipIndefiniteItems n (skipItem n ?src) False ?src 1"
      unfolding skipItem.simps by (simp add: skipItemBody_def headAt_def ParseHead_def go_int_def)
    with inner Suc show ?thesis by simp
  qed simp
  then show ?thesis by (cases "skipItem fuel ?src 0") (simp add: Skip_def NewCursor_def)
qed

text \<open>A byte string whose announced length is 2^63 - 1 makes the position negative: \<open>Skip\<close> reports success on
  these nine bytes and \<open>RawBytes\<close> panics.\<close>
lemma cursor_raw_bytes_panics:
  "let c = NewCursor [0x5b, 0x7f, 0xff, 0xff, 0xff, 0xff, 0xff, 0xff, 0xff] DefaultOpts NilState in
    fst (RawBytes 9 c) = Inl (CDecode Panic) \<and> cpos (snd (Skip 9 c)) < 0"
proof -
  let ?src = "[0x5b, 0x7f, 0xff, 0xff, 0xff, 0xff, 0xff, 0xff, 0xff] :: bytes"
  have h: "ParseHead ?src = \<lparr>Major = 0x40, AI = 27, HeadArg = 0x7fffffffffffffff, HeadN = 9\<rparr>"
    by (simp add: ParseHead_def Uint64_def be_val_def)
  have "skipItem (Suc 8) ?src 0 = (None, 8 - 2 ^ 63)"
    using h by (simp only: skipItem.simps) (simp add: skipItemBody_def headAt_def int_of_u64_def go_int_def)
  then show ?thesis
    by (simp add: RawBytes_def Skip_def NewCursor_def consumeFromFrame_def Let_def)
qed

text \<open>Leaving a nested array does not count it in the enclosing one: on [[1], 2], entering both arrays,
  leaving the inner one, skipping the 2 and leaving the outer one fails as truncated.\<close>
lemma cursor_nested_exit_fails:
  "let c0 = NewCursor [0x82, 0x81, 0x01, 0x02] DefaultOpts NilState;
       c1 = snd (EnterArray (snd (EnterArray c0)));
       c2 = snd (Skip 9 (snd (ExitArray 9 c1)))
   in cpos c2 = 4 \<and> fst (ExitArray 9 c2) = Some (CDecode (Err ErrTruncated 4))"
  by code_simp

end
