(* ===== verification/Typed_Arrays.thy ===== *)
theory Typed_Arrays
  imports Cursor
begin

text \<open>
  The decoders of homogeneous arrays (\<^verbatim>\<open>rfc8949/homogeneous.go\<close>): arrays of unsigned integers, floats, byte
  strings and text strings, read without building values. The four functions share the array head and
  the loop; each has its own reader for one element. What a reader promises on the encoding of a value
  is the locale \<open>element_reader\<close>: it returns the content of a value of its kind and refuses every other.
\<close>

section \<open>The decoders\<close>

text \<open>\<open>make([]T, n)\<close> with elements of \<open>width\<close> bytes: a negative length, or one that does not fit in the address
  space, panics.\<close>

definition go_make :: "int \<Rightarrow> int \<Rightarrow> bool" where
  "go_make width n \<longleftrightarrow> 0 \<le> n \<and> n * width \<le> 2 ^ 48"

type_synonym 'a reader = "bytes \<Rightarrow> HeadResult \<Rightarrow> int \<Rightarrow> cursor_error + 'a \<times> int"

definition ctrunc :: "int \<Rightarrow> cursor_error" where
  "ctrunc pos = CDecode (Err ErrTruncated (nat pos))"

fun elements :: "'a reader \<Rightarrow> bytes \<Rightarrow> nat \<Rightarrow> int \<Rightarrow> (cursor_error + 'a list) \<times> int" where
  "elements element src 0 pos = (Inr [], pos)"
| "elements element src (Suc n) pos =
     (if pos \<ge> int (length src) then (Inl (ctrunc pos), pos)
      else case headAt src pos of
        None \<Rightarrow> (Inl (CDecode Panic), pos)
      | Some eh \<Rightarrow>
          if HeadN eh = 0 then (Inl (ctrunc pos), pos)
          else case element src eh pos of
            Inl e \<Rightarrow> (Inl e, pos)
          | Inr (x, pos') \<Rightarrow>
              (case elements element src n pos' of
                 (Inl e, p) \<Rightarrow> (Inl e, p)
               | (Inr xs, p) \<Rightarrow> (Inr (x # xs), p)))"

definition typedArray :: "int \<Rightarrow> 'a reader \<Rightarrow> bytes \<Rightarrow> DecodeOpts \<Rightarrow> (cursor_error + 'a list) \<times> int" where
  "typedArray width element src opts =
     (if length src = 0 then (Inl (ctrunc 0), 0)
      else let h = ParseHead src in
        if HeadN h = 0 then (Inl (ctrunc 0), 0)
        else if Major h \<noteq> MajorArray then (Inl ErrTypeMismatch, 0)
        else if AI h = AIIndefinite then (Inl ErrTypeMismatch, 0)
        else
          let count = int_of_u64 (HeadArg h) in
          if count > maxArray opts then (Inl (CDecode (Err ErrMaxArrayLength 0)), 0)
          else if \<not> go_make width count then (Inl (CDecode Panic), 0)
          else elements element src (nat count) (int (HeadN h)))"

definition uintElement :: "u64 reader" where
  "uintElement src eh pos =
     (if Major eh \<noteq> MajorUint then Inl ErrTypeMismatch
      else Inr (HeadArg eh, go_int (pos + int (HeadN eh))))"

definition float64Element :: "u64 reader" where
  "float64Element src eh pos =
     (if Major eh \<noteq> MajorOther then Inl ErrTypeMismatch
      else
        let next = go_int (pos + int (HeadN eh)) in
        if AI eh = AI2Bytes then Inr (DecodeFloat16 (ucast (HeadArg eh)), next)
        else if AI eh = AI4Bytes then Inr (f32_to_f64 (ucast (HeadArg eh)), next)
        else if AI eh = AI8Bytes then Inr (HeadArg eh, next)
        else Inl ErrTypeMismatch)"

definition bytesElement :: "bytes reader" where
  "bytesElement src eh pos =
     (if Major eh \<noteq> MajorBytes \<or> AI eh = AIIndefinite then Inl ErrTypeMismatch
      else
        let len = int_of_u64 (HeadArg eh);
            start = go_int (pos + int (HeadN eh));
            end = go_int (start + len) in
        if end > int (length src) then Inl (ctrunc pos)
        else if \<not> go_make 1 len then Inl (CDecode Panic)
        else case go_slice src start end of None \<Rightarrow> Inl (CDecode Panic) | Some b \<Rightarrow> Inr (b, end))"

definition textElement :: "bytes reader" where
  "textElement src eh pos =
     (if Major eh \<noteq> MajorText \<or> AI eh = AIIndefinite then Inl ErrTypeMismatch
      else
        let len = int_of_u64 (HeadArg eh);
            start = go_int (pos + int (HeadN eh));
            end = go_int (start + len) in
        if end > int (length src) then Inl (ctrunc pos)
        else case go_slice src start end of None \<Rightarrow> Inl (CDecode Panic) | Some b \<Rightarrow> Inr (b, end))"

definition DecodeUintArray :: "bytes \<Rightarrow> DecodeOpts \<Rightarrow> (cursor_error + u64 list) \<times> int" where
  "DecodeUintArray src opts = typedArray 8 uintElement src opts"
definition DecodeFloat64Array :: "bytes \<Rightarrow> DecodeOpts \<Rightarrow> (cursor_error + u64 list) \<times> int" where
  "DecodeFloat64Array src opts = typedArray 8 float64Element src opts"
definition DecodeBytesArray :: "bytes \<Rightarrow> DecodeOpts \<Rightarrow> (cursor_error + bytes list) \<times> int" where
  "DecodeBytesArray src opts = typedArray 24 bytesElement src opts"
definition DecodeTextArray :: "bytes \<Rightarrow> DecodeOpts \<Rightarrow> (cursor_error + bytes list) \<times> int" where
  "DecodeTextArray src opts = typedArray 16 textElement src opts"

section \<open>What an encoded item looks like to a reader\<close>

definition kindMajor :: "kind \<Rightarrow> byte" where
  "kindMajor k = (case k of
      KindUint \<Rightarrow> MajorUint | KindNegInt \<Rightarrow> MajorNegInt | KindBytes \<Rightarrow> MajorBytes | KindText \<Rightarrow> MajorText
    | KindArray \<Rightarrow> MajorArray | KindMap \<Rightarrow> MajorMap | KindTag \<Rightarrow> MajorTag | _ \<Rightarrow> MajorOther)"

lemma encode_KindInvalid: "encode opts [] v = (b, None) \<Longrightarrow> Kind v \<noteq> KindInvalid"
  by (auto simp: encode.simps)

lemma encode_container_head:
  assumes "encode opts [] v = (b, None)" and "Kind v \<in> {KindArray, KindMap, KindTag}"
  shows "\<exists>n t. b = AppendHead [] (kindMajor (Kind v)) n @ t"
proof -
  consider "Kind v = KindArray" | "Kind v = KindMap" | "Kind v = KindTag" using assms(2) by blast
  then show ?thesis
  proof cases
    case 1
    with assms(1) have "encodeItems opts (AppendHead [] MajorArray (of_nat (length (Items v)))) (Items v) = (b, None)"
      by (simp add: encode.simps [of opts "[]" v])
    with encodeItems_ok 1 show ?thesis by (fastforce simp: kindMajor_def)
  next
    case 2
    with assms(1) have "encodeMap opts [] (Pairs v) = (b, None)" by (simp add: encode.simps [of opts "[]" v])
    then show ?thesis by (rule encodeMap_items) (auto simp: kindMajor_def 2)
  next
    case 3
    with assms(1) encode_dst [of opts "AppendHead [] MajorTag (Num v)" "Items v ! 0"] show ?thesis
      by (auto simp: encode.simps [of opts "[]" v] kindMajor_def split: if_splits)
  qed
qed

lemma ParseHead_bool_null:
  "Major (ParseHead (SimpleTrue # rest)) = MajorOther \<and> HeadN (ParseHead (SimpleTrue # rest)) = 1"
  "Major (ParseHead (SimpleFalse # rest)) = MajorOther \<and> HeadN (ParseHead (SimpleFalse # rest)) = 1"
  "Major (ParseHead (SimpleNull # rest)) = MajorOther \<and> HeadN (ParseHead (SimpleNull # rest)) = 1"
  "Major (ParseHead (SimpleUndefined # rest)) = MajorOther \<and> HeadN (ParseHead (SimpleUndefined # rest)) = 1"
  by (simp_all add: ParseHead_def)

lemma item_head:
  assumes "item_bytes opts v b"
  shows "0 < HeadN (ParseHead (b @ rest)) \<and> Major (ParseHead (b @ rest)) = kindMajor (Kind v)"
proof (cases "encode opts [] v = (b, None)")
  case True
  note simps = encode.simps [of opts "[]" v]
  show ?thesis
  proof (cases "Kind v \<in> {KindArray, KindMap, KindTag}")
    case True
    with encode_container_head [OF \<open>encode opts [] v = (b, None)\<close>] show ?thesis
      by (auto simp: ParseHead_AppendHead kindMajor_def is_major_def)
  next
    case False
    with True ParseHead_other ParseHead_bool_null show ?thesis
      by (cases "Kind v")
        (auto simp: simps kindMajor_def ParseHead_AppendHead is_major_def Let_def
          encodeFloat32_def encodeFloat64_def appendShortestFloat_def
          split: if_splits FloatMode.splits prod.splits bool.splits)
  qed
next
  case False
  with assms show ?thesis
    by (auto simp: item_bytes_def ParseHead_AppendHead is_major_def kindMajor_def)
qed

section \<open>The contract of a reader\<close>

locale element_reader =
  fixes opts :: EncodeOpts and element :: "'a reader" and good :: "Value \<Rightarrow> bool" and content :: "Value \<Rightarrow> 'a"
  assumes accept: "item_bytes opts v b \<Longrightarrow> good v \<Longrightarrow> drop off src = b @ rest \<Longrightarrow> off < length src
      \<Longrightarrow> length src < 2 ^ 48
      \<Longrightarrow> element src (ParseHead (b @ rest)) (int off) = Inr (content v, int (off + length b))"
    and refuse: "item_bytes opts v b \<Longrightarrow> \<not> good v \<Longrightarrow> drop off src = b @ rest
      \<Longrightarrow> element src (ParseHead (b @ rest)) (int off) = Inl ErrTypeMismatch"
begin

lemma elements_cases:
  assumes "\<forall>v \<in> set vs. item_bytes opts v (I v)" and "drop off src = concat (map I vs) @ rest"
    and "off \<le> length src" and "length src < 2 ^ 48"
  shows "(list_all good vs \<longrightarrow> elements element src (length vs) (int off)
          = (Inr (map content vs), int (off + length (concat (map I vs)))))
    \<and> (\<not> list_all good vs \<longrightarrow> fst (elements element src (length vs) (int off)) = Inl ErrTypeMismatch)"
  using assms
proof (induction vs arbitrary: off)
  case Nil
  then show ?case by simp
next
  case (Cons v vs)
  define rest' where "rest' = concat (map I vs) @ rest"
  from Cons.prems have item: "item_bytes opts v (I v)" and src: "drop off src = I v @ rest'"
    by (simp_all add: rest'_def)
  have "item_form (I v)" using item form_encode by (rule form_item_bytes [rotated])
  then have "0 < length (I v)" by (rule length_pos)
  moreover have "length src - off = length (I v) + length rest'" using arg_cong [OF src, of length] by simp
  ultimately have pos: "off < length src" and le: "off + length (I v) \<le> length src" by linarith+
  have "drop (length (I v)) (drop off src) = rest'" unfolding src by simp
  then have "drop (off + length (I v)) src = rest'" by (simp add: add.commute)
  with Cons.prems have IH: "(list_all good vs \<longrightarrow> elements element src (length vs) (int (off + length (I v)))
          = (Inr (map content vs), int (off + length (I v) + length (concat (map I vs)))))
    \<and> (\<not> list_all good vs \<longrightarrow> fst (elements element src (length vs) (int (off + length (I v)))) = Inl ErrTypeMismatch)"
    using le by (intro Cons.IH) (simp_all add: rest'_def)
  have step: "elements element src (length (v # vs)) (int off)
      = (case element src (ParseHead (I v @ rest')) (int off) of
            Inl e \<Rightarrow> (Inl e, int off)
          | Inr (x, pos') \<Rightarrow> (case elements element src (length vs) pos' of
               (Inl e, p) \<Rightarrow> (Inl e, p) | (Inr xs, p) \<Rightarrow> (Inr (x # xs), p)))"
    using pos item_head [OF item, of rest'] by (simp add: headAt_def src)
  show ?case
  proof (cases "good v")
    case True
    from accept [OF item True src pos Cons.prems(4)] IH show ?thesis
      unfolding step by (cases "elements element src (length vs) (int (off + length (I v)))") (auto simp: True)
  next
    case False
    from refuse [OF item False src] show ?thesis unfolding step by (simp add: False)
  qed
qed

text \<open>Fed the encoding of an array, a typed decoder returns the contents if all items have its kind, and
  \<open>ErrTypeMismatch\<close> otherwise.\<close>

lemma typedArray_encoding:
  assumes "encode opts [] (MakeArray vs) = (out, None)" and "int (length vs) \<le> maxArray dopts"
    and "0 \<le> width" and "width \<le> 32" and "length (out @ rest) < 2 ^ 43"
  shows "(list_all good vs \<longrightarrow> typedArray width element (out @ rest) dopts = (Inr (map content vs), int (length out)))
    \<and> (\<not> list_all good vs \<longrightarrow> fst (typedArray width element (out @ rest) dopts) = Inl ErrTypeMismatch)"
proof -
  from assms(1) have "encodeItems opts (AppendHead [] MajorArray (of_nat (length vs))) vs = (out, None)"
    by (simp add: encode.simps [of opts "[]"] MakeArray_def)
  then obtain I where out: "out = AppendHead [] MajorArray (of_nat (length vs)) @ concat (map I vs)"
    and I: "\<And>v. v \<in> set vs \<Longrightarrow> item_bytes opts v (I v)" by (rule encodeItems_items) blast
  have "length vs \<le> length (concat (map I vs))"
    using forms_length [of "map I vs"] I form_item_bytes form_encode by auto
  then have len: "length vs < 2 ^ 43" using assms(5) by (simp add: out)
  then have "int (length vs) * width \<le> 2 ^ 43 * 32"
    using assms(3,4) by (intro mult_mono') auto
  then have width: "int (length vs) * width \<le> 2 ^ 48" by simp
  from len have count: "int_of_u64 (of_nat (length vs)) = int (length vs)"
    by (intro len_arg) simp
  have h: "ParseHead (out @ rest) = \<lparr>Major = MajorArray, AI = head_ai (of_nat (length vs)),
      HeadArg = of_nat (length vs), HeadN = headSize (of_nat (length vs))\<rparr>"
    unfolding out append.assoc by (rule ParseHead_AppendHead [OF is_major_consts(5)])
  have "typedArray width element (out @ rest) dopts
      = elements element (out @ rest) (length vs) (int (headSize (of_nat (length vs))))"
    using assms(2) width head_ai_definite [of "of_nat (length vs)"] headSize_pos [of "of_nat (length vs)"]
    unfolding typedArray_def Let_def h
    using length_AppendHead [of "[]" MajorArray "of_nat (length vs)"]
    by (auto simp add: count go_make_def out simp flip: length_greater_0_conv)
  with elements_cases [of vs I "headSize (of_nat (length vs))" "out @ rest" rest] I assms(5) show ?thesis
    by (simp add: out length_AppendHead)
qed

end

section \<open>The four readers\<close>

lemma item_bytes_kind:
  assumes "item_bytes opts v b"
  shows "Kind v = KindUint \<Longrightarrow> b = AppendHead [] MajorUint (Num v)"
    and "Kind v = KindBytes \<Longrightarrow> b = AppendHead [] MajorBytes (of_nat (length (Bstr v))) @ Bstr v"
    and "Kind v = KindText \<Longrightarrow> b = AppendHead [] MajorText (of_nat (length (Str v))) @ Str v"
  using assms by (auto simp: item_bytes_def encode.simps [of opts "[]" v] split: if_splits)

lemma go_step:
  assumes "off < length src" and "length src < 2 ^ 48" and "n \<le> length src"
  shows "go_int (int off + int n) = int (off + n)"
  using assms by (simp add: go_int_nat flip: of_nat_add)

lemma drop_length:
  assumes "drop off src = b @ rest" and "off < length src"
  shows "off + length b \<le> length src"
proof -
  have "length (drop off src) = length b + length rest" by (simp add: assms(1))
  with assms(2) show ?thesis by simp
qed

lemma read_string:
  assumes src: "drop off src = (AppendHead [] m (of_nat (length s)) @ s) @ rest" and off: "off < length src"
    and len: "length src < 2 ^ 48"
  defines "n \<equiv> headSize (of_nat (length s))"
  shows "int_of_u64 (of_nat (length s)) = int (length s)" and "go_make 1 (int (length s))"
    and "go_int (int off + int n) = int (off + n)"
    and "go_int (int (off + n) + int (length s)) = int (off + n + length s)"
    and "off + n + length s \<le> length src"
    and "go_slice src (int (off + n)) (int (off + n + length s)) = Some s"
proof -
  from drop_length [OF src off] show le: "off + n + length s \<le> length src"
    by (simp add: length_AppendHead n_def)
  with len show "int_of_u64 (of_nat (length s)) = int (length s)"
    by (intro len_arg) simp
  show "go_make 1 (int (length s))" using le len by (simp add: go_make_def)
  show "go_int (int off + int n) = int (off + n)" "go_int (int (off + n) + int (length s)) = int (off + n + length s)"
    using le len by (simp_all add: go_int_nat flip: of_nat_add)
  have "drop n (drop off src) = s @ rest" unfolding src by (simp add: n_def length_AppendHead)
  then have "drop (off + n) src = s @ rest" by (simp add: add.commute)
  with go_slice_nat [of "off + n" "length s" src] le
  show "go_slice src (int (off + n)) (int (off + n + length s)) = Some s" by simp
qed

interpretation uints: element_reader opts uintElement "\<lambda>v. Kind v = KindUint" Num for opts
proof
  fix v b off rest and src :: bytes
  assume b: "item_bytes opts v b" and "Kind v = KindUint" and src: "drop off src = b @ rest"
    and off: "off < length src" "length src < 2 ^ 48"
  then have "b = AppendHead [] MajorUint (Num v)" by (intro item_bytes_kind)
  with drop_length [OF src off(1)] off go_step [OF off, of "headSize (Num v)"]
  show "uintElement src (ParseHead (b @ rest)) (int off) = Inr (Num v, int (off + length b))"
    by (simp add: uintElement_def ParseHead_AppendHead is_major_def length_AppendHead)
next
  fix v b off rest and src :: bytes
  assume "item_bytes opts v b" and "Kind v \<noteq> KindUint"
  with item_head [of opts v b rest] show "uintElement src (ParseHead (b @ rest)) (int off) = Inl ErrTypeMismatch"
    by (cases "Kind v") (simp_all add: uintElement_def kindMajor_def)
qed

interpretation byteses: element_reader opts bytesElement "\<lambda>v. Kind v = KindBytes" Bstr for opts
proof
  fix v b off rest and src :: bytes
  assume "item_bytes opts v b" and "Kind v = KindBytes" and src: "drop off src = b @ rest"
    and off: "off < length src" "length src < 2 ^ 48"
  then have b: "b = AppendHead [] MajorBytes (of_nat (length (Bstr v))) @ Bstr v" by (intro item_bytes_kind)
  note r = read_string [OF src [unfolded b] off]
  show "bytesElement src (ParseHead (b @ rest)) (int off) = Inr (Bstr v, int (off + length b))"
    using r(5) head_ai_definite [of "of_nat (length (Bstr v))"]
    unfolding b append.assoc ParseHead_AppendHead [OF is_major_consts(3)] bytesElement_def
    by (simp add: Let_def r(1-4,6) length_AppendHead add.assoc [symmetric] del: of_nat_add)
next
  fix v b off rest and src :: bytes
  assume "item_bytes opts v b" and "Kind v \<noteq> KindBytes"
  with item_head [of opts v b rest] show "bytesElement src (ParseHead (b @ rest)) (int off) = Inl ErrTypeMismatch"
    by (cases "Kind v") (simp_all add: bytesElement_def kindMajor_def)
qed

interpretation texts: element_reader opts textElement "\<lambda>v. Kind v = KindText" Str for opts
proof
  fix v b off rest and src :: bytes
  assume "item_bytes opts v b" and "Kind v = KindText" and src: "drop off src = b @ rest"
    and off: "off < length src" "length src < 2 ^ 48"
  then have b: "b = AppendHead [] MajorText (of_nat (length (Str v))) @ Str v" by (intro item_bytes_kind)
  note r = read_string [OF src [unfolded b] off]
  show "textElement src (ParseHead (b @ rest)) (int off) = Inr (Str v, int (off + length b))"
    using r(5) head_ai_definite [of "of_nat (length (Str v))"]
    unfolding b append.assoc ParseHead_AppendHead [OF is_major_consts(4)] textElement_def
    by (simp add: Let_def r(1-4,6) length_AppendHead add.assoc [symmetric] del: of_nat_add)
next
  fix v b off rest and src :: bytes
  assume "item_bytes opts v b" and "Kind v \<noteq> KindText"
  with item_head [of opts v b rest] show "textElement src (ParseHead (b @ rest)) (int off) = Inl ErrTypeMismatch"
    by (cases "Kind v") (simp_all add: textElement_def kindMajor_def)
qed

text \<open>For floats the content is the number that the encoder wrote, whatever width it chose.\<close>

definition floatContent :: "EncodeOpts \<Rightarrow> Value \<Rightarrow> u64" where
  "floatContent opts v = (let c = canon opts v in
     if Kind c = KindFloat32 then f32_to_f64 (Float32Val c) else Float64Val c)"

definition is_float :: "Value \<Rightarrow> bool" where
  "is_float v \<longleftrightarrow> Kind v = KindFloat32 \<or> Kind v = KindFloat64"

definition float_read :: "Value \<Rightarrow> bytes \<Rightarrow> bool" where
  "float_read c b \<longleftrightarrow>
     (\<exists>h. b = AppendFloat16 [] h \<and> c = Float64 (DecodeFloat16 h)) \<or> (\<exists>w. b = AppendFloat32 [] w \<and> c = Float32 w)
     \<or> (\<exists>f. b = AppendFloat64 [] f \<and> c = Float64 f)"

lemma float_read_encoding:
  assumes "item_bytes opts v b" and "is_float v"
  shows "float_read (canon opts v) b"
proof -
  have "encode opts [] v = (b, None)" using assms by (auto simp: item_bytes_def is_float_def)
  with assms(2) show ?thesis
    by (auto simp: is_float_def encode.simps [of opts "[]" v] canon.simps [of opts v] encodeFloat32_def encodeFloat64_def
        appendShortestFloat_def canonFloat32_def canonFloat64_def canonShortest_def Let_def float_read_def
        split: if_splits FloatMode.splits prod.splits bool.splits)
qed

lemma ParseHead_floats:
  "ParseHead (AppendFloat16 [] h @ rest) = \<lparr>Major = MajorOther, AI = AI2Bytes, HeadArg = ucast h, HeadN = 3\<rparr>"
  "ParseHead (AppendFloat32 [] w @ rest) = \<lparr>Major = MajorOther, AI = AI4Bytes, HeadArg = ucast w, HeadN = 5\<rparr>"
  "ParseHead (AppendFloat64 [] f @ rest) = \<lparr>Major = MajorOther, AI = AI8Bytes, HeadArg = f, HeadN = 9\<rparr>"
  by (simp_all add: ParseHead_def Uint_be_bytes AppendFloat16_def AppendFloat32_def AppendFloat64_def
      AppendUint16_def AppendUint32_def AppendUint64_def)

lemma ucast_back: "(ucast (ucast h :: u64) :: u16) = h" "(ucast (ucast w :: u64) :: u32) = w"
  using unat_bounds(2) [of h] unat_bounds(3) [of w] by (auto intro!: word_eqI_unat simp: unat_ucast_mod)

lemma simple_AI:
  assumes "item_bytes opts v b" and "kindMajor (Kind v) = MajorOther" and "\<not> is_float v"
  shows "AI (ParseHead (b @ rest)) \<notin> {AI2Bytes, AI4Bytes, AI8Bytes}"
proof -
  have e: "encode opts [] v = (b, None)"
    using assms(1,2) by (auto simp: item_bytes_def kindMajor_def)
  have "AI (ParseHead ((MajorOther OR s) # rest)) = s" if "s < 24" for s :: byte
    using that by (simp add: ParseHead_def Let_def simple_byte)
  then show ?thesis
    using e assms(2,3) encode_KindInvalid [OF e]
    by (cases "Kind v")
      (auto simp: encode.simps [of opts "[]" v] kindMajor_def is_float_def ParseHead_def Let_def simple_byte
        split: if_splits)
qed

interpretation floats: element_reader opts float64Element is_float "floatContent opts" for opts
proof
  fix v b off rest and src :: bytes
  assume b: "item_bytes opts v b" "is_float v" and src: "drop off src = b @ rest"
    and off: "off < length src" "length src < 2 ^ 48"
  from drop_length [OF src off(1)] go_step [OF off, of "length b"]
  have "go_int (int off + int (length b)) = int (off + length b)" by simp
  with float_read_encoding [OF b]
  show "float64Element src (ParseHead (b @ rest)) (int off) = Inr (floatContent opts v, int (off + length b))"
    by (auto simp: float_read_def float64Element_def ParseHead_floats length_floats floatContent_def Let_def
        ucast_back Float64_def Float32_def)
next
  fix v b off rest and src :: bytes
  assume b: "item_bytes opts v b" and f: "\<not> is_float v"
  show "float64Element src (ParseHead (b @ rest)) (int off) = Inl ErrTypeMismatch"
    using item_head [OF b, of rest] simple_AI [OF b _ f, of rest]
    by (auto simp: float64Element_def Let_def)
qed

section \<open>The decoders on encodings, and on malformed input\<close>

text \<open>C24: Fed the encoding of an array, in any encoder mode and with anything behind it, each typed decoder accepts it
  exactly when every item has its kind, returns the contents in order and stops behind the array; otherwise it
  reports ErrTypeMismatch.\<close>
theorem typed_arrays_type_check:
  assumes "encode opts [] (MakeArray vs) = (out, None)" and "int (length vs) \<le> maxArray dopts"
    and "length (out @ rest) < 2 ^ 43"
  shows "DecodeUintArray (out @ rest) dopts
      = (if \<forall>v \<in> set vs. Kind v = KindUint then (Inr (map Num vs), int (length out))
         else (Inl ErrTypeMismatch, snd (DecodeUintArray (out @ rest) dopts)))
    \<and> DecodeFloat64Array (out @ rest) dopts
      = (if \<forall>v \<in> set vs. is_float v then (Inr (map (floatContent opts) vs), int (length out))
         else (Inl ErrTypeMismatch, snd (DecodeFloat64Array (out @ rest) dopts)))
    \<and> DecodeBytesArray (out @ rest) dopts
      = (if \<forall>v \<in> set vs. Kind v = KindBytes then (Inr (map Bstr vs), int (length out))
         else (Inl ErrTypeMismatch, snd (DecodeBytesArray (out @ rest) dopts)))
    \<and> DecodeTextArray (out @ rest) dopts
      = (if \<forall>v \<in> set vs. Kind v = KindText then (Inr (map Str vs), int (length out))
         else (Inl ErrTypeMismatch, snd (DecodeTextArray (out @ rest) dopts)))"
  using uints.typedArray_encoding [OF assms(1,2) _ _ assms(3), of 8]
    floats.typedArray_encoding [OF assms(1,2) _ _ assms(3), of 8]
    byteses.typedArray_encoding [OF assms(1,2) _ _ assms(3), of 24]
    texts.typedArray_encoding [OF assms(1,2) _ _ assms(3), of 16]
  unfolding DecodeUintArray_def DecodeFloat64Array_def DecodeBytesArray_def DecodeTextArray_def list_all_iff
  by (auto simp: prod_eq_iff)

theorem typed_arrays_type_check_witness:
  "DecodeUintArray [0x82, 1, 0x19, 1, 0, 0xf6] DefaultOpts = (Inr [1, 256], 5)
    \<and> fst (DecodeTextArray [0x82, 1, 0x19, 1, 0, 0xf6] DefaultOpts) = Inl ErrTypeMismatch"
proof -
  have "encode \<lparr>Deterministic = True, EncSortMode = SortBytewiseLex, EncFloatMode = FloatShortest,
      AllowNonFiniteFloats = False, AllowInvalidUTF8 = False, SkipUTF8Validation = False\<rparr> []
      (MakeArray [Uint 1, Uint 256]) = ([0x82, 1, 0x19, 1, 0], None)" by code_simp
  from typed_arrays_type_check [OF this, of DefaultOpts "[0xf6]"] show ?thesis
    by (simp add: maxArray_def DefaultOpts_def Uint_def prod_eq_iff)
qed

text \<open>On lengths with the top bit set the typed decoders panic, where they mean to fail: the count of the array goes
  to \<open>make\<close> unchecked, and so does the length of a byte string, while the bounds of a text slice are swapped. And a
  reserved or indefinite head is read as the number zero.\<close>
lemma typed_arrays_malformed:
  "fst (DecodeUintArray [0x9b, 0xff, 0xff, 0xff, 0xff, 0xff, 0xff, 0xff, 0xff] DefaultOpts) = Inl (CDecode Panic)
    \<and> fst (DecodeBytesArray [0x81, 0x5b, 0xff, 0xff, 0xff, 0xff, 0xff, 0xff, 0xff, 0xff] DefaultOpts) = Inl (CDecode Panic)
    \<and> fst (DecodeTextArray [0x81, 0x7b, 0xff, 0xff, 0xff, 0xff, 0xff, 0xff, 0xff, 0xff] DefaultOpts) = Inl (CDecode Panic)
    \<and> DecodeUintArray [0x82, 0x1c, 0x1f] DefaultOpts = (Inr [0, 0], 3)
    \<and> fst (DecodeWith (NewDecoder []) [0x82, 0x1c, 0x1f]) = Inl (Err ErrReservedAI 1)"
proof (intro conjI)
  have neg: "int_of_u64 (Uint64 [0xff, 0xff, 0xff, 0xff, 0xff, 0xff, 0xff, 0xff]) = - 1"
    by (simp add: Uint64_def int_of_u64_def go_int_def be_val_def)
  have one: "int_of_u64 1 = 1" and two: "int_of_u64 2 = 2" by (simp_all add: int_of_u64_def go_int_def)
  show "fst (DecodeUintArray [0x9b, 0xff, 0xff, 0xff, 0xff, 0xff, 0xff, 0xff, 0xff] DefaultOpts) = Inl (CDecode Panic)"
    by (simp add: DecodeUintArray_def typedArray_def ParseHead_def DefaultOpts_def maxArray_def go_make_def
        neg go_int_def)
  show "fst (DecodeBytesArray [0x81, 0x5b, 0xff, 0xff, 0xff, 0xff, 0xff, 0xff, 0xff, 0xff] DefaultOpts) = Inl (CDecode Panic)"
    by (simp add: DecodeBytesArray_def typedArray_def ParseHead_def DefaultOpts_def maxArray_def go_make_def
        neg go_int_def one Let_def headAt_def bytesElement_def)
  show "fst (DecodeTextArray [0x81, 0x7b, 0xff, 0xff, 0xff, 0xff, 0xff, 0xff, 0xff, 0xff] DefaultOpts) = Inl (CDecode Panic)"
    by (simp add: DecodeTextArray_def typedArray_def ParseHead_def DefaultOpts_def maxArray_def go_make_def
        neg go_int_def one Let_def headAt_def textElement_def go_slice_def)
  show "DecodeUintArray [0x82, 0x1c, 0x1f] DefaultOpts = (Inr [0, 0], 3)"
  proof -
    have "elements uintElement [0x82, 0x1c, 0x1f] (Suc (Suc 0)) 1 = (Inr [0, 0], 3)"
      by (simp add: headAt_def ParseHead_def uintElement_def go_int_def)
    then have "elements uintElement [0x82, 0x1c, 0x1f] 2 1 = (Inr [0, 0], 3)" by (simp only: numeral_2_eq_2)
    then show ?thesis
      by (simp add: DecodeUintArray_def typedArray_def ParseHead_def DefaultOpts_def maxArray_def go_make_def two
          del: elements.simps)
  qed
  show "fst (DecodeWith (NewDecoder []) [0x82, 0x1c, 0x1f]) = Inl (Err ErrReservedAI 1)" by code_simp
qed

end
