(* ===== verification/Cose_Headers.thy ===== *)
theory Cose_Headers
  imports Codec Item_Form
begin

text \<open>
  COSE header parameters (\<^verbatim>\<open>cose/headers.go\<close>): a Go map from labels to values of any type, with a
  cache of its encoding. A map is the list of its entries; the order in which Go iterates over it
  is the parameter \<open>ord\<close>, of which only \<open>reorders ord\<close>, that it permutes the entries, is ever
  assumed. Storing under a label whose type Go cannot hash is a panic.
\<close>

section \<open>Go values in headers\<close>

type_synonym i64 = "64 word"

datatype goval =
    GInt64 i64 | GUint64 u64 | GInt i64 | GString bytes | GBytes bytes | GBool bool | GNil
  | GAlgorithm i64 | GValue Value | GOther nat

definition hashable :: "goval \<Rightarrow> bool" where
  "hashable g = (case g of GBytes _ \<Rightarrow> False | GValue _ \<Rightarrow> False | _ \<Rightarrow> True)"

definition goInt :: "i64 \<Rightarrow> Value" where
  "goInt x = (if 0 \<le> sint x then Uint x else NegInt (- 1 - x))"

definition goToCBOR :: "goval \<Rightarrow> Value" where
  "goToCBOR g = (case g of
      GInt64 x \<Rightarrow> goInt x
    | GUint64 x \<Rightarrow> Uint x
    | GInt x \<Rightarrow> goInt x
    | GString s \<Rightarrow> Text s
    | GBytes b \<Rightarrow> Bytes b
    | GBool b \<Rightarrow> Bool b
    | GNil \<Rightarrow> Null
    | GValue v \<Rightarrow> v
    | GAlgorithm _ \<Rightarrow> Null
    | GOther _ \<Rightarrow> Null)"

definition cborToGo :: "Value \<Rightarrow> goval" where
  "cborToGo v = (case Kind v of
      KindUint \<Rightarrow> GInt64 (UintVal v)
    | KindNegInt \<Rightarrow> GInt64 (- 1 - NegIntVal v)
    | KindText \<Rightarrow> GString (TextVal v)
    | KindBytes \<Rightarrow> GBytes (BytesVal v)
    | KindBool \<Rightarrow> GBool (BoolVal v)
    | KindNull \<Rightarrow> GNil
    | _ \<Rightarrow> GValue v)"

section \<open>Headers\<close>

type_synonym entries = "(goval \<times> goval) list"

record Headers =
  params :: "entries option"
  encodedCache :: bytes
  cacheValid :: bool

definition NoHeaders :: Headers where
  "NoHeaders = \<lparr>params = None, encodedCache = [], cacheValid = False\<rparr>"

definition entriesOf :: "Headers \<Rightarrow> entries" where
  "entriesOf h = (case params h of None \<Rightarrow> [] | Some ps \<Rightarrow> ps)"

definition mapPut :: "goval \<Rightarrow> goval \<Rightarrow> entries \<Rightarrow> entries" where
  "mapPut k v ps = (if k \<in> fst ` set ps then map (\<lambda>p. if fst p = k then (k, v) else p) ps else ps @ [(k, v)])"

text \<open>\<open>Headers.Get\<close> and \<open>Headers.Set\<close>: \<open>None\<close> is the panic on an unhashable label; the inner option of
  \<open>Get\<close> is a missing entry, which reads as nil.\<close>

definition Get :: "goval \<Rightarrow> Headers \<Rightarrow> goval option" where
  "Get label h =
     (case params h of
        None \<Rightarrow> Some GNil
      | Some ps \<Rightarrow> if \<not> hashable label then None
          else Some (case map_of ps label of None \<Rightarrow> GNil | Some v \<Rightarrow> v))"

definition SetHeader :: "goval \<Rightarrow> goval \<Rightarrow> Headers \<Rightarrow> Headers option" where
  "SetHeader label v h =
     (if \<not> hashable label then None
      else Some (h\<lparr>params := Some (mapPut label v (entriesOf h)), cacheValid := False\<rparr>))"

definition headerLabelAlgorithm :: goval where "headerLabelAlgorithm = GInt64 1"
definition headerLabelKeyID :: goval where "headerLabelKeyID = GInt64 4"

definition HeadersAlgorithm :: "Headers \<Rightarrow> i64" where
  "HeadersAlgorithm h = (case Get headerLabelAlgorithm h of
      Some (GInt64 a) \<Rightarrow> a | Some (GAlgorithm a) \<Rightarrow> a | _ \<Rightarrow> 0)"

definition SetAlgorithm :: "i64 \<Rightarrow> Headers \<Rightarrow> Headers" where
  "SetAlgorithm alg h = the (SetHeader headerLabelAlgorithm (GInt64 alg) h)"

definition KeyID :: "Headers \<Rightarrow> bytes option" where
  "KeyID h = (case Get headerLabelKeyID h of Some (GBytes b) \<Rightarrow> Some b | _ \<Rightarrow> None)"

definition SetKeyID :: "bytes \<Rightarrow> Headers \<Rightarrow> Headers" where
  "SetKeyID kid h = the (SetHeader headerLabelKeyID (GBytes kid) h)"

definition IsEmpty :: "Headers \<Rightarrow> bool" where "IsEmpty h \<longleftrightarrow> length (entriesOf h) = 0"

section \<open>Encoding and decoding\<close>

datatype cose_error =
    ErrMalformed | CoseDecode fault | CoseCbor cbor_error | CosePanic
  | ErrVerification | ErrInvalidKey | ErrUnsupportedAlgorithm | ErrDecryption | ErrMACVerification | CoseCrypto

type_synonym order = "entries \<Rightarrow> entries"

definition reorders :: "order \<Rightarrow> bool" where "reorders ord \<longleftrightarrow> (\<forall>ps. mset (ord ps) = mset ps)"

definition sharedEncoder :: Encoder where "sharedEncoder = NewShared ModeCoreDeterministic []"

definition coseEncode :: "Value \<Rightarrow> cose_error + bytes" where
  "coseEncode v = (case Encode sharedEncoder [] v of (_, Some er) \<Rightarrow> Inl (CoseCbor er) | (out, None) \<Rightarrow> Inr out)"

definition headerParamsToMap :: "order \<Rightarrow> entries \<Rightarrow> Value" where
  "headerParamsToMap ord ps =
     (if ps = [] then ZeroValue else MakeMap (map (\<lambda>p. (goToCBOR (fst p), goToCBOR (snd p))) (ord ps)))"

definition encodeHeaderMap :: "order \<Rightarrow> entries \<Rightarrow> cose_error + bytes" where
  "encodeHeaderMap ord ps = coseEncode (headerParamsToMap ord ps)"

text \<open>\<open>encodeProtected\<close>: \<open>Inr None\<close> is the nil slice of empty headers.\<close>

definition encodeProtected :: "order \<Rightarrow> Headers \<Rightarrow> (cose_error + bytes option) \<times> Headers" where
  "encodeProtected ord h =
     (if IsEmpty h then (Inr None, h)
      else if cacheValid h then (Inr (Some (encodedCache h)), h)
      else case encodeHeaderMap ord (entriesOf h) of
        Inl e \<Rightarrow> (Inl e, h)
      | Inr encoded \<Rightarrow> (Inr (Some encoded), h\<lparr>encodedCache := encoded, cacheValid := True\<rparr>))"

definition toCBORMap :: "order \<Rightarrow> Headers \<Rightarrow> Value" where
  "toCBORMap ord h = (if IsEmpty h then MakeMap [] else headerParamsToMap ord (entriesOf h))"

text \<open>The loop that stores the entries of a decoded map, in the order of the map.\<close>

fun storeEntries :: "MapEntry list \<Rightarrow> entries \<Rightarrow> cose_error + entries" where
  "storeEntries [] ps = Inr ps"
| "storeEntries (e # es) ps =
     (if hashable (cborToGo (fst e)) then storeEntries es (mapPut (cborToGo (fst e)) (cborToGo (snd e)) ps)
      else Inl CosePanic)"

definition storedHeaders :: "MapEntry list \<Rightarrow> cose_error + Headers" where
  "storedHeaders m = (case storeEntries m [] of Inl e \<Rightarrow> Inl e | Inr ps \<Rightarrow> Inr (NoHeaders\<lparr>params := Some ps\<rparr>))"

definition decodeProtected :: "bytes \<Rightarrow> cose_error + Headers" where
  "decodeProtected data =
     (if length data = 0 then Inr NoHeaders
      else case fst (DecodeWith (NewDecoder []) data) of
        Inl f \<Rightarrow> Inl (CoseDecode f)
      | Inr v \<Rightarrow> if Kind v \<noteq> KindMap then Inl ErrMalformed else storedHeaders (Pairs v))"

definition decodeUnprotected :: "Value \<Rightarrow> cose_error + Headers" where
  "decodeUnprotected v =
     (if IsZero v then Inr NoHeaders
      else if Kind v \<noteq> KindMap then Inl ErrMalformed
      else if length (Pairs v) = 0 then Inr NoHeaders
      else storedHeaders (Pairs v))"

section \<open>Values that survive the wire\<close>

text \<open>\<open>transports d v w\<close>: the shared encoder encodes \<open>v\<close>, and the default decoder reads \<open>w\<close> back at
  nesting depth \<open>d\<close>.\<close>

definition detOpts :: EncodeOpts where "detOpts = encodeOpts sharedEncoder"

lemma detOpts_fields:
  "Deterministic detOpts" "\<not> AllowInvalidUTF8 detOpts" "\<not> SkipUTF8Validation detOpts"
  by (simp_all add: detOpts_def encodeOpts_def sharedEncoder_def NewShared_def NewEncoder_def)

definition transports :: "nat \<Rightarrow> Value \<Rightarrow> Value \<Rightarrow> bool" where
  "transports d v w \<longleftrightarrow> snd (encode detOpts [] v) = None \<and> canon detOpts v = w
     \<and> accepted DefaultOpts d w \<and> distinct_maps w"

lemma coseEncode_encode: "coseEncode v = Inr out \<longleftrightarrow> encode detOpts [] v = (out, None)"
proof -
  have "valid_mode sharedEncoder" by (simp add: valid_mode_def sharedEncoder_def NewShared_def NewEncoder_def)
  then have "Encode sharedEncoder [] v = (out, None) \<longleftrightarrow> encode detOpts [] v = (out, None)"
    by (simp add: Encode_encode detOpts_def)
  then show ?thesis by (auto simp: coseEncode_def split: prod.splits option.splits)
qed

lemma default_decoder_quiet: "quiet_decoder (NewDecoder [])" "dec_opts (dec_cfg (NewDecoder [])) = DefaultOpts"
  by (simp_all add: quiet_decoder_def NewDecoder_def mkDecoder_def quiet_nil plain_def DefaultOpts_def
      maxBytes_def maxArray_def)

lemma transports_decode:
  assumes "transports 0 v w" and "coseEncode v = Inr out" and "length out < 2 ^ 61"
    and "Kind w = KindTag \<longrightarrow> Num w \<noteq> 55799"
  shows "fst (DecodeWith (NewDecoder []) out) = Inr w"
proof -
  have enc: "encode detOpts [] v = (out, None)" using assms(2) by (simp add: coseEncode_encode)
  have p: "plain DefaultOpts" "\<not> RejectNonShortest DefaultOpts"
    by (simp_all add: plain_def DefaultOpts_def maxBytes_def maxArray_def)
  have "reads DefaultOpts 0 out (canon detOpts v)"
    using encode_reads [OF enc p(1), of 0] p(2) assms(1) by (simp add: transports_def)
  then have "reads DefaultOpts 0 out w" using assms(1) by (simp add: transports_def)
  from DecodeWith_reads [OF default_decoder_quiet(1) this [folded default_decoder_quiet(2)] assms(3,4)]
  show ?thesis by auto
qed

lemma transports_coseEncode: "transports d v w \<Longrightarrow> \<exists>out. coseEncode v = Inr out"
  using coseEncode_encode [of v "fst (encode detOpts [] v)"] by (auto simp: transports_def prod_eq_iff)

lemma encode_det_array: "\<forall>v \<in> set vs. snd (encode detOpts [] v) = None \<Longrightarrow> snd (encode detOpts [] (MakeArray vs)) = None"
  using encodeItems_total [of vs detOpts]
  by (simp add: MakeArray_def encode.simps [of detOpts "[]" "Value KindArray n [] [] xs []" for n xs])

lemma transports_array:
  assumes "list_all2 (transports (d + 1)) vs ws" and "length vs \<le> 2 ^ 20" and "d < 256"
  shows "transports d (MakeArray vs) (MakeArray ws)"
proof -
  have ws: "ws = map (canon detOpts) vs" and each: "\<forall>v \<in> set vs. snd (encode detOpts [] v) = None"
    "\<forall>w \<in> set ws. accepted DefaultOpts (d + 1) w \<and> distinct_maps w"
    using assms(1) by (auto simp: transports_def list_all2_conv_all_nth in_set_conv_nth intro!: nth_equalityI)
  have "accepted DefaultOpts d (MakeArray ws)"
    using each(2) assms(2,3) by (auto simp: accepted_simps ws DefaultOpts_def maxArray_def maxNesting_def)
  moreover have "distinct_maps (MakeArray ws)" using each(2) by (simp add: MakeArray_def)
  moreover have "canon detOpts (MakeArray vs) = MakeArray ws"
    by (simp add: ws MakeArray_def canon.simps [of detOpts "Value KindArray n [] [] xs []" for n xs])
  ultimately show ?thesis using encode_det_array [OF each(1)] by (simp add: transports_def)
qed

lemma transports_tag:
  assumes "transports (d + 1) v w" and "Kind v \<noteq> KindInvalid" and "d < 256"
  shows "transports d (MakeTag i v) (MakeTag i w)"
proof -
  have "snd (encode detOpts [] (MakeTag i v)) = None"
    using assms encode_dst [of detOpts "AppendHead [] MajorTag i" v]
    by (simp add: transports_def MakeTag_def encode.simps [of detOpts "[]" "Value KindTag n [] [] xs []" for n xs])
  moreover have "canon detOpts (MakeTag i v) = MakeTag i w"
    using assms(1) by (simp add: transports_def MakeTag_def canon.simps [of detOpts "Value KindTag n [] [] xs []" for n xs])
  moreover have "accepted DefaultOpts d (MakeTag i w)"
    using assms by (simp add: transports_def accepted_simps DefaultOpts_def maxNesting_def)
  moreover have "distinct_maps (MakeTag i w)" using assms(1) by (simp add: transports_def MakeTag_def)
  ultimately show ?thesis by (simp add: transports_def)
qed

lemma leaf_accepted:
  "length b \<le> 2 ^ 24 \<Longrightarrow> accepted DefaultOpts d (Bytes b)"
  "length s \<le> 2 ^ 24 \<Longrightarrow> accepted DefaultOpts d (Text s)"
  "accepted DefaultOpts d Null" "accepted DefaultOpts d (Bool t)" "accepted DefaultOpts d (Uint n)"
  "accepted DefaultOpts d (NegInt n)"
  by (auto intro!: accepted.intros simp: DefaultOpts_def string_bound_def maxBytes_def)

lemma leaf_encode:
  "encode opts [] (Bytes b) = (AppendHead [] MajorBytes (of_nat (length b)) @ b, None)"
  "utf8_Valid s \<Longrightarrow> encode opts [] (Text s) = (AppendHead [] MajorText (of_nat (length s)) @ s, None)"
  "encode opts [] Null = ([SimpleNull], None)"
  "encode opts [] (Bool t) = ([if t then SimpleTrue else SimpleFalse], None)"
  "encode opts [] (Uint n) = (AppendHead [] MajorUint n, None)"
  "encode opts [] (NegInt n) = (AppendHead [] MajorNegInt n, None)"
  by (simp_all add: encode.simps [of opts "[]" "Value k n s b [] []" for k n s b]
      Bytes_def Text_def Null_def Bool_def Uint_def NegInt_def)

lemma leaf_canon:
  "canon opts (Bytes b) = Bytes b" "canon opts (Text s) = Text s" "canon opts Null = Null"
  "canon opts (Bool t) = Bool t" "canon opts (Uint n) = Uint n" "canon opts (NegInt n) = NegInt n"
  by (simp_all add: canon.simps [of opts "Value k n s b [] []" for k n s b]
      Bytes_def Text_def Null_def Bool_def Uint_def NegInt_def)

lemma leaf_distinct:
  "distinct_maps (Bytes b)" "distinct_maps (Text s)" "distinct_maps Null" "distinct_maps (Bool t)"
  "distinct_maps (Uint n)" "distinct_maps (NegInt n)"
  by (simp_all add: Bytes_def Text_def Null_def Bool_def Uint_def NegInt_def)

lemma transports_leaf:
  "length b \<le> 2 ^ 24 \<Longrightarrow> transports d (Bytes b) (Bytes b)"
  "length s \<le> 2 ^ 24 \<Longrightarrow> utf8_Valid s \<Longrightarrow> transports d (Text s) (Text s)"
  "transports d Null Null" "transports d (Bool t) (Bool t)" "transports d (Uint n) (Uint n)"
  "transports d (NegInt n) (NegInt n)"
  by (simp_all add: transports_def leaf_accepted leaf_encode leaf_canon leaf_distinct)

section \<open>Headers survive the wire\<close>

text \<open>Header values of the types that decoding produces, and labels that Go can hash.\<close>

definition plain_goval :: "goval \<Rightarrow> bool" where
  "plain_goval g = (case g of GInt64 _ \<Rightarrow> True | GString s \<Rightarrow> utf8_Valid s \<and> length s \<le> 2 ^ 24
     | GBytes b \<Rightarrow> length b \<le> 2 ^ 24 | GBool _ \<Rightarrow> True | GNil \<Rightarrow> True | _ \<Rightarrow> False)"

definition plain_entries :: "entries \<Rightarrow> bool" where
  "plain_entries ps \<longleftrightarrow> (\<forall>p \<in> set ps. plain_goval (fst p) \<and> hashable (fst p) \<and> plain_goval (snd p))
     \<and> distinct (map fst ps) \<and> length ps \<le> 2 ^ 20"

lemma plain_goval_transports: "plain_goval g \<Longrightarrow> transports d (goToCBOR g) (goToCBOR g)"
  by (auto simp: plain_goval_def goToCBOR_def goInt_def transports_leaf split: goval.splits)

lemma cborToGo_goToCBOR: "plain_goval g \<Longrightarrow> cborToGo (goToCBOR g) = g"
  by (auto simp: plain_goval_def goToCBOR_def goInt_def cborToGo_def val_defs split: goval.splits)

lemma goToCBOR_inject: "plain_goval g \<Longrightarrow> plain_goval h \<Longrightarrow> goToCBOR g = goToCBOR h \<longleftrightarrow> g = h"
  using cborToGo_goToCBOR by metis

lemma valuesEqual_plain:
  "plain_goval g \<Longrightarrow> plain_goval h \<Longrightarrow> valuesEqual (goToCBOR g) (goToCBOR h) \<longleftrightarrow> g = h"
  by (auto simp: valuesEqual_def plain_goval_def goToCBOR_def goInt_def val_defs split: goval.splits if_splits)

definition entryValue :: "goval \<times> goval \<Rightarrow> MapEntry" where
  "entryValue p = (goToCBOR (fst p), goToCBOR (snd p))"

text \<open>Sorting the entries of a header map is sorting the header parameters.\<close>

lemma entryOrder_entryValue:
  "\<exists>qs. mset qs = mset ps \<and> entryOrder opts (map entryValue ps) = map entryValue qs"
proof (cases "\<not> Deterministic opts \<or> length ps \<le> 1")
  case True
  then show ?thesis by (auto simp: entryOrder_def)
next
  case False
  define h where "h = (\<lambda>p :: MapEntry. fst (encode opts [] (fst p)))"
  have "entryOrder opts (map entryValue ps)
      = SortFunc (\<lambda>a b. compareKeys (EncSortMode opts) (h a) (h b)) (map entryValue ps)"
    using False by (simp add: entryOrder_def h_def)
  also have "\<dots> = map entryValue (SortFunc (\<lambda>a b. compareKeys (EncSortMode opts) (h (entryValue a)) (h (entryValue b))) ps)"
    by (rule SortFunc_map [symmetric])
  finally show ?thesis by (metis mset_SortFunc)
qed

lemma plain_entries_perm: "mset qs = mset ps \<Longrightarrow> plain_entries ps \<Longrightarrow> plain_entries qs"
proof -
  assume m: "mset qs = mset ps" and ps: "plain_entries ps"
  then have "set qs = set ps" "length qs = length ps" by (metis set_mset_mset, metis size_mset)
  moreover have "mset (map fst qs) = mset (map fst ps)" by (simp add: m)
  then have "distinct (map fst qs) = distinct (map fst ps)" by (rule mset_eq_imp_distinct_iff)
  ultimately show ?thesis using ps by (simp add: plain_entries_def)
qed

lemma distinct_keys_plain: "plain_entries ps \<Longrightarrow> distinct_keys (map entryValue ps)"
proof (induction ps)
  case (Cons p ps)
  then have "plain_entries ps" by (simp add: plain_entries_def)
  with Cons show ?case by (force simp: plain_entries_def entryValue_def valuesEqual_plain)
qed simp

lemma transports_map:
  assumes ps: "plain_entries ps" and d: "d < 256"
  shows "\<exists>qs. mset qs = mset ps \<and> transports d (MakeMap (map entryValue ps)) (MakeMap (map entryValue qs))"
proof -
  obtain qs where qs: "mset qs = mset ps" "entryOrder detOpts (map entryValue ps) = map entryValue qs"
    using entryOrder_entryValue by blast
  from plain_entries_perm [OF qs(1) ps] have pq: "plain_entries qs" .
  have each: "transports e (fst p) (fst p) \<and> transports e (snd p) (snd p)"
    if "p \<in> set (map entryValue rs)" "plain_entries rs" for p rs e
    using that plain_goval_transports by (auto simp: plain_entries_def entryValue_def)
  have "canon detOpts (MakeMap (map entryValue ps))
      = MakeMap (map (\<lambda>p. (canon detOpts (fst p), canon detOpts (snd p))) (map entryValue qs))"
    by (simp add: MakeMap_def canon.simps [of detOpts "Value KindMap n [] [] [] ps" for n ps] qs(2))
  also have "map (\<lambda>p. (canon detOpts (fst p), canon detOpts (snd p))) (map entryValue qs) = map entryValue qs"
    using each [OF _ pq, of _ 0] by (intro map_idI) (auto simp: transports_def)
  finally have c: "canon detOpts (MakeMap (map entryValue ps)) = MakeMap (map entryValue qs)" .
  have "snd (encode detOpts [] (MakeMap (map entryValue ps))) = None"
    using encodeMap_total [of "map entryValue ps" detOpts "[]"] each [OF _ ps, of _ 0]
    by (auto simp: transports_def MakeMap_def encode.simps [of detOpts "[]" "Value KindMap n [] [] [] ps" for n ps])
  moreover have "accepted DefaultOpts d (MakeMap (map entryValue qs))"
    using each [OF _ pq, of _ "d + 1"] pq d
    by (intro w_map) (auto simp: transports_def plain_entries_def DefaultOpts_def maxArray_def maxNesting_def)
  moreover have "distinct_maps (MakeMap (map entryValue qs))"
    using each [OF _ pq, of _ 0] distinct_keys_plain [OF pq] by (simp add: MakeMap_def transports_def)
  ultimately show ?thesis using c qs(1) by (auto simp: transports_def)
qed

lemma storeEntries_plain:
  "plain_entries (ps @ qs) \<Longrightarrow> storeEntries (map entryValue qs) ps = Inr (ps @ qs)"
proof (induction qs arbitrary: ps)
  case (Cons q qs)
  then have "mapPut (fst q) (snd q) ps = ps @ [q]" by (auto simp: mapPut_def plain_entries_def)
  with Cons.IH [of "ps @ [q]"] Cons.prems show ?case
    by (simp add: entryValue_def cborToGo_goToCBOR plain_entries_def)
qed simp

lemma storedHeaders_plain:
  "plain_entries qs \<Longrightarrow> storedHeaders (map entryValue qs) = Inr (NoHeaders\<lparr>params := Some qs\<rparr>)"
  using storeEntries_plain [of "[]" qs] by (simp add: storedHeaders_def)

text \<open>Two headers that hold the same parameters, each once.\<close>

definition same_headers :: "Headers \<Rightarrow> Headers \<Rightarrow> bool" where
  "same_headers h h' \<longleftrightarrow> mset (entriesOf h) = mset (entriesOf h')"

definition plain_headers :: "Headers \<Rightarrow> bool" where
  "plain_headers h \<longleftrightarrow> plain_entries (entriesOf h)"

definition cache_ok :: "order \<Rightarrow> Headers \<Rightarrow> bool" where
  "cache_ok ord h \<longleftrightarrow> (cacheValid h \<longrightarrow> encodeHeaderMap ord (entriesOf h) = Inr (encodedCache h))"

lemma same_headers_plain: "same_headers h h' \<Longrightarrow> plain_headers h' \<Longrightarrow> plain_headers h"
  unfolding same_headers_def plain_headers_def by (rule plain_entries_perm)

lemma same_headers_get:
  assumes "same_headers h h'" and "plain_headers h'"
  shows "map_of (entriesOf h) = map_of (entriesOf h')"
proof -
  have "distinct (map fst (entriesOf h))" "distinct (map fst (entriesOf h'))"
    using assms same_headers_plain [OF assms] by (simp_all add: plain_headers_def plain_entries_def)
  moreover have "set (entriesOf h) = set (entriesOf h')" using assms(1) by (metis same_headers_def set_mset_mset)
  ultimately show ?thesis using map_of_inject_set by metis
qed

text \<open>Headers that were decoded carry no cached encoding.\<close>

lemma decoded_no_cache:
  "storedHeaders m = Inr h \<Longrightarrow> \<not> cacheValid h"
  "decodeProtected data = Inr h \<Longrightarrow> \<not> cacheValid h"
  by (auto simp: storedHeaders_def decodeProtected_def NoHeaders_def split: sum.splits if_splits)

lemma toCBORMap_entries:
  assumes "plain_headers h" and "reorders ord" and "d < 256"
  shows "\<exists>qs. mset qs = mset (entriesOf h) \<and> transports d (toCBORMap ord h) (MakeMap (map entryValue qs))"
proof (cases "entriesOf h = []")
  case True
  with transports_map [of "[]" d] assms(3) show ?thesis
    by (simp add: plain_entries_def toCBORMap_def IsEmpty_def)
next
  case False
  define ps where "ps = ord (entriesOf h)"
  have m: "mset ps = mset (entriesOf h)" using assms(2) by (simp add: reorders_def ps_def)
  have ps: "plain_entries ps" using assms(1) plain_entries_perm [OF m] by (simp add: plain_headers_def)
  have "toCBORMap ord h = MakeMap (map entryValue ps)"
    using False by (simp add: toCBORMap_def IsEmpty_def headerParamsToMap_def ps_def entryValue_def [abs_def])
  with transports_map [OF ps assms(3)] m show ?thesis by auto
qed

lemma decodeUnprotected_entries:
  assumes "plain_headers h" and "mset qs = mset (entriesOf h)"
  shows "\<exists>h'. decodeUnprotected (MakeMap (map entryValue qs)) = Inr h' \<and> same_headers h' h"
proof -
  have h: "plain_entries (entriesOf h)" using assms(1) by (simp only: plain_headers_def)
  note qs = plain_entries_perm [OF assms(2) h]
  then show ?thesis
    using storedHeaders_plain [OF qs(1)] assms(2)
    by (cases "qs = []") (auto simp: decodeUnprotected_def MakeMap_def IsZero_def same_headers_def entriesOf_def NoHeaders_def)
qed

lemma toCBORMap_transports:
  assumes "plain_headers h" and "reorders ord" and "d < 256"
  shows "\<exists>m h'. transports d (toCBORMap ord h) m \<and> decodeUnprotected m = Inr h' \<and> same_headers h' h"
  using toCBORMap_entries [OF assms] decodeUnprotected_entries [OF assms(1)] by blast

lemma encodeProtected_decodes:
  assumes "plain_headers h" and "reorders ord" and "cache_ok ord h" and "encodeProtected ord h = (Inr ob, h1)"
    and "length (case ob of None \<Rightarrow> [] | Some b \<Rightarrow> b) < 2 ^ 61"
  shows "\<exists>h'. decodeProtected (case ob of None \<Rightarrow> [] | Some b \<Rightarrow> b) = Inr h' \<and> same_headers h' h"
proof (cases "IsEmpty h")
  case True
  with assms(4) show ?thesis
    by (auto simp: encodeProtected_def decodeProtected_def same_headers_def IsEmpty_def entriesOf_def NoHeaders_def)
next
  case False
  from assms(3,4) False obtain b where b: "ob = Some b" "encodeHeaderMap ord (entriesOf h) = Inr b"
    by (auto simp: encodeProtected_def cache_ok_def split: if_splits sum.splits)
  have ne: "entriesOf h \<noteq> []" using False by (simp add: IsEmpty_def)
  then have v: "headerParamsToMap ord (entriesOf h) = toCBORMap ord h" by (simp add: toCBORMap_def IsEmpty_def)
  obtain qs where qs: "mset qs = mset (entriesOf h)" and t: "transports 0 (toCBORMap ord h) (MakeMap (map entryValue qs))"
    using toCBORMap_entries [OF assms(1,2), of 0] by auto
  obtain h' where h': "decodeUnprotected (MakeMap (map entryValue qs)) = Inr h'" "same_headers h' h"
    using decodeUnprotected_entries [OF assms(1) qs] by blast
  have nq: "qs \<noteq> []" using qs ne by (metis mset_zero_iff)
  have "fst (DecodeWith (NewDecoder []) b) = Inr (MakeMap (map entryValue qs))"
    using transports_decode [OF t] b assms(5) v by (simp add: encodeHeaderMap_def MakeMap_def)
  moreover have "item_form b"
    using b(2) unfolding encodeHeaderMap_def coseEncode_encode by (rule form_encode)
  then have "b \<noteq> []" using length_pos [of b] by simp
  ultimately have "decodeProtected b = Inr h'"
    using h'(1) nq by (simp add: decodeProtected_def decodeUnprotected_def IsZero_def MakeMap_def)
  with h'(2) b(1) show ?thesis by simp
qed

end
