(* ===== verification/Cose_Messages.thy ===== *)
theory Cose_Messages
  imports Cose_Headers
begin

text \<open>
  The six COSE messages (\<^verbatim>\<open>cose/message.go\<close>) and their encoding and decoding
  (\<^verbatim>\<open>cose/marshal.go\<close>). Marshalling caches the encoded protected headers of the message itself,
  so it returns the message; the recipients and signatures of a list are copies there and keep
  their caches. A slice that may be nil is an \<open>option\<close> where nil and empty are encoded differently.
\<close>

section \<open>Messages\<close>

record CoseBase =
  Protected :: Headers
  Unprotected :: Headers

record PayloadMessage = CoseBase +
  Payload :: "bytes option"

record Sign1 = PayloadMessage +
  Signature1 :: bytes

record Mac0 = PayloadMessage +
  MacTag :: bytes

record Encrypt0 = CoseBase +
  Ciphertext :: "bytes option"

record Recipient = CoseBase +
  RecipientCiphertext :: "bytes option"

record Signature = CoseBase +
  SignatureBytes :: bytes

record Sign = PayloadMessage +
  Signatures :: "Signature list"

record Mac = Mac0 +
  MacRecipients :: "Recipient list"

record Encrypt = Encrypt0 +
  Recipients :: "Recipient list"

definition tagSign1 :: u64 where "tagSign1 = 18"
definition tagEncrypt0 :: u64 where "tagEncrypt0 = 16"
definition tagMac0 :: u64 where "tagMac0 = 17"
definition tagEncrypt :: u64 where "tagEncrypt = 96"
definition tagSign :: u64 where "tagSign = 98"
definition tagMac :: u64 where "tagMac = 97"

lemmas tag_defs = tagSign1_def tagEncrypt0_def tagMac0_def tagEncrypt_def tagSign_def tagMac_def

section \<open>Marshalling\<close>

definition orElse :: "cose_error + 'a \<Rightarrow> ('a \<Rightarrow> cose_error + 'b) \<Rightarrow> cose_error + 'b" where
  "orElse r k = (case r of Inl e \<Rightarrow> Inl e | Inr x \<Rightarrow> k x)"

text \<open>\<open>encodeProtected\<close>, with the nil slice replaced by an empty one.\<close>

definition protectedBytes :: "order \<Rightarrow> Headers \<Rightarrow> (cose_error + bytes) \<times> Headers" where
  "protectedBytes ord h = (case encodeProtected ord h of
      (Inl e, h') \<Rightarrow> (Inl e, h')
    | (Inr None, h') \<Rightarrow> (Inr [], h')
    | (Inr (Some b), h') \<Rightarrow> (Inr b, h'))"

definition nullableVal :: "bytes option \<Rightarrow> Value" where
  "nullableVal b = (case b of None \<Rightarrow> Null | Some b \<Rightarrow> Bytes b)"

text \<open>The common part of the marshallers: the protected headers first, then the rest of the array.\<close>

definition marshalWith ::
  "order \<Rightarrow> u64 \<Rightarrow> 'm CoseBase_scheme \<Rightarrow> (bytes \<Rightarrow> cose_error + Value list) \<Rightarrow> (cose_error + bytes) \<times> 'm CoseBase_scheme" where
  "marshalWith ord tid msg body =
     (case protectedBytes ord (Protected msg) of
        (Inl e, h) \<Rightarrow> (Inl e, msg\<lparr>Protected := h\<rparr>)
      | (Inr pb, h) \<Rightarrow>
          (orElse (body pb) (\<lambda>arr. coseEncode (MakeTag tid (MakeArray arr))), msg\<lparr>Protected := h\<rparr>))"

definition MarshalSign1 :: "order \<Rightarrow> Sign1 \<Rightarrow> (cose_error + bytes) \<times> Sign1" where
  "MarshalSign1 ord msg = marshalWith ord tagSign1 msg
     (\<lambda>pb. Inr [Bytes pb, toCBORMap ord (Unprotected msg), nullableVal (Payload msg), Bytes (Signature1 msg)])"

definition MarshalEncrypt0 :: "order \<Rightarrow> Encrypt0 \<Rightarrow> (cose_error + bytes) \<times> Encrypt0" where
  "MarshalEncrypt0 ord msg = marshalWith ord tagEncrypt0 msg
     (\<lambda>pb. Inr [Bytes pb, toCBORMap ord (Unprotected msg), nullableVal (Ciphertext msg)])"

definition MarshalMac0 :: "order \<Rightarrow> Mac0 \<Rightarrow> (cose_error + bytes) \<times> Mac0" where
  "MarshalMac0 ord msg = marshalWith ord tagMac0 msg
     (\<lambda>pb. Inr [Bytes pb, toCBORMap ord (Unprotected msg), nullableVal (Payload msg), Bytes (MacTag msg)])"

text \<open>The loops over recipients and signatures stop at the first error. A nil ciphertext becomes an
  empty byte string here.\<close>

definition unprotectedOrEmpty :: "order \<Rightarrow> Headers \<Rightarrow> Value" where
  "unprotectedOrEmpty ord h = (if IsZero (toCBORMap ord h) then MakeMap [] else toCBORMap ord h)"

definition recipientVal :: "order \<Rightarrow> Recipient \<Rightarrow> cose_error + Value" where
  "recipientVal ord r = orElse (fst (protectedBytes ord (Protected r))) (\<lambda>pb.
     Inr (MakeArray [Bytes pb, unprotectedOrEmpty ord (Unprotected r),
       Bytes (case RecipientCiphertext r of None \<Rightarrow> [] | Some b \<Rightarrow> b)]))"

definition signatureVal :: "order \<Rightarrow> Signature \<Rightarrow> cose_error + Value" where
  "signatureVal ord s = orElse (fst (protectedBytes ord (Protected s))) (\<lambda>pb.
     Inr (MakeArray [Bytes pb, unprotectedOrEmpty ord (Unprotected s), Bytes (SignatureBytes s)]))"

fun mapAll :: "('a \<Rightarrow> cose_error + 'b) \<Rightarrow> 'a list \<Rightarrow> cose_error + 'b list" where
  "mapAll f [] = Inr []"
| "mapAll f (x # xs) = orElse (f x) (\<lambda>y. orElse (mapAll f xs) (\<lambda>ys. Inr (y # ys)))"

definition MarshalEncrypt :: "order \<Rightarrow> Encrypt \<Rightarrow> (cose_error + bytes) \<times> Encrypt" where
  "MarshalEncrypt ord msg = marshalWith ord tagEncrypt msg
     (\<lambda>pb. orElse (mapAll (recipientVal ord) (Recipients msg)) (\<lambda>rs.
        Inr [Bytes pb, toCBORMap ord (Unprotected msg), nullableVal (Ciphertext msg), MakeArray rs]))"

definition MarshalSign :: "order \<Rightarrow> Sign \<Rightarrow> (cose_error + bytes) \<times> Sign" where
  "MarshalSign ord msg = marshalWith ord tagSign msg
     (\<lambda>pb. orElse (mapAll (signatureVal ord) (Signatures msg)) (\<lambda>ss.
        Inr [Bytes pb, toCBORMap ord (Unprotected msg), nullableVal (Payload msg), MakeArray ss]))"

definition MarshalMac :: "order \<Rightarrow> Mac \<Rightarrow> (cose_error + bytes) \<times> Mac" where
  "MarshalMac ord msg = marshalWith ord tagMac msg
     (\<lambda>pb. orElse (mapAll (recipientVal ord) (MacRecipients msg)) (\<lambda>rs.
        Inr [Bytes pb, toCBORMap ord (Unprotected msg), nullableVal (Payload msg), Bytes (MacTag msg), MakeArray rs]))"

section \<open>Unmarshalling\<close>

text \<open>Every error is reported as a malformed message; a panic is not an error and passes through.\<close>

definition wrapMalformed :: "cose_error + 'a \<Rightarrow> cose_error + 'a" where
  "wrapMalformed r = (case r of
      Inr x \<Rightarrow> Inr x
    | Inl e \<Rightarrow> if e = CosePanic \<or> e = CoseDecode Panic then Inl CosePanic else Inl ErrMalformed)"

text \<open>The array of a message, behind its tag or without one.\<close>

definition messageArray :: "u64 \<Rightarrow> bytes \<Rightarrow> cose_error + Value list" where
  "messageArray tid data =
     (case fst (DecodeWith (NewDecoder []) data) of
        Inl f \<Rightarrow> wrapMalformed (Inl (CoseDecode f))
      | Inr v \<Rightarrow>
          (case Kind v of
             KindTag \<Rightarrow>
               if TagID v \<noteq> tid then Inl ErrMalformed
               else if Kind (TagInner v) \<noteq> KindArray then Inl ErrMalformed
               else Inr (Items (TagInner v))
           | KindArray \<Rightarrow> Inr (Items v)
           | _ \<Rightarrow> Inl ErrMalformed))"

definition bstrField :: "Value \<Rightarrow> cose_error + bytes" where
  "bstrField v = (if Kind v \<noteq> KindBytes then Inl ErrMalformed else Inr (BytesVal v))"

definition nullableField :: "Value \<Rightarrow> cose_error + bytes option" where
  "nullableField v = (case Kind v of
      KindBytes \<Rightarrow> Inr (Some (BytesVal v)) | KindNull \<Rightarrow> Inr None | _ \<Rightarrow> Inl ErrMalformed)"

definition arrayField :: "Value \<Rightarrow> cose_error + Value list" where
  "arrayField v = (if Kind v \<noteq> KindArray then Inl ErrMalformed else Inr (Items v))"

text \<open>The first two fields of a message, a recipient or a signature.\<close>

definition headerFields :: "Value \<Rightarrow> Value \<Rightarrow> cose_error + CoseBase" where
  "headerFields p u = orElse (bstrField p) (\<lambda>pb.
     orElse (wrapMalformed (decodeProtected pb)) (\<lambda>prot.
     orElse (wrapMalformed (decodeUnprotected u)) (\<lambda>unprot.
     Inr \<lparr>Protected = prot, Unprotected = unprot\<rparr>)))"

definition sized :: "nat \<Rightarrow> Value list \<Rightarrow> cose_error + Value list" where
  "sized n arr = (if length arr \<noteq> n then Inl ErrMalformed else Inr arr)"

definition UnmarshalSign1 :: "bytes \<Rightarrow> cose_error + Sign1" where
  "UnmarshalSign1 data = orElse (orElse (messageArray tagSign1 data) (sized 4)) (\<lambda>arr.
     orElse (headerFields (arr ! 0) (arr ! 1)) (\<lambda>hs.
     orElse (nullableField (arr ! 2)) (\<lambda>payload.
     orElse (bstrField (arr ! 3)) (\<lambda>sig.
     Inr \<lparr>Protected = Protected hs, Unprotected = Unprotected hs, Payload = payload, Signature1 = sig\<rparr>))))"

definition UnmarshalEncrypt0 :: "bytes \<Rightarrow> cose_error + Encrypt0" where
  "UnmarshalEncrypt0 data = orElse (orElse (messageArray tagEncrypt0 data) (sized 3)) (\<lambda>arr.
     orElse (headerFields (arr ! 0) (arr ! 1)) (\<lambda>hs.
     orElse (nullableField (arr ! 2)) (\<lambda>ciphertext.
     Inr \<lparr>Protected = Protected hs, Unprotected = Unprotected hs, Ciphertext = ciphertext\<rparr>)))"

definition UnmarshalMac0 :: "bytes \<Rightarrow> cose_error + Mac0" where
  "UnmarshalMac0 data = orElse (orElse (messageArray tagMac0 data) (sized 4)) (\<lambda>arr.
     orElse (headerFields (arr ! 0) (arr ! 1)) (\<lambda>hs.
     orElse (nullableField (arr ! 2)) (\<lambda>payload.
     orElse (bstrField (arr ! 3)) (\<lambda>tag.
     Inr \<lparr>Protected = Protected hs, Unprotected = Unprotected hs, Payload = payload, MacTag = tag\<rparr>))))"

definition recipientOf :: "Value \<Rightarrow> cose_error + Recipient" where
  "recipientOf rv = orElse (orElse (arrayField rv) (sized 3)) (\<lambda>arr.
     orElse (headerFields (arr ! 0) (arr ! 1)) (\<lambda>hs.
     orElse (nullableField (arr ! 2)) (\<lambda>ciphertext.
     Inr \<lparr>Protected = Protected hs, Unprotected = Unprotected hs, RecipientCiphertext = ciphertext\<rparr>)))"

definition signatureOf :: "Value \<Rightarrow> cose_error + Signature" where
  "signatureOf sv = orElse (orElse (arrayField sv) (sized 3)) (\<lambda>arr.
     orElse (headerFields (arr ! 0) (arr ! 1)) (\<lambda>hs.
     orElse (bstrField (arr ! 2)) (\<lambda>sig.
     Inr \<lparr>Protected = Protected hs, Unprotected = Unprotected hs, SignatureBytes = sig\<rparr>)))"

definition UnmarshalEncrypt :: "bytes \<Rightarrow> cose_error + Encrypt" where
  "UnmarshalEncrypt data = orElse (orElse (messageArray tagEncrypt data) (sized 4)) (\<lambda>arr.
     orElse (headerFields (arr ! 0) (arr ! 1)) (\<lambda>hs.
     orElse (nullableField (arr ! 2)) (\<lambda>ciphertext.
     orElse (orElse (arrayField (arr ! 3)) (mapAll recipientOf)) (\<lambda>rs.
     Inr \<lparr>Protected = Protected hs, Unprotected = Unprotected hs, Ciphertext = ciphertext, Recipients = rs\<rparr>))))"

definition UnmarshalSign :: "bytes \<Rightarrow> cose_error + Sign" where
  "UnmarshalSign data = orElse (orElse (messageArray tagSign data) (sized 4)) (\<lambda>arr.
     orElse (headerFields (arr ! 0) (arr ! 1)) (\<lambda>hs.
     orElse (nullableField (arr ! 2)) (\<lambda>payload.
     orElse (orElse (arrayField (arr ! 3)) (mapAll signatureOf)) (\<lambda>ss.
     Inr \<lparr>Protected = Protected hs, Unprotected = Unprotected hs, Payload = payload, Signatures = ss\<rparr>))))"

definition UnmarshalMac :: "bytes \<Rightarrow> cose_error + Mac" where
  "UnmarshalMac data = orElse (orElse (messageArray tagMac data) (sized 5)) (\<lambda>arr.
     orElse (headerFields (arr ! 0) (arr ! 1)) (\<lambda>hs.
     orElse (nullableField (arr ! 2)) (\<lambda>payload.
     orElse (bstrField (arr ! 3)) (\<lambda>tag.
     orElse (orElse (arrayField (arr ! 4)) (mapAll recipientOf)) (\<lambda>rs.
     Inr \<lparr>Protected = Protected hs, Unprotected = Unprotected hs, Payload = payload, MacTag = tag,
          MacRecipients = rs\<rparr>)))))"

section \<open>Round trips\<close>

lemma orElse_Inr [simp]: "orElse (Inr x) k = k x" by (simp add: orElse_def)
lemma orElse_Inl [simp]: "orElse (Inl e) k = Inl e" by (simp add: orElse_def)

lemma orElse_eq_Inr: "orElse r k = Inr y \<longleftrightarrow> (\<exists>x. r = Inr x \<and> k x = Inr y)"
  by (cases r) auto

lemma wrapMalformed_Inr [simp]: "wrapMalformed (Inr x) = Inr x" by (simp add: wrapMalformed_def)

lemma sized_ok [simp]: "length arr = n \<Longrightarrow> sized n arr = Inr arr" by (simp add: sized_def)

lemma mapAll_ok: "mapAll f xs = Inr ys \<longleftrightarrow> list_all2 (\<lambda>x y. f x = Inr y) xs ys"
proof (induction xs arbitrary: ys)
  case (Cons x xs)
  then show ?case by (cases ys) (auto simp: orElse_eq_Inr list_all2_Cons1)
qed auto

text \<open>Headers that survive the wire, with a cache that is the encoding of the parameters and an encoding
  of at most 16 MiB.\<close>

definition headers_ok :: "order \<Rightarrow> Headers \<Rightarrow> bool" where
  "headers_ok ord h \<longleftrightarrow> plain_headers h \<and> cache_ok ord h
     \<and> (case fst (protectedBytes ord h) of Inl _ \<Rightarrow> True | Inr b \<Rightarrow> length b \<le> 2 ^ 24)"

definition base_ok :: "order \<Rightarrow> 'm CoseBase_scheme \<Rightarrow> bool" where
  "base_ok ord m \<longleftrightarrow> headers_ok ord (Protected m) \<and> plain_headers (Unprotected m)"

definition same_base :: "'m CoseBase_scheme \<Rightarrow> 'n CoseBase_scheme \<Rightarrow> bool" where
  "same_base m m' \<longleftrightarrow> same_headers (Protected m) (Protected m') \<and> same_headers (Unprotected m) (Unprotected m')"

definition small :: "bytes option \<Rightarrow> bool" where
  "small b \<longleftrightarrow> (case b of None \<Rightarrow> True | Some b \<Rightarrow> length b \<le> 2 ^ 24)"

lemma headerFields_round_trip:
  assumes ord: "reorders ord" and ok: "base_ok ord m" and pb: "fst (protectedBytes ord (Protected m)) = Inr pb" and d: "d < 256"
  shows "\<exists>u hs. transports d (toCBORMap ord (Unprotected m)) u \<and> transports d (Bytes pb) (Bytes pb)
    \<and> headerFields (Bytes pb) u = Inr hs \<and> same_base hs m"
proof -
  have "plain_headers (Unprotected m)" using ok by (simp add: base_ok_def)
  from toCBORMap_transports [OF this ord d] obtain u h
    where u: "transports d (toCBORMap ord (Unprotected m)) u" "decodeUnprotected u = Inr h"
      "same_headers h (Unprotected m)" by blast
  have len: "length pb \<le> 2 ^ 24" using ok pb by (simp add: base_ok_def headers_ok_def)
  obtain ob h1 where ob: "encodeProtected ord (Protected m) = (Inr ob, h1)" "pb = (case ob of None \<Rightarrow> [] | Some b \<Rightarrow> b)"
    using pb by (auto simp: protectedBytes_def split: prod.splits sum.splits option.splits)
  obtain h' where h': "decodeProtected pb = Inr h'" "same_headers h' (Protected m)"
    using encodeProtected_decodes [OF _ ord _ ob(1)] ok len
    unfolding ob(2) [symmetric] by (auto simp: base_ok_def headers_ok_def)
  have "headerFields (Bytes pb) u = Inr \<lparr>Protected = h', Unprotected = h\<rparr>"
    by (simp add: headerFields_def bstrField_def Bytes_def h' u)
  with u h' len transports_leaf(1) [of pb d] show ?thesis by (auto simp: same_base_def)
qed

lemma nullable_round_trip:
  "small b \<Longrightarrow> transports d (nullableVal b) (nullableVal b)"
  by (auto simp: small_def nullableVal_def transports_leaf split: option.splits)

lemma nullableField_nullableVal [simp]: "nullableField (nullableVal b) = Inr b"
  by (simp add: nullableVal_def nullableField_def Null_def Bytes_def split: option.splits)

lemma bstr_round_trip: "bstrField (Bytes b) = Inr b"
  by (simp add: bstrField_def Bytes_def)

text \<open>A message whose fields survive two levels down is read back behind its tag.\<close>

lemma message_round_trip:
  assumes "list_all2 (transports 2) vs ws" and "length vs \<le> 2 ^ 20" and "tid \<noteq> 55799"
    and "coseEncode (MakeTag tid (MakeArray vs)) = Inr out" and "length out < 2 ^ 61"
  shows "messageArray tid out = Inr ws"
proof -
  have "transports 1 (MakeArray vs) (MakeArray ws)" using transports_array [of 1 vs ws, unfolded one_add_one] assms(1,2) by simp
  then have "transports 0 (MakeTag tid (MakeArray vs)) (MakeTag tid (MakeArray ws))"
    using transports_tag [of 0 "MakeArray vs" "MakeArray ws" tid] by (simp add: MakeArray_def)
  from transports_decode [OF this assms(4,5)] assms(3) show ?thesis
    by (simp add: messageArray_def MakeTag_def MakeArray_def TagInner_def)
qed

lemma marshalWith_ok:
  assumes "marshalWith ord tid msg body = (Inr out, msg')"
  obtains pb arr where "fst (protectedBytes ord (Protected msg)) = Inr pb" and "body pb = Inr arr"
    and "coseEncode (MakeTag tid (MakeArray arr)) = Inr out"
  using assms by (auto simp: marshalWith_def orElse_eq_Inr split: prod.splits sum.splits)

lemma Sign1_round_trip:
  assumes "reorders ord" and "base_ok ord msg" and "small (Payload msg)" and "length (Signature1 msg) \<le> 2 ^ 24"
    and "MarshalSign1 ord msg = (Inr out, msg')" and "length out < 2 ^ 61"
  shows "\<exists>m. UnmarshalSign1 out = Inr m \<and> same_base m msg \<and> Payload m = Payload msg \<and> Signature1 m = Signature1 msg"
proof -
  from assms(5) obtain pb where pb: "fst (protectedBytes ord (Protected msg)) = Inr pb"
    and out: "coseEncode (MakeTag tagSign1 (MakeArray [Bytes pb, toCBORMap ord (Unprotected msg),
      nullableVal (Payload msg), Bytes (Signature1 msg)])) = Inr out"
    unfolding MarshalSign1_def by (rule marshalWith_ok) simp
  obtain u hs where u: "transports 2 (toCBORMap ord (Unprotected msg)) u" "transports 2 (Bytes pb) (Bytes pb)"
      "headerFields (Bytes pb) u = Inr hs" "same_base hs msg"
    using headerFields_round_trip [OF assms(1,2) pb, of 2] by auto
  have "messageArray tagSign1 out = Inr [Bytes pb, u, nullableVal (Payload msg), Bytes (Signature1 msg)]"
    by (rule message_round_trip [OF _ _ _ out assms(6)])
      (use assms(3,4) u in \<open>simp_all add: nullable_round_trip transports_leaf tag_defs\<close>)
  with u show ?thesis
    by (simp add: UnmarshalSign1_def bstr_round_trip same_base_def)
qed

lemma Mac0_round_trip:
  assumes "reorders ord" and "base_ok ord msg" and "small (Payload msg)" and "length (MacTag msg) \<le> 2 ^ 24"
    and "MarshalMac0 ord msg = (Inr out, msg')" and "length out < 2 ^ 61"
  shows "\<exists>m. UnmarshalMac0 out = Inr m \<and> same_base m msg \<and> Payload m = Payload msg \<and> MacTag m = MacTag msg"
proof -
  from assms(5) obtain pb where pb: "fst (protectedBytes ord (Protected msg)) = Inr pb"
    and out: "coseEncode (MakeTag tagMac0 (MakeArray [Bytes pb, toCBORMap ord (Unprotected msg),
      nullableVal (Payload msg), Bytes (MacTag msg)])) = Inr out"
    unfolding MarshalMac0_def by (rule marshalWith_ok) simp
  obtain u hs where u: "transports 2 (toCBORMap ord (Unprotected msg)) u" "transports 2 (Bytes pb) (Bytes pb)"
      "headerFields (Bytes pb) u = Inr hs" "same_base hs msg"
    using headerFields_round_trip [OF assms(1,2) pb, of 2] by auto
  have "messageArray tagMac0 out = Inr [Bytes pb, u, nullableVal (Payload msg), Bytes (MacTag msg)]"
    by (rule message_round_trip [OF _ _ _ out assms(6)])
      (use assms(3,4) u in \<open>simp_all add: nullable_round_trip transports_leaf tag_defs\<close>)
  with u show ?thesis
    by (simp add: UnmarshalMac0_def bstr_round_trip same_base_def)
qed

lemma Encrypt0_round_trip:
  assumes "reorders ord" and "base_ok ord msg" and "small (Ciphertext msg)"
    and "MarshalEncrypt0 ord msg = (Inr out, msg')" and "length out < 2 ^ 61"
  shows "\<exists>m. UnmarshalEncrypt0 out = Inr m \<and> same_base m msg \<and> Ciphertext m = Ciphertext msg"
proof -
  from assms(4) obtain pb where pb: "fst (protectedBytes ord (Protected msg)) = Inr pb"
    and out: "coseEncode (MakeTag tagEncrypt0 (MakeArray [Bytes pb, toCBORMap ord (Unprotected msg),
      nullableVal (Ciphertext msg)])) = Inr out"
    unfolding MarshalEncrypt0_def by (rule marshalWith_ok) simp
  obtain u hs where u: "transports 2 (toCBORMap ord (Unprotected msg)) u" "transports 2 (Bytes pb) (Bytes pb)"
      "headerFields (Bytes pb) u = Inr hs" "same_base hs msg"
    using headerFields_round_trip [OF assms(1,2) pb, of 2] by auto
  have "messageArray tagEncrypt0 out = Inr [Bytes pb, u, nullableVal (Ciphertext msg)]"
    by (rule message_round_trip [OF _ _ _ out assms(5)])
      (use assms(3) u in \<open>simp_all add: nullable_round_trip tag_defs\<close>)
  with u show ?thesis
    by (simp add: UnmarshalEncrypt0_def same_base_def)
qed

section \<open>Lists of recipients and signatures\<close>

lemma mapAll_round_trip:
  assumes "\<And>x v. x \<in> set xs \<Longrightarrow> f x = Inr v \<Longrightarrow> \<exists>w y. T v w \<and> g w = Inr y \<and> R y x"
    and "mapAll f xs = Inr vs"
  shows "\<exists>ws ys. list_all2 T vs ws \<and> mapAll g ws = Inr ys \<and> list_all2 R ys xs"
  using assms
proof (induction xs arbitrary: vs)
  case (Cons x xs)
  from Cons.prems(2) obtain v vs' where v: "f x = Inr v" "mapAll f xs = Inr vs'" "vs = v # vs'"
    by (auto simp: orElse_eq_Inr)
  obtain w y where "T v w" "g w = Inr y" "R y x" using Cons.prems(1) [of x v] v by auto
  moreover obtain ws ys where "list_all2 T vs' ws" "mapAll g ws = Inr ys" "list_all2 R ys xs"
    using Cons.IH [OF Cons.prems(1) v(2)] by auto
  ultimately show ?case using v(3) by (intro exI [of _ "w # ws"] exI [of _ "y # ys"]) simp
qed simp

lemma unprotectedOrEmpty_map [simp]: "unprotectedOrEmpty ord h = toCBORMap ord h"
  by (simp add: unprotectedOrEmpty_def toCBORMap_def headerParamsToMap_def IsEmpty_def IsZero_def MakeMap_def)

definition recipient_ok :: "order \<Rightarrow> Recipient \<Rightarrow> bool" where
  "recipient_ok ord r \<longleftrightarrow> base_ok ord r \<and> small (RecipientCiphertext r)"

definition same_recipient :: "Recipient \<Rightarrow> Recipient \<Rightarrow> bool" where
  "same_recipient r' r \<longleftrightarrow> same_base r' r
     \<and> RecipientCiphertext r' = Some (case RecipientCiphertext r of None \<Rightarrow> [] | Some b \<Rightarrow> b)"

definition signature_ok :: "order \<Rightarrow> Signature \<Rightarrow> bool" where
  "signature_ok ord s \<longleftrightarrow> base_ok ord s \<and> length (SignatureBytes s) \<le> 2 ^ 24"

definition same_signature :: "Signature \<Rightarrow> Signature \<Rightarrow> bool" where
  "same_signature s' s \<longleftrightarrow> same_base s' s \<and> SignatureBytes s' = SignatureBytes s"

lemma recipient_round_trip:
  assumes ord: "reorders ord" and ok: "recipient_ok ord r" and v: "recipientVal ord r = Inr v"
  shows "\<exists>w r'. transports 3 v w \<and> recipientOf w = Inr r' \<and> same_recipient r' r"
proof -
  define b where "b = (case RecipientCiphertext r of None \<Rightarrow> [] | Some b \<Rightarrow> b)"
  from v obtain pb where pb: "fst (protectedBytes ord (Protected r)) = Inr pb"
    and v: "v = MakeArray [Bytes pb, toCBORMap ord (Unprotected r), Bytes b]"
    by (auto simp: recipientVal_def orElse_eq_Inr b_def)
  have base: "base_ok ord r" and len: "length b \<le> 2 ^ 24"
    using ok by (auto simp: recipient_ok_def small_def b_def split: option.splits)
  obtain u hs where u: "transports 4 (toCBORMap ord (Unprotected r)) u" "transports 4 (Bytes pb) (Bytes pb)"
      "headerFields (Bytes pb) u = Inr hs" "same_base hs r"
    using headerFields_round_trip [OF ord base pb, of 4] by auto
  have "transports 3 v (MakeArray [Bytes pb, u, Bytes b])"
    unfolding v using u len by (intro transports_array) (simp_all add: transports_leaf)
  moreover have "recipientOf (MakeArray [Bytes pb, u, Bytes b])
      = Inr \<lparr>Protected = Protected hs, Unprotected = Unprotected hs, RecipientCiphertext = Some b\<rparr>"
    using u(3) by (simp add: recipientOf_def arrayField_def MakeArray_def nullableField_def)
      (simp add: Bytes_def)
  ultimately show ?thesis using u(4) by (auto simp: same_recipient_def same_base_def b_def)
qed

lemma signature_round_trip:
  assumes ord: "reorders ord" and ok: "signature_ok ord s" and v: "signatureVal ord s = Inr v"
  shows "\<exists>w s'. transports 3 v w \<and> signatureOf w = Inr s' \<and> same_signature s' s"
proof -
  from v obtain pb where pb: "fst (protectedBytes ord (Protected s)) = Inr pb"
    and v: "v = MakeArray [Bytes pb, toCBORMap ord (Unprotected s), Bytes (SignatureBytes s)]"
    by (auto simp: signatureVal_def orElse_eq_Inr)
  have base: "base_ok ord s" and len: "length (SignatureBytes s) \<le> 2 ^ 24"
    using ok by (simp_all add: signature_ok_def)
  obtain u hs where u: "transports 4 (toCBORMap ord (Unprotected s)) u" "transports 4 (Bytes pb) (Bytes pb)"
      "headerFields (Bytes pb) u = Inr hs" "same_base hs s"
    using headerFields_round_trip [OF ord base pb, of 4] by auto
  have "transports 3 v (MakeArray [Bytes pb, u, Bytes (SignatureBytes s)])"
    unfolding v using u len by (intro transports_array) (simp_all add: transports_leaf)
  moreover have "signatureOf (MakeArray [Bytes pb, u, Bytes (SignatureBytes s)])
      = Inr \<lparr>Protected = Protected hs, Unprotected = Unprotected hs, SignatureBytes = SignatureBytes s\<rparr>"
    using u(3) by (simp add: signatureOf_def arrayField_def MakeArray_def bstr_round_trip)
  ultimately show ?thesis using u(4) by (auto simp: same_signature_def same_base_def)
qed

text \<open>A whole list of them as the last field of a message.\<close>

lemma list_field_round_trip:
  assumes "\<And>x v. x \<in> set xs \<Longrightarrow> f x = Inr v \<Longrightarrow> \<exists>w y. transports 3 v w \<and> g w = Inr y \<and> R y x"
    and "mapAll f xs = Inr vs" and "length xs \<le> 2 ^ 20"
  shows "\<exists>a ys. transports 2 (MakeArray vs) a \<and> orElse (arrayField a) (mapAll g) = Inr ys \<and> list_all2 R ys xs"
proof -
  obtain ws ys where w: "list_all2 (transports 3) vs ws" "mapAll g ws = Inr ys" "list_all2 R ys xs"
    using mapAll_round_trip [of xs f "transports 3" g R vs, OF assms(1) assms(2)] by blast
  have "length vs = length xs" using assms(2) by (auto simp: mapAll_ok dest: list_all2_lengthD)
  then have "transports 2 (MakeArray vs) (MakeArray ws)"
    using transports_array [of 2 vs ws] w(1) assms(3) by simp
  then show ?thesis using w by (intro exI [of _ "MakeArray ws"] exI [of _ ys]) (simp add: arrayField_def MakeArray_def)
qed

lemma Encrypt_round_trip:
  assumes "reorders ord" and "base_ok ord msg" and "small (Ciphertext msg)"
    and rs: "\<forall>r \<in> set (Recipients msg). recipient_ok ord r" "length (Recipients msg) \<le> 2 ^ 20"
    and "MarshalEncrypt ord msg = (Inr out, msg')" and "length out < 2 ^ 61"
  shows "\<exists>m. UnmarshalEncrypt out = Inr m \<and> same_base m msg \<and> Ciphertext m = Ciphertext msg
    \<and> list_all2 same_recipient (Recipients m) (Recipients msg)"
proof -
  from assms(6) obtain pb vs where pb: "fst (protectedBytes ord (Protected msg)) = Inr pb"
    and vs: "mapAll (recipientVal ord) (Recipients msg) = Inr vs"
    and out: "coseEncode (MakeTag tagEncrypt (MakeArray [Bytes pb, toCBORMap ord (Unprotected msg),
      nullableVal (Ciphertext msg), MakeArray vs])) = Inr out"
    unfolding MarshalEncrypt_def by (rule marshalWith_ok) (auto simp: orElse_eq_Inr)
  obtain u hs where u: "transports 2 (toCBORMap ord (Unprotected msg)) u" "transports 2 (Bytes pb) (Bytes pb)"
      "headerFields (Bytes pb) u = Inr hs" "same_base hs msg"
    using headerFields_round_trip [OF assms(1,2) pb, of 2] by auto
  obtain a ys where a: "transports 2 (MakeArray vs) a" "orElse (arrayField a) (mapAll recipientOf) = Inr ys"
      "list_all2 same_recipient ys (Recipients msg)"
    using list_field_round_trip [OF _ vs rs(2), of recipientOf same_recipient] recipient_round_trip [OF assms(1)] rs(1)
    by blast
  have "messageArray tagEncrypt out = Inr [Bytes pb, u, nullableVal (Ciphertext msg), a]"
    by (rule message_round_trip [OF _ _ _ out assms(7)])
      (use assms(3) u a in \<open>simp_all add: nullable_round_trip tag_defs\<close>)
  with u a show ?thesis by (simp add: UnmarshalEncrypt_def same_base_def)
qed

lemma Sign_round_trip:
  assumes "reorders ord" and "base_ok ord msg" and "small (Payload msg)"
    and ss: "\<forall>s \<in> set (Signatures msg). signature_ok ord s" "length (Signatures msg) \<le> 2 ^ 20"
    and "MarshalSign ord msg = (Inr out, msg')" and "length out < 2 ^ 61"
  shows "\<exists>m. UnmarshalSign out = Inr m \<and> same_base m msg \<and> Payload m = Payload msg
    \<and> list_all2 same_signature (Signatures m) (Signatures msg)"
proof -
  from assms(6) obtain pb vs where pb: "fst (protectedBytes ord (Protected msg)) = Inr pb"
    and vs: "mapAll (signatureVal ord) (Signatures msg) = Inr vs"
    and out: "coseEncode (MakeTag tagSign (MakeArray [Bytes pb, toCBORMap ord (Unprotected msg),
      nullableVal (Payload msg), MakeArray vs])) = Inr out"
    unfolding MarshalSign_def by (rule marshalWith_ok) (auto simp: orElse_eq_Inr)
  obtain u hs where u: "transports 2 (toCBORMap ord (Unprotected msg)) u" "transports 2 (Bytes pb) (Bytes pb)"
      "headerFields (Bytes pb) u = Inr hs" "same_base hs msg"
    using headerFields_round_trip [OF assms(1,2) pb, of 2] by auto
  obtain a ys where a: "transports 2 (MakeArray vs) a" "orElse (arrayField a) (mapAll signatureOf) = Inr ys"
      "list_all2 same_signature ys (Signatures msg)"
    using list_field_round_trip [OF _ vs ss(2), of signatureOf same_signature] signature_round_trip [OF assms(1)] ss(1)
    by blast
  have "messageArray tagSign out = Inr [Bytes pb, u, nullableVal (Payload msg), a]"
    by (rule message_round_trip [OF _ _ _ out assms(7)])
      (use assms(3) u a in \<open>simp_all add: nullable_round_trip tag_defs\<close>)
  with u a show ?thesis by (simp add: UnmarshalSign_def same_base_def)
qed

lemma Mac_round_trip:
  assumes "reorders ord" and "base_ok ord msg" and "small (Payload msg)" and "length (MacTag msg) \<le> 2 ^ 24"
    and rs: "\<forall>r \<in> set (MacRecipients msg). recipient_ok ord r" "length (MacRecipients msg) \<le> 2 ^ 20"
    and "MarshalMac ord msg = (Inr out, msg')" and "length out < 2 ^ 61"
  shows "\<exists>m. UnmarshalMac out = Inr m \<and> same_base m msg \<and> Payload m = Payload msg \<and> MacTag m = MacTag msg
    \<and> list_all2 same_recipient (MacRecipients m) (MacRecipients msg)"
proof -
  from assms(7) obtain pb vs where pb: "fst (protectedBytes ord (Protected msg)) = Inr pb"
    and vs: "mapAll (recipientVal ord) (MacRecipients msg) = Inr vs"
    and out: "coseEncode (MakeTag tagMac (MakeArray [Bytes pb, toCBORMap ord (Unprotected msg),
      nullableVal (Payload msg), Bytes (MacTag msg), MakeArray vs])) = Inr out"
    unfolding MarshalMac_def by (rule marshalWith_ok) (auto simp: orElse_eq_Inr)
  obtain u hs where u: "transports 2 (toCBORMap ord (Unprotected msg)) u" "transports 2 (Bytes pb) (Bytes pb)"
      "headerFields (Bytes pb) u = Inr hs" "same_base hs msg"
    using headerFields_round_trip [OF assms(1,2) pb, of 2] by auto
  obtain a ys where a: "transports 2 (MakeArray vs) a" "orElse (arrayField a) (mapAll recipientOf) = Inr ys"
      "list_all2 same_recipient ys (MacRecipients msg)"
    using list_field_round_trip [OF _ vs rs(2), of recipientOf same_recipient] recipient_round_trip [OF assms(1)] rs(1)
    by blast
  have "messageArray tagMac out = Inr [Bytes pb, u, nullableVal (Payload msg), Bytes (MacTag msg), a]"
    by (rule message_round_trip [OF _ _ _ out assms(8)])
      (use assms(3,4) u a in \<open>simp_all add: nullable_round_trip transports_leaf tag_defs\<close>)
  with u a show ?thesis by (simp add: UnmarshalMac_def same_base_def bstr_round_trip)
qed

text \<open>A marshalled message does not depend on the order in which Go iterates over the header maps.\<close>

lemma coseEncode_order:
  assumes "encode detOpts [] v = encode detOpts [] w"
  shows "coseEncode v = coseEncode w"
  using assms encode_dst [of detOpts "[]" v]
  by (auto simp: coseEncode_def Encode_def detOpts_def sharedEncoder_def NewShared_def NewEncoder_def)

end
