(* ===== verification/Cose_Canonical.thy ===== *)
theory Cose_Canonical
  imports Cose_Messages
begin

text \<open>
  What the deterministic encoder gives COSE: the bytes of a header map depend on the parameters only,
  not on the order in which Go iterates over the map. So a marshalled message is reproducible, and the
  protected headers of a message that was read from the wire are re-encoded to the bytes that were
  signed.
\<close>

section \<open>Parts that encode\<close>

lemma transports_parts:
  "transports d (goToCBOR g) w \<Longrightarrow> plain_goval g \<Longrightarrow> parts_encode detOpts (goToCBOR g)"
  by (auto simp: plain_goval_def goToCBOR_def goInt_def transports_def val_defs split: goval.splits)

lemma plain_parts: "plain_goval g \<Longrightarrow> parts_encode detOpts (goToCBOR g)"
  using transports_parts [OF plain_goval_transports] .

lemma leaf_encode_length:
  "length (fst (encode opts [] (Bytes b))) \<le> 9 + length b"
  "utf8_Valid s \<Longrightarrow> length (fst (encode opts [] (Text s))) \<le> 9 + length s"
  "length (fst (encode opts [] Null)) \<le> 9" "length (fst (encode opts [] (Bool t))) \<le> 9"
  "length (fst (encode opts [] (Uint n))) \<le> 9" "length (fst (encode opts [] (NegInt n))) \<le> 9"
  by (simp_all add: leaf_encode length_AppendHead headSize_def)

lemma plain_encode_length:
  assumes "plain_goval g"
  shows "length (fst (encode detOpts [] (goToCBOR g))) \<le> 9 + 2 ^ 24"
proof -
  note l = leaf_encode_length [where opts = detOpts]
  consider (b) b where "goToCBOR g = Bytes b" "length b \<le> 2 ^ 24"
    | (t) s where "goToCBOR g = Text s" "utf8_Valid s" "length s \<le> 2 ^ 24"
    | (short) "goToCBOR g = Null \<or> (\<exists>t. goToCBOR g = Bool t) \<or> (\<exists>n. goToCBOR g = Uint n) \<or> (\<exists>n. goToCBOR g = NegInt n)"
  proof (cases g)
    case (GInt64 x)
    then show ?thesis using short by (cases "0 \<le> sint x") (auto simp: goToCBOR_def goInt_def)
  qed (use assms b t short in \<open>auto simp: plain_goval_def goToCBOR_def\<close>)
  then show ?thesis
  proof cases
    case b
    with order_trans [OF l(1) [where b = b]] show ?thesis by simp
  next
    case t
    with order_trans [OF l(2) [where s = s]] show ?thesis by simp
  next
    case short
    then have "length (fst (encode detOpts [] (goToCBOR g))) \<le> 9" using l(3-6) by auto
    then show ?thesis by simp
  qed
qed

lemma plain_encode:
  assumes "plain_goval g"
  shows "\<exists>out. encode detOpts [] (goToCBOR g) = (out, None) \<and> length out < 2 ^ 61"
proof -
  have "9 + 2 ^ 24 < (2 :: nat) ^ 61" by simp
  with plain_encode_length [OF assms] have "length (fst (encode detOpts [] (goToCBOR g))) < 2 ^ 61" by linarith
  moreover have "snd (encode detOpts [] (goToCBOR g)) = None"
    using parts_encode_ok [OF plain_parts [OF assms]] .
  ultimately show ?thesis by (metis prod.collapse)
qed

lemma plain_not_tag: "plain_goval g \<Longrightarrow> Kind (goToCBOR g) \<noteq> KindTag"
  by (cases g) (simp_all add: plain_goval_def goToCBOR_def goInt_def val_defs)

lemma plain_encode_inject:
  assumes "plain_goval g" and "plain_goval h"
    and "fst (encode detOpts [] (goToCBOR g)) = fst (encode detOpts [] (goToCBOR h))"
  shows "g = h"
proof -
  have dec: "fst (DecodeWith (NewDecoder []) (fst (encode detOpts [] (goToCBOR x)))) = Inr (goToCBOR x)"
    if x: "plain_goval x" for x
  proof -
    obtain out where out: "encode detOpts [] (goToCBOR x) = (out, None)" "length out < 2 ^ 61"
      using plain_encode [OF x] by blast
    have "fst (DecodeWith (NewDecoder []) out) = Inr (goToCBOR x)"
      by (rule transports_decode [OF plain_goval_transports [OF x] _ out(2)])
        (use plain_not_tag [OF x] in \<open>simp_all only: coseEncode_encode out(1) simp_thms\<close>)
    then show ?thesis by (simp only: out(1) fst_conv)
  qed
  have "Inr (goToCBOR g) = (Inr (goToCBOR h) :: fault + Value)"
    using dec [OF assms(1)] dec [OF assms(2)] unfolding assms(3) by (rule trans [OF sym])
  then show ?thesis using goToCBOR_inject [OF assms(1,2)] by simp
qed

section \<open>Header maps\<close>

lemma header_map_parts:
  assumes "plain_entries ps"
  shows "parts_encode detOpts (MakeMap (map entryValue ps))"
proof -
  have "inj_on (\<lambda>p. fst (encode detOpts [] (fst (entryValue p)))) (set ps)"
  proof (rule inj_onI)
    fix p q assume pq: "p \<in> set ps" "q \<in> set ps"
      and "fst (encode detOpts [] (fst (entryValue p))) = fst (encode detOpts [] (fst (entryValue q)))"
    then have "fst p = fst q"
      using assms plain_encode_inject [of "fst p" "fst q"] by (auto simp: plain_entries_def entryValue_def)
    with pq assms show "p = q" by (auto simp: plain_entries_def distinct_map inj_on_def)
  qed
  moreover have "distinct ps" using assms by (auto simp: plain_entries_def distinct_map)
  moreover have "\<forall>p \<in> set ps. parts_encode detOpts (fst (entryValue p)) \<and> parts_encode detOpts (snd (entryValue p))"
    using assms by (auto simp: plain_entries_def entryValue_def intro: plain_parts)
  moreover have "snd (encode detOpts [] (MakeMap (map entryValue ps))) = None"
    using transports_map [OF assms, of 0] by (auto simp: transports_def)
  ultimately show ?thesis by (simp add: MakeMap_def distinct_map comp_def)
qed

lemma header_map_reordered:
  "mset qs = mset ps \<Longrightarrow> reordered (MakeMap (map entryValue ps)) (MakeMap (map entryValue qs))"
  by (rule ro_map [of "map entryValue ps" "map entryValue ps"])
    (auto simp: list_all2_conv_all_nth ro_refl)

lemma toCBORMap_value:
  assumes "reorders ord"
  obtains qs where "mset qs = mset (entriesOf h)" and "toCBORMap ord h = MakeMap (map entryValue qs)"
  using assms that [of "ord (entriesOf h)"] that [of "[]"]
  by (cases "IsEmpty h")
    (auto simp: toCBORMap_def headerParamsToMap_def IsEmpty_def reorders_def entryValue_def [abs_def])

lemma toCBORMap_parts:
  assumes "reorders ord" and "plain_headers h"
  shows "parts_encode detOpts (toCBORMap ord h)"
proof -
  obtain qs where "mset qs = mset (entriesOf h)" "toCBORMap ord h = MakeMap (map entryValue qs)"
    using toCBORMap_value [OF assms(1)] by blast
  then show ?thesis using header_map_parts plain_entries_perm assms(2) by (metis plain_headers_def)
qed

lemma toCBORMap_reordered:
  assumes "reorders ord" and "reorders ord'" and "mset (entriesOf h') = mset (entriesOf h)"
  shows "reordered (toCBORMap ord h) (toCBORMap ord' h')"
proof -
  obtain ps qs where "mset ps = mset (entriesOf h)" "toCBORMap ord h = MakeMap (map entryValue ps)"
    and "mset qs = mset (entriesOf h')" "toCBORMap ord' h' = MakeMap (map entryValue qs)"
    using toCBORMap_value [OF assms(1)] toCBORMap_value [OF assms(2)] by metis
  with assms(3) show ?thesis by (simp add: header_map_reordered)
qed

lemma coseEncode_reordered:
  "reordered v w \<Longrightarrow> parts_encode detOpts v \<Longrightarrow> coseEncode w = coseEncode v"
  using reordered_encode [OF detOpts_fields(1)] by (intro coseEncode_order) simp

lemma encodeHeaderMap_toCBORMap:
  "entriesOf h \<noteq> [] \<Longrightarrow> encodeHeaderMap ord (entriesOf h) = coseEncode (toCBORMap ord h)"
  by (simp add: encodeHeaderMap_def toCBORMap_def IsEmpty_def)

lemma encodeHeaderMap_order:
  assumes "reorders ord" and "reorders ord'" and "plain_headers h" and "mset (entriesOf h') = mset (entriesOf h)"
    and "entriesOf h \<noteq> []"
  shows "encodeHeaderMap ord' (entriesOf h') = encodeHeaderMap ord (entriesOf h)"
proof -
  have "entriesOf h' \<noteq> []" using assms(4,5) by auto
  then show ?thesis
    using coseEncode_reordered [OF toCBORMap_reordered [OF assms(1,2,4)] toCBORMap_parts [OF assms(1,3)]]
    by (simp add: encodeHeaderMap_toCBORMap assms(5))
qed

text \<open>The bytes of protected headers are determined by the parameters.\<close>

lemma protectedBytes_same:
  assumes "reorders ord" and "reorders ord'" and "plain_headers h"
    and "same_headers h' h" and "cache_ok ord h" and "cache_ok ord' h'"
  shows "fst (protectedBytes ord' h') = fst (protectedBytes ord h)"
proof (cases "entriesOf h = []")
  case True
  then have "entriesOf h' = []" using assms(4) by (simp add: same_headers_def)
  with True show ?thesis by (simp add: protectedBytes_def encodeProtected_def IsEmpty_def)
next
  case False
  have m: "mset (entriesOf h') = mset (entriesOf h)" using assms(4) by (simp add: same_headers_def)
  with False have "entriesOf h' \<noteq> []" by auto
  moreover have "encodeHeaderMap ord' (entriesOf h') = encodeHeaderMap ord (entriesOf h)"
    using encodeHeaderMap_order [OF assms(1-3) m False] .
  ultimately show ?thesis using False assms(5,6)
    by (auto simp: protectedBytes_def encodeProtected_def IsEmpty_def cache_ok_def split: sum.splits)
qed

end
