(* ===== verification/Cose_Structures.thy ===== *)
theory Cose_Structures
  imports Cose_Canonical
begin

text \<open>
  The COSE algorithms (\<^verbatim>\<open>cose/algorithm.go\<close>) and the structures that are signed, authenticated or
  passed to a cipher as associated data: \<open>Sig_structure\<close>, \<open>MAC_structure\<close> and \<open>Enc_structure\<close>, each
  an encoded array of a context string and byte strings. The main lemma is that such a structure
  determines its context and its parts.
\<close>

section \<open>Algorithms\<close>

definition AlgEdDSA :: i64 where "AlgEdDSA = - 8"
definition AlgES256 :: i64 where "AlgES256 = - 7"
definition AlgES384 :: i64 where "AlgES384 = - 35"
definition AlgES512 :: i64 where "AlgES512 = - 36"
definition AlgA128GCM :: i64 where "AlgA128GCM = 1"
definition AlgA192GCM :: i64 where "AlgA192GCM = 2"
definition AlgA256GCM :: i64 where "AlgA256GCM = 3"
definition AlgHMAC256_64 :: i64 where "AlgHMAC256_64 = 4"
definition AlgHMAC256 :: i64 where "AlgHMAC256 = 5"
definition AlgHMAC384 :: i64 where "AlgHMAC384 = 6"
definition AlgHMAC512 :: i64 where "AlgHMAC512 = 7"
definition AlgDirect :: i64 where "AlgDirect = - 6"
definition AlgA128KW :: i64 where "AlgA128KW = - 3"
definition AlgA192KW :: i64 where "AlgA192KW = - 4"
definition AlgA256KW :: i64 where "AlgA256KW = - 5"
definition AlgECDH_ES_HKDF_256 :: i64 where "AlgECDH_ES_HKDF_256 = - 25"
definition AlgPBES2_HS256_A128KW :: i64 where "AlgPBES2_HS256_A128KW = - 11"
definition AlgHPKEBaseP256SHA256AES128GCM :: i64 where "AlgHPKEBaseP256SHA256AES128GCM = 35"

lemmas alg_defs = AlgEdDSA_def AlgES256_def AlgES384_def AlgES512_def AlgA128GCM_def AlgA192GCM_def
  AlgA256GCM_def AlgHMAC256_64_def AlgHMAC256_def AlgHMAC384_def AlgHMAC512_def AlgDirect_def AlgA128KW_def
  AlgA192KW_def AlgA256KW_def AlgECDH_ES_HKDF_256_def AlgPBES2_HS256_A128KW_def
  AlgHPKEBaseP256SHA256AES128GCM_def

definition AlgorithmString :: "i64 \<Rightarrow> string" where
  "AlgorithmString a =
     (if a = AlgEdDSA then ''EdDSA''
      else if a = AlgES256 then ''ES256''
      else if a = AlgES384 then ''ES384''
      else if a = AlgES512 then ''ES512''
      else if a = AlgA128GCM then ''A128GCM''
      else if a = AlgA192GCM then ''A192GCM''
      else if a = AlgA256GCM then ''A256GCM''
      else if a = AlgHMAC256_64 then ''HMAC256/64''
      else if a = AlgHMAC256 then ''HMAC256''
      else if a = AlgHMAC384 then ''HMAC384''
      else if a = AlgHMAC512 then ''HMAC512''
      else if a = AlgDirect then ''direct''
      else if a = AlgA128KW then ''A128KW''
      else if a = AlgA192KW then ''A192KW''
      else if a = AlgA256KW then ''A256KW''
      else if a = AlgECDH_ES_HKDF_256 then ''ECDH-ES+HKDF-256''
      else if a = AlgPBES2_HS256_A128KW then ''PBES2-HS256+A128KW''
      else ''unknown'')"

section \<open>The structures\<close>

definition goString :: "string \<Rightarrow> bytes" where
  "goString s = map of_char s"

definition orEmpty :: "bytes option \<Rightarrow> bytes" where
  "orEmpty b = (case b of None \<Rightarrow> [] | Some x \<Rightarrow> x)"

definition newEncoder :: Encoder where
  "newEncoder = NewEncoder ModeCoreDeterministic []"

definition encodeWith :: "Encoder \<Rightarrow> Value \<Rightarrow> cose_error + bytes" where
  "encodeWith enc v = (case Encode enc [] v of (_, Some er) \<Rightarrow> Inl (CoseCbor er) | (out, None) \<Rightarrow> Inr out)"

definition contextArray :: "string \<Rightarrow> bytes list \<Rightarrow> Value" where
  "contextArray ctx parts = MakeArray (Text (goString ctx) # map Bytes parts)"

definition encodeSigStructure ::
  "Encoder \<Rightarrow> bytes option \<Rightarrow> bytes option \<Rightarrow> bytes option \<Rightarrow> cose_error + bytes" where
  "encodeSigStructure enc protectedB external payload =
     encodeWith enc (contextArray ''Signature1'' [orEmpty protectedB, orEmpty external, orEmpty payload])"

definition encodeMultiSigStructure ::
  "Encoder \<Rightarrow> bytes option \<Rightarrow> bytes option \<Rightarrow> bytes option \<Rightarrow> bytes option \<Rightarrow> cose_error + bytes" where
  "encodeMultiSigStructure enc bodyProtected signProtected external payload =
     encodeWith enc (contextArray ''Signature''
       [orEmpty bodyProtected, orEmpty signProtected, orEmpty external, orEmpty payload])"

definition buildMACStructure :: "bytes option \<Rightarrow> bytes option \<Rightarrow> bytes option \<Rightarrow> cose_error + bytes" where
  "buildMACStructure protectedB external payload =
     encodeWith sharedEncoder (contextArray ''MAC0'' [orEmpty protectedB, orEmpty external, orEmpty payload])"

definition buildMACStructureMulti :: "bytes option \<Rightarrow> bytes option \<Rightarrow> bytes option \<Rightarrow> cose_error + bytes" where
  "buildMACStructureMulti protectedB external payload =
     encodeWith sharedEncoder (contextArray ''MAC'' [orEmpty protectedB, orEmpty external, orEmpty payload])"

definition buildEncStructure :: "bytes option \<Rightarrow> bytes option \<Rightarrow> cose_error + bytes" where
  "buildEncStructure protectedB external =
     encodeWith sharedEncoder (contextArray ''Encrypt0'' [orEmpty protectedB, orEmpty external])"

definition buildEncStructureMulti :: "bytes option \<Rightarrow> bytes option \<Rightarrow> cose_error + bytes" where
  "buildEncStructureMulti protectedB external =
     encodeWith sharedEncoder (contextArray ''Encrypt'' [orEmpty protectedB, orEmpty external])"

lemmas structure_defs = encodeSigStructure_def encodeMultiSigStructure_def buildMACStructure_def
  buildMACStructureMulti_def buildEncStructure_def buildEncStructureMulti_def

section \<open>A structure determines its parts\<close>

lemma string_head_inject:
  assumes "AppendHead [] m (of_nat (length a)) @ a @ r = AppendHead [] m (of_nat (length b)) @ b @ s"
    and "is_major m" and "length a < 2 ^ 64" and "length b < 2 ^ 64"
  shows "a = b \<and> r = s"
proof -
  let ?h = "\<lambda>x. AppendHead [] m (of_nat (length x))"
  have "(of_nat (length a) :: u64) = of_nat (length b)"
    using ParseHead_AppendHead [OF assms(2), of "of_nat (length a)" "a @ r"]
      ParseHead_AppendHead [OF assms(2), of "of_nat (length b)" "b @ s"] assms(1) by simp
  then have "unat (of_nat (length a) :: u64) = unat (of_nat (length b) :: u64)" by simp
  then have "length a = length b" using assms(3,4) by (simp add: unat_of_nat)
  with assms(1) show ?thesis by simp
qed

definition bstr :: "bytes \<Rightarrow> bytes" where
  "bstr b = AppendHead [] MajorBytes (of_nat (length b)) @ b"

lemma bstr_nonempty: "bstr b \<noteq> []"
proof -
  have "0 < length (bstr b)" by (simp add: bstr_def length_AppendHead headSize_def)
  then show ?thesis by blast
qed

lemma bstrs_inject:
  assumes "concat (map bstr ps) = concat (map bstr qs)"
    and "\<forall>p \<in> set ps \<union> set qs. length p < 2 ^ 64"
  shows "ps = qs"
  using assms
proof (induction ps arbitrary: qs)
  case Nil
  with bstr_nonempty show ?case by (cases qs) auto
next
  case (Cons p ps)
  from Cons.prems(1) bstr_nonempty [of p] obtain q qs' where qs: "qs = q # qs'" by (cases qs) auto
  with Cons.prems have "p = q \<and> concat (map bstr ps) = concat (map bstr qs')"
    by (intro string_head_inject [of MajorBytes]) (simp_all add: bstr_def [of p] bstr_def [of q] del: MajorBytes_def)
  with Cons.IH [of qs'] Cons.prems qs show ?case by simp
qed

lemma detOpts_fresh: "encodeOpts newEncoder = detOpts" "encodeOpts sharedEncoder = detOpts"
  by (simp_all add: detOpts_def encodeOpts_def sharedEncoder_def newEncoder_def NewShared_def NewEncoder_def)

lemma encodeWith_shared: "encodeWith sharedEncoder v = coseEncode v"
  by (simp add: encodeWith_def coseEncode_def)

lemma encodeWith_new: "encodeWith newEncoder v = coseEncode v"
proof -
  have "valid_mode newEncoder \<and> valid_mode sharedEncoder"
    and "\<not> bufferPool (enc_cfg newEncoder) \<and> \<not> bufferPool (enc_cfg sharedEncoder)"
    by (simp_all add: valid_mode_def newEncoder_def sharedEncoder_def NewShared_def NewEncoder_def)
  then have "Encode newEncoder [] v = Encode sharedEncoder [] v"
    by (simp add: Encode_def valid_mode_def detOpts_fresh)
  then show ?thesis by (simp only: encodeWith_def coseEncode_def)
qed

lemma contextArray_bytes:
  assumes "utf8_Valid (goString ctx)"
  shows "coseEncode (contextArray ctx parts) =
    Inr (AppendHead [] MajorArray (of_nat (Suc (length parts)))
      @ AppendHead [] MajorText (of_nat (length (goString ctx))) @ goString ctx @ concat (map bstr parts))"
proof -
  have "\<forall>v \<in> set (Text (goString ctx) # map Bytes parts). snd (encode detOpts [] v) = None"
    using assms by (auto simp: leaf_encode)
  from encodeItems_value [OF this] have "encode detOpts [] (contextArray ctx parts) =
     (AppendHead [] MajorArray (of_nat (Suc (length parts)))
      @ AppendHead [] MajorText (of_nat (length (goString ctx))) @ goString ctx @ concat (map bstr parts), None)"
    using assms
    by (simp add: contextArray_def MakeArray_def encode.simps [of detOpts "[]" "Value KindArray n [] [] xs []" for n xs]
        leaf_encode comp_def bstr_def [abs_def])
  then show ?thesis by (simp add: coseEncode_encode)
qed

text \<open>Arrays of contexts and parts are told apart by their encoding.\<close>

lemma contextArray_inject:
  assumes "coseEncode (contextArray c ps) = Inr out" and "coseEncode (contextArray d qs) = Inr out"
    and "utf8_Valid (goString c)" "utf8_Valid (goString d)" "length c < 2 ^ 64" "length d < 2 ^ 64"
    and "\<forall>p \<in> set ps \<union> set qs. length p < 2 ^ 64" and "length ps < 2 ^ 63" "length qs < 2 ^ 63"
  shows "goString c = goString d \<and> ps = qs"
proof -
  let ?n = "\<lambda>xs :: bytes list. AppendHead [] MajorArray (of_nat (Suc (length xs)))"
  let ?t = "\<lambda>s. AppendHead [] MajorText (of_nat (length (goString s))) @ goString s"
  have eq: "?n ps @ ?t c @ concat (map bstr ps) = ?n qs @ ?t d @ concat (map bstr qs)"
    using assms(1,2) contextArray_bytes [OF assms(3), of ps] contextArray_bytes [OF assms(4), of qs] by simp
  have "(of_nat (Suc (length ps)) :: u64) = of_nat (Suc (length qs))"
    using ParseHead_AppendHead [OF is_major_consts(5), of "of_nat (Suc (length ps))" "?t c @ concat (map bstr ps)"]
      ParseHead_AppendHead [OF is_major_consts(5), of "of_nat (Suc (length qs))" "?t d @ concat (map bstr qs)"]
      arg_cong [OF eq, of "HeadArg \<circ> ParseHead"] by simp
  with eq have "?t c @ concat (map bstr ps) = ?t d @ concat (map bstr qs)" by simp
  then have "goString c = goString d \<and> concat (map bstr ps) = concat (map bstr qs)"
    using string_head_inject [OF _ is_major_consts(4), of "goString c" "concat (map bstr ps)" "goString d" "concat (map bstr qs)"]
      assms(5,6) by (simp add: goString_def)
  with bstrs_inject [of ps qs] assms(7) show ?thesis by simp
qed

lemma contexts:
  "goString ''Signature1'' = [83, 105, 103, 110, 97, 116, 117, 114, 101, 49]"
  "goString ''Signature'' = [83, 105, 103, 110, 97, 116, 117, 114, 101]"
  "goString ''MAC0'' = [77, 65, 67, 48]" "goString ''MAC'' = [77, 65, 67]"
  "goString ''Encrypt0'' = [69, 110, 99, 114, 121, 112, 116, 48]"
  "goString ''Encrypt'' = [69, 110, 99, 114, 121, 112, 116]"
  by code_simp+

lemma contexts_valid:
  "utf8_Valid (goString ''Signature1'')" "utf8_Valid (goString ''Signature'')" "utf8_Valid (goString ''MAC0'')"
  "utf8_Valid (goString ''MAC'')" "utf8_Valid (goString ''Encrypt0'')" "utf8_Valid (goString ''Encrypt'')"
  by code_simp+

lemma structures_total:
  "\<exists>out. encodeSigStructure newEncoder p e m = Inr out"
  "\<exists>out. encodeMultiSigStructure newEncoder b p e m = Inr out"
  "\<exists>out. buildMACStructure p e m = Inr out" "\<exists>out. buildMACStructureMulti p e m = Inr out"
  "\<exists>out. buildEncStructure p e = Inr out" "\<exists>out. buildEncStructureMulti p e = Inr out"
  by (simp_all add: structure_defs encodeWith_new encodeWith_shared contextArray_bytes contexts_valid)

end
