(* ===== verification/Cose_Ecdsa.thy ===== *)
theory Cose_Ecdsa
  imports Cose_Structures
begin

text \<open>
  ECDSA signatures in the two formats of \<^verbatim>\<open>cose/sign.go\<close>: the ASN.1 DER sequence of two integers that
  Go's \<^verbatim>\<open>crypto/ecdsa\<close> writes and checks, and the fixed-width concatenation that COSE carries. The
  functions of \<^verbatim>\<open>encoding/asn1\<close> that the code calls are modelled for this one type; their errors
  are not told apart.
\<close>

section \<open>Big integers\<close>

text \<open>\<open>big.Int.Bytes\<close>: the absolute value, big-endian, without leading zeros.\<close>

fun bigBytes :: "nat \<Rightarrow> bytes" where
  "bigBytes n = (if n = 0 then [] else bigBytes (n div 256) @ [of_nat n])"

declare bigBytes.simps [simp del]

definition IntBytes :: "int \<Rightarrow> bytes" where
  "IntBytes i = bigBytes (nat \<bar>i\<bar>)"

section \<open>DER\<close>

definition derLength :: "nat \<Rightarrow> bytes" where
  "derLength n = (if n < 128 then [of_nat n] else of_nat (128 + length (bigBytes n)) # bigBytes n)"

definition derTLV :: "byte \<Rightarrow> bytes \<Rightarrow> bytes" where
  "derTLV ident content = ident # derLength (length content) @ content"

text \<open>The content of a non-negative INTEGER.\<close>

definition derNat :: "nat \<Rightarrow> bytes" where
  "derNat n = (let b = bigBytes n in if b = [] then [0] else if hd b \<ge> 0x80 then 0 # b else b)"

text \<open>\<open>asn1.Marshal\<close> of a struct of two non-negative integers.\<close>

definition derMarshal :: "nat \<Rightarrow> nat \<Rightarrow> bytes" where
  "derMarshal r s = derTLV 0x30 (derTLV 2 (derNat r) @ derTLV 2 (derNat s))"

text \<open>The length octets after the first one: too large, leading zeros and non-minimal lengths are
  errors.\<close>

fun derLongLength :: "nat \<Rightarrow> nat \<Rightarrow> bytes \<Rightarrow> (nat \<times> bytes) option" where
  "derLongLength 0 acc src = (if acc < 0x80 then None else Some (acc, src))"
| "derLongLength (Suc k) acc [] = None"
| "derLongLength (Suc k) acc (b # src) =
     (if acc \<ge> 2 ^ 23 then None
      else if acc * 256 + unat b = 0 then None
      else derLongLength k (acc * 256 + unat b) src)"

definition derReadLength :: "bytes \<Rightarrow> (nat \<times> bytes) option" where
  "derReadLength src =
     (case src of
        [] \<Rightarrow> None
      | b # rest \<Rightarrow>
          if b < 0x80 then Some (unat b, rest)
          else if b = 0x80 then None
          else derLongLength (unat b - 128) 0 rest)"

text \<open>A field with the expected identifier octet: its content and what follows.\<close>

definition derField :: "byte \<Rightarrow> bytes \<Rightarrow> (bytes \<times> bytes) option" where
  "derField ident src =
     (case src of
        [] \<Rightarrow> None
      | b # rest \<Rightarrow>
          (case derReadLength rest of
             None \<Rightarrow> None
           | Some (n, body) \<Rightarrow>
               if b \<noteq> ident then None
               else if n > length body then None
               else Some (take n body, drop n body)))"

definition derInt :: "bytes \<Rightarrow> int option" where
  "derInt b =
     (case b of
        [] \<Rightarrow> None
      | [x] \<Rightarrow> Some (if x < 0x80 then uint x else uint x - 256)
      | x # y # _ \<Rightarrow>
          if (x = 0 \<and> y < 0x80) \<or> (x = 0xff \<and> y \<ge> 0x80) then None
          else if x < 0x80 then Some (int (be_val b)) else Some (int (be_val b) - 256 ^ length b))"

text \<open>\<open>asn1.Unmarshal\<close> into a struct of two integers; bytes after the integers and after the sequence are
  allowed.\<close>

definition derUnmarshal :: "bytes \<Rightarrow> (int \<times> int) option" where
  "derUnmarshal der =
     Option.bind (derField 0x30 der) (\<lambda>(body, _).
     Option.bind (derField 2 body) (\<lambda>(rb, rest).
     Option.bind (derInt rb) (\<lambda>r.
     Option.bind (derField 2 rest) (\<lambda>(sb, _).
     Option.bind (derInt sb) (\<lambda>s. Some (r, s))))))"

section \<open>Raw signatures\<close>

datatype curve = P256 | P384 | P521

definition curveKeySize :: "curve \<Rightarrow> nat" where
  "curveKeySize c = (let bitSize = (case c of P256 \<Rightarrow> 256 | P384 \<Rightarrow> 384 | P521 \<Rightarrow> 521) in (bitSize + 7) div 8)"

text \<open>\<open>copy(out[p:], b)\<close> for a slice that holds \<open>b\<close>.\<close>

definition overwrite :: "nat \<Rightarrow> bytes \<Rightarrow> bytes \<Rightarrow> bytes" where
  "overwrite p b out = take p out @ b @ drop (p + length b) out"

definition derToRawECDSA :: "bytes \<Rightarrow> curve \<Rightarrow> cose_error + bytes" where
  "derToRawECDSA der c =
     (case derUnmarshal der of
        None \<Rightarrow> Inl CoseCrypto
      | Some (r, s) \<Rightarrow>
          let size = curveKeySize c; rb = IntBytes r; sb = IntBytes s; out = replicate (2 * size) 0 in
          if length rb > size then Inl CosePanic
          else
            let out = overwrite (size - length rb) rb out in
            if length sb > 2 * size then Inl CosePanic
            else Inr (overwrite (2 * size - length sb) sb out))"

definition rawToDerECDSA :: "bytes \<Rightarrow> curve \<Rightarrow> cose_error + bytes" where
  "rawToDerECDSA raw c =
     (let size = curveKeySize c in
      if length raw \<noteq> 2 * size then Inl CoseCrypto
      else Inr (derMarshal (be_val (take size raw)) (be_val (drop size raw))))"

section \<open>Round trip\<close>

lemma bigBytes_be: "n < 256 ^ k \<Longrightarrow> be_bytes k n = replicate (k - length (bigBytes n)) 0 @ bigBytes n
    \<and> length (bigBytes n) \<le> k"
proof (induction k arbitrary: n)
  case 0
  then show ?case by (simp add: bigBytes.simps)
next
  case (Suc k)
  show ?case
  proof (cases "n = 0")
    case True
    have "be_bytes k 0 = replicate k 0" for k :: nat
      by (induction k) (simp_all add: replicate_append_same)
    with True show ?thesis by (simp add: bigBytes.simps [of 0] replicate_append_same)
  next
    case False
    have "n div 256 < 256 ^ k" using Suc.prems by (simp add: less_mult_imp_div_less mult.commute)
    from Suc.IH [OF this] False show ?thesis by (simp add: bigBytes.simps [of n])
  qed
qed

lemma be_val_bigBytes: "be_val (bigBytes n) = n"
proof (induction n rule: bigBytes.induct)
  case (1 n)
  then show ?case by (cases "n = 0") (simp_all add: bigBytes.simps [of n] bigBytes.simps [of 0])
qed

lemma bigBytes_hd: "n \<noteq> 0 \<Longrightarrow> bigBytes n \<noteq> [] \<and> hd (bigBytes n) \<noteq> 0"
proof (induction n rule: bigBytes.induct)
  case (1 n)
  show ?case
  proof (cases "n div 256 = 0")
    case True
    then have "n < 256" by simp
    with \<open>n \<noteq> 0\<close> have "unat (of_nat n :: byte) \<noteq> 0" by simp
    then have "(of_nat n :: byte) \<noteq> 0" by (metis unsigned_0)
    with True \<open>n \<noteq> 0\<close> show ?thesis by (simp add: bigBytes.simps [of n] bigBytes.simps [of 0])
  next
    case False
    with 1 show ?thesis by (simp add: bigBytes.simps [of n])
  qed
qed

lemma be_val_zero: "be_val (0 # b) = be_val b"
  by (simp add: be_val_def)

lemma derNat_length: "n < 256 ^ k \<Longrightarrow> 0 < length (derNat n) \<and> length (derNat n) \<le> Suc k"
  using bigBytes_be [of n k] by (auto simp: derNat_def Let_def)

lemma derInt_derNat: "derInt (derNat n) = Some (int n)"
proof (cases "n = 0")
  case True
  then show ?thesis by (simp add: derNat_def bigBytes.simps [of 0] derInt_def)
next
  case False
  from bigBytes_hd [OF this] obtain x b where b: "bigBytes n = x # b" "x \<noteq> 0" by (cases "bigBytes n") auto
  with be_val_bigBytes [of n] have v: "be_val (x # b) = n" by simp
  show ?thesis
  proof (cases "x \<ge> 0x80")
    case True
    then have "\<not> x < 0x80" by simp
    with b v be_val_zero [of "x # b"] True show ?thesis by (simp add: derNat_def derInt_def)
  next
    case False
    then have "x < 0x80" by simp
    moreover from this have "\<not> 0xff = x" by auto
    moreover have "b = [] \<Longrightarrow> uint x = int n" using v by (simp add: uint_nat)
    ultimately show ?thesis using b v False
      by (cases b) (auto simp: derNat_def derInt_def)
  qed
qed

lemma derReadLength_derLength:
  assumes "n < 256"
  shows "derReadLength (derLength n @ rest) = Some (n, rest)"
proof (cases "n < 128")
  case True
  then have "unat (of_nat n :: byte) = n" "(of_nat n :: byte) < 0x80"
    by (simp_all add: word_less_nat_alt)
  with True show ?thesis by (simp add: derLength_def derReadLength_def)
next
  case False
  with assms have n: "unat (of_nat n :: byte) = n" "bigBytes n = [of_nat n]"
    by (simp_all add: bigBytes.simps [of n] bigBytes.simps [of 0])
  have "derLength n = [0x81, of_nat n]" using False by (simp add: derLength_def n)
  moreover have "unat (0x81 :: byte) - 128 = Suc 0" by simp
  ultimately show ?thesis using False assms by (simp add: derReadLength_def n)
qed

lemma derField_derTLV: "length c < 256 \<Longrightarrow> derField i (derTLV i c @ rest) = Some (c, rest)"
  by (simp add: derField_def derTLV_def derReadLength_derLength)

lemma derTLV_length: "length c < 256 \<Longrightarrow> length (derTLV i c) \<le> 3 + length c"
  by (simp add: derTLV_def derLength_def bigBytes.simps [of "length c"] bigBytes.simps [of 0])

lemma derUnmarshal_derMarshal:
  assumes "r < 256 ^ 66" and "s < 256 ^ 66"
  shows "derUnmarshal (derMarshal r s) = Some (int r, int s)"
proof -
  note n = derNat_length [OF assms(1)] derNat_length [OF assms(2)]
  have l: "length (derNat r) < 256" "length (derNat s) < 256" using n by linarith+
  have "length (derTLV 2 (derNat r) @ derTLV 2 (derNat s)) < 256"
    using derTLV_length [OF l(1), where i = 2] derTLV_length [OF l(2), where i = 2] n by simp
  from derField_derTLV [OF this, where rest = "[]"] derField_derTLV [OF l(1)] derField_derTLV [OF l(2), where rest = "[]"]
  show ?thesis by (simp add: derUnmarshal_def derMarshal_def derInt_derNat)
qed

lemma overwrite_append: "overwrite (length xs + q) b (xs @ ys) = xs @ overwrite q b ys"
  by (simp add: overwrite_def)

lemma overwrite_zeros: "length b \<le> k \<Longrightarrow> overwrite (k - length b) b (replicate (k + n) 0) = (replicate (k - length b) 0 @ b) @ replicate n 0"
  by (simp add: overwrite_def)

lemma overwrite_pair:
  assumes "length a \<le> k" and "length b \<le> k"
  shows "overwrite (2 * k - length b) b (overwrite (k - length a) a (replicate (2 * k) 0))
    = (replicate (k - length a) 0 @ a) @ (replicate (k - length b) 0 @ b)"
proof -
  have "2 * k - length b = length (replicate (k - length a) (0 :: byte) @ a) + (k - length b)"
    using assms by simp
  then show ?thesis
    using overwrite_zeros [OF assms(1), of k] overwrite_zeros [OF assms(2), of 0]
    by (simp only: mult_2 overwrite_append add_0_right replicate_0 append_Nil2)
qed

lemma curveKeySize_le: "curveKeySize c \<le> 66"
  by (cases c) (simp_all add: curveKeySize_def)

text \<open>A DER signature of numbers that fit the curve survives the conversion to the raw format and back.\<close>

lemma der_raw_round_trip:
  assumes "r < 256 ^ curveKeySize c" and "s < 256 ^ curveKeySize c"
  shows "\<exists>raw. derToRawECDSA (derMarshal r s) c = Inr raw \<and> length raw = 2 * curveKeySize c
    \<and> rawToDerECDSA raw c = Inr (derMarshal r s)"
proof -
  let ?k = "curveKeySize c"
  have "(256 :: nat) ^ ?k \<le> 256 ^ 66" by (rule power_increasing [OF curveKeySize_le]) simp
  then have "derUnmarshal (derMarshal r s) = Some (int r, int s)"
    using assms by (intro derUnmarshal_derMarshal) (auto elim: less_le_trans)
  with bigBytes_be [OF assms(1)] bigBytes_be [OF assms(2)]
  have raw: "derToRawECDSA (derMarshal r s) c = Inr (be_bytes ?k r @ be_bytes ?k s)"
    by (simp add: derToRawECDSA_def IntBytes_def overwrite_pair Let_def)
  have "rawToDerECDSA (be_bytes ?k r @ be_bytes ?k s) c = Inr (derMarshal r s)"
    using assms by (simp add: rawToDerECDSA_def Let_def)
  with raw show ?thesis by simp
qed

end
