(* ===== verification/Cose_Sign.thy ===== *)
theory Cose_Sign
  imports Cose_Ecdsa
begin

text \<open>
  COSE signatures (\<^verbatim>\<open>cose/sign.go\<close>, \<^verbatim>\<open>cose/sign_multi.go\<close>). Keys are opaque; what the code calls of
  Go's cryptographic packages is a record of functions, the parameter \<open>c\<close>. A call that draws
  randomness takes the number of the draw. The result of the code is whatever those functions return:
  their laws are hypotheses of the theorems, stated by \<open>signing_laws\<close>.
\<close>

section \<open>Keys and primitives\<close>

datatype PublicKey =
    Ed25519Public bytes | EcdsaPublic curve bytes | EcdsaOtherCurve bytes | OtherPublic nat

text \<open>A \<open>crypto.Signer\<close>: an Ed25519 private key, or any other implementation.\<close>

datatype SignerKey = Ed25519PrivateKey bytes | OpaqueSigner nat

datatype crypto_hash = SHA256 | SHA384 | SHA512

record SignCrypto =
  PublicOf :: "SignerKey \<Rightarrow> PublicKey"
  ed25519_Sign :: "bytes \<Rightarrow> bytes \<Rightarrow> bytes"
  ed25519_Verify :: "bytes \<Rightarrow> bytes \<Rightarrow> bytes \<Rightarrow> bool"
  key_Sign :: "nat \<Rightarrow> SignerKey \<Rightarrow> bytes \<Rightarrow> crypto_hash \<Rightarrow> bytes option"
  ecdsa_VerifyASN1 :: "PublicKey \<Rightarrow> bytes \<Rightarrow> bytes \<Rightarrow> bool"
  SumOf :: "crypto_hash \<Rightarrow> bytes \<Rightarrow> bytes"

definition algForPublicKey :: "PublicKey \<Rightarrow> cose_error + i64" where
  "algForPublicKey pub = (case pub of
      Ed25519Public _ \<Rightarrow> Inr AlgEdDSA
    | EcdsaPublic P256 _ \<Rightarrow> Inr AlgES256
    | EcdsaPublic P384 _ \<Rightarrow> Inr AlgES384
    | EcdsaPublic P521 _ \<Rightarrow> Inr AlgES512
    | EcdsaOtherCurve _ \<Rightarrow> Inl ErrInvalidKey
    | OtherPublic _ \<Rightarrow> Inl ErrInvalidKey)"

definition algForKey :: "SignCrypto \<Rightarrow> SignerKey \<Rightarrow> cose_error + i64" where
  "algForKey c key = algForPublicKey (PublicOf c key)"

definition hashData :: "SignCrypto \<Rightarrow> crypto_hash \<Rightarrow> bytes \<Rightarrow> bytes" where
  "hashData c h data = SumOf c h data"

section \<open>Signing\<close>

record Signer =
  signer_key :: SignerKey
  signer_alg :: i64
  signer_external :: "bytes option"
  signer_enc :: Encoder
  signer_protectedBytes :: "bytes option"

type_synonym SignerOption = "Signer \<Rightarrow> Signer"

definition WithSignerExternalData :: "bytes option \<Rightarrow> SignerOption" where
  "WithSignerExternalData ext s = s\<lparr>signer_external := ext\<rparr>"

definition NewSigner :: "order \<Rightarrow> SignCrypto \<Rightarrow> SignerKey \<Rightarrow> SignerOption list \<Rightarrow> cose_error + Signer" where
  "NewSigner ord c key opts =
     orElse (algForKey c key) (\<lambda>alg.
       let s = fold (\<lambda>opt s. opt s) opts
         \<lparr>signer_key = key, signer_alg = alg, signer_external = None, signer_enc = newEncoder,
          signer_protectedBytes = None\<rparr> in
       orElse (fst (encodeProtected ord (SetAlgorithm (signer_alg s) NoHeaders))) (\<lambda>pb.
         Inr (s\<lparr>signer_protectedBytes := pb\<rparr>)))"

definition ecdsaSign :: "SignCrypto \<Rightarrow> nat \<Rightarrow> Signer \<Rightarrow> bytes \<Rightarrow> crypto_hash \<Rightarrow> curve \<Rightarrow> cose_error + bytes" where
  "ecdsaSign c draw s data h cv =
     (case key_Sign c draw (signer_key s) (hashData c h data) h of
        None \<Rightarrow> Inl CoseCrypto
      | Some derSig \<Rightarrow> derToRawECDSA derSig cv)"

definition signBytes :: "SignCrypto \<Rightarrow> nat \<Rightarrow> Signer \<Rightarrow> bytes \<Rightarrow> cose_error + bytes" where
  "signBytes c draw s data =
     (if signer_alg s = AlgEdDSA then
        (case signer_key s of
           Ed25519PrivateKey k \<Rightarrow> Inr (ed25519_Sign c k data)
         | _ \<Rightarrow> Inl ErrInvalidKey)
      else if signer_alg s = AlgES256 then ecdsaSign c draw s data SHA256 P256
      else if signer_alg s = AlgES384 then ecdsaSign c draw s data SHA384 P384
      else if signer_alg s = AlgES512 then ecdsaSign c draw s data SHA512 P521
      else Inl ErrUnsupportedAlgorithm)"

definition Signer_Sign :: "SignCrypto \<Rightarrow> nat \<Rightarrow> Signer \<Rightarrow> bytes option \<Rightarrow> cose_error + Sign1" where
  "Signer_Sign c draw s payload =
     orElse (encodeSigStructure (signer_enc s) (signer_protectedBytes s) (signer_external s) payload) (\<lambda>toBeSigned.
     orElse (signBytes c draw s toBeSigned) (\<lambda>sig.
     Inr \<lparr>Protected = SetAlgorithm (signer_alg s) NoHeaders, Unprotected = NoHeaders, Payload = payload,
          Signature1 = sig\<rparr>))"

section \<open>Verifying\<close>

record Verifier =
  verifier_key :: PublicKey
  verifier_alg :: i64
  verifier_external :: "bytes option"
  verifier_enc :: Encoder

type_synonym VerifierOption = "Verifier \<Rightarrow> Verifier"

definition WithVerifierExternalData :: "bytes option \<Rightarrow> VerifierOption" where
  "WithVerifierExternalData ext v = v\<lparr>verifier_external := ext\<rparr>"

definition NewVerifier :: "PublicKey \<Rightarrow> VerifierOption list \<Rightarrow> cose_error + Verifier" where
  "NewVerifier key opts =
     orElse (algForPublicKey key) (\<lambda>alg.
       Inr (fold (\<lambda>opt v. opt v) opts
         \<lparr>verifier_key = key, verifier_alg = alg, verifier_external = None, verifier_enc = newEncoder\<rparr>))"

definition isEcdsa :: "PublicKey \<Rightarrow> bool" where
  "isEcdsa key = (case key of EcdsaPublic _ _ \<Rightarrow> True | EcdsaOtherCurve _ \<Rightarrow> True | _ \<Rightarrow> False)"

definition ecdsaVerify ::
  "SignCrypto \<Rightarrow> Verifier \<Rightarrow> bytes \<Rightarrow> bytes \<Rightarrow> crypto_hash \<Rightarrow> curve \<Rightarrow> cose_error option" where
  "ecdsaVerify c v data sig h cv =
     (if \<not> isEcdsa (verifier_key v) then Some ErrInvalidKey
      else case rawToDerECDSA sig cv of
        Inl _ \<Rightarrow> Some ErrVerification
      | Inr derSig \<Rightarrow>
          if \<not> ecdsa_VerifyASN1 c (verifier_key v) (hashData c h data) derSig then Some ErrVerification else None)"

definition verifyBytes :: "SignCrypto \<Rightarrow> Verifier \<Rightarrow> bytes \<Rightarrow> bytes \<Rightarrow> cose_error option" where
  "verifyBytes c v data sig =
     (if verifier_alg v = AlgEdDSA then
        (case verifier_key v of
           Ed25519Public k \<Rightarrow> if \<not> ed25519_Verify c k data sig then Some ErrVerification else None
         | _ \<Rightarrow> Some ErrInvalidKey)
      else if verifier_alg v = AlgES256 then ecdsaVerify c v data sig SHA256 P256
      else if verifier_alg v = AlgES384 then ecdsaVerify c v data sig SHA384 P384
      else if verifier_alg v = AlgES512 then ecdsaVerify c v data sig SHA512 P521
      else Some ErrUnsupportedAlgorithm)"

text \<open>\<open>Verify\<close> caches the encoded protected headers in the message.\<close>

definition Verifier_Verify :: "order \<Rightarrow> SignCrypto \<Rightarrow> Verifier \<Rightarrow> Sign1 \<Rightarrow> cose_error option \<times> Sign1" where
  "Verifier_Verify ord c v msg =
     (case encodeProtected ord (Protected msg) of
        (Inl e, h) \<Rightarrow> (Some e, msg\<lparr>Protected := h\<rparr>)
      | (Inr protectedB, h) \<Rightarrow>
          ((case encodeSigStructure (verifier_enc v) protectedB (verifier_external v) (Payload msg) of
              Inl e \<Rightarrow> Some e
            | Inr toBeSigned \<Rightarrow> verifyBytes c v toBeSigned (Signature1 msg)),
           msg\<lparr>Protected := h\<rparr>))"

section \<open>Several signers\<close>

definition computeSignature ::
  "order \<Rightarrow> SignCrypto \<Rightarrow> nat \<Rightarrow> Signer \<Rightarrow> bytes option \<Rightarrow> bytes option \<Rightarrow> cose_error + Signature" where
  "computeSignature ord c draw signer bodyProtected payload =
     (case encodeProtected ord (SetAlgorithm (signer_alg signer) NoHeaders) of
        (Inl e, _) \<Rightarrow> Inl e
      | (Inr sigProtected, h) \<Rightarrow>
          orElse (encodeMultiSigStructure (signer_enc signer) bodyProtected sigProtected (signer_external signer) payload)
            (\<lambda>toBeSigned. orElse (signBytes c draw signer toBeSigned) (\<lambda>raw.
               Inr \<lparr>Protected = h, Unprotected = NoHeaders, SignatureBytes = raw\<rparr>)))"

text \<open>The loop over the signers stops at the first error; draw \<open>d + i\<close> is the one of signer \<open>i\<close>.\<close>

fun signAll ::
  "order \<Rightarrow> SignCrypto \<Rightarrow> nat \<Rightarrow> Signer list \<Rightarrow> bytes option \<Rightarrow> bytes option \<Rightarrow> cose_error + Signature list" where
  "signAll ord c d [] bodyProtected payload = Inr []"
| "signAll ord c d (s # ss) bodyProtected payload =
     orElse (computeSignature ord c d s bodyProtected payload) (\<lambda>sig.
     orElse (signAll ord c (Suc d) ss bodyProtected payload) (\<lambda>sigs. Inr (sig # sigs)))"

definition SignMulti :: "order \<Rightarrow> SignCrypto \<Rightarrow> nat \<Rightarrow> bytes option \<Rightarrow> Signer list \<Rightarrow> cose_error + Sign" where
  "SignMulti ord c draw payload signers =
     (if length signers = 0 then Inl ErrInvalidKey
      else orElse (fst (encodeProtected ord NoHeaders)) (\<lambda>bodyProtected.
           orElse (signAll ord c draw signers bodyProtected payload) (\<lambda>sigs.
           Inr \<lparr>Protected = NoHeaders, Unprotected = NoHeaders, Payload = payload, Signatures = sigs\<rparr>)))"

definition AddSignature :: "order \<Rightarrow> SignCrypto \<Rightarrow> nat \<Rightarrow> Sign \<Rightarrow> Signer \<Rightarrow> cose_error option \<times> Sign" where
  "AddSignature ord c draw s signer =
     (case encodeProtected ord (Protected s) of
        (Inl e, h) \<Rightarrow> (Some e, s\<lparr>Protected := h\<rparr>)
      | (Inr bodyProtected, h) \<Rightarrow>
          (case computeSignature ord c draw signer bodyProtected (Payload s) of
             Inl e \<Rightarrow> (Some e, s\<lparr>Protected := h\<rparr>)
           | Inr sig \<Rightarrow> (None, s\<lparr>Protected := h, Signatures := Signatures s @ [sig]\<rparr>)))"

text \<open>A signature is verified when one of the verifiers accepts it; errors count as a refusal.\<close>

definition acceptsSignature ::
  "order \<Rightarrow> SignCrypto \<Rightarrow> bytes option \<Rightarrow> bytes option \<Rightarrow> Signature \<Rightarrow> Verifier \<Rightarrow> bool" where
  "acceptsSignature ord c bodyProtected payload sig v =
     (case fst (encodeProtected ord (Protected sig)) of
        Inl _ \<Rightarrow> False
      | Inr sigProtected \<Rightarrow>
          (case encodeMultiSigStructure (verifier_enc v) bodyProtected sigProtected (verifier_external v) payload of
             Inl _ \<Rightarrow> False
           | Inr toBeSigned \<Rightarrow> verifyBytes c v toBeSigned (SignatureBytes sig) = None))"

definition VerifyMulti ::
  "order \<Rightarrow> SignCrypto \<Rightarrow> Sign \<Rightarrow> Verifier list \<Rightarrow> (cose_error + nat list) \<times> Sign" where
  "VerifyMulti ord c msg verifiers =
     (if length verifiers = 0 then (Inl ErrInvalidKey, msg)
      else case encodeProtected ord (Protected msg) of
        (Inl e, h) \<Rightarrow> (Inl e, msg\<lparr>Protected := h\<rparr>)
      | (Inr bodyProtected, h) \<Rightarrow>
          (Inr (map fst (filter (\<lambda>(i, sig). list_ex (acceptsSignature ord c bodyProtected (Payload msg) sig) verifiers)
             (enumerate 0 (Signatures msg)))), msg\<lparr>Protected := h\<rparr>))"

section \<open>What the primitives promise\<close>

text \<open>An Ed25519 signature has 64 bytes and verifies under the public key of its private key. An ECDSA
  signer returns the DER encoding of two numbers of the width of its curve, and it verifies.\<close>

definition signing_laws :: "SignCrypto \<Rightarrow> bool" where
  "signing_laws c \<longleftrightarrow>
     (\<forall>k p m. PublicOf c (Ed25519PrivateKey k) = Ed25519Public p \<longrightarrow>
        ed25519_Verify c p m (ed25519_Sign c k m) \<and> length (ed25519_Sign c k m) = 64)
   \<and> (\<forall>key cv q draw dg h der. PublicOf c key = EcdsaPublic cv q \<longrightarrow> key_Sign c draw key dg h = Some der \<longrightarrow>
        (\<exists>r s. r < 256 ^ curveKeySize cv \<and> s < 256 ^ curveKeySize cv \<and> der = derMarshal r s)
        \<and> ecdsa_VerifyASN1 c (EcdsaPublic cv q) dg der)"

lemma alg_distinct:
  "AlgES256 \<noteq> AlgEdDSA" "AlgES384 \<noteq> AlgEdDSA" "AlgES512 \<noteq> AlgEdDSA"
  "AlgES384 \<noteq> AlgES256" "AlgES512 \<noteq> AlgES256" "AlgES512 \<noteq> AlgES384"
  by (simp_all add: alg_defs)

lemma ecdsa_sign_verify:
  assumes "signing_laws c" and "PublicOf c (signer_key s) = EcdsaPublic cv q"
    and "verifier_key v = EcdsaPublic cv q" and "ecdsaSign c d s data h cv = Inr sig"
  shows "ecdsaVerify c v data sig h cv = None \<and> length sig \<le> 132"
proof -
  from assms(4) obtain der where der: "key_Sign c d (signer_key s) (hashData c h data) h = Some der"
    and sig: "derToRawECDSA der cv = Inr sig"
    by (auto simp: ecdsaSign_def split: option.splits)
  obtain r t where rt: "r < 256 ^ curveKeySize cv" "t < 256 ^ curveKeySize cv" "der = derMarshal r t"
    and ok: "ecdsa_VerifyASN1 c (EcdsaPublic cv q) (hashData c h data) der"
    using assms(1,2) der unfolding signing_laws_def by metis
  from der_raw_round_trip [OF rt(1,2)] sig rt(3)
  have "length sig = 2 * curveKeySize cv" and "rawToDerECDSA sig cv = Inr der" by auto
  moreover have "curveKeySize cv \<le> 66" by (rule curveKeySize_le)
  ultimately show ?thesis using ok assms(3) by (simp add: ecdsaVerify_def isEcdsa_def)
qed

text \<open>A verifier for the public key of a signer.\<close>

definition matching :: "SignCrypto \<Rightarrow> Signer \<Rightarrow> Verifier \<Rightarrow> bool" where
  "matching c s v \<longleftrightarrow> algForKey c (signer_key s) = Inr (signer_alg s) \<and> verifier_key v = PublicOf c (signer_key s)
     \<and> verifier_alg v = signer_alg s \<and> verifier_external v = signer_external s
     \<and> signer_enc s = newEncoder \<and> verifier_enc v = newEncoder"

lemma signBytes_verifies:
  assumes "signing_laws c" and "matching c s v" and "signBytes c d s data = Inr sig"
  shows "verifyBytes c v data sig = None \<and> length sig \<le> 132"
proof (cases "PublicOf c (signer_key s)")
  case (Ed25519Public p)
  with assms(2,3) obtain k where k: "signer_key s = Ed25519PrivateKey k" "sig = ed25519_Sign c k data"
    and alg: "signer_alg s = AlgEdDSA"
    by (auto simp: matching_def algForKey_def algForPublicKey_def signBytes_def split: SignerKey.splits)
  have "ed25519_Verify c p data sig \<and> length sig = 64"
    using assms(1) Ed25519Public k unfolding signing_laws_def by metis
  with assms(2) Ed25519Public alg show ?thesis by (simp add: matching_def verifyBytes_def)
next
  case (EcdsaPublic cv q)
  note e = ecdsa_sign_verify [OF assms(1) EcdsaPublic]
  with EcdsaPublic assms(2,3) alg_distinct show ?thesis
    by (cases cv) (auto simp: matching_def algForKey_def algForPublicKey_def signBytes_def verifyBytes_def)
qed (use assms(2) in \<open>auto simp: matching_def algForKey_def algForPublicKey_def\<close>)

lemma NewSigner_NewVerifier:
  assumes "NewSigner ord c key [WithSignerExternalData ext] = Inr s"
    and "NewVerifier (PublicOf c key) [WithVerifierExternalData ext] = Inr v"
  shows "matching c s v \<and> fst (encodeProtected ord (SetAlgorithm (signer_alg s) NoHeaders)) = Inr (signer_protectedBytes s)"
  using assms
  by (auto simp: NewSigner_def NewVerifier_def matching_def orElse_eq_Inr algForKey_def WithSignerExternalData_def
      WithVerifierExternalData_def Let_def)

section \<open>Headers that hold the algorithm only\<close>

definition algHeaders :: "i64 \<Rightarrow> Headers" where
  "algHeaders alg = SetAlgorithm alg NoHeaders"

lemma algHeaders_entries: "entriesOf (algHeaders alg) = [(headerLabelAlgorithm, GInt64 alg)]" "\<not> cacheValid (algHeaders alg)"
  by (simp_all add: algHeaders_def SetAlgorithm_def SetHeader_def hashable_def headerLabelAlgorithm_def entriesOf_def
      NoHeaders_def mapPut_def)

lemma algHeaders_plain: "plain_headers (algHeaders alg)"
  by (simp add: plain_headers_def algHeaders_entries plain_entries_def plain_goval_def hashable_def headerLabelAlgorithm_def)

lemma NoHeaders_plain: "plain_headers NoHeaders"
  by (simp add: plain_headers_def NoHeaders_def entriesOf_def plain_entries_def)

lemma reorders_single: "reorders ord \<Longrightarrow> ord [x] = [x]"
  using mset_single_iff [of "ord [x]" x] by (simp add: reorders_def)

lemma algHeaders_encoded:
  assumes "reorders ord"
  shows "encodeHeaderMap ord (entriesOf (algHeaders alg))
    = Inr (AppendHead [] MajorMap 1 @ fst (encode detOpts [] (Uint 1)) @ fst (encode detOpts [] (goInt alg)))"
proof -
  have "headerParamsToMap ord (entriesOf (algHeaders alg)) = MakeMap [(Uint 1, goInt alg)]"
    using assms by (simp add: algHeaders_entries headerParamsToMap_def reorders_single goToCBOR_def headerLabelAlgorithm_def goInt_def)
  moreover have "snd (encode detOpts [] (goInt alg)) = None" by (simp add: goInt_def leaf_encode)
  then have "encode detOpts [] (MakeMap [(Uint 1, goInt alg)])
    = (AppendHead [] MajorMap 1 @ fst (encode detOpts [] (Uint 1)) @ fst (encode detOpts [] (goInt alg)), None)"
    by (simp add: MakeMap_def encode.simps [of detOpts "[]" "Value KindMap n [] [] [] ps" for n ps] encodeMap_value
        leaf_encode entryOrder_def)
  ultimately show ?thesis by (simp add: encodeHeaderMap_def coseEncode_encode)
qed

lemma algHeaders_ok:
  assumes "reorders ord"
  shows "headers_ok ord (algHeaders alg)"
proof -
  have "length (fst (encode detOpts [] (Uint 1))) \<le> 9" "length (fst (encode detOpts [] (goInt alg))) \<le> 9"
    by (simp_all add: goInt_def leaf_encode_length)
  moreover have "length (AppendHead [] MajorMap 1) \<le> 9" by (simp add: length_AppendHead headSize_def)
  ultimately show ?thesis
    using algHeaders_encoded [OF assms, of alg]
    by (simp add: headers_ok_def algHeaders_plain cache_ok_def algHeaders_entries protectedBytes_def encodeProtected_def
        IsEmpty_def)
qed

lemma protectedBytes_encode:
  "fst (protectedBytes ord h) = (case fst (encodeProtected ord h) of Inl e \<Rightarrow> Inl e | Inr b \<Rightarrow> Inr (orEmpty b))"
  by (auto simp: protectedBytes_def orEmpty_def split: prod.splits sum.splits option.splits)

end
