(* ===== verification/Aes_Key_Wrap.thy ===== *)
theory Aes_Key_Wrap
  imports Go_Prelude
begin

text \<open>
  AES key wrap (\<^verbatim>\<open>cose/internal/aeskw/aeskw.go\<close>). The block cipher of \<^verbatim>\<open>crypto/aes\<close> is a parameter:
  encryption and decryption of one 16-byte block under a key; \<open>block_laws\<close> says that they are
  permutations of the blocks, inverse to each other. The state of both loops is the register \<open>A\<close> and
  the list \<open>R\<close> of 8-byte registers; a round of the loop is one step on it.
\<close>

record BlockCipher =
  BlockEncrypt :: "bytes \<Rightarrow> bytes \<Rightarrow> bytes"
  BlockDecrypt :: "bytes \<Rightarrow> bytes \<Rightarrow> bytes"

definition block_laws :: "BlockCipher \<Rightarrow> bool" where
  "block_laws c \<longleftrightarrow> (\<forall>k b. length b = 16 \<longrightarrow>
     length (BlockEncrypt c k b) = 16 \<and> length (BlockDecrypt c k b) = 16
     \<and> BlockDecrypt c k (BlockEncrypt c k b) = b \<and> BlockEncrypt c k (BlockDecrypt c k b) = b)"

datatype aeskw_error = BadPlaintextLength | BadCiphertextLength | BadKeySize | IntegrityCheckFailed

text \<open>\<open>aes.NewCipher\<close> accepts keys of 16, 24 and 32 bytes.\<close>

definition NewCipherOk :: "bytes \<Rightarrow> bool" where
  "NewCipherOk key \<longleftrightarrow> length key = 16 \<or> length key = 24 \<or> length key = 32"

definition defaultIV :: bytes where
  "defaultIV = replicate 8 0xa6"

definition xorBytes :: "bytes \<Rightarrow> bytes \<Rightarrow> bytes" where
  "xorBytes a b = map2 (XOR) a b"

type_synonym registers = "bytes \<times> bytes list"

definition wrapStep :: "(bytes \<Rightarrow> bytes) \<Rightarrow> nat \<Rightarrow> nat \<times> nat \<Rightarrow> registers \<Rightarrow> registers" where
  "wrapStep enc n ji s =
     (case (ji, s) of ((j, i), (a, r)) \<Rightarrow>
        let buf = enc (a @ r ! i); t = n * j + i + 1 in
        (xorBytes (take 8 buf) (be_bytes 8 t), r[i := drop 8 buf]))"

definition unwrapStep :: "(bytes \<Rightarrow> bytes) \<Rightarrow> nat \<Rightarrow> nat \<times> nat \<Rightarrow> registers \<Rightarrow> registers" where
  "unwrapStep dec n ji s =
     (case (ji, s) of ((j, i), (a, r)) \<Rightarrow>
        let t = n * j + i + 1; buf = dec (xorBytes a (be_bytes 8 t) @ r ! i) in
        (take 8 buf, r[i := drop 8 buf]))"

text \<open>The rounds in the order of the two nested loops of \<open>Wrap\<close>.\<close>

definition rounds :: "nat \<Rightarrow> (nat \<times> nat) list" where
  "rounds n = concat (map (\<lambda>j. map (\<lambda>i. (j, i)) [0..<n]) [0..<6])"

definition blocks8 :: "nat \<Rightarrow> bytes \<Rightarrow> bytes list" where
  "blocks8 n b = map (\<lambda>i. take 8 (drop (i * 8) b)) [0..<n]"

definition Wrap :: "BlockCipher \<Rightarrow> bytes \<Rightarrow> bytes \<Rightarrow> aeskw_error + bytes" where
  "Wrap c kek plaintext =
     (let n = length plaintext div 8 in
      if length plaintext mod 8 \<noteq> 0 \<or> n < 2 then Inl BadPlaintextLength
      else if \<not> NewCipherOk kek then Inl BadKeySize
      else
        let (a, r) = fold (wrapStep (BlockEncrypt c kek) n) (rounds n) (defaultIV, blocks8 n plaintext) in
        Inr (a @ concat r))"

definition Unwrap :: "BlockCipher \<Rightarrow> bytes \<Rightarrow> bytes \<Rightarrow> aeskw_error + bytes" where
  "Unwrap c kek ciphertext =
     (let n = length ciphertext div 8 - 1 in
      if length ciphertext mod 8 \<noteq> 0 \<or> n < 2 then Inl BadCiphertextLength
      else if \<not> NewCipherOk kek then Inl BadKeySize
      else
        let (a, r) = fold (unwrapStep (BlockDecrypt c kek) n) (rev (rounds n))
          (take 8 ciphertext, blocks8 n (drop 8 ciphertext)) in
        if a \<noteq> defaultIV then Inl IntegrityCheckFailed else Inr (concat r))"

section \<open>The steps are inverse to each other\<close>

lemma length_xorBytes [simp]: "length (xorBytes a b) = min (length a) (length b)"
  by (simp add: xorBytes_def)

lemma xorBytes_twice: "length a = length b \<Longrightarrow> xorBytes (xorBytes a b) b = a"
  by (induction a b rule: list_induct2) (simp_all add: xorBytes_def xor.assoc)

definition registers_ok :: "nat \<Rightarrow> registers \<Rightarrow> bool" where
  "registers_ok n s \<longleftrightarrow> length (fst s) = 8 \<and> length (snd s) = n \<and> (\<forall>x \<in> set (snd s). length x = 8)"

lemma registers_okD: "registers_ok n (a, r) \<Longrightarrow> i < n \<Longrightarrow> length a = 8 \<and> length (r ! i) = 8 \<and> length r = n"
  by (simp add: registers_ok_def)

lemma registers_ok_update:
  "registers_ok n (a, r) \<Longrightarrow> length a' = 8 \<Longrightarrow> length x = 8 \<Longrightarrow> registers_ok n (a', r[i := x])"
  by (auto simp: registers_ok_def dest: set_update_subset_insert [THEN subsetD])

lemma wrapStep_unwrapStep:
  assumes "block_laws c" and "registers_ok n s" and "i < n"
  shows "registers_ok n (wrapStep (BlockEncrypt c k) n (j, i) s)
    \<and> unwrapStep (BlockDecrypt c k) n (j, i) (wrapStep (BlockEncrypt c k) n (j, i) s) = s"
proof -
  obtain a r where s: "s = (a, r)" by (cases s)
  note l = registers_okD [OF assms(2) [unfolded s] assms(3)]
  define buf where "buf = BlockEncrypt c k (a @ r ! i)"
  have buf: "length buf = 16" "BlockDecrypt c k buf = a @ r ! i"
    using assms(1) l by (simp_all add: block_laws_def buf_def)
  then show ?thesis
    using l assms(3) registers_ok_update [OF assms(2) [unfolded s]]
    by (simp add: s wrapStep_def unwrapStep_def Let_def xorBytes_twice flip: buf_def)
qed

lemma unwrapStep_wrapStep:
  assumes "block_laws c" and "registers_ok n s" and "i < n"
  shows "registers_ok n (unwrapStep (BlockDecrypt c k) n (j, i) s)
    \<and> wrapStep (BlockEncrypt c k) n (j, i) (unwrapStep (BlockDecrypt c k) n (j, i) s) = s"
proof -
  obtain a r where s: "s = (a, r)" by (cases s)
  note l = registers_okD [OF assms(2) [unfolded s] assms(3)]
  define buf where "buf = BlockDecrypt c k (xorBytes a (be_bytes 8 (Suc (n * j + i))) @ r ! i)"
  have buf: "length buf = 16" "BlockEncrypt c k buf = xorBytes a (be_bytes 8 (Suc (n * j + i))) @ r ! i"
    using assms(1) l by (simp_all add: block_laws_def buf_def)
  then show ?thesis
    using l assms(3) registers_ok_update [OF assms(2) [unfolded s]]
    by (simp add: s wrapStep_def unwrapStep_def Let_def xorBytes_twice flip: buf_def)
qed

lemma fold_undo:
  assumes "\<And>x s. x \<in> set xs \<Longrightarrow> P s \<Longrightarrow> P (f x s) \<and> g x (f x s) = s" and "P s"
  shows "P (fold f xs s) \<and> fold g (rev xs) (fold f xs s) = s"
  using assms
proof (induction xs arbitrary: s)
  case (Cons x xs)
  from Cons.prems(1) [of x s] Cons.prems(2) have x: "P (f x s)" "g x (f x s) = s" by auto
  with Cons.IH [of "f x s"] Cons.prems(1) show ?case by simp
qed simp

lemma rounds_index: "ji \<in> set (rounds n) \<Longrightarrow> snd ji < n"
  by (auto simp: rounds_def)

section \<open>Blocks\<close>

lemma blocks8_ok: "length b = 8 * n \<Longrightarrow> x \<in> set (blocks8 n b) \<Longrightarrow> length x = 8"
  by (auto simp: blocks8_def)

lemma blocks8_registers:
  assumes "length b = 8 * n" and "length a = 8"
  shows "registers_ok n (a, blocks8 n b)"
proof -
  have "length (blocks8 n b) = n" by (simp add: blocks8_def)
  moreover have "\<forall>x \<in> set (blocks8 n b). length x = 8" using blocks8_ok [OF assms(1)] by (rule ballI)
  ultimately show ?thesis using assms(2) by (simp add: registers_ok_def)
qed

lemma blocks8_Suc: "blocks8 (Suc n) b = take 8 b # blocks8 n (drop 8 b)"
  unfolding blocks8_def by (subst upt_conv_Cons) (simp_all add: map_Suc_upt [symmetric] comp_def add.commute del: upt_Suc)

lemma concat_blocks8: "length b = 8 * n \<Longrightarrow> concat (blocks8 n b) = b"
proof (induction n arbitrary: b)
  case (Suc n)
  then show ?case by (simp add: blocks8_Suc)
qed (simp add: blocks8_def)

lemma blocks8_concat: "length r = n \<Longrightarrow> \<forall>x \<in> set r. length x = 8 \<Longrightarrow> blocks8 n (concat r) = r"
proof (induction r arbitrary: n)
  case (Cons x r)
  then show ?case by (cases n) (simp_all add: blocks8_Suc)
qed (simp add: blocks8_def)

lemma length_concat8: "\<forall>x \<in> set r. length x = 8 \<Longrightarrow> length (concat r) = 8 * length r"
  by (induction r) simp_all

lemma wrap_rounds:
  assumes "block_laws c" and "registers_ok n s"
  shows "registers_ok n (fold (wrapStep (BlockEncrypt c k) n) (rounds n) s)
    \<and> fold (unwrapStep (BlockDecrypt c k) n) (rev (rounds n)) (fold (wrapStep (BlockEncrypt c k) n) (rounds n) s) = s"
  by (rule fold_undo [where P = "registers_ok n", OF _ assms(2)])
    (use wrapStep_unwrapStep [OF assms(1)] rounds_index in force)

lemma unwrap_rounds:
  assumes "block_laws c" and "registers_ok n s"
  shows "registers_ok n (fold (unwrapStep (BlockDecrypt c k) n) (rev (rounds n)) s)
    \<and> fold (wrapStep (BlockEncrypt c k) n) (rounds n) (fold (unwrapStep (BlockDecrypt c k) n) (rev (rounds n)) s) = s"
  using fold_undo [where P = "registers_ok n" and xs = "rev (rounds n)" and f = "unwrapStep (BlockDecrypt c k) n"
      and g = "wrapStep (BlockEncrypt c k) n", OF _ assms(2)]
    unwrapStep_wrapStep [OF assms(1)] rounds_index by force

text \<open>Both functions on inputs of the right length.\<close>

lemma Wrap_blocks:
  assumes "length p = 8 * n" and "2 \<le> n" and "NewCipherOk kek"
    and "fold (wrapStep (BlockEncrypt c kek) n) (rounds n) (defaultIV, blocks8 n p) = (a, r)"
  shows "Wrap c kek p = Inr (a @ concat r)"
proof -
  have "length p div 8 = n" "length p mod 8 = 0" "\<not> n < 2" using assms(1,2) by simp_all
  then show ?thesis using assms(3,4) by (simp only: Wrap_def Let_def prod.case simp_thms if_False)
qed

lemma Unwrap_blocks:
  assumes "length w = 8 * n + 8" and "2 \<le> n" and "NewCipherOk kek"
    and "fold (unwrapStep (BlockDecrypt c kek) n) (rev (rounds n)) (take 8 w, blocks8 n (drop 8 w)) = (a, r)"
  shows "Unwrap c kek w = (if a \<noteq> defaultIV then Inl IntegrityCheckFailed else Inr (concat r))"
proof -
  have "length w div 8 - 1 = n" "length w mod 8 = 0" "\<not> n < 2" using assms(1,2) by simp_all
  then show ?thesis using assms(3,4) by (simp only: Unwrap_def Let_def prod.case simp_thms if_False)
qed

lemma Unwrap_Wrap:
  assumes "block_laws c" and "Wrap c kek p = Inr w"
  shows "Unwrap c kek w = Inr p \<and> length w = length p + 8"
proof -
  define n where "n = length p div 8"
  from assms(2) have n: "length p = 8 * n" "2 \<le> n" and key: "NewCipherOk kek"
    by (auto simp: Wrap_def n_def Let_def split: if_splits)
  obtain a r where ar: "fold (wrapStep (BlockEncrypt c kek) n) (rounds n) (defaultIV, blocks8 n p) = (a, r)"
    by (cases "fold (wrapStep (BlockEncrypt c kek) n) (rounds n) (defaultIV, blocks8 n p)")
  have init: "registers_ok n (defaultIV, blocks8 n p)"
    by (rule blocks8_registers [OF n(1)]) (simp add: defaultIV_def)
  from wrap_rounds [OF assms(1) init, of kek] ar have ok: "registers_ok n (a, r)"
    and inverse: "fold (unwrapStep (BlockDecrypt c kek) n) (rev (rounds n)) (a, r) = (defaultIV, blocks8 n p)"
    by simp_all
  have w: "w = a @ concat r" using Wrap_blocks [OF n key ar] assms(2) by simp
  have lw: "length w = 8 * n + 8" and split: "take 8 w = a" "blocks8 n (drop 8 w) = r"
    using ok length_concat8 [of r] blocks8_concat [of r n] unfolding w by (simp_all add: registers_ok_def)
  have "fold (unwrapStep (BlockDecrypt c kek) n) (rev (rounds n)) (take 8 w, blocks8 n (drop 8 w))
      = (defaultIV, blocks8 n p)"
    unfolding split by (rule inverse)
  from Unwrap_blocks [OF lw n(2) key this] have "Unwrap c kek w = Inr p" by (simp add: concat_blocks8 [OF n(1)])
  with lw n(1) show ?thesis by simp
qed

lemma Wrap_Unwrap:
  assumes "block_laws c" and "Unwrap c kek w = Inr p"
  shows "Wrap c kek p = Inr w"
proof -
  define n where "n = length w div 8 - 1"
  from assms(2) have n: "length w = 8 * n + 8" "2 \<le> n" and key: "NewCipherOk kek"
    by (auto simp: Unwrap_def n_def Let_def split: if_splits)
  obtain a r where ar: "fold (unwrapStep (BlockDecrypt c kek) n) (rev (rounds n)) (take 8 w, blocks8 n (drop 8 w)) = (a, r)"
    by (cases "fold (unwrapStep (BlockDecrypt c kek) n) (rev (rounds n)) (take 8 w, blocks8 n (drop 8 w))")
  have len: "length (drop 8 w) = 8 * n" using n by simp
  have init: "registers_ok n (take 8 w, blocks8 n (drop 8 w))"
    by (rule blocks8_registers [OF len]) (simp add: n(1))
  from unwrap_rounds [OF assms(1) init, of kek] ar have ok: "registers_ok n (a, r)"
    and inverse: "fold (wrapStep (BlockEncrypt c kek) n) (rounds n) (a, r) = (take 8 w, blocks8 n (drop 8 w))"
    by simp_all
  have p: "p = concat r" and a: "a = defaultIV"
    using Unwrap_blocks [OF n key ar] assms(2) by (simp_all split: if_splits)
  have lp: "length p = 8 * n" and r: "blocks8 n p = r"
    using ok length_concat8 [of r] blocks8_concat [of r n] unfolding p by (simp_all add: registers_ok_def)
  have "fold (wrapStep (BlockEncrypt c kek) n) (rounds n) (defaultIV, blocks8 n p) = (take 8 w, blocks8 n (drop 8 w))"
    unfolding r a [symmetric] by (rule inverse)
  from Wrap_blocks [OF lp n(2) key this] show ?thesis by (simp add: concat_blocks8 [OF len])
qed

text \<open>C11: For a block cipher that is a permutation, unwrapping accepts exactly the ciphertexts that wrapping under the
  same key produces, and returns the key that was wrapped; nothing else passes the integrity check.\<close>
theorem unwrap_iff_wrap:
  assumes "block_laws c"
  shows "Unwrap c kek w = Inr p \<longleftrightarrow> Wrap c kek p = Inr w"
  using Unwrap_Wrap [OF assms] Wrap_Unwrap [OF assms] by blast

definition toyCipher :: BlockCipher where
  "toyCipher = \<lparr>BlockEncrypt = (\<lambda>k b. rev b), BlockDecrypt = (\<lambda>k b. rev b)\<rparr>"

theorem unwrap_iff_wrap_witness:
  "\<exists>w. length w = 24 \<and> Wrap toyCipher (replicate 16 1) (replicate 16 2) = Inr w
    \<and> Unwrap toyCipher (replicate 16 1) w = Inr (replicate 16 2)"
proof -
  have laws: "block_laws toyCipher" by (simp add: block_laws_def toyCipher_def)
  obtain w where w: "Wrap toyCipher (replicate 16 1) (replicate 16 2) = Inr w"
    by (cases "Wrap toyCipher (replicate 16 1) (replicate 16 2)")
      (auto simp: Wrap_def NewCipherOk_def split: prod.splits)
  with unwrap_iff_wrap [OF laws, of "replicate 16 1" w "replicate 16 2"] Unwrap_Wrap [OF laws w] show ?thesis
    by auto
qed

end
