(* ===== verification/Cose_Keys.thy ===== *)
theory Cose_Keys
  imports Cose_Sign Aes_Key_Wrap
begin

text \<open>
  How a content key reaches a recipient (\<^verbatim>\<open>cose/keyderiver.go\<close> and the derivers in
  \<^verbatim>\<open>aeskw_deriver.go\<close>, \<^verbatim>\<open>ecdh_deriver.go\<close>, \<^verbatim>\<open>pbes2_deriver.go\<close> and \<^verbatim>\<open>hpke_deriver.go\<close>). The interface
  \<open>KeyDeriver\<close> is the type of its five implementations. What they call of Go's cryptographic packages
  is a record of functions, the parameter \<open>c\<close>; a call that draws randomness takes the number of the
  draw.
\<close>

datatype dh_curve = DH_P256 | DH_P384 | DH_P521 | DH_X25519

record KeyCrypto = BlockCipher +
  RandomBytes :: "nat \<Rightarrow> nat \<Rightarrow> bytes option"
  GenerateKey :: "nat \<Rightarrow> dh_curve \<Rightarrow> bytes option"
  PublicBytes :: "dh_curve \<Rightarrow> bytes \<Rightarrow> bytes"
  ValidPublicKey :: "dh_curve \<Rightarrow> bytes \<Rightarrow> bool"
  SharedSecret :: "dh_curve \<Rightarrow> bytes \<Rightarrow> bytes \<Rightarrow> bytes option"
  HkdfKey :: "bytes \<Rightarrow> bytes \<Rightarrow> int \<Rightarrow> bytes option"
  Pbkdf2Key :: "bytes \<Rightarrow> bytes \<Rightarrow> int \<Rightarrow> int \<Rightarrow> bytes option"
  HpkeKeyOk :: "dh_curve \<Rightarrow> bytes \<Rightarrow> bool"
  HpkeSeal :: "nat \<Rightarrow> dh_curve \<times> bytes \<Rightarrow> bytes \<Rightarrow> bytes \<Rightarrow> bytes option"
  HpkeOpen :: "dh_curve \<times> bytes \<Rightarrow> bytes \<Rightarrow> bytes \<Rightarrow> bytes option"
  GcmSeal :: "bytes \<Rightarrow> bytes \<Rightarrow> bytes \<Rightarrow> bytes \<Rightarrow> bytes"
  GcmOpen :: "bytes \<Rightarrow> bytes \<Rightarrow> bytes \<Rightarrow> bytes \<Rightarrow> bytes option"
  HmacSum :: "crypto_hash \<Rightarrow> bytes \<Rightarrow> bytes \<Rightarrow> bytes"

record KeyWrapOpts =
  CEKAlgorithm :: i64
  CEKLength :: int

text \<open>The pointers of \<open>ECDHESKey\<close> and \<open>HPKEKey\<close> may be nil.\<close>

datatype KeyDeriver =
    DirectKey bytes
  | AESKWKey bytes
  | ECDHESKey (PrivateKey: "(dh_curve \<times> bytes) option") (PeerPublic: "(dh_curve \<times> bytes) option")
  | PBES2Key bytes "bytes option" int
  | HPKEKey "(dh_curve \<times> bytes) option" "(dh_curve \<times> bytes) option"

type_synonym wrapped = "cose_error + (bytes option \<times> Headers)"

definition headerLabelEphemeralKey :: i64 where "headerLabelEphemeralKey = - 1"
definition headerLabelSalt :: i64 where "headerLabelSalt = - 20"
definition headerLabelPBES2Count :: i64 where "headerLabelPBES2Count = - 21"

definition setInt :: "i64 \<Rightarrow> goval \<Rightarrow> Headers \<Rightarrow> Headers" where
  "setInt label v h = the (SetHeader (GInt64 label) v h)"

definition getInt :: "i64 \<Rightarrow> Headers \<Rightarrow> goval" where
  "getInt label h = the (Get (GInt64 label) h)"

section \<open>AES key wrap\<close>

definition AESKWAlgorithm :: "bytes \<Rightarrow> i64" where
  "AESKWAlgorithm key =
     (if length key = 16 then AlgA128KW else if length key = 24 then AlgA192KW
      else if length key = 32 then AlgA256KW else 0)"

definition validateKeyLen :: "bytes \<Rightarrow> cose_error option" where
  "validateKeyLen key = (if length key = 16 \<or> length key = 24 \<or> length key = 32 then None else Some ErrInvalidKey)"

definition AESKW_WrapKey :: "'m KeyCrypto_scheme \<Rightarrow> bytes \<Rightarrow> bytes \<Rightarrow> wrapped" where
  "AESKW_WrapKey c key cek =
     (case validateKeyLen key of
        Some e \<Rightarrow> Inl e
      | None \<Rightarrow>
          (case Wrap (BlockCipher.truncate c) key cek of
             Inl _ \<Rightarrow> Inl ErrInvalidKey
           | Inr wrapped \<Rightarrow> Inr (Some wrapped, NoHeaders)))"

definition AESKW_UnwrapKey :: "'m KeyCrypto_scheme \<Rightarrow> bytes \<Rightarrow> bytes option \<Rightarrow> cose_error + bytes" where
  "AESKW_UnwrapKey c key ciphertext =
     (case validateKeyLen key of
        Some e \<Rightarrow> Inl e
      | None \<Rightarrow>
          (case Unwrap (BlockCipher.truncate c) key (orEmpty ciphertext) of
             Inl _ \<Rightarrow> Inl ErrDecryption
           | Inr cek \<Rightarrow> Inr cek))"

section \<open>A direct key\<close>

definition DirectKey_check :: "bytes \<Rightarrow> KeyWrapOpts \<Rightarrow> cose_error option" where
  "DirectKey_check key opts =
     (if CEKLength opts > 0 \<and> int (length key) \<noteq> CEKLength opts then Some ErrInvalidKey else None)"

definition DirectKey_WrapKey :: "bytes \<Rightarrow> bytes \<Rightarrow> KeyWrapOpts \<Rightarrow> wrapped" where
  "DirectKey_WrapKey key cek opts =
     (case DirectKey_check key opts of Some e \<Rightarrow> Inl e | None \<Rightarrow> Inr (None, NoHeaders))"

definition DirectKey_UnwrapKey :: "bytes \<Rightarrow> KeyWrapOpts \<Rightarrow> cose_error + bytes" where
  "DirectKey_UnwrapKey key opts =
     (case DirectKey_check key opts of Some e \<Rightarrow> Inl e | None \<Rightarrow> Inr key)"

section \<open>ECDH-ES\<close>

definition cekLenForAlg :: "i64 \<Rightarrow> int" where
  "cekLenForAlg alg =
     (if alg = AlgA128GCM then 16 else if alg = AlgA192GCM then 24 else if alg = AlgA256GCM then 32 else 0)"

definition keyLenOf :: "KeyWrapOpts \<Rightarrow> int" where
  "keyLenOf opts = (if CEKLength opts = 0 then cekLenForAlg (CEKAlgorithm opts) else CEKLength opts)"

definition buildHKDFInfo :: "i64 \<Rightarrow> int \<Rightarrow> cose_error + bytes" where
  "buildHKDFInfo alg keyLen =
     coseEncode (MakeArray [goToCBOR (GInt64 alg), Bytes [], Bytes [],
       MakeArray [goToCBOR (GInt64 (of_int (keyLen * 8)))]])"

definition hkdfDerive :: "'m KeyCrypto_scheme \<Rightarrow> bytes \<Rightarrow> bytes \<Rightarrow> int \<Rightarrow> cose_error + bytes" where
  "hkdfDerive c secret info keyLen =
     (case HkdfKey c secret info keyLen of None \<Rightarrow> Inl CoseCrypto | Some k \<Rightarrow> Inr k)"

text \<open>The key for a shared secret; \<open>bad\<close> is the error when no length is known.\<close>

definition deriveFromShared ::
  "'m KeyCrypto_scheme \<Rightarrow> cose_error \<Rightarrow> KeyWrapOpts \<Rightarrow> bytes \<Rightarrow> cose_error + bytes" where
  "deriveFromShared c bad opts shared =
     (if keyLenOf opts = 0 then Inl bad
      else orElse (buildHKDFInfo (CEKAlgorithm opts) (keyLenOf opts)) (\<lambda>info.
           hkdfDerive c shared info (keyLenOf opts)))"

definition DeriveKey ::
  "'m KeyCrypto_scheme \<Rightarrow> nat \<Rightarrow> (dh_curve \<times> bytes) option \<Rightarrow> KeyWrapOpts \<Rightarrow> cose_error + (bytes \<times> Headers)" where
  "DeriveKey c draw peer opts =
     (case peer of
        None \<Rightarrow> Inl CosePanic
      | Some (cv, pub) \<Rightarrow>
          (case GenerateKey c draw cv of
             None \<Rightarrow> Inl ErrInvalidKey
           | Some ephemeral \<Rightarrow>
               (case SharedSecret c cv ephemeral pub of
                  None \<Rightarrow> Inl ErrInvalidKey
                | Some shared \<Rightarrow>
                    orElse (deriveFromShared c ErrInvalidKey opts shared) (\<lambda>derived.
                      Inr (derived, setInt headerLabelEphemeralKey (GBytes (PublicBytes c cv ephemeral)) NoHeaders)))))"

text \<open>\<open>WrapKey\<close> computes the same and keeps the headers only: it wraps nothing.\<close>

definition ECDHES_WrapKey :: "'m KeyCrypto_scheme \<Rightarrow> nat \<Rightarrow> (dh_curve \<times> bytes) option \<Rightarrow> bytes \<Rightarrow> KeyWrapOpts \<Rightarrow> wrapped" where
  "ECDHES_WrapKey c draw peer cek opts = orElse (DeriveKey c draw peer opts) (\<lambda>(derived, h). Inr (None, h))"

definition ECDHES_UnwrapKey ::
  "'m KeyCrypto_scheme \<Rightarrow> (dh_curve \<times> bytes) option \<Rightarrow> Headers \<Rightarrow> KeyWrapOpts \<Rightarrow> cose_error + bytes" where
  "ECDHES_UnwrapKey c priv h opts =
     (let ephBytes = (case getInt headerLabelEphemeralKey h of GBytes b \<Rightarrow> b | _ \<Rightarrow> []) in
      if length ephBytes = 0 then Inl ErrDecryption
      else case priv of
        None \<Rightarrow> Inl CosePanic
      | Some (cv, k) \<Rightarrow>
          if \<not> ValidPublicKey c cv ephBytes then Inl ErrDecryption
          else case SharedSecret c cv k ephBytes of
            None \<Rightarrow> Inl ErrDecryption
          | Some shared \<Rightarrow> deriveFromShared c ErrDecryption opts shared)"

section \<open>PBES2\<close>

definition PBES2_WrapKey :: "'m KeyCrypto_scheme \<Rightarrow> nat \<Rightarrow> bytes \<Rightarrow> bytes option \<Rightarrow> int \<Rightarrow> bytes \<Rightarrow> wrapped" where
  "PBES2_WrapKey c draw password salt iters cek =
     (case (case salt of Some s \<Rightarrow> Some s | None \<Rightarrow> RandomBytes c draw 16) of
        None \<Rightarrow> Inl ErrInvalidKey
      | Some salt \<Rightarrow>
          let iters = (if iters = 0 then 10000 else iters) in
          (case Pbkdf2Key c password salt iters 16 of
             None \<Rightarrow> Inl ErrInvalidKey
           | Some kek \<Rightarrow>
               (case Wrap (BlockCipher.truncate c) kek cek of
                  Inl _ \<Rightarrow> Inl ErrInvalidKey
                | Inr wrapped \<Rightarrow>
                    Inr (Some wrapped, setInt headerLabelPBES2Count (GInt64 (of_int iters))
                                         (setInt headerLabelSalt (GBytes salt) NoHeaders)))))"

definition PBES2_UnwrapKey ::
  "'m KeyCrypto_scheme \<Rightarrow> bytes \<Rightarrow> bytes option \<Rightarrow> Headers \<Rightarrow> cose_error + bytes" where
  "PBES2_UnwrapKey c password ciphertext h =
     (let salt = (case getInt headerLabelSalt h of GBytes b \<Rightarrow> b | _ \<Rightarrow> []) in
      if length salt = 0 then Inl ErrDecryption
      else case (case getInt headerLabelPBES2Count h of GInt64 x \<Rightarrow> Some (sint x) | GInt x \<Rightarrow> Some (sint x) | _ \<Rightarrow> None) of
        None \<Rightarrow> Inl ErrDecryption
      | Some iters \<Rightarrow>
          (case Pbkdf2Key c password salt iters 16 of
             None \<Rightarrow> Inl ErrDecryption
           | Some kek \<Rightarrow>
               (case Unwrap (BlockCipher.truncate c) kek (orEmpty ciphertext) of
                  Inl _ \<Rightarrow> Inl ErrDecryption
                | Inr cek \<Rightarrow> Inr cek)))"

section \<open>HPKE\<close>

fun digits :: "nat \<Rightarrow> bytes" where
  "digits n = (if n < 10 then [of_nat (48 + n)] else digits (n div 10) @ [of_nat (48 + n mod 10)])"

declare digits.simps [simp del]

text \<open>\<open>fmt.Sprintf("COSE-HPKE-CEK-%d", alg)\<close>\<close>

definition hpkeInfo :: "i64 \<Rightarrow> bytes" where
  "hpkeInfo alg = goString ''COSE-HPKE-CEK-'' @ (if sint alg < 0 then [45] else []) @ digits (nat \<bar>sint alg\<bar>)"

definition HPKE_WrapKey ::
  "'m KeyCrypto_scheme \<Rightarrow> nat \<Rightarrow> (dh_curve \<times> bytes) option \<Rightarrow> bytes \<Rightarrow> KeyWrapOpts \<Rightarrow> wrapped" where
  "HPKE_WrapKey c draw pub cek opts =
     (case pub of
        None \<Rightarrow> Inl ErrInvalidKey
      | Some (cv, p) \<Rightarrow>
          if \<not> HpkeKeyOk c cv p then Inl ErrInvalidKey
          else case HpkeSeal c draw (cv, p) (hpkeInfo (CEKAlgorithm opts)) cek of
            None \<Rightarrow> Inl CoseCrypto
          | Some sealed \<Rightarrow> Inr (Some sealed, NoHeaders))"

definition HPKE_UnwrapKey ::
  "'m KeyCrypto_scheme \<Rightarrow> (dh_curve \<times> bytes) option \<Rightarrow> bytes option \<Rightarrow> KeyWrapOpts \<Rightarrow> cose_error + bytes" where
  "HPKE_UnwrapKey c priv ciphertext opts =
     (case priv of
        None \<Rightarrow> Inl ErrInvalidKey
      | Some (cv, k) \<Rightarrow>
          if \<not> HpkeKeyOk c cv k then Inl ErrInvalidKey
          else case HpkeOpen c (cv, k) (hpkeInfo (CEKAlgorithm opts)) (orEmpty ciphertext) of
            None \<Rightarrow> Inl ErrDecryption
          | Some cek \<Rightarrow> Inr cek)"

section \<open>The interface\<close>

definition DeriverAlgorithm :: "KeyDeriver \<Rightarrow> i64" where
  "DeriverAlgorithm d = (case d of
      DirectKey _ \<Rightarrow> AlgDirect
    | AESKWKey key \<Rightarrow> AESKWAlgorithm key
    | ECDHESKey _ _ \<Rightarrow> AlgECDH_ES_HKDF_256
    | PBES2Key _ _ _ \<Rightarrow> AlgPBES2_HS256_A128KW
    | HPKEKey _ _ \<Rightarrow> AlgHPKEBaseP256SHA256AES128GCM)"

definition WrapKey :: "'m KeyCrypto_scheme \<Rightarrow> nat \<Rightarrow> KeyDeriver \<Rightarrow> bytes \<Rightarrow> KeyWrapOpts \<Rightarrow> wrapped" where
  "WrapKey c draw d cek opts = (case d of
      DirectKey key \<Rightarrow> DirectKey_WrapKey key cek opts
    | AESKWKey key \<Rightarrow> AESKW_WrapKey c key cek
    | ECDHESKey priv peer \<Rightarrow> ECDHES_WrapKey c draw peer cek opts
    | PBES2Key pw salt iters \<Rightarrow> PBES2_WrapKey c draw pw salt iters cek
    | HPKEKey pub priv \<Rightarrow> HPKE_WrapKey c draw pub cek opts)"

definition UnwrapKey ::
  "'m KeyCrypto_scheme \<Rightarrow> KeyDeriver \<Rightarrow> bytes option \<Rightarrow> Headers \<Rightarrow> KeyWrapOpts \<Rightarrow> cose_error + bytes" where
  "UnwrapKey c d ciphertext h opts = (case d of
      DirectKey key \<Rightarrow> DirectKey_UnwrapKey key opts
    | AESKWKey key \<Rightarrow> AESKW_UnwrapKey c key ciphertext
    | ECDHESKey priv peer \<Rightarrow> ECDHES_UnwrapKey c priv h opts
    | PBES2Key pw salt iters \<Rightarrow> PBES2_UnwrapKey c pw ciphertext h
    | HPKEKey pub priv \<Rightarrow> HPKE_UnwrapKey c priv ciphertext opts)"

section \<open>What the primitives promise\<close>

text \<open>The block cipher is a permutation; opening undoes sealing; both sides of a Diffie-Hellman exchange compute
  the same secret, and a generated key has a valid public key; random bytes come in the number asked
  for.\<close>

definition key_laws :: "'m KeyCrypto_scheme \<Rightarrow> bool" where
  "key_laws c \<longleftrightarrow> block_laws (BlockCipher.truncate c)
     \<and> (\<forall>d n b. RandomBytes c d n = Some b \<longrightarrow> length b = n)
     \<and> (\<forall>k n p a. length n = 12 \<longrightarrow> GcmOpen c k n (GcmSeal c k n p a) a = Some p)
     \<and> (\<forall>d cv e k. GenerateKey c d cv = Some e \<longrightarrow>
          ValidPublicKey c cv (PublicBytes c cv e) \<and> PublicBytes c cv e \<noteq> []
          \<and> SharedSecret c cv e (PublicBytes c cv k) = SharedSecret c cv k (PublicBytes c cv e))
     \<and> (\<forall>d cv k info cek s. HpkeSeal c d (cv, PublicBytes c cv k) info cek = Some s \<longrightarrow>
          HpkeOpen c (cv, k) info s = Some cek)"

text \<open>The deriver of a recipient that opens what a sender's deriver wrapped. Direct keys and ECDH-ES, whose
  \<open>WrapKey\<close> wraps nothing, have none.\<close>

definition opens :: "'m KeyCrypto_scheme \<Rightarrow> KeyDeriver \<Rightarrow> KeyDeriver \<Rightarrow> bool" where
  "opens c d d' = (case (d, d') of
      (AESKWKey k, AESKWKey k') \<Rightarrow> k' = k
    | (PBES2Key pw salt n, PBES2Key pw' _ _) \<Rightarrow> pw' = pw \<and> salt \<noteq> Some [] \<and> - (2 ^ 63) \<le> n \<and> n < 2 ^ 63
    | (HPKEKey (Some (cv, p)) _, HPKEKey _ (Some (cv', k))) \<Rightarrow> cv' = cv \<and> p = PublicBytes c cv k \<and> HpkeKeyOk c cv k
    | _ \<Rightarrow> False)"

lemma map_of_put: "map_of (mapPut k v ps) x = (if x = k then Some v else map_of ps x)"
proof (cases "k \<in> fst ` set ps")
  case True
  have "map_of (map (\<lambda>p. if fst p = k then (k, v) else p) ps) x
      = (if x = k \<and> k \<in> fst ` set ps then Some v else if x = k then None else map_of ps x)"
  proof (induction ps)
    case (Cons p ps)
    then show ?case by (cases p) (auto split: if_splits)
  qed simp
  with True show ?thesis by (simp add: mapPut_def)
next
  case False
  then have "map_of ps k = None" by (simp add: map_of_eq_None_iff)
  with False show ?thesis by (auto simp: mapPut_def map_add_def split: option.splits)
qed

lemma getInt_setInt: "getInt l (setInt l' v h) = (if l = l' then v else getInt l h)"
  by (auto simp: getInt_def setInt_def Get_def SetHeader_def hashable_def entriesOf_def map_of_put split: option.splits)

lemma aeskw_opens:
  assumes "key_laws c" and "AESKW_WrapKey c k cek = Inr (ct, h)"
  shows "AESKW_UnwrapKey c k ct = Inr cek"
  using assms Unwrap_Wrap [of "BlockCipher.truncate c" k cek]
  by (auto simp: AESKW_WrapKey_def AESKW_UnwrapKey_def key_laws_def orEmpty_def split: option.splits sum.splits)

lemma pbes2_opens:
  assumes "key_laws c" and "PBES2_WrapKey c draw pw salt n cek = Inr (ct, h)"
    and "salt \<noteq> Some []" and "- (2 ^ 63) \<le> n" and "n < 2 ^ 63"
  shows "PBES2_UnwrapKey c pw ct h = Inr cek"
proof -
  define m where "m = (if n = 0 then 10000 else n)"
  have m: "sint (of_int m :: i64) = m"
    using assms(4,5) by (simp add: m_def signed_of_int signed_take_bit_int_eq_self)
  from assms(2) obtain s kek w where s: "(case salt of Some s \<Rightarrow> Some s | None \<Rightarrow> RandomBytes c draw 16) = Some s"
    and kek: "Pbkdf2Key c pw s m 16 = Some kek" and w: "Wrap (BlockCipher.truncate c) kek cek = Inr w"
    and out: "ct = Some w" "h = setInt headerLabelPBES2Count (GInt64 (of_int m)) (setInt headerLabelSalt (GBytes s) NoHeaders)"
    by (auto simp: PBES2_WrapKey_def m_def Let_def split: option.splits sum.splits if_splits)
  have "RandomBytes c draw 16 = Some r \<Longrightarrow> length r = 16" for r using assms(1) unfolding key_laws_def by metis
  with s assms(3) have "s \<noteq> []" by (cases salt) force+
  moreover have "Unwrap (BlockCipher.truncate c) kek w = Inr cek"
    using Unwrap_Wrap [OF _ w] assms(1) by (simp add: key_laws_def)
  ultimately show ?thesis
    by (simp add: PBES2_UnwrapKey_def out getInt_setInt headerLabelPBES2Count_def headerLabelSalt_def m kek orEmpty_def)
qed

lemma hpke_opens:
  assumes "key_laws c" and "HPKE_WrapKey c draw (Some (cv, PublicBytes c cv k)) cek opts = Inr (ct, h)"
    and "HpkeKeyOk c cv k"
  shows "HPKE_UnwrapKey c (Some (cv, k)) ct opts = Inr cek"
proof -
  from assms(2) obtain s where "HpkeSeal c draw (cv, PublicBytes c cv k) (hpkeInfo (CEKAlgorithm opts)) cek = Some s" "ct = Some s"
    by (auto simp: HPKE_WrapKey_def split: if_splits option.splits)
  with assms(1,3) show ?thesis by (auto simp: HPKE_UnwrapKey_def key_laws_def orEmpty_def)
qed

text \<open>The interface's contract: the recipient's deriver recovers the content key from the ciphertext and the
  headers that the sender's deriver produced.\<close>

lemma UnwrapKey_WrapKey:
  assumes "key_laws c" and "opens c d d'" and "WrapKey c draw d cek opts = Inr (ct, h)"
  shows "UnwrapKey c d' ct h opts = Inr cek"
  using assms aeskw_opens [OF assms(1)] pbes2_opens [OF assms(1)] hpke_opens [OF assms(1)]
  by (cases d; cases d')
    (auto simp: opens_def WrapKey_def UnwrapKey_def split: option.splits prod.splits)

text \<open>ECDH-ES: both sides derive the same key.\<close>

lemma Underive_Derive:
  assumes "key_laws c" and "DeriveKey c draw (Some (cv, PublicBytes c cv k)) opts = Inr (derived, h)"
  shows "ECDHES_UnwrapKey c (Some (cv, k)) h opts = Inr derived"
proof -
  from assms(2) obtain e shared where e: "GenerateKey c draw cv = Some e"
    and sh: "SharedSecret c cv e (PublicBytes c cv k) = Some shared"
    and derived: "deriveFromShared c ErrInvalidKey opts shared = Inr derived"
    and h: "h = setInt headerLabelEphemeralKey (GBytes (PublicBytes c cv e)) NoHeaders"
    by (auto simp: DeriveKey_def orElse_eq_Inr split: option.splits)
  have "SharedSecret c cv k (PublicBytes c cv e) = Some shared" "ValidPublicKey c cv (PublicBytes c cv e)"
    "PublicBytes c cv e \<noteq> []"
    using assms(1) e sh unfolding key_laws_def by metis+
  moreover have "deriveFromShared c ErrDecryption opts shared = Inr derived"
    using derived by (auto simp: deriveFromShared_def split: if_splits)
  ultimately show ?thesis by (simp add: ECDHES_UnwrapKey_def h getInt_setInt)
qed

end
