(* ===== verification/Cose_Mac.thy ===== *)
theory Cose_Mac
  imports Cose_Keys
begin

text \<open>
  COSE MACs (\<^verbatim>\<open>cose/mac.go\<close>, \<^verbatim>\<open>cose/mac_multi.go\<close>). HMAC is a function of the record of primitives; its
  results are at least as long as the truncated tag, so the slice \<open>tag[:8]\<close> is \<open>take 8\<close>.
\<close>

definition hmacHashFunc :: "i64 \<Rightarrow> cose_error + crypto_hash" where
  "hmacHashFunc alg =
     (if alg = AlgHMAC256_64 \<or> alg = AlgHMAC256 then Inr SHA256
      else if alg = AlgHMAC384 then Inr SHA384
      else if alg = AlgHMAC512 then Inr SHA512
      else Inl ErrUnsupportedAlgorithm)"

definition hmacKeyLen :: "i64 \<Rightarrow> int" where
  "hmacKeyLen alg =
     (if alg = AlgHMAC256_64 \<or> alg = AlgHMAC256 then 32
      else if alg = AlgHMAC384 then 48
      else if alg = AlgHMAC512 then 64
      else 32)"

definition truncatedTag :: "'m KeyCrypto_scheme \<Rightarrow> crypto_hash \<Rightarrow> i64 \<Rightarrow> bytes \<Rightarrow> bytes \<Rightarrow> bytes" where
  "truncatedTag c h alg key toMAC =
     (let tag = HmacSum c h key toMAC in if alg = AlgHMAC256_64 then take 8 tag else tag)"

text \<open>Computing caches the protected headers in the message; so does verifying.\<close>

definition ComputeMAC0 ::
  "order \<Rightarrow> 'm KeyCrypto_scheme \<Rightarrow> bytes option \<Rightarrow> bytes \<Rightarrow> i64 \<Rightarrow> bytes option \<Rightarrow> cose_error + Mac0" where
  "ComputeMAC0 ord c payload key alg externalAAD =
     orElse (hmacHashFunc alg) (\<lambda>h.
       (case encodeProtected ord (SetAlgorithm alg NoHeaders) of
          (Inl e, _) \<Rightarrow> Inl e
        | (Inr protectedB, hs) \<Rightarrow>
            orElse (buildMACStructure protectedB externalAAD payload) (\<lambda>toMAC.
              Inr \<lparr>Protected = hs, Unprotected = NoHeaders, Payload = payload,
                   MacTag = truncatedTag c h alg key toMAC\<rparr>)))"

definition VerifyMAC0 ::
  "order \<Rightarrow> 'm KeyCrypto_scheme \<Rightarrow> Mac0 \<Rightarrow> bytes \<Rightarrow> i64 \<Rightarrow> bytes option \<Rightarrow> cose_error option \<times> Mac0" where
  "VerifyMAC0 ord c msg key alg externalAAD =
     (case hmacHashFunc alg of
        Inl e \<Rightarrow> (Some e, msg)
      | Inr h \<Rightarrow>
          (case encodeProtected ord (Protected msg) of
             (Inl e, hs) \<Rightarrow> (Some e, msg\<lparr>Protected := hs\<rparr>)
           | (Inr protectedB, hs) \<Rightarrow>
               ((case buildMACStructure protectedB externalAAD (Payload msg) of
                   Inl e \<Rightarrow> Some e
                 | Inr toMAC \<Rightarrow> if MacTag msg \<noteq> truncatedTag c h alg key toMAC then Some ErrMACVerification else None),
                msg\<lparr>Protected := hs\<rparr>)))"

section \<open>Several recipients\<close>

text \<open>The loop over the recipients; draw \<open>d\<close> is the one of its first call.\<close>

fun wrapForAll ::
  "'m KeyCrypto_scheme \<Rightarrow> nat \<Rightarrow> KeyDeriver list \<Rightarrow> bytes \<Rightarrow> KeyWrapOpts \<Rightarrow> cose_error + Recipient list" where
  "wrapForAll c d [] cek opts = Inr []"
| "wrapForAll c d (r # rs) cek opts =
     orElse (WrapKey c d r cek opts) (\<lambda>(ciphertext, headers).
     orElse (wrapForAll c (Suc d) rs cek opts) (\<lambda>recipients.
     Inr (\<lparr>Protected = SetAlgorithm (DeriverAlgorithm r) NoHeaders, Unprotected = headers,
           RecipientCiphertext = ciphertext\<rparr> # recipients)))"

definition ComputeMACMulti ::
  "order \<Rightarrow> 'm KeyCrypto_scheme \<Rightarrow> nat \<Rightarrow> bytes option \<Rightarrow> bytes option \<Rightarrow> i64 \<Rightarrow> KeyDeriver list \<Rightarrow> bytes option
     \<Rightarrow> cose_error + Mac" where
  "ComputeMACMulti ord c draw payload key alg recipients externalAAD =
     (if length recipients = 0 then Inl ErrInvalidKey
      else orElse (hmacHashFunc alg) (\<lambda>h.
        case (case key of Some k \<Rightarrow> Some k | None \<Rightarrow> RandomBytes c draw (nat (hmacKeyLen alg))) of
          None \<Rightarrow> Inl CoseCrypto
        | Some cek \<Rightarrow>
            (case encodeProtected ord (SetAlgorithm alg NoHeaders) of
               (Inl e, _) \<Rightarrow> Inl e
             | (Inr protectedB, hs) \<Rightarrow>
                 orElse (buildMACStructureMulti protectedB externalAAD payload) (\<lambda>toMAC.
                 orElse (wrapForAll c (Suc draw) recipients cek \<lparr>CEKAlgorithm = alg, CEKLength = hmacKeyLen alg\<rparr>) (\<lambda>rs.
                 Inr \<lparr>Protected = hs, Unprotected = NoHeaders, Payload = payload,
                      MacTag = truncatedTag c h alg cek toMAC, MacRecipients = rs\<rparr>)))))"

definition VerifyMACMulti ::
  "order \<Rightarrow> 'm KeyCrypto_scheme \<Rightarrow> Mac \<Rightarrow> KeyDeriver \<Rightarrow> int \<Rightarrow> cose_error option \<times> Mac" where
  "VerifyMACMulti ord c msg recipient recipientIndex =
     (if recipientIndex < 0 \<or> recipientIndex \<ge> int (length (MacRecipients msg)) then (Some ErrMACVerification, msg)
      else
        let r = MacRecipients msg ! nat recipientIndex; alg = HeadersAlgorithm (Protected msg) in
        case hmacHashFunc alg of
          Inl e \<Rightarrow> (Some e, msg)
        | Inr h \<Rightarrow>
            (case UnwrapKey c recipient (RecipientCiphertext r) (Unprotected r)
                    \<lparr>CEKAlgorithm = alg, CEKLength = hmacKeyLen alg\<rparr> of
               Inl e \<Rightarrow> (Some (if e = CosePanic then CosePanic else ErrMACVerification), msg)
             | Inr cek \<Rightarrow>
                 (case encodeProtected ord (Protected msg) of
                    (Inl e, hs) \<Rightarrow> (Some e, msg\<lparr>Protected := hs\<rparr>)
                  | (Inr protectedB, hs) \<Rightarrow>
                      ((case buildMACStructureMulti protectedB None (Payload msg) of
                          Inl e \<Rightarrow> Some e
                        | Inr toMAC \<Rightarrow>
                            if MacTag msg \<noteq> truncatedTag c h alg cek toMAC then Some ErrMACVerification else None),
                       msg\<lparr>Protected := hs\<rparr>))))"

section \<open>Verification\<close>

lemma wrapForAll_nth:
  assumes "wrapForAll c d ds cek opts = Inr rs"
  shows "length rs = length ds \<and> (\<forall>i < length ds. \<exists>ct h. WrapKey c (d + i) (ds ! i) cek opts = Inr (ct, h)
    \<and> Unprotected (rs ! i) = h \<and> RecipientCiphertext (rs ! i) = ct)"
  using assms
proof (induction ds arbitrary: d rs)
  case (Cons r ds)
  from Cons.prems obtain ct h rs' where r: "WrapKey c d r cek opts = Inr (ct, h)"
    "wrapForAll c (Suc d) ds cek opts = Inr rs'"
    "rs = \<lparr>Protected = SetAlgorithm (DeriverAlgorithm r) NoHeaders, Unprotected = h, RecipientCiphertext = ct\<rparr> # rs'"
    by (auto simp: orElse_eq_Inr)
  from Cons.IH [OF r(2)] r(1,3) show ?case
    by (auto simp: nth_Cons less_Suc_eq_0_disj split: nat.splits)
qed simp

lemma HeadersAlgorithm_entries:
  "HeadersAlgorithm h = (case map_of (entriesOf h) (GInt64 1) of
     Some (GInt64 a) \<Rightarrow> a | Some (GAlgorithm a) \<Rightarrow> a | _ \<Rightarrow> 0)"
  by (auto simp: HeadersAlgorithm_def Get_def hashable_def headerLabelAlgorithm_def entriesOf_def
      split: option.splits goval.splits)

lemma entriesOf_cache [simp]: "entriesOf (h\<lparr>encodedCache := e, cacheValid := v\<rparr>) = entriesOf h"
  by (simp add: entriesOf_def)

text \<open>Headers that hold the algorithm, after their encoding was cached.\<close>

lemma algHeaders_cached:
  assumes "reorders ord" and "encodeProtected ord (algHeaders alg) = (Inr b, hs)"
  shows "entriesOf hs = entriesOf (algHeaders alg)" and "HeadersAlgorithm hs = alg"
    and "b = Some (encodedCache hs)" and "reorders ord' \<Longrightarrow> headers_ok ord' hs"
proof -
  from assms(2) show e: "entriesOf hs = entriesOf (algHeaders alg)" and b: "b = Some (encodedCache hs)"
    by (auto simp: encodeProtected_def IsEmpty_def algHeaders_entries split: sum.splits if_splits)
  then show "HeadersAlgorithm hs = alg"
    by (simp add: HeadersAlgorithm_entries algHeaders_entries headerLabelAlgorithm_def)
  assume ord': "reorders ord'"
  from assms(2) have cache: "encodeHeaderMap ord (entriesOf (algHeaders alg)) = Inr (encodedCache hs)" "cacheValid hs"
    by (auto simp: encodeProtected_def IsEmpty_def algHeaders_entries split: sum.splits if_splits)
  then have *: "encodeHeaderMap ord' (entriesOf (algHeaders alg)) = Inr (encodedCache hs)"
    using algHeaders_encoded [OF assms(1)] algHeaders_encoded [OF ord'] by simp
  then have "length (encodedCache hs) \<le> 2 ^ 24"
    using algHeaders_ok [OF ord', of alg]
    by (simp add: headers_ok_def protectedBytes_def encodeProtected_def IsEmpty_def algHeaders_entries)
  with * cache(2) e algHeaders_plain [of alg] show "headers_ok ord' hs"
    by (simp add: headers_ok_def plain_headers_def cache_ok_def protectedBytes_def encodeProtected_def IsEmpty_def
        algHeaders_entries)
qed

end
