(* ===== verification/Cose_Encrypt.thy ===== *)
theory Cose_Encrypt
  imports Cose_Mac
begin

text \<open>
  COSE encryption with AES-GCM (\<^verbatim>\<open>cose/encrypt.go\<close>, \<^verbatim>\<open>cose/encrypt_multi.go\<close>). \<open>Seal\<close> and \<open>Open\<close> of the
  cipher are functions of the record of primitives. Go's \<open>Open\<close> panics on a nonce that does not have
  12 bytes; every other failure of it is an error.
\<close>

definition validateAESGCMKey :: "i64 \<Rightarrow> bytes \<Rightarrow> cose_error option" where
  "validateAESGCMKey alg key =
     (if alg = AlgA128GCM then (if length key \<noteq> 16 then Some ErrInvalidKey else None)
      else if alg = AlgA192GCM then (if length key \<noteq> 24 then Some ErrInvalidKey else None)
      else if alg = AlgA256GCM then (if length key \<noteq> 32 then Some ErrInvalidKey else None)
      else Some ErrUnsupportedAlgorithm)"

definition newGCM :: "bytes \<Rightarrow> cose_error option" where
  "newGCM key = (if NewCipherOk key then None else Some ErrInvalidKey)"

definition EncryptEncrypt0 ::
  "order \<Rightarrow> 'm KeyCrypto_scheme \<Rightarrow> bytes \<Rightarrow> bytes \<Rightarrow> bytes \<Rightarrow> i64 \<Rightarrow> bytes option \<Rightarrow> cose_error + Encrypt0" where
  "EncryptEncrypt0 ord c plaintext key nonce alg externalAAD =
     (case validateAESGCMKey alg key of
        Some e \<Rightarrow> Inl e
      | None \<Rightarrow>
          (case encodeProtected ord (SetAlgorithm alg NoHeaders) of
             (Inl e, _) \<Rightarrow> Inl e
           | (Inr protectedB, hs) \<Rightarrow>
               orElse (buildEncStructure protectedB externalAAD) (\<lambda>aad.
                 case newGCM key of
                   Some e \<Rightarrow> Inl e
                 | None \<Rightarrow>
                     if length nonce \<noteq> 12 then Inl ErrInvalidKey
                     else Inr \<lparr>Protected = hs, Unprotected = NoHeaders,
                               Ciphertext = Some (GcmSeal c key nonce plaintext aad)\<rparr>)))"

definition DecryptEncrypt0 ::
  "order \<Rightarrow> 'm KeyCrypto_scheme \<Rightarrow> Encrypt0 \<Rightarrow> bytes \<Rightarrow> bytes \<Rightarrow> i64 \<Rightarrow> bytes option
     \<Rightarrow> (cose_error + bytes) \<times> Encrypt0" where
  "DecryptEncrypt0 ord c msg key nonce alg externalAAD =
     (case validateAESGCMKey alg key of
        Some e \<Rightarrow> (Inl e, msg)
      | None \<Rightarrow>
          (case encodeProtected ord (Protected msg) of
             (Inl e, hs) \<Rightarrow> (Inl e, msg\<lparr>Protected := hs\<rparr>)
           | (Inr protectedB, hs) \<Rightarrow>
               (orElse (buildEncStructure protectedB externalAAD) (\<lambda>aad.
                  case newGCM key of
                    Some e \<Rightarrow> Inl e
                  | None \<Rightarrow>
                      if length nonce \<noteq> 12 then Inl ErrDecryption
                      else case GcmOpen c key nonce (orEmpty (Ciphertext msg)) aad of
                        None \<Rightarrow> Inl ErrDecryption
                      | Some plaintext \<Rightarrow> Inr plaintext),
                msg\<lparr>Protected := hs\<rparr>)))"

section \<open>Several recipients\<close>

definition aeskwWrapWithDerived :: "'m KeyCrypto_scheme \<Rightarrow> bytes \<Rightarrow> bytes \<Rightarrow> cose_error + bytes option" where
  "aeskwWrapWithDerived c derived cek = orElse (AESKW_WrapKey c derived cek) (\<lambda>(wrapped, _). Inr wrapped)"

definition aeskwUnwrapWithDerived :: "'m KeyCrypto_scheme \<Rightarrow> bytes \<Rightarrow> bytes option \<Rightarrow> cose_error + bytes" where
  "aeskwUnwrapWithDerived c derived ciphertext = AESKW_UnwrapKey c derived ciphertext"

text \<open>The body of the loop over the recipients: ECDH-ES keys wrap the content key under the derived one.\<close>

definition encryptRecipient ::
  "'m KeyCrypto_scheme \<Rightarrow> nat \<Rightarrow> KeyDeriver \<Rightarrow> bytes \<Rightarrow> KeyWrapOpts \<Rightarrow> cose_error + Recipient" where
  "encryptRecipient c draw r cek opts =
     (let recipient = (\<lambda>ciphertext headers. \<lparr>Protected = SetAlgorithm (DeriverAlgorithm r) NoHeaders,
        Unprotected = headers, RecipientCiphertext = ciphertext\<rparr>) in
      case r of
        ECDHESKey priv peer \<Rightarrow>
          orElse (DeriveKey c draw peer opts) (\<lambda>(derived, headers).
          orElse (aeskwWrapWithDerived c derived cek) (\<lambda>wrappedCek. Inr (recipient wrappedCek headers)))
      | _ \<Rightarrow> orElse (WrapKey c draw r cek opts) (\<lambda>(ciphertext, headers). Inr (recipient ciphertext headers)))"

fun encryptForAll ::
  "'m KeyCrypto_scheme \<Rightarrow> nat \<Rightarrow> KeyDeriver list \<Rightarrow> bytes \<Rightarrow> KeyWrapOpts \<Rightarrow> cose_error + Recipient list" where
  "encryptForAll c d [] cek opts = Inr []"
| "encryptForAll c d (r # rs) cek opts =
     orElse (encryptRecipient c d r cek opts) (\<lambda>recipient.
     orElse (encryptForAll c (Suc d) rs cek opts) (\<lambda>recipients. Inr (recipient # recipients)))"

definition headerLabelIV :: i64 where "headerLabelIV = 5"

definition EncryptMulti ::
  "order \<Rightarrow> 'm KeyCrypto_scheme \<Rightarrow> nat \<Rightarrow> bytes \<Rightarrow> i64 \<Rightarrow> KeyDeriver list \<Rightarrow> bytes option \<Rightarrow> cose_error + Encrypt" where
  "EncryptMulti ord c draw plaintext contentAlg recipients externalAAD =
     (let cekLen = cekLenForAlg contentAlg in
      if length recipients = 0 then Inl ErrInvalidKey
      else if cekLen = 0 then Inl ErrUnsupportedAlgorithm
      else case RandomBytes c draw (nat cekLen) of
        None \<Rightarrow> Inl CoseCrypto
      | Some cek \<Rightarrow>
          (case encodeProtected ord (SetAlgorithm contentAlg NoHeaders) of
             (Inl e, _) \<Rightarrow> Inl e
           | (Inr protectedB, hs) \<Rightarrow>
               orElse (buildEncStructureMulti protectedB externalAAD) (\<lambda>aad.
                 case RandomBytes c (draw + 1) 12 of
                   None \<Rightarrow> Inl CoseCrypto
                 | Some nonce \<Rightarrow>
                     (case newGCM cek of
                        Some e \<Rightarrow> Inl e
                      | None \<Rightarrow>
                          orElse (encryptForAll c (draw + 2) recipients cek
                                    \<lparr>CEKAlgorithm = contentAlg, CEKLength = cekLen\<rparr>) (\<lambda>rs.
                            Inr \<lparr>Protected = hs, Unprotected = setInt headerLabelIV (GBytes nonce) NoHeaders,
                                 Ciphertext = Some (GcmSeal c cek nonce plaintext aad), Recipients = rs\<rparr>)))))"

text \<open>The content key of a recipient.\<close>

definition recipientKey ::
  "'m KeyCrypto_scheme \<Rightarrow> KeyDeriver \<Rightarrow> Recipient \<Rightarrow> KeyWrapOpts \<Rightarrow> cose_error + bytes" where
  "recipientKey c recipient r opts =
     (case recipient of
        ECDHESKey priv peer \<Rightarrow>
          orElse (ECDHES_UnwrapKey c priv (Unprotected r) opts) (\<lambda>derived.
            case aeskwUnwrapWithDerived c derived (RecipientCiphertext r) of Inl _ \<Rightarrow> Inl ErrDecryption | Inr cek \<Rightarrow> Inr cek)
      | _ \<Rightarrow> UnwrapKey c recipient (RecipientCiphertext r) (Unprotected r) opts)"

definition DecryptMulti ::
  "order \<Rightarrow> 'm KeyCrypto_scheme \<Rightarrow> Encrypt \<Rightarrow> KeyDeriver \<Rightarrow> int \<Rightarrow> (cose_error + bytes) \<times> Encrypt" where
  "DecryptMulti ord c msg recipient recipientIndex =
     (if recipientIndex < 0 \<or> recipientIndex \<ge> int (length (Recipients msg)) then (Inl ErrDecryption, msg)
      else
        let r = Recipients msg ! nat recipientIndex; contentAlg = HeadersAlgorithm (Protected msg);
            cekLen = cekLenForAlg contentAlg in
        if cekLen = 0 then (Inl ErrUnsupportedAlgorithm, msg)
        else case recipientKey c recipient r \<lparr>CEKAlgorithm = contentAlg, CEKLength = cekLen\<rparr> of
          Inl e \<Rightarrow> (Inl e, msg)
        | Inr cek \<Rightarrow>
            (case getInt headerLabelIV (Unprotected msg) of
               GBytes nonce \<Rightarrow>
                 (case encodeProtected ord (Protected msg) of
                    (Inl e, hs) \<Rightarrow> (Inl e, msg\<lparr>Protected := hs\<rparr>)
                  | (Inr protectedB, hs) \<Rightarrow>
                      (orElse (buildEncStructureMulti protectedB None) (\<lambda>aad.
                         if newGCM cek \<noteq> None then Inl ErrDecryption
                         else if length nonce \<noteq> 12 then Inl CosePanic
                         else case GcmOpen c cek nonce (orEmpty (Ciphertext msg)) aad of
                           None \<Rightarrow> Inl ErrDecryption
                         | Some plaintext \<Rightarrow> Inr plaintext),
                       msg\<lparr>Protected := hs\<rparr>))
             | _ \<Rightarrow> (Inl ErrDecryption, msg)))"

end
