(* ===== verification/Cose_Theorems.thy ===== *)
theory Cose_Theorems
  imports Cose_Sign
begin

text \<open>
  The properties of COSE messages, headers and signatures. A message that is marshalled and read back
  has the parameters it was marshalled from and keeps its signature valid; the bytes do not depend on
  Go's map iteration order; the structures that are signed tell their parts and their purposes apart.
\<close>

section \<open>Lengths of encoded messages\<close>

lemma tagged_array_length:
  assumes "\<forall>v \<in> set vs. snd (encode detOpts [] v) = None"
  shows "\<exists>out. coseEncode (MakeTag i (MakeArray vs)) = Inr out
    \<and> length out \<le> 18 + sum_list (map (\<lambda>v. length (fst (encode detOpts [] v))) vs)"
proof -
  let ?a = "AppendHead [] MajorArray (of_nat (length vs)) @ concat (map (\<lambda>v. fst (encode detOpts [] v)) vs)"
  have "encode detOpts [] (MakeArray vs) = (?a, None)"
    using encodeItems_value [OF assms]
    by (simp add: MakeArray_def encode.simps [of detOpts "[]" "Value KindArray n [] [] xs []" for n xs])
  moreover have "Kind (MakeArray vs) \<noteq> KindInvalid" by (simp add: MakeArray_def)
  ultimately have "encode detOpts [] (MakeTag i (MakeArray vs)) = (AppendHead [] MajorTag i @ ?a, None)"
    using encode_dst [of detOpts "AppendHead [] MajorTag i" "MakeArray vs"]
    by (simp add: MakeTag_def encode.simps [of detOpts "[]" "Value KindTag n [] [] xs []" for n xs])
  moreover have "headSize a \<le> 9" for a by (simp add: headSize_def)
  then have "headSize i + headSize (of_nat (length vs)) \<le> 18" by (simp add: add_mono [of _ 9 _ 9, simplified])
  ultimately show ?thesis
    by (intro exI [of _ "AppendHead [] MajorTag i @ ?a"])
      (simp add: coseEncode_encode length_AppendHead length_concat comp_def)
qed

lemma NoHeaders_toCBORMap: "toCBORMap ord NoHeaders = MakeMap []"
  by (simp add: toCBORMap_def IsEmpty_def NoHeaders_def entriesOf_def)

lemma empty_map_encode: "encode detOpts [] (MakeMap []) = (AppendHead [] MajorMap 0, None)"
  by (simp add: MakeMap_def encode.simps [of detOpts "[]" "Value KindMap n [] [] [] ps" for n ps] encodeMap_value
      entryOrder_def)

section \<open>Signatures\<close>

lemma sign1_marshals:
  assumes "reorders ord" and "small payload" and "length sig \<le> 132"
  shows "\<exists>out. fst (MarshalSign1 ord \<lparr>Protected = algHeaders alg, Unprotected = NoHeaders, Payload = payload,
      Signature1 = sig\<rparr>) = Inr out \<and> length out < 2 ^ 61"
proof -
  obtain pb where pb: "encodeHeaderMap ord (entriesOf (algHeaders alg)) = Inr pb" "length pb \<le> 27"
  proof
    have "length (fst (encode detOpts [] (Uint 1))) \<le> 9" "length (fst (encode detOpts [] (goInt alg))) \<le> 9"
      by (simp_all add: goInt_def leaf_encode_length)
    then show "length (AppendHead [] MajorMap 1 @ fst (encode detOpts [] (Uint 1)) @ fst (encode detOpts [] (goInt alg))) \<le> 27"
      by (simp add: length_AppendHead headSize_def)
  qed (rule algHeaders_encoded [OF assms(1)])
  let ?vs = "[Bytes pb, MakeMap [], nullableVal payload, Bytes sig]"
  have p: "snd (encode detOpts [] (nullableVal payload)) = None
      \<and> length (fst (encode detOpts [] (nullableVal payload))) \<le> 9 + 2 ^ 24"
    using assms(2) leaf_encode_length(1) [where opts = detOpts and b = "the payload"]
    by (cases payload) (auto simp: nullableVal_def small_def leaf_encode)
  have "sum_list (map (\<lambda>v. length (fst (encode detOpts [] v))) ?vs) \<le> (9 + 27) + 9 + (9 + 2 ^ 24) + (9 + 132)"
    using p pb(2) assms(3) leaf_encode_length(1) [where opts = detOpts and b = pb]
      leaf_encode_length(1) [where opts = detOpts and b = sig]
    by (simp add: empty_map_encode length_AppendHead headSize_def)
  moreover have "\<forall>v \<in> set ?vs. snd (encode detOpts [] v) = None"
    using p by (simp add: leaf_encode empty_map_encode)
  moreover have "fst (MarshalSign1 ord \<lparr>Protected = algHeaders alg, Unprotected = NoHeaders, Payload = payload,
      Signature1 = sig\<rparr>) = coseEncode (MakeTag tagSign1 (MakeArray ?vs))"
    using pb(1) by (simp add: MarshalSign1_def marshalWith_def protectedBytes_def encodeProtected_def IsEmpty_def
        algHeaders_entries NoHeaders_toCBORMap)
  ultimately show ?thesis using tagged_array_length [of ?vs tagSign1] by fastforce
qed

lemma Signer_Sign_fields:
  assumes "signing_laws c" and "matching c s v" and "Signer_Sign c draw s payload = Inr msg"
  obtains sig tbs where "msg = \<lparr>Protected = algHeaders (signer_alg s), Unprotected = NoHeaders, Payload = payload, Signature1 = sig\<rparr>"
    and "encodeSigStructure (signer_enc s) (signer_protectedBytes s) (signer_external s) payload = Inr tbs"
    and "verifyBytes c v tbs sig = None" and "length sig \<le> 132"
  using assms signBytes_verifies [OF assms(1,2)]
  by (auto simp: Signer_Sign_def orElse_eq_Inr algHeaders_def)

lemma wrapMalformed_eq_Inr: "wrapMalformed r = Inr x \<longleftrightarrow> r = Inr x"
  by (cases r) (simp_all add: wrapMalformed_def)

lemma headerFields_no_cache: "headerFields p u = Inr hs \<Longrightarrow> \<not> cacheValid (Protected hs)"
  by (auto simp: headerFields_def orElse_eq_Inr wrapMalformed_eq_Inr decoded_no_cache)

lemma UnmarshalSign1_no_cache: "UnmarshalSign1 data = Inr m \<Longrightarrow> \<not> cacheValid (Protected m)"
  by (auto simp: UnmarshalSign1_def orElse_eq_Inr headerFields_no_cache)

text \<open>The bytes of the protected headers of a message that was read from the wire are the ones its
  sender signed.\<close>

lemma Verify_same_protected:
  assumes "fst (protectedBytes ord (Protected m)) = Inr b" and "b = orEmpty pb"
    and "encodeSigStructure newEncoder pb ext (Payload m) = Inr tbs"
    and "verifier_enc v = newEncoder" and "verifier_external v = ext"
  shows "fst (Verifier_Verify ord c v m) = verifyBytes c v tbs (Signature1 m)"
  using assms by (auto simp: Verifier_Verify_def protectedBytes_encode encodeSigStructure_def
      split: prod.splits sum.splits)

lemma sign1_wire:
  assumes "reorders ord1" and "reorders ord2" and "reorders ord3" and "signing_laws c"
    and "NewSigner ord1 c key [WithSignerExternalData ext] = Inr s"
    and "NewVerifier (PublicOf c key) [WithVerifierExternalData ext] = Inr v"
    and "small payload" and "Signer_Sign c draw s payload = Inr msg"
  shows "\<exists>out m. fst (MarshalSign1 ord2 msg) = Inr out \<and> UnmarshalSign1 out = Inr m \<and> Payload m = payload
    \<and> fst (Verifier_Verify ord3 c v m) = None"
proof -
  note m = NewSigner_NewVerifier [OF assms(5,6)]
  then have match: "matching c s v" ..
  let ?h = "algHeaders (signer_alg s)"
  obtain sig tbs where msg: "msg = \<lparr>Protected = ?h, Unprotected = NoHeaders, Payload = payload, Signature1 = sig\<rparr>"
    and tbs: "encodeSigStructure (signer_enc s) (signer_protectedBytes s) (signer_external s) payload = Inr tbs"
    and sig: "verifyBytes c v tbs sig = None" "length sig \<le> 132"
    using Signer_Sign_fields [OF assms(4) match assms(8)] by blast
  obtain out where out: "fst (MarshalSign1 ord2 msg) = Inr out" "length out < 2 ^ 61"
    using sign1_marshals [OF assms(2,7) sig(2)] msg by blast
  then obtain msg' where mar: "MarshalSign1 ord2 msg = (Inr out, msg')" by (metis prod.collapse)
  have "base_ok ord2 msg" by (simp add: base_ok_def msg algHeaders_ok [OF assms(2)] NoHeaders_plain)
  then obtain m where um: "UnmarshalSign1 out = Inr m" "same_base m msg" "Payload m = payload" "Signature1 m = sig"
    using Sign1_round_trip [OF assms(2) _ _ _ mar out(2)] assms(7) sig(2) msg by force
  then have fresh: "\<not> cacheValid (Protected m)" by (simp add: UnmarshalSign1_no_cache)
  have "fst (protectedBytes ord3 (Protected m)) = fst (protectedBytes ord1 ?h)"
    by (rule protectedBytes_same [OF assms(1,3) algHeaders_plain])
      (use um(2) msg fresh in \<open>simp_all add: same_base_def cache_ok_def algHeaders_entries\<close>)
  also have "\<dots> = Inr (orEmpty (signer_protectedBytes s))"
    using m by (simp add: protectedBytes_encode algHeaders_def)
  finally have "fst (Verifier_Verify ord3 c v m) = verifyBytes c v tbs sig"
    using Verify_same_protected [OF _ refl, of ord3 m "signer_protectedBytes s" "signer_external s" tbs v c] tbs um match
    by (simp add: matching_def)
  with out(1) um sig(1) show ?thesis by auto
qed

text \<open>C7: A message that a signer made is accepted by the verifier of its public key after it was marshalled and
  unmarshalled, whatever the payload, the external data and the orders in which Go iterates over the
  header maps on the way, provided that the cryptographic primitives keep their promises.\<close>
theorem sign1_over_the_wire:
  assumes "reorders ord1" and "reorders ord2" and "reorders ord3" and "signing_laws c"
    and "NewSigner ord1 c key [WithSignerExternalData ext] = Inr s"
    and "NewVerifier (PublicOf c key) [WithVerifierExternalData ext] = Inr v"
    and "small payload" and "Signer_Sign c draw s payload = Inr msg"
  shows "\<exists>out m. fst (MarshalSign1 ord2 msg) = Inr out \<and> UnmarshalSign1 out = Inr m \<and> Payload m = payload
    \<and> fst (Verifier_Verify ord3 c v m) = None"
  using assms by (rule sign1_wire)

text \<open>A signature scheme that keeps the promises of \<open>signing_laws\<close>, for the witnesses.\<close>

definition toyCrypto :: SignCrypto where
  "toyCrypto =
     \<lparr>PublicOf = (\<lambda>key. case key of Ed25519PrivateKey k \<Rightarrow> Ed25519Public k | OpaqueSigner n \<Rightarrow> OtherPublic n),
      ed25519_Sign = (\<lambda>k m. take 64 (k @ rev m @ replicate 64 0)),
      ed25519_Verify = (\<lambda>p m sig. sig = take 64 (p @ rev m @ replicate 64 0)),
      key_Sign = (\<lambda>draw key digest h. None),
      ecdsa_VerifyASN1 = (\<lambda>p digest der. False),
      SumOf = (\<lambda>h m. m)\<rparr>"

lemma toyCrypto_laws: "signing_laws toyCrypto"
  by (auto simp: signing_laws_def toyCrypto_def split: SignerKey.splits)

lemma reorders_id: "reorders (\<lambda>ps. ps)" and reorders_rev: "reorders rev"
  by (simp_all add: reorders_def)

lemma NewSigner_toy:
  assumes "reorders ord"
  shows "\<exists>s v. NewSigner ord toyCrypto (Ed25519PrivateKey k) [WithSignerExternalData ext] = Inr s
    \<and> NewVerifier (PublicOf toyCrypto (Ed25519PrivateKey k)) [WithVerifierExternalData ext] = Inr v
    \<and> signer_key s = Ed25519PrivateKey k"
  using algHeaders_encoded [OF assms, of AlgEdDSA]
  by (simp add: NewSigner_def NewVerifier_def algForKey_def algForPublicKey_def toyCrypto_def WithSignerExternalData_def
      encodeProtected_def IsEmpty_def flip: algHeaders_def) (simp add: algHeaders_entries)

lemma Signer_Sign_toy:
  assumes "matching toyCrypto s v" and "signer_key s = Ed25519PrivateKey k"
  shows "\<exists>msg. Signer_Sign toyCrypto draw s payload = Inr msg"
proof -
  have "signer_enc s = newEncoder" "signer_alg s = AlgEdDSA"
    using assms by (auto simp: matching_def algForKey_def algForPublicKey_def toyCrypto_def)
  then show ?thesis
    using structures_total(1) [of "signer_protectedBytes s" "signer_external s" payload] assms(2)
    by (auto simp: Signer_Sign_def signBytes_def)
qed

theorem sign1_over_the_wire_witness:
  "\<exists>msg out m v. fst (MarshalSign1 rev msg) = Inr out \<and> UnmarshalSign1 out = Inr m \<and> Payload m = Some [1, 2, 3]
    \<and> verifier_key v = Ed25519Public [7] \<and> fst (Verifier_Verify (\<lambda>ps. ps) toyCrypto v m) = None"
proof -
  obtain s v where s: "NewSigner (\<lambda>ps. ps) toyCrypto (Ed25519PrivateKey [7]) [WithSignerExternalData (Some [9])] = Inr s"
    "NewVerifier (PublicOf toyCrypto (Ed25519PrivateKey [7])) [WithVerifierExternalData (Some [9])] = Inr v"
    "signer_key s = Ed25519PrivateKey [7]"
    using NewSigner_toy [OF reorders_id] by blast
  note match = conjunct1 [OF NewSigner_NewVerifier [OF s(1,2)]]
  obtain msg where msg: "Signer_Sign toyCrypto 0 s (Some [1, 2, 3]) = Inr msg"
    using Signer_Sign_toy [OF match s(3)] by blast
  have "verifier_key v = Ed25519Public [7]" using match s(3) by (simp add: matching_def toyCrypto_def)
  moreover have "small (Some [1, 2, 3])" by (simp add: small_def)
  note sign1_over_the_wire [OF reorders_id reorders_rev reorders_id toyCrypto_laws s(1,2) this msg]
  ultimately show ?thesis by blast
qed

section \<open>Several signatures\<close>

text \<open>Encoded protected headers are cached: a second encoding returns the same bytes, even if Go iterates
  over the map in another order.\<close>

lemma encodeProtected_again:
  "encodeProtected ord h = (Inr b, h') \<Longrightarrow> fst (encodeProtected ord' h') = Inr b"
  by (auto simp: encodeProtected_def IsEmpty_def entriesOf_def split: if_splits sum.splits)

lemma computeSignature_accepted:
  assumes "signing_laws c" and "matching c s v" and "computeSignature ord c d s body payload = Inr sig"
  shows "acceptsSignature ord' c body payload sig v"
proof -
  from assms(3) obtain spb h tbs raw where sp: "encodeProtected ord (SetAlgorithm (signer_alg s) NoHeaders) = (Inr spb, h)"
    and tbs: "encodeMultiSigStructure (signer_enc s) body spb (signer_external s) payload = Inr tbs"
    and raw: "signBytes c d s tbs = Inr raw" and sig: "Protected sig = h" "SignatureBytes sig = raw"
    by (auto simp: computeSignature_def orElse_eq_Inr split: prod.splits sum.splits)
  have "verifyBytes c v tbs raw = None" using signBytes_verifies [OF assms(1,2) raw] ..
  with encodeProtected_again [OF sp, of ord'] tbs sig assms(2) show ?thesis
    by (simp add: acceptsSignature_def matching_def)
qed

lemma signAll_accepted:
  assumes "signing_laws c" and "\<forall>s \<in> set ss. \<exists>v \<in> set vs. matching c s v"
    and "signAll ord c d ss body payload = Inr sigs"
  shows "length sigs = length ss \<and> (\<forall>sig \<in> set sigs. list_ex (acceptsSignature ord' c body payload sig) vs)"
  using assms(2,3)
proof (induction ss arbitrary: d sigs)
  case (Cons s ss)
  from Cons.prems obtain v where v: "v \<in> set vs" "matching c s v" by auto
  from Cons.prems(2) obtain sig sigs' where sig: "computeSignature ord c d s body payload = Inr sig"
    "signAll ord c (Suc d) ss body payload = Inr sigs'" "sigs = sig # sigs'" by (auto simp: orElse_eq_Inr)
  with Cons.IH [of "Suc d" sigs'] Cons.prems(1) v computeSignature_accepted [OF assms(1) v(2) sig(1), of ord']
  show ?case by (auto simp: list_ex_iff)
qed simp

text \<open>C15: Every signature of a message with several signers is reported as verified, at its position, by verifiers
  that contain a matching one for each signer; the order of the verifiers does not matter.\<close>
theorem sign_multi_verifies:
  assumes "signing_laws c" and "SignMulti ord1 c draw payload signers = Inr msg"
    and "\<forall>s \<in> set signers. \<exists>v \<in> set verifiers. matching c s v"
  shows "fst (VerifyMulti ord2 c msg verifiers) = Inr [0..<length signers]"
proof -
  have none: "encodeProtected ord NoHeaders = (Inr None, NoHeaders)" for ord
    by (simp add: encodeProtected_def IsEmpty_def entriesOf_def NoHeaders_def)
  from assms(2) obtain sigs where ne: "signers \<noteq> []" and sigs: "signAll ord1 c draw signers None payload = Inr sigs"
    and msg: "msg = \<lparr>Protected = NoHeaders, Unprotected = NoHeaders, Payload = payload, Signatures = sigs\<rparr>"
    by (auto simp: SignMulti_def none orElse_eq_Inr split: if_splits)
  have "verifiers \<noteq> []" using ne assms(3) by (cases signers) auto
  moreover have ok: "length sigs = length signers" "\<forall>sig \<in> set sigs. list_ex (acceptsSignature ord2 c None payload sig) verifiers"
    using signAll_accepted [OF assms(1,3) sigs] by auto
  moreover have "filter (\<lambda>(i, sig). list_ex (acceptsSignature ord2 c None payload sig) verifiers) (enumerate 0 sigs)
      = enumerate 0 sigs"
    using ok(2) by (auto simp: filter_id_conv in_set_enumerate_eq)
  ultimately show ?thesis by (simp add: VerifyMulti_def msg none)
qed

theorem sign_multi_verifies_witness:
  "\<exists>msg v. length (Signatures msg) = 2 \<and> fst (VerifyMulti rev toyCrypto msg [v]) = Inr [0, 1]"
proof -
  obtain s v where s: "NewSigner (\<lambda>ps. ps) toyCrypto (Ed25519PrivateKey [7]) [WithSignerExternalData None] = Inr s"
    "NewVerifier (PublicOf toyCrypto (Ed25519PrivateKey [7])) [WithVerifierExternalData None] = Inr v"
    "signer_key s = Ed25519PrivateKey [7]"
    using NewSigner_toy [OF reorders_id] by blast
  note match = conjunct1 [OF NewSigner_NewVerifier [OF s(1,2)]]
  have "signer_enc s = newEncoder" "signer_alg s = AlgEdDSA"
    using match s(3) by (auto simp: matching_def algForKey_def algForPublicKey_def toyCrypto_def)
  moreover have "\<exists>b h. encodeProtected (\<lambda>ps. ps) (SetAlgorithm AlgEdDSA NoHeaders) = (Inr b, h)"
    using algHeaders_encoded [OF reorders_id, of AlgEdDSA]
    by (simp add: encodeProtected_def IsEmpty_def flip: algHeaders_def)
  ultimately have sigs: "\<exists>sig. computeSignature (\<lambda>ps. ps) toyCrypto d s None (Some [1]) = Inr sig" for d
    using structures_total(2) s(3) by (auto simp: computeSignature_def signBytes_def orElse_eq_Inr)
  from sigs [of 0] sigs [of "Suc 0"]
  have "\<exists>sigs. signAll (\<lambda>ps. ps) toyCrypto 0 [s, s] None (Some [1]) = Inr sigs \<and> length sigs = 2"
    by (elim exE) simp
  then obtain msg where msg: "SignMulti (\<lambda>ps. ps) toyCrypto 0 (Some [1]) [s, s] = Inr msg" "length (Signatures msg) = 2"
    by (auto simp: SignMulti_def orElse_eq_Inr encodeProtected_def IsEmpty_def entriesOf_def NoHeaders_def)
  from match have "\<forall>s' \<in> set [s, s]. \<exists>v' \<in> set [v]. matching toyCrypto s' v'" by simp
  from sign_multi_verifies [OF toyCrypto_laws msg(1) this] msg(2) show ?thesis by (auto simp: numeral_2_eq_2)
qed

section \<open>The authenticated structures\<close>

text \<open>C8: The bytes that are signed determine the protected headers, the external data and the payload, and they are
  never the bytes that are signed for one of several signers, authenticated by a MAC, or passed to a
  cipher as associated data: no signature can be reused for another message or another purpose.\<close>
theorem structures_injective:
  assumes "list_all (\<lambda>b. length (orEmpty b) < 2 ^ 64) [p, e, m, p', e', m', b']"
    and "encodeSigStructure newEncoder p e m = Inr out"
  shows "(encodeSigStructure newEncoder p' e' m' = Inr out
      \<longrightarrow> orEmpty p' = orEmpty p \<and> orEmpty e' = orEmpty e \<and> orEmpty m' = orEmpty m)
    \<and> encodeMultiSigStructure newEncoder b' p' e' m' \<noteq> Inr out
    \<and> buildMACStructure p' e' m' \<noteq> Inr out \<and> buildMACStructureMulti p' e' m' \<noteq> Inr out
    \<and> buildEncStructure p' e' \<noteq> Inr out \<and> buildEncStructureMulti p' e' \<noteq> Inr out"
proof -
  let ?ps = "[orEmpty p, orEmpty e, orEmpty m]"
  have out: "coseEncode (contextArray ''Signature1'' ?ps) = Inr out"
    using assms(2) by (simp add: encodeSigStructure_def encodeWith_new)
  have inj: "goString ''Signature1'' = goString d \<and> ?ps = qs"
    if "coseEncode (contextArray d qs) = Inr out" "utf8_Valid (goString d)" "length d < 2 ^ 64"
      "\<forall>q \<in> set qs. length q < 2 ^ 64" "length qs < 2 ^ 63" for d qs
  proof (rule contextArray_inject [OF out that(1) contexts_valid(1) that(2) _ that(3) _ _ that(5)])
    show "\<forall>q \<in> set ?ps \<union> set qs. length q < 2 ^ 64" using that(4) assms(1) by auto
  qed simp_all
  note c = contexts_valid contexts structure_defs encodeWith_new encodeWith_shared
  have "encodeSigStructure newEncoder p' e' m' = Inr out \<Longrightarrow> ?ps = [orEmpty p', orEmpty e', orEmpty m']"
    using inj [of "''Signature1''" "[orEmpty p', orEmpty e', orEmpty m']"] assms(1) by (simp add: c)
  moreover have "encodeMultiSigStructure newEncoder b' p' e' m' \<noteq> Inr out"
    using inj [of "''Signature''" "[orEmpty b', orEmpty p', orEmpty e', orEmpty m']"] assms(1) by (auto simp: c)
  moreover have "buildMACStructure p' e' m' \<noteq> Inr out" "buildMACStructureMulti p' e' m' \<noteq> Inr out"
    using inj [of "''MAC0''" "[orEmpty p', orEmpty e', orEmpty m']"]
      inj [of "''MAC''" "[orEmpty p', orEmpty e', orEmpty m']"] assms(1) by (auto simp: c)
  moreover have "buildEncStructure p' e' \<noteq> Inr out" "buildEncStructureMulti p' e' \<noteq> Inr out"
    using inj [of "''Encrypt0''" "[orEmpty p', orEmpty e']"] inj [of "''Encrypt''" "[orEmpty p', orEmpty e']"] assms(1)
    by (auto simp: c)
  ultimately show ?thesis by auto
qed

theorem structures_injective_witness:
  "\<exists>out. encodeSigStructure newEncoder None None (Some [1]) = Inr out
    \<and> encodeSigStructure newEncoder None (Some [1]) None \<noteq> Inr out
    \<and> buildMACStructure None None (Some [1]) \<noteq> Inr out"
proof -
  obtain out where out: "encodeSigStructure newEncoder None None (Some [1]) = Inr out"
    using structures_total(1) by blast
  from structures_injective [OF _ this, of None None "Some [1]" None]
    structures_injective [OF _ this, of None "Some [1]" None None] out
  show ?thesis by (simp add: orEmpty_def)
qed

section \<open>Marshalled messages\<close>

lemma parts_bytes: "parts_encode detOpts (Bytes b)"
  using leaf_encode(1) [of detOpts b] by (simp add: Bytes_def)

lemma parts_nullable: "parts_encode detOpts (nullableVal b)"
  using parts_bytes leaf_encode(3) [of detOpts] by (auto simp: nullableVal_def Null_def split: option.splits)

lemma parts_array:
  assumes "\<forall>v \<in> set vs. parts_encode detOpts v"
  shows "parts_encode detOpts (MakeArray vs)"
proof -
  have "snd (encode detOpts [] (MakeArray vs)) = None"
    using assms parts_encode_ok by (intro encode_det_array) blast
  with assms show ?thesis by (simp add: MakeArray_def)
qed

lemma parts_tag:
  assumes "parts_encode detOpts (MakeArray vs)"
  shows "parts_encode detOpts (MakeTag i (MakeArray vs))"
proof -
  have "snd (encode detOpts [] (MakeArray vs)) = None" using parts_encode_ok [OF assms] .
  then have "snd (encode detOpts [] (MakeTag i (MakeArray vs))) = None"
    using encode_dst [of detOpts "AppendHead [] MajorTag i" "MakeArray vs"]
    by (simp add: MakeTag_def encode.simps [of detOpts "[]" "Value KindTag n [] [] xs []" for n xs])
  with assms show ?thesis by (simp add: MakeTag_def)
qed

lemma list_all2_recipients:
  assumes "reorders ord" and "reorders ord'"
    and "\<forall>r \<in> set rs. plain_headers (Unprotected r) \<and> fst (protectedBytes ord' (Protected r)) = fst (protectedBytes ord (Protected r))"
  shows "(\<exists>e. mapAll (recipientVal ord) rs = Inl e \<and> mapAll (recipientVal ord') rs = Inl e)
    \<or> (\<exists>vs ws. mapAll (recipientVal ord) rs = Inr vs \<and> mapAll (recipientVal ord') rs = Inr ws
        \<and> list_all2 reordered vs ws \<and> (\<forall>v \<in> set vs. parts_encode detOpts v))"
  using assms(3)
proof (induction rs)
  case (Cons r rs)
  show ?case
  proof (cases "fst (protectedBytes ord (Protected r))")
    case (Inl e)
    with Cons.prems show ?thesis by (simp add: recipientVal_def)
  next
    case (Inr pb)
    let ?v = "\<lambda>ord. MakeArray [Bytes pb, toCBORMap ord (Unprotected r),
      Bytes (case RecipientCiphertext r of None \<Rightarrow> [] | Some b \<Rightarrow> b)]"
    have v: "recipientVal ord r = Inr (?v ord)" "recipientVal ord' r = Inr (?v ord')"
      using Inr Cons.prems by (simp_all add: recipientVal_def)
    have "reordered (?v ord) (?v ord')"
      using toCBORMap_reordered [OF assms(1,2) refl] by (intro ro_array) (simp add: ro_refl)
    moreover have "parts_encode detOpts (?v ord)"
      using toCBORMap_parts [OF assms(1)] Cons.prems by (intro parts_array) (auto intro: parts_bytes)
    ultimately show ?thesis using Cons v by (fastforce simp: orElse_def)
  qed
qed simp

text \<open>C12: The bytes of an encrypted message with its recipients do not depend on the orders in which Go iterates over
  the header maps: two runs of the marshaller give the same bytes or the same error.\<close>
theorem marshal_order_independent:
  assumes "reorders ord" and "reorders ord'"
    and "list_all (\<lambda>h. plain_headers h \<and> \<not> cacheValid h)
      (Protected msg # Unprotected msg # concat (map (\<lambda>r. [Protected r, Unprotected r]) (Recipients msg)))"
  shows "fst (MarshalEncrypt ord' msg) = fst (MarshalEncrypt ord msg)"
proof -
  have same: "fst (protectedBytes ord' h) = fst (protectedBytes ord h)" if "plain_headers h" "\<not> cacheValid h" for h
    using that by (intro protectedBytes_same [OF assms(1,2)]) (simp_all add: same_headers_def cache_ok_def)
  have top: "plain_headers (Protected msg)" "\<not> cacheValid (Protected msg)" "plain_headers (Unprotected msg)"
    and rs: "\<forall>r \<in> set (Recipients msg). plain_headers (Protected r) \<and> \<not> cacheValid (Protected r) \<and> plain_headers (Unprotected r)"
    using assms(3) by (auto simp: list_all_iff)
  define body where "body = (\<lambda>ord pb. orElse (mapAll (recipientVal ord) (Recipients msg)) (\<lambda>rs.
        Inr [Bytes pb, toCBORMap ord (Unprotected msg), nullableVal (Ciphertext msg), MakeArray rs]))"
  have marshal: "fst (MarshalEncrypt o' msg) = orElse (fst (protectedBytes o' (Protected msg)))
      (\<lambda>pb. orElse (body o' pb) (\<lambda>arr. coseEncode (MakeTag tagEncrypt (MakeArray arr))))" for o'
    by (auto simp: MarshalEncrypt_def marshalWith_def body_def orElse_def split: prod.splits sum.splits)
  have "\<forall>r \<in> set (Recipients msg). plain_headers (Unprotected r)
      \<and> fst (protectedBytes ord' (Protected r)) = fst (protectedBytes ord (Protected r))"
    using rs same by blast
  note both = list_all2_recipients [OF assms(1,2) this]
  have "orElse (body ord' pb) (\<lambda>arr. coseEncode (MakeTag tagEncrypt (MakeArray arr)))
      = orElse (body ord pb) (\<lambda>arr. coseEncode (MakeTag tagEncrypt (MakeArray arr)))" for pb
    using both
  proof (elim disjE exE conjE)
    fix vs ws assume v: "mapAll (recipientVal ord) (Recipients msg) = Inr vs"
      "mapAll (recipientVal ord') (Recipients msg) = Inr ws" "list_all2 reordered vs ws"
      "\<forall>v \<in> set vs. parts_encode detOpts v"
    let ?arr = "\<lambda>ord vs. [Bytes pb, toCBORMap ord (Unprotected msg), nullableVal (Ciphertext msg), MakeArray vs]"
    have "reordered (MakeTag tagEncrypt (MakeArray (?arr ord vs))) (MakeTag tagEncrypt (MakeArray (?arr ord' ws)))"
      using v(3) toCBORMap_reordered [OF assms(1,2) refl] by (intro ro_tag ro_array) (simp add: ro_refl ro_array)
    moreover have "parts_encode detOpts (MakeTag tagEncrypt (MakeArray (?arr ord vs)))"
      by (intro parts_tag parts_array) (use v(4) toCBORMap_parts [OF assms(1) top(3)] in \<open>auto intro: parts_array parts_nullable parts_bytes\<close>)
    ultimately have "coseEncode (MakeTag tagEncrypt (MakeArray (?arr ord' ws)))
        = coseEncode (MakeTag tagEncrypt (MakeArray (?arr ord vs)))"
      by (rule coseEncode_reordered)
    then show ?thesis by (simp add: body_def v(1,2))
  qed (simp_all add: body_def)
  then show ?thesis by (simp add: marshal same [OF top(1,2)])
qed

definition sampleHeaders :: Headers where
  "sampleHeaders = NoHeaders\<lparr>params := Some [(GInt64 5, GBytes [1, 2]), (GInt64 1, GInt64 (- 7)), (GString [97], GBool True)]\<rparr>"

definition sampleEncrypt :: Encrypt where
  "sampleEncrypt = \<lparr>Protected = algHeaders AlgA128GCM, Unprotected = sampleHeaders, Ciphertext = Some [1, 2, 3],
     Recipients = [\<lparr>Protected = algHeaders AlgA128KW, Unprotected = sampleHeaders, RecipientCiphertext = Some [4]\<rparr>]\<rparr>"

lemma sampleHeaders_plain: "plain_headers sampleHeaders" "\<not> cacheValid sampleHeaders"
  by (simp_all add: sampleHeaders_def plain_headers_def entriesOf_def plain_entries_def plain_goval_def hashable_def
      NoHeaders_def)

theorem marshal_order_independent_witness:
  "fst (MarshalEncrypt rev sampleEncrypt) = fst (MarshalEncrypt (\<lambda>ps. ps) sampleEncrypt)"
  by (rule marshal_order_independent [OF reorders_id reorders_rev])
    (simp add: sampleEncrypt_def sampleHeaders_plain algHeaders_plain algHeaders_entries(2) NoHeaders_plain NoHeaders_def)

text \<open>C9: An encrypted message that was marshalled is read back with its recipients in their order, every header with
  the parameters it had and every byte string unchanged; only a missing recipient ciphertext comes back
  as an empty one.\<close>
theorem encrypt_round_trip:
  assumes "reorders ord" and "base_ok ord msg" and "small (Ciphertext msg)"
    and "list_all (recipient_ok ord) (Recipients msg)" and "length (Recipients msg) \<le> 2 ^ 20"
    and "fst (MarshalEncrypt ord msg) = Inr out" and "length out < 2 ^ 61"
  shows "\<exists>m. UnmarshalEncrypt out = Inr m
    \<and> mset (entriesOf (Protected m)) = mset (entriesOf (Protected msg))
    \<and> mset (entriesOf (Unprotected m)) = mset (entriesOf (Unprotected msg))
    \<and> Ciphertext m = Ciphertext msg \<and> list_all2 same_recipient (Recipients m) (Recipients msg)"
proof -
  obtain msg' where "MarshalEncrypt ord msg = (Inr out, msg')" using assms(6) by (metis prod.collapse)
  from Encrypt_round_trip [OF assms(1-3) _ assms(5) this assms(7)] assms(4)
  show ?thesis by (auto simp: list_all_iff same_base_def same_headers_def)
qed

theorem encrypt_round_trip_witness:
  "\<exists>out m. fst (MarshalEncrypt rev sampleEncrypt) = Inr out \<and> UnmarshalEncrypt out = Inr m
    \<and> Ciphertext m = Some [1, 2, 3] \<and> length (Recipients m) = 1"
proof -
  have "case fst (MarshalEncrypt rev sampleEncrypt) of Inl _ \<Rightarrow> False | Inr out \<Rightarrow> length out < 100"
    by code_simp
  then obtain out where out: "fst (MarshalEncrypt rev sampleEncrypt) = Inr out" "length out < 100"
    by (cases "fst (MarshalEncrypt rev sampleEncrypt)") auto
  have "base_ok rev sampleEncrypt" "list_all (recipient_ok rev) (Recipients sampleEncrypt)"
    by (simp_all add: base_ok_def recipient_ok_def sampleEncrypt_def small_def sampleHeaders_plain algHeaders_ok [OF reorders_rev])
  then obtain m where "UnmarshalEncrypt out = Inr m" "Ciphertext m = Ciphertext sampleEncrypt"
    "list_all2 same_recipient (Recipients m) (Recipients sampleEncrypt)"
    using encrypt_round_trip [OF reorders_rev _ _ _ _ out(1)] out(2) by (force simp: sampleEncrypt_def small_def)
  with out(1) show ?thesis by (auto simp: sampleEncrypt_def list_all2_Cons2)
qed

text \<open>A header map with a key that Go cannot hash, such as a byte string, an array or a map, makes the process panic
  instead of being rejected, wherever in the map the key stands; the message
  \<open>[h'', {h'': 0}, null, h'']\<close> is one.\<close>
lemma unhashable_label_panics:
  assumes "Kind v = KindMap" and "list_ex (\<lambda>e. \<not> hashable (cborToGo (fst e))) (Pairs v)"
  shows "decodeUnprotected v = Inl CosePanic
    \<and> UnmarshalSign1 [0x84, 0x40, 0xa1, 0x40, 0x00, 0xf6, 0x40] = Inl CosePanic"
proof
  have "storeEntries m ps = Inl CosePanic" if "list_ex (\<lambda>e. \<not> hashable (cborToGo (fst e))) m" for m ps
    using that by (induction m arbitrary: ps) auto
  with assms show "decodeUnprotected v = Inl CosePanic"
    by (cases "Pairs v") (auto simp: decodeUnprotected_def storedHeaders_def IsZero_def)
  show "UnmarshalSign1 [0x84, 0x40, 0xa1, 0x40, 0x00, 0xf6, 0x40] = Inl CosePanic" by code_simp
qed

lemma unhashable_label_panics_witness:
  "decodeUnprotected (MakeMap [(Uint 1, Null), (MakeArray [], Null)]) = Inl CosePanic"
  by (rule unhashable_label_panics [THEN conjunct1]) code_simp+


end
