(* ===== verification/Cose_Content.thy ===== *)
theory Cose_Content
  imports Cose_Encrypt Cose_Theorems
begin

text \<open>
  The properties of COSE MACs and encryption: a tag verifies after the message was on the wire, a
  recipient decrypts what the sender encrypted for it, and two ways in which that fails: an
  initialization vector of the wrong length makes decryption panic, and a direct key never decrypts.
\<close>

section \<open>MACs\<close>

lemma UnmarshalMac0_no_cache: "UnmarshalMac0 data = Inr m \<Longrightarrow> \<not> cacheValid (Protected m)"
  by (auto simp: UnmarshalMac0_def orElse_eq_Inr headerFields_no_cache)

text \<open>The protected headers of a received message are encoded to the bytes of its sender.\<close>

lemma received_protected:
  assumes "reorders ord1" and "reorders ord3" and "encodeProtected ord1 (algHeaders alg) = (Inr pb, hs)"
    and "same_headers (Protected m) hs" and "\<not> cacheValid (Protected m)"
  shows "\<exists>pb' hs'. encodeProtected ord3 (Protected m) = (Inr pb', hs') \<and> orEmpty pb' = orEmpty pb"
proof -
  note hs = algHeaders_cached [OF assms(1,3)]
  have "fst (protectedBytes ord3 (Protected m)) = fst (protectedBytes ord1 (algHeaders alg))"
    by (rule protectedBytes_same [OF assms(1,2) algHeaders_plain])
      (use assms(4,5) hs(1) in \<open>simp_all add: same_headers_def cache_ok_def algHeaders_entries(2)\<close>)
  also have "\<dots> = Inr (orEmpty pb)" by (simp add: protectedBytes_encode assms(3))
  finally show ?thesis
    by (cases "encodeProtected ord3 (Protected m)") (auto simp: protectedBytes_encode split: sum.splits)
qed

lemma mac0_wire:
  assumes "reorders ord1" and "reorders ord2" and "reorders ord3" and "small payload"
    and "ComputeMAC0 ord1 c payload key alg ext = Inr msg" and "length (MacTag msg) \<le> 2 ^ 24"
    and "fst (MarshalMac0 ord2 msg) = Inr out" and "length out < 2 ^ 61"
  shows "\<exists>m. UnmarshalMac0 out = Inr m \<and> fst (VerifyMAC0 ord3 c m key alg ext) = None
    \<and> Payload m = payload \<and> (\<forall>t. fst (VerifyMAC0 ord3 c (m\<lparr>MacTag := t\<rparr>) key alg ext) = (if t = MacTag m then None else Some ErrMACVerification))"
proof -
  from assms(5) obtain h where h: "hmacHashFunc alg = Inr h"
    and run: "(case encodeProtected ord1 (algHeaders alg) of
          (Inl e, _) \<Rightarrow> Inl e
        | (Inr protectedB, hs) \<Rightarrow>
            orElse (buildMACStructure protectedB ext payload) (\<lambda>toMAC.
              Inr \<lparr>Protected = hs, Unprotected = NoHeaders, Payload = payload,
                   MacTag = truncatedTag c h alg key toMAC\<rparr>)) = Inr msg"
    unfolding ComputeMAC0_def orElse_eq_Inr algHeaders_def by blast
  obtain r hs where "encodeProtected ord1 (algHeaders alg) = (r, hs)" by (metis surj_pair)
  with run obtain pb toMAC where pb: "encodeProtected ord1 (algHeaders alg) = (Inr pb, hs)" and toMAC: "buildMACStructure pb ext payload = Inr toMAC"
    and msg: "msg = \<lparr>Protected = hs, Unprotected = NoHeaders, Payload = payload, MacTag = truncatedTag c h alg key toMAC\<rparr>"
    by (cases r) (auto simp: orElse_eq_Inr)
  note hs = algHeaders_cached [OF assms(1) pb]
  obtain msg' where mar: "MarshalMac0 ord2 msg = (Inr out, msg')" using assms(7) by (metis prod.collapse)
  have "base_ok ord2 msg" using hs(4) [OF assms(2)] by (simp add: base_ok_def msg NoHeaders_plain)
  then obtain m where m: "UnmarshalMac0 out = Inr m" "same_base m msg" "Payload m = payload" "MacTag m = MacTag msg"
    using Mac0_round_trip [OF assms(2) _ _ assms(6) mar assms(8)] assms(4) msg by force
  obtain pb' hs' where pb': "encodeProtected ord3 (Protected m) = (Inr pb', hs')" "orEmpty pb' = orEmpty pb"
    using received_protected [OF assms(1,3) pb _ UnmarshalMac0_no_cache [OF m(1)]] m(2) msg
    by (auto simp: same_base_def same_headers_def)
  then have "buildMACStructure pb' ext (Payload m) = Inr toMAC"
    using toMAC m(3) by (simp add: buildMACStructure_def)
  with pb' h m(1,3,4) msg show ?thesis by (simp add: VerifyMAC0_def)
qed

text \<open>C16: A MAC that was computed verifies after the message was marshalled and unmarshalled, with its payload, whatever the payload,
  the external data and the iteration orders; with any other tag the message is refused.\<close>
theorem mac0_over_the_wire:
  assumes "reorders ord1" and "reorders ord2" and "reorders ord3" and "small payload"
    and "ComputeMAC0 ord1 c payload key alg ext = Inr msg" and "length (MacTag msg) \<le> 2 ^ 24"
    and "fst (MarshalMac0 ord2 msg) = Inr out" and "length out < 2 ^ 61"
  shows "\<exists>m. UnmarshalMac0 out = Inr m \<and> fst (VerifyMAC0 ord3 c m key alg ext) = None
    \<and> Payload m = payload \<and> (\<forall>t. fst (VerifyMAC0 ord3 c (m\<lparr>MacTag := t\<rparr>) key alg ext) = (if t = MacTag m then None else Some ErrMACVerification))"
  using assms by (rule mac0_wire)

definition toyKeys :: KeyCrypto where
  "toyKeys =
     \<lparr>BlockEncrypt = (\<lambda>k b. rev b), BlockDecrypt = (\<lambda>k b. rev b),
      RandomBytes = (\<lambda>d n. Some (replicate n (of_nat d))),
      GenerateKey = (\<lambda>d cv. Some [of_nat d]), PublicBytes = (\<lambda>cv k. 4 # k), ValidPublicKey = (\<lambda>cv p. hd p = 4),
      SharedSecret = (\<lambda>cv k p. Some [sum_list k + sum_list (tl p)]),
      HkdfKey = (\<lambda>s i n. Some (take (nat n) (s @ replicate (nat n) 0))),
      Pbkdf2Key = (\<lambda>p s i n. Some (take (nat n) (p @ replicate (nat n) 0))),
      HpkeKeyOk = (\<lambda>cv k. True), HpkeSeal = (\<lambda>d p i cek. Some (rev cek)), HpkeOpen = (\<lambda>k i s. Some (rev s)),
      GcmSeal = (\<lambda>k n p a. rev p @ replicate 16 0),
      GcmOpen = (\<lambda>k n s a. if length s < 16 then None else Some (rev (take (length s - 16) s))),
      HmacSum = (\<lambda>h k m. take 32 (k @ rev m @ replicate 32 0))\<rparr>"

theorem mac0_over_the_wire_witness:
  "\<exists>out m. UnmarshalMac0 out = Inr m \<and> fst (VerifyMAC0 rev toyKeys m [1] AlgHMAC256_64 (Some [2])) = None"
proof -
  have "case ComputeMAC0 rev toyKeys (Some [7]) [1] AlgHMAC256_64 (Some [2]) of
      Inl _ \<Rightarrow> False
    | Inr msg \<Rightarrow> length (MacTag msg) \<le> 100 \<and> (case fst (MarshalMac0 rev msg) of Inl _ \<Rightarrow> False | Inr out \<Rightarrow> length out < 100)"
    by code_simp
  then obtain msg out where "ComputeMAC0 rev toyKeys (Some [7]) [1] AlgHMAC256_64 (Some [2]) = Inr msg"
    and "length (MacTag msg) \<le> 100" and "fst (MarshalMac0 rev msg) = Inr out" "length out < 100"
    by (auto split: sum.splits)
  with mac0_over_the_wire [of rev rev rev "Some [7]" toyKeys "[1]" AlgHMAC256_64 "Some [2]" msg out]
  show ?thesis by (auto simp: reorders_rev small_def)
qed

lemma UnmarshalEncrypt0_no_cache: "UnmarshalEncrypt0 data = Inr m \<Longrightarrow> \<not> cacheValid (Protected m)"
  by (auto simp: UnmarshalEncrypt0_def orElse_eq_Inr headerFields_no_cache)

text \<open>A message encrypted under one key decrypts to its plaintext after it was on the wire.\<close>

lemma encrypt0_wire:
  assumes "reorders ord1" and "reorders ord2" and "reorders ord3" and "key_laws c"
    and "EncryptEncrypt0 ord1 c plaintext key nonce alg ext = Inr msg" and "small (Ciphertext msg)"
    and "fst (MarshalEncrypt0 ord2 msg) = Inr out" and "length out < 2 ^ 61"
  shows "\<exists>m. UnmarshalEncrypt0 out = Inr m \<and> fst (DecryptEncrypt0 ord3 c m key nonce alg ext) = Inr plaintext"
proof -
  obtain r hs where r: "encodeProtected ord1 (algHeaders alg) = (r, hs)" by (metis surj_pair)
  with assms(5) obtain pb aad where ok: "validateAESGCMKey alg key = None" "newGCM key = None" "length nonce = 12"
    and pb: "encodeProtected ord1 (algHeaders alg) = (Inr pb, hs)" and aad: "buildEncStructure pb ext = Inr aad"
    and msg: "msg = \<lparr>Protected = hs, Unprotected = NoHeaders, Ciphertext = Some (GcmSeal c key nonce plaintext aad)\<rparr>"
    by (cases r) (auto simp: EncryptEncrypt0_def orElse_eq_Inr algHeaders_def split: option.splits if_splits)
  note hs = algHeaders_cached [OF assms(1) pb]
  obtain msg' where mar: "MarshalEncrypt0 ord2 msg = (Inr out, msg')" using assms(7) by (metis prod.collapse)
  have "base_ok ord2 msg" using hs(4) [OF assms(2)] by (simp add: base_ok_def msg NoHeaders_plain)
  then obtain m where m: "UnmarshalEncrypt0 out = Inr m" "same_base m msg" "Ciphertext m = Ciphertext msg"
    using Encrypt0_round_trip [OF assms(2) _ assms(6) mar assms(8)] by blast
  obtain pb' hs' where pb': "encodeProtected ord3 (Protected m) = (Inr pb', hs')" "orEmpty pb' = orEmpty pb"
    using received_protected [OF assms(1,3) pb _ UnmarshalEncrypt0_no_cache [OF m(1)]] m(2) msg
    by (auto simp: same_base_def same_headers_def)
  then have "buildEncStructure pb' ext = Inr aad" using aad by (simp add: buildEncStructure_def)
  moreover have "GcmOpen c key nonce (GcmSeal c key nonce plaintext aad) aad = Some plaintext"
    using assms(4) ok(3) by (simp add: key_laws_def)
  ultimately show ?thesis using pb' ok m(1,3) msg by (simp add: DecryptEncrypt0_def orEmpty_def)
qed

section \<open>Encryption for several recipients\<close>

text \<open>The derivers of a sender and of a recipient that belong together, ECDH-ES included.\<close>

definition matches :: "'m KeyCrypto_scheme \<Rightarrow> KeyDeriver \<Rightarrow> KeyDeriver \<Rightarrow> bool" where
  "matches c d d' \<longleftrightarrow> opens c d d'
     \<or> (\<exists>cv k priv peer. d = ECDHESKey priv (Some (cv, PublicBytes c cv k)) \<and> d' = ECDHESKey (Some (cv, k)) peer)"

lemma recipient_opens:
  assumes "key_laws c" and "matches c d d'" and "encryptRecipient c draw d cek opts = Inr r"
  shows "recipientKey c d' r opts = Inr cek"
proof -
  from assms(2) consider (opens) "opens c d d'"
    | (dh) cv k priv peer where "d = ECDHESKey priv (Some (cv, PublicBytes c cv k))" "d' = ECDHESKey (Some (cv, k)) peer"
    by (auto simp: matches_def)
  then show ?thesis
  proof cases
    case opens
    then have nd: "\<not> is_ECDHESKey d \<and> \<not> is_ECDHESKey d'"
      by (cases d; cases d') (auto simp: opens_def split: option.splits)
    with assms(3) obtain ct h where wrapped: "WrapKey c draw d cek opts = Inr (ct, h)"
      and r: "Unprotected r = h" "RecipientCiphertext r = ct"
      by (cases d) (auto simp: encryptRecipient_def orElse_eq_Inr)
    from UnwrapKey_WrapKey [OF assms(1) opens wrapped] nd r show ?thesis
      by (cases d') (simp_all add: recipientKey_def)
  next
    case dh
    with assms(3) obtain derived h w where derived: "DeriveKey c draw (Some (cv, PublicBytes c cv k)) opts = Inr (derived, h)"
      and w: "AESKW_WrapKey c derived cek = Inr (w, NoHeaders)" and r: "Unprotected r = h" "RecipientCiphertext r = w"
      by (auto simp: encryptRecipient_def orElse_eq_Inr aeskwWrapWithDerived_def AESKW_WrapKey_def
          split: option.splits sum.splits)
    from Underive_Derive [OF assms(1) derived] aeskw_opens [OF assms(1) w] dh(2) r show ?thesis
      by (simp add: recipientKey_def aeskwUnwrapWithDerived_def)
  qed
qed

lemma encryptForAll_nth:
  assumes "encryptForAll c d ds cek opts = Inr rs"
  shows "length rs = length ds \<and> (\<forall>i < length ds. encryptRecipient c (d + i) (ds ! i) cek opts = Inr (rs ! i))"
  using assms
proof (induction ds arbitrary: d rs)
  case (Cons r ds)
  from Cons.prems obtain r' rs' where r: "encryptRecipient c d r cek opts = Inr r'"
    "encryptForAll c (Suc d) ds cek opts = Inr rs'" "rs = r' # rs'" by (auto simp: orElse_eq_Inr)
  from Cons.IH [OF r(2)] r(1,3) show ?case by (auto simp: nth_Cons split: nat.splits)
qed simp

lemma EncryptMulti_fields:
  assumes "EncryptMulti ord c draw plaintext alg ds ext = Inr msg"
  obtains cek nonce pb hs aad where "RandomBytes c draw (nat (cekLenForAlg alg)) = Some cek"
    and "RandomBytes c (draw + 1) 12 = Some nonce" and "cekLenForAlg alg \<noteq> 0" and "newGCM cek = None"
    and "encodeProtected ord (algHeaders alg) = (Inr pb, hs)" and "buildEncStructureMulti pb ext = Inr aad"
    and "Protected msg = hs" and "Unprotected msg = setInt headerLabelIV (GBytes nonce) NoHeaders"
    and "Ciphertext msg = Some (GcmSeal c cek nonce plaintext aad)"
    and "encryptForAll c (draw + 2) ds cek \<lparr>CEKAlgorithm = alg, CEKLength = cekLenForAlg alg\<rparr> = Inr (Recipients msg)"
  using assms
  by (auto simp: EncryptMulti_def Let_def orElse_eq_Inr algHeaders_def split: prod.splits sum.splits option.splits if_splits)

text \<open>C10: Every recipient whose deriver matches the one the sender used for it decrypts a message that was encrypted
  for several recipients without external data, and obtains the plaintext.\<close>
theorem encrypt_multi_decrypts:
  assumes "reorders ord" and "key_laws c" and "EncryptMulti ord c draw plaintext alg ds None = Inr msg"
    and "i < length ds" and "matches c (ds ! i) d'"
  shows "fst (DecryptMulti ord' c msg d' (int i)) = Inr plaintext"
proof -
  from EncryptMulti_fields [OF assms(3)] obtain cek nonce pb hs aad where
    f: "RandomBytes c (draw + 1) 12 = Some nonce" "cekLenForAlg alg \<noteq> 0" "newGCM cek = None"
      "encodeProtected ord (algHeaders alg) = (Inr pb, hs)" "buildEncStructureMulti pb None = Inr aad"
      "Protected msg = hs" "Unprotected msg = setInt headerLabelIV (GBytes nonce) NoHeaders"
      "Ciphertext msg = Some (GcmSeal c cek nonce plaintext aad)"
    and rs: "encryptForAll c (draw + 2) ds cek \<lparr>CEKAlgorithm = alg, CEKLength = cekLenForAlg alg\<rparr> = Inr (Recipients msg)"
    by metis
  note hs = algHeaders_cached [OF assms(1) f(4)]
  have r: "length (Recipients msg) = length ds"
    "recipientKey c d' (Recipients msg ! i) \<lparr>CEKAlgorithm = alg, CEKLength = cekLenForAlg alg\<rparr> = Inr cek"
    using encryptForAll_nth [OF rs] recipient_opens [OF assms(2,5)] assms(4) by auto
  have nonce: "length nonce = 12" using assms(2) f(1) by (auto simp: key_laws_def)
  then have opened: "GcmOpen c cek nonce (GcmSeal c cek nonce plaintext aad) aad = Some plaintext"
    using assms(2) by (simp add: key_laws_def)
  obtain hs' where again: "encodeProtected ord' hs = (Inr pb, hs')"
    using encodeProtected_again [OF f(4), of ord'] by (cases "encodeProtected ord' hs") auto
  show ?thesis
    using assms(4) r f(2,3,5) nonce opened again
    by (simp add: DecryptMulti_def f(6-8) hs(2) getInt_setInt orEmpty_def)
qed

theorem encrypt_multi_decrypts_witness:
  "\<exists>msg. fst (DecryptMulti rev toyKeys msg (AESKWKey (replicate 16 3)) 0) = Inr [1, 2]
    \<and> fst (DecryptMulti rev toyKeys msg (ECDHESKey (Some (DH_P256, [9])) None) 1) = Inr [1, 2]"
proof -
  let ?ds = "[AESKWKey (replicate 16 3), ECDHESKey None (Some (DH_P256, PublicBytes toyKeys DH_P256 [9]))]"
  have laws: "key_laws toyKeys"
    by (auto simp: key_laws_def toyKeys_def block_laws_def BlockCipher.truncate_def add.commute)
  have "case EncryptMulti rev toyKeys 0 [1, 2] AlgA128GCM ?ds None of Inl _ \<Rightarrow> False | Inr _ \<Rightarrow> True"
    by code_simp
  then obtain msg where msg: "EncryptMulti rev toyKeys 0 [1, 2] AlgA128GCM ?ds None = Inr msg"
    by (auto split: sum.splits)
  note dec = encrypt_multi_decrypts [OF reorders_rev laws msg]
  have "fst (DecryptMulti rev toyKeys msg (AESKWKey (replicate 16 3)) (int 0)) = Inr [1, 2]"
    by (rule dec) (simp_all add: matches_def opens_def)
  moreover have "fst (DecryptMulti rev toyKeys msg (ECDHESKey (Some (DH_P256, [9])) None) (int 1)) = Inr [1, 2]"
    by (rule dec) (simp_all add: matches_def)
  ultimately show ?thesis by auto
qed

text \<open>A message from the wire makes decryption panic: when a recipient recovers its content key but the
  initialization vector in the unprotected headers does not have 12 bytes, the cipher is called with it.\<close>
lemma decrypt_bad_iv_panics:
  assumes "cekLenForAlg (HeadersAlgorithm (Protected msg)) \<noteq> 0" and "i < length (Recipients msg)"
    and "recipientKey c d (Recipients msg ! i)
      \<lparr>CEKAlgorithm = HeadersAlgorithm (Protected msg), CEKLength = cekLenForAlg (HeadersAlgorithm (Protected msg))\<rparr> = Inr cek"
    and "newGCM cek = None" and "getInt headerLabelIV (Unprotected msg) = GBytes nonce" and "length nonce \<noteq> 12"
    and "fst (encodeProtected ord (Protected msg)) = Inr pb"
  shows "fst (DecryptMulti ord c msg d (int i)) = Inl CosePanic"
proof -
  obtain hs where "encodeProtected ord (Protected msg) = (Inr pb, hs)" using assms(7) by (metis prod.collapse)
  moreover obtain aad where "buildEncStructureMulti pb None = Inr aad" using structures_total(6) by blast
  ultimately show ?thesis using assms(1-6) by (simp add: DecryptMulti_def Let_def)
qed

text \<open>The message \<open>96([h'a10101', {5: h''}, h'', [[h'', {}, h'']]])\<close> for a direct key.\<close>

lemma decrypt_bad_iv_panics_witness:
  "\<exists>msg. UnmarshalEncrypt [0xd8, 0x60, 0x84, 0x43, 0xa1, 0x01, 0x01, 0xa1, 0x05, 0x40, 0x40, 0x81, 0x83, 0x40, 0xa0, 0x40] = Inr msg
    \<and> fst (DecryptMulti (\<lambda>ps. ps) toyKeys msg (DirectKey (replicate 16 0)) (int 0)) = Inl CosePanic"
proof -
  let ?data = "[0xd8, 0x60, 0x84, 0x43, 0xa1, 0x01, 0x01, 0xa1, 0x05, 0x40, 0x40, 0x81, 0x83, 0x40, 0xa0, 0x40] :: bytes"
  have *: "case UnmarshalEncrypt ?data of Inl _ \<Rightarrow> False | Inr msg \<Rightarrow> HeadersAlgorithm (Protected msg) = AlgA128GCM
      \<and> length (Recipients msg) = 1 \<and> getInt headerLabelIV (Unprotected msg) = GBytes []
      \<and> fst (encodeProtected (\<lambda>ps. ps) (Protected msg)) = Inr (Some [0xa1, 1, 1])"
    by code_simp
  then obtain msg where msg: "UnmarshalEncrypt ?data = Inr msg" by (cases "UnmarshalEncrypt ?data") auto
  have "fst (DecryptMulti (\<lambda>ps. ps) toyKeys msg (DirectKey (replicate 16 0)) (int 0)) = Inl CosePanic"
    by (rule decrypt_bad_iv_panics [where cek = "replicate 16 0" and nonce = "[]" and pb = "Some [0xa1, 1, 1]"])
      (use * msg in \<open>simp_all add: cekLenForAlg_def alg_defs recipientKey_def UnwrapKey_def DirectKey_UnwrapKey_def
        DirectKey_check_def newGCM_def NewCipherOk_def\<close>)
  with msg show ?thesis by blast
qed

text \<open>A direct key never decrypts what was encrypted for it: the content is encrypted under a random key, nothing
  is transmitted, and the recipient uses its own key instead.\<close>

lemma direct_key_lost:
  assumes "EncryptMulti ord c draw plaintext alg [DirectKey key] ext = Inr msg"
  shows "\<exists>cek nonce aad. RandomBytes c draw (nat (cekLenForAlg alg)) = Some cek
    \<and> Ciphertext msg = Some (GcmSeal c cek nonce plaintext aad) \<and> RecipientCiphertext (Recipients msg ! 0) = None
    \<and> recipientKey c (DirectKey key) (Recipients msg ! 0) \<lparr>CEKAlgorithm = alg, CEKLength = cekLenForAlg alg\<rparr> = Inr key"
proof -
  from EncryptMulti_fields [OF assms] obtain cek nonce aad where
    "RandomBytes c draw (nat (cekLenForAlg alg)) = Some cek" "Ciphertext msg = Some (GcmSeal c cek nonce plaintext aad)"
    and rs: "encryptForAll c (draw + 2) [DirectKey key] cek \<lparr>CEKAlgorithm = alg, CEKLength = cekLenForAlg alg\<rparr> = Inr (Recipients msg)"
    by metis
  moreover define r where "r = Recipients msg ! 0"
  have "encryptRecipient c (draw + 2) (DirectKey key) cek \<lparr>CEKAlgorithm = alg, CEKLength = cekLenForAlg alg\<rparr> = Inr r"
    using encryptForAll_nth [OF rs] by (auto simp: r_def)
  then have "DirectKey_check key \<lparr>CEKAlgorithm = alg, CEKLength = cekLenForAlg alg\<rparr> = None" "RecipientCiphertext r = None"
    by (auto simp: orElse_eq_Inr encryptRecipient_def WrapKey_def DirectKey_WrapKey_def split: option.splits)
  ultimately show ?thesis by (auto simp: recipientKey_def UnwrapKey_def DirectKey_UnwrapKey_def simp flip: r_def)
qed

end
