(* ===== verification/Cose_Key.thy ===== *)
theory Cose_Key
  imports Cose_Sign
begin

text \<open>
  The \<open>COSE_Key\<close> object (\<^verbatim>\<open>cose/key_types.go\<close>, \<^verbatim>\<open>cose/key.go\<close>): a map from integer labels to parameters,
  built from a public key or a signer of Go's cryptographic packages and turned back into one. The conversions
  of \<^verbatim>\<open>crypto/ecdsa\<close> and \<^verbatim>\<open>crypto/ed25519\<close> between keys and bytes are a record of functions, the parameter
  \<open>f\<close>, and what they promise is \<open>key_format_laws\<close>.
\<close>

section \<open>The map of parameters\<close>

definition keyLabelKty :: i64 where "keyLabelKty = 1"
definition keyLabelCrv :: i64 where "keyLabelCrv = -1"
definition keyLabelX :: i64 where "keyLabelX = -2"
definition keyLabelY :: i64 where "keyLabelY = -3"
definition keyLabelD :: i64 where "keyLabelD = -4"

lemmas keyLabel_defs = keyLabelKty_def keyLabelCrv_def keyLabelX_def keyLabelY_def keyLabelD_def

definition KeyTypeOKP :: i64 where "KeyTypeOKP = 1"
definition KeyTypeEC2 :: i64 where "KeyTypeEC2 = 2"

definition CurveP256 :: i64 where "CurveP256 = 1"
definition CurveP384 :: i64 where "CurveP384 = 2"
definition CurveP521 :: i64 where "CurveP521 = 3"
definition CurveEd25519 :: i64 where "CurveEd25519 = 6"

lemmas keyType_defs = KeyTypeOKP_def KeyTypeEC2_def CurveP256_def CurveP384_def CurveP521_def CurveEd25519_def

text \<open>The dynamic types of the values that the operations store.\<close>

datatype key_param = KInt i64 | KBytes bytes

type_synonym Key = "i64 \<rightharpoonup> key_param"

definition key_get :: "i64 \<Rightarrow> Key \<Rightarrow> key_param option" where "key_get label k = k label"

definition key_set :: "i64 \<Rightarrow> key_param \<Rightarrow> Key \<Rightarrow> Key" where "key_set label v k = k(label \<mapsto> v)"

text \<open>A type assertion that fails gives the zero value.\<close>

definition intParam :: "i64 \<Rightarrow> Key \<Rightarrow> i64" where
  "intParam label k = (case key_get label k of Some (KInt v) \<Rightarrow> v | _ \<Rightarrow> 0)"

definition bytesParam :: "i64 \<Rightarrow> Key \<Rightarrow> bytes option" where
  "bytesParam label k = (case key_get label k of Some (KBytes b) \<Rightarrow> Some b | _ \<Rightarrow> None)"

definition KeyType :: "Key \<Rightarrow> i64" where "KeyType k = intParam keyLabelKty k"
definition KeyCurve :: "Key \<Rightarrow> i64" where "KeyCurve k = intParam keyLabelCrv k"

text \<open>An elliptic curve that is not one of the three is \<open>None\<close>.\<close>

definition goCurveToOse :: "curve option \<Rightarrow> cose_error + i64" where
  "goCurveToOse c = (case c of
      Some P256 \<Rightarrow> Inr CurveP256 | Some P384 \<Rightarrow> Inr CurveP384 | Some P521 \<Rightarrow> Inr CurveP521 | None \<Rightarrow> Inl ErrInvalidKey)"

definition coseCurveToGo :: "i64 \<Rightarrow> cose_error + curve" where
  "coseCurveToGo c =
     (if c = CurveP256 then Inr P256 else if c = CurveP384 then Inr P384 else if c = CurveP521 then Inr P521
      else Inl ErrInvalidKey)"

definition padLeft :: "bytes \<Rightarrow> nat \<Rightarrow> bytes" where
  "padLeft b n = (if length b \<ge> n then b else replicate (n - length b) 0 @ b)"

section \<open>Conversion from and to Go's keys\<close>

text \<open>\<open>ecdsa_PrivateKey\<close> tells whether a signer is an \<open>*ecdsa.PrivateKey\<close>, and its curve.\<close>

record KeyFormats =
  ecdsa_PublicBytes :: "PublicKey \<Rightarrow> bytes option"
  ecdsa_ParseUncompressedPublicKey :: "curve \<Rightarrow> bytes \<Rightarrow> PublicKey option"
  ecdsa_PrivateKey :: "SignerKey \<Rightarrow> curve option"
  ecdsa_PrivateBytes :: "SignerKey \<Rightarrow> bytes option"
  ecdsa_ParseRawPrivateKey :: "curve \<Rightarrow> bytes \<Rightarrow> SignerKey option"
  ed25519_NewKeyFromSeed :: "bytes \<Rightarrow> bytes"

definition NewKeyFromPublic :: "KeyFormats \<Rightarrow> PublicKey \<Rightarrow> cose_error + Key" where
  "NewKeyFromPublic f pub = (case pub of
      Ed25519Public p \<Rightarrow>
        Inr (key_set keyLabelX (KBytes p) (key_set keyLabelCrv (KInt CurveEd25519)
          (key_set keyLabelKty (KInt KeyTypeOKP) Map.empty)))
    | EcdsaPublic cv q \<Rightarrow>
        orElse (goCurveToOse (Some cv)) (\<lambda>crv.
          let sz = curveKeySize cv in
          case ecdsa_PublicBytes f pub of
            None \<Rightarrow> Inl ErrInvalidKey
          | Some raw \<Rightarrow>
              let x = padLeft (take sz (drop 1 raw)) sz; y = padLeft (drop (1 + sz) raw) sz in
              Inr (key_set keyLabelY (KBytes y) (key_set keyLabelX (KBytes x) (key_set keyLabelCrv (KInt crv)
                (key_set keyLabelKty (KInt KeyTypeEC2) Map.empty)))))
    | EcdsaOtherCurve _ \<Rightarrow> orElse (goCurveToOse None) (\<lambda>_. Inl ErrInvalidKey)
    | OtherPublic _ \<Rightarrow> Inl ErrInvalidKey)"

definition NewKeyFromSigner :: "SignCrypto \<Rightarrow> KeyFormats \<Rightarrow> SignerKey \<Rightarrow> cose_error + Key" where
  "NewKeyFromSigner c f s =
     orElse (NewKeyFromPublic f (PublicOf c s)) (\<lambda>k.
       case s of
         Ed25519PrivateKey p \<Rightarrow> Inr (key_set keyLabelD (KBytes (take 32 p)) k)
       | OpaqueSigner _ \<Rightarrow>
           (case ecdsa_PrivateKey f s of
              None \<Rightarrow> Inl ErrInvalidKey
            | Some cv \<Rightarrow>
                (case ecdsa_PrivateBytes f s of
                   None \<Rightarrow> Inl ErrInvalidKey
                 | Some d \<Rightarrow> Inr (key_set keyLabelD (KBytes (padLeft d (curveKeySize cv))) k))))"

definition KeyPublicKey :: "KeyFormats \<Rightarrow> Key \<Rightarrow> cose_error + PublicKey" where
  "KeyPublicKey f k =
     (if KeyType k = KeyTypeOKP then
        (if KeyCurve k \<noteq> CurveEd25519 then Inl ErrInvalidKey
         else case bytesParam keyLabelX k of
           None \<Rightarrow> Inl ErrInvalidKey
         | Some x \<Rightarrow> if length x \<noteq> 32 then Inl ErrInvalidKey else Inr (Ed25519Public x))
      else if KeyType k = KeyTypeEC2 then
        orElse (coseCurveToGo (KeyCurve k)) (\<lambda>goCrv.
          case bytesParam keyLabelX k of
            None \<Rightarrow> Inl ErrInvalidKey
          | Some x \<Rightarrow>
              (case bytesParam keyLabelY k of
                 None \<Rightarrow> Inl ErrInvalidKey
               | Some y \<Rightarrow>
                   let sz = curveKeySize goCrv; point = [0x04] @ take sz (padLeft x sz) @ take sz (padLeft y sz) in
                   (case ecdsa_ParseUncompressedPublicKey f goCrv point of
                      None \<Rightarrow> Inl ErrInvalidKey
                    | Some pub \<Rightarrow> Inr pub)))
      else Inl ErrInvalidKey)"

definition KeySigner :: "KeyFormats \<Rightarrow> Key \<Rightarrow> cose_error + SignerKey" where
  "KeySigner f k = (case bytesParam keyLabelD k of
      None \<Rightarrow> Inl ErrInvalidKey
    | Some d \<Rightarrow>
        if KeyType k = KeyTypeOKP then
          (if KeyCurve k \<noteq> CurveEd25519 then Inl ErrInvalidKey
           else if length d \<noteq> 32 then Inl ErrInvalidKey
           else Inr (Ed25519PrivateKey (ed25519_NewKeyFromSeed f d)))
        else if KeyType k = KeyTypeEC2 then
          orElse (coseCurveToGo (KeyCurve k)) (\<lambda>goCrv.
            case ecdsa_ParseRawPrivateKey f goCrv d of
              None \<Rightarrow> Inl ErrInvalidKey
            | Some priv \<Rightarrow> Inr priv)
        else Inl ErrInvalidKey)"

section \<open>A key survives the conversion\<close>

text \<open>What the packages document: the uncompressed encoding of a point is \<open>4 || X || Y\<close> with coordinates of the
  field's width, and parses back; a private scalar has the same width and parses back; an Ed25519 private key is
  its seed followed by its public key.\<close>

definition key_format_laws :: "SignCrypto \<Rightarrow> KeyFormats \<Rightarrow> bool" where
  "key_format_laws c f \<longleftrightarrow>
     (\<forall>cv q raw. ecdsa_PublicBytes f (EcdsaPublic cv q) = Some raw \<longrightarrow>
        length raw = 1 + 2 * curveKeySize cv \<and> raw ! 0 = 4
        \<and> ecdsa_ParseUncompressedPublicKey f cv raw = Some (EcdsaPublic cv q))
   \<and> (\<forall>key cv. ecdsa_PrivateKey f key = Some cv \<longrightarrow> (\<exists>q. PublicOf c key = EcdsaPublic cv q)
        \<and> (\<forall>d. ecdsa_PrivateBytes f key = Some d \<longrightarrow>
             length d = curveKeySize cv \<and> ecdsa_ParseRawPrivateKey f cv d = Some key))
   \<and> (\<forall>s. length s = 32 \<longrightarrow> length (ed25519_NewKeyFromSeed f s) = 64 \<and> take 32 (ed25519_NewKeyFromSeed f s) = s)
   \<and> (\<forall>k. length k = 64 \<longrightarrow> PublicOf c (Ed25519PrivateKey k) = Ed25519Public (drop 32 k))"

text \<open>The keys of Go that are as their package makes them.\<close>

definition proper_public :: "PublicKey \<Rightarrow> bool" where
  "proper_public pub = (case pub of Ed25519Public p \<Rightarrow> length p = 32 | _ \<Rightarrow> True)"

definition generated :: "KeyFormats \<Rightarrow> SignerKey \<Rightarrow> bool" where
  "generated f s \<longleftrightarrow> (case s of Ed25519PrivateKey k \<Rightarrow> \<exists>seed. length seed = 32 \<and> k = ed25519_NewKeyFromSeed f seed
    | OpaqueSigner _ \<Rightarrow> True)"

lemma curve_round_trip: "goCurveToOse (Some cv) = Inr crv \<Longrightarrow> coseCurveToGo crv = Inr cv"
  by (auto simp: goCurveToOse_def coseCurveToGo_def keyType_defs split: curve.splits)

lemma padLeft_id: "n \<le> length b \<Longrightarrow> padLeft b n = b"
  by (simp add: padLeft_def)

lemma NewKeyFromPublic_shape:
  assumes "NewKeyFromPublic f pub = Inr k"
  obtains (okp) p where "pub = Ed25519Public p"
      and "k = [keyLabelKty \<mapsto> KInt KeyTypeOKP, keyLabelCrv \<mapsto> KInt CurveEd25519, keyLabelX \<mapsto> KBytes p]"
    | (ec2) cv q crv raw where "pub = EcdsaPublic cv q" and "goCurveToOse (Some cv) = Inr crv"
      and "ecdsa_PublicBytes f pub = Some raw"
      and "k = [keyLabelKty \<mapsto> KInt KeyTypeEC2, keyLabelCrv \<mapsto> KInt crv,
        keyLabelX \<mapsto> KBytes (padLeft (take (curveKeySize cv) (drop 1 raw)) (curveKeySize cv)),
        keyLabelY \<mapsto> KBytes (padLeft (drop (1 + curveKeySize cv) raw) (curveKeySize cv))]"
  using assms
  by (auto simp: NewKeyFromPublic_def key_set_def Let_def split: PublicKey.splits option.splits
      simp: orElse_eq_Inr)

text \<open>Adding the private parameter does not change what the public part says.\<close>

lemma param_key_set:
  "label \<noteq> label' \<Longrightarrow> intParam label (key_set label' v k) = intParam label k"
  "label \<noteq> label' \<Longrightarrow> bytesParam label (key_set label' v k) = bytesParam label k"
  by (simp_all add: intParam_def bytesParam_def key_get_def key_set_def)

lemma KeyPublicKey_private: "KeyPublicKey f (key_set keyLabelD v k) = KeyPublicKey f k"
proof -
  have eqs: "intParam keyLabelKty (key_set keyLabelD v k) = intParam keyLabelKty k"
    "intParam keyLabelCrv (key_set keyLabelD v k) = intParam keyLabelCrv k"
    "bytesParam keyLabelX (key_set keyLabelD v k) = bytesParam keyLabelX k"
    "bytesParam keyLabelY (key_set keyLabelD v k) = bytesParam keyLabelY k"
    by (rule param_key_set; simp add: keyLabel_defs)+
  show ?thesis unfolding KeyPublicKey_def KeyType_def KeyCurve_def eqs by (rule refl)
qed

lemma KeyPublicKey_NewKeyFromPublic:
  assumes "key_format_laws c f" and "proper_public pub" and "NewKeyFromPublic f pub = Inr k"
  shows "KeyPublicKey f k = Inr pub"
  using assms(3)
proof (cases rule: NewKeyFromPublic_shape)
  case okp
  then show ?thesis using assms(2)
    by (simp add: KeyPublicKey_def KeyType_def KeyCurve_def intParam_def bytesParam_def key_get_def keyLabel_defs
        proper_public_def keyType_defs)
next
  case (ec2 cv q crv raw)
  have raw: "length raw = 1 + 2 * curveKeySize cv" "raw ! 0 = 4"
    "ecdsa_ParseUncompressedPublicKey f cv raw = Some pub"
    using assms(1) ec2(1,3) by (auto simp: key_format_laws_def)
  then have "raw = 4 # take (curveKeySize cv) (drop 1 raw) @ drop (1 + curveKeySize cv) raw"
    by (cases raw) simp_all
  then have "4 # take (curveKeySize cv) (drop 1 raw) @ drop (1 + curveKeySize cv) raw = raw" ..
  then show ?thesis using ec2 raw curve_round_trip [OF ec2(2)]
    by (simp add: KeyPublicKey_def KeyType_def KeyCurve_def intParam_def bytesParam_def key_get_def keyLabel_defs
        keyType_defs padLeft_id)
qed

lemma KeySigner_NewKeyFromSigner:
  assumes "key_format_laws c f" and "generated f s" and "NewKeyFromSigner c f s = Inr k"
  shows "KeySigner f k = Inr s \<and> KeyPublicKey f k = Inr (PublicOf c s)"
proof -
  from assms(3) obtain k0 where k0: "NewKeyFromPublic f (PublicOf c s) = Inr k0"
    by (auto simp: NewKeyFromSigner_def simp: orElse_eq_Inr)
  show ?thesis
  proof (cases s)
    case (Ed25519PrivateKey p)
    then obtain seed where seed: "length seed = 32" "p = ed25519_NewKeyFromSeed f seed"
      using assms(2) by (auto simp: generated_def)
    then have p: "length p = 64" "take 32 p = seed" "PublicOf c s = Ed25519Public (drop 32 p)"
      using assms(1) Ed25519PrivateKey by (auto simp: key_format_laws_def)
    have "proper_public (PublicOf c s)" using p by (simp add: proper_public_def)
    note pub = KeyPublicKey_NewKeyFromPublic [OF assms(1) this k0]
    have k: "k = key_set keyLabelD (KBytes seed) k0" using assms(3) k0 p Ed25519PrivateKey
      by (simp add: NewKeyFromSigner_def orElse_def)
    have "k0 keyLabelKty = Some (KInt KeyTypeOKP)" "k0 keyLabelCrv = Some (KInt CurveEd25519)"
      using k0 p(3) by (auto simp: NewKeyFromPublic_def key_set_def keyLabel_defs)
    then show ?thesis using k pub Ed25519PrivateKey seed
      by (simp add: KeyPublicKey_private)
        (simp add: KeySigner_def KeyType_def KeyCurve_def intParam_def bytesParam_def key_get_def key_set_def keyLabel_defs)
  next
    case (OpaqueSigner n)
    with assms(3) k0 obtain cv d where cv: "ecdsa_PrivateKey f s = Some cv" "ecdsa_PrivateBytes f s = Some d"
      and k: "k = key_set keyLabelD (KBytes (padLeft d (curveKeySize cv))) k0"
      by (auto simp: NewKeyFromSigner_def orElse_def split: option.splits)
    obtain q where q: "PublicOf c s = EcdsaPublic cv q" and d: "length d = curveKeySize cv"
      "ecdsa_ParseRawPrivateKey f cv d = Some s"
      using assms(1) cv unfolding key_format_laws_def by metis
    have "proper_public (PublicOf c s)" using q by (simp add: proper_public_def)
    note pub = KeyPublicKey_NewKeyFromPublic [OF assms(1) this k0]
    obtain crv where "goCurveToOse (Some cv) = Inr crv" "k0 keyLabelKty = Some (KInt KeyTypeEC2)"
      "k0 keyLabelCrv = Some (KInt crv)"
      using k0 by (cases rule: NewKeyFromPublic_shape) (auto simp: q keyLabel_defs)
    then show ?thesis using k pub d curve_round_trip [of cv crv]
      by (simp add: KeyPublicKey_private padLeft_id)
        (simp add: KeySigner_def KeyType_def KeyCurve_def intParam_def bytesParam_def key_get_def key_set_def
          keyLabel_defs keyType_defs)
  qed
qed

text \<open>C?: A COSE key is as good as the key it was made from: what \<open>NewKeyFromSigner\<close> builds gives back both the
  signer and its public key, what \<open>NewKeyFromPublic\<close> builds gives back the public key, and no signer: a
  public key never yields private material.\<close>

theorem cose_key_round_trip:
  assumes "key_format_laws c f"
  shows "(generated f s \<and> NewKeyFromSigner c f s = Inr k \<longrightarrow> KeySigner f k = Inr s \<and> KeyPublicKey f k = Inr (PublicOf c s))
    \<and> (proper_public pub \<and> NewKeyFromPublic f pub = Inr k' \<longrightarrow>
         KeyPublicKey f k' = Inr pub \<and> KeySigner f k' = Inl ErrInvalidKey)"
proof -
  have "KeySigner f k' = Inl ErrInvalidKey" if "NewKeyFromPublic f pub = Inr k'"
    using that by (cases rule: NewKeyFromPublic_shape)
      (simp_all add: KeySigner_def bytesParam_def key_get_def keyLabel_defs)
  then show ?thesis using KeySigner_NewKeyFromSigner [OF assms] KeyPublicKey_NewKeyFromPublic [OF assms] by blast
qed

text \<open>A P-256 key of all ones.\<close>

definition toyKeyCrypto :: SignCrypto where
  "toyKeyCrypto = \<lparr>PublicOf = (\<lambda>s. case s of Ed25519PrivateKey k \<Rightarrow> Ed25519Public (drop 32 k)
     | OpaqueSigner _ \<Rightarrow> EcdsaPublic P256 []),
   ed25519_Sign = (\<lambda>_ _. replicate 64 0), ed25519_Verify = (\<lambda>_ _ _. True), key_Sign = (\<lambda>_ _ _ _. None),
   ecdsa_VerifyASN1 = (\<lambda>_ _ _. True), SumOf = (\<lambda>_ _. [])\<rparr>"

definition toyFormats :: KeyFormats where
  "toyFormats = \<lparr>ecdsa_PublicBytes = (\<lambda>pub. if pub = EcdsaPublic P256 [] then Some (4 # replicate 64 1) else None),
   ecdsa_ParseUncompressedPublicKey = (\<lambda>cv _. if cv = P256 then Some (EcdsaPublic P256 []) else None),
   ecdsa_PrivateKey = (\<lambda>s. if s = OpaqueSigner 0 then Some P256 else None),
   ecdsa_PrivateBytes = (\<lambda>_. Some (replicate 32 2)),
   ecdsa_ParseRawPrivateKey = (\<lambda>_ _. Some (OpaqueSigner 0)),
   ed25519_NewKeyFromSeed = (\<lambda>s. s @ s)\<rparr>"

theorem cose_key_round_trip_witness:
  "\<exists>k k'. NewKeyFromSigner toyKeyCrypto toyFormats (OpaqueSigner 0) = Inr k \<and> KeySigner toyFormats k = Inr (OpaqueSigner 0)
    \<and> NewKeyFromPublic toyFormats (Ed25519Public (replicate 32 7)) = Inr k'
    \<and> KeyPublicKey toyFormats k' = Inr (Ed25519Public (replicate 32 7))"
proof -
  have laws: "key_format_laws toyKeyCrypto toyFormats"
    by (auto simp: key_format_laws_def toyKeyCrypto_def toyFormats_def curveKeySize_def split: if_splits)
  obtain k k' where k: "NewKeyFromSigner toyKeyCrypto toyFormats (OpaqueSigner 0) = Inr k"
    "NewKeyFromPublic toyFormats (Ed25519Public (replicate 32 7)) = Inr k'"
    by (simp add: NewKeyFromSigner_def NewKeyFromPublic_def toyKeyCrypto_def toyFormats_def goCurveToOse_def orElse_def
        Let_def)
  with cose_key_round_trip [OF laws, of "OpaqueSigner 0" k "Ed25519Public (replicate 32 7)" k']
  show ?thesis by (simp add: generated_def proper_public_def)
qed

end
