(* ===== verification/Aes_Ccm.thy ===== *)
theory Aes_Ccm
  imports Aes_Key_Wrap
begin

text \<open>
  AES-CCM (\<^verbatim>\<open>edhoc/internal/aesccm/ccm.go\<close>): counter mode with a CBC-MAC, over the block cipher that is a
  parameter. The two loops over blocks of 16 bytes are recursions on the rest of the message. The main lemma
  says that \<open>Open\<close> accepts exactly what \<open>Seal\<close> produces under the same key, nonce and associated data.
\<close>

section \<open>The mode\<close>

datatype ccm_error = CcmKeySize | ErrInvalidTagSize | ErrInvalidNonceSize | ErrOpen

record ccm =
  ccm_key :: bytes
  tagSize :: int
  nonceLen :: int

definition CcmNew :: "bytes \<Rightarrow> int \<Rightarrow> int \<Rightarrow> ccm_error + ccm" where
  "CcmNew key tag nonce =
     (if \<not> NewCipherOk key then Inl CcmKeySize
      else if tag < 4 \<or> tag > 16 \<or> tag mod 2 \<noteq> 0 then Inl ErrInvalidTagSize
      else if nonce < 7 \<or> nonce > 13 then Inl ErrInvalidNonceSize
      else Inr \<lparr>ccm_key = key, tagSize = tag, nonceLen = nonce\<rparr>)"

definition NonceSize :: "ccm \<Rightarrow> int" where "NonceSize c = nonceLen c"
definition Overhead :: "ccm \<Rightarrow> int" where "Overhead c = tagSize c"

text \<open>The size of the length field.\<close>

definition ccm_q :: "ccm \<Rightarrow> nat" where
  "ccm_q c = nat (15 - nonceLen c)"

definition maxMessageLen :: "ccm \<Rightarrow> int" where
  "maxMessageLen c = (if ccm_q c \<ge> 8 then 2 ^ 64 - 1 else 2 ^ (8 * ccm_q c) - 1)"

definition ccm_encrypt :: "BlockCipher \<Rightarrow> ccm \<Rightarrow> bytes \<Rightarrow> bytes" where
  "ccm_encrypt bc c b = BlockEncrypt bc (ccm_key c) b"

text \<open>\<open>copy(block[:], b)\<close> into a block of zeros.\<close>

definition pad16 :: "bytes \<Rightarrow> bytes" where
  "pad16 b = take 16 b @ replicate (16 - length b) 0"

definition macStep :: "BlockCipher \<Rightarrow> ccm \<Rightarrow> bytes \<Rightarrow> bytes \<Rightarrow> bytes" where
  "macStep bc c mac block = ccm_encrypt bc c (xorBytes mac block)"

function cbcPlaintext :: "BlockCipher \<Rightarrow> ccm \<Rightarrow> bytes \<Rightarrow> bytes \<Rightarrow> bytes" where
  "cbcPlaintext bc c mac b =
     (if b = [] then mac else cbcPlaintext bc c (macStep bc c mac (pad16 b)) (drop 16 b))"
  by pat_completeness auto
termination by (relation "measure (\<lambda>(bc, c, mac, b). length b)") auto

declare cbcPlaintext.simps [simp del]

text \<open>The length prefix of the associated data.\<close>

definition aadPrefix :: "nat \<Rightarrow> bytes" where
  "aadPrefix n =
     (if n < 2 ^ 16 - 2 ^ 8 then be_bytes 2 n
      else if n < 2 ^ 32 then [0xff, 0xfe] @ be_bytes 4 n
      else [0xff, 0xff] @ be_bytes 8 n)"

text \<open>\<open>cbcAAD\<close>: the first block holds the prefix and as much of the data as fits; the loop over the rest is the one
  of \<open>cbcPlaintext\<close>.\<close>

definition cbcAAD :: "BlockCipher \<Rightarrow> ccm \<Rightarrow> bytes \<Rightarrow> bytes \<Rightarrow> bytes" where
  "cbcAAD bc c mac aad =
     (let lenBuf = aadPrefix (length aad);
          rest = 16 - length lenBuf;
          mac' = macStep bc c mac (pad16 (lenBuf @ take rest aad)) in
      if rest < length aad then cbcPlaintext bc c mac' (drop rest aad) else mac')"

definition computeTag :: "BlockCipher \<Rightarrow> ccm \<Rightarrow> bytes \<Rightarrow> bytes \<Rightarrow> bytes \<Rightarrow> bytes" where
  "computeTag bc c nonce plaintext aad =
     (let q = ccm_q c;
          flags = (of_nat (q - 1) OR push_bit 3 (word_of_int ((tagSize c - 2) div 2)))
                  OR (if length aad > 0 then push_bit 6 1 else 0 :: byte);
          b = flags # nonce @ be_bytes q (length plaintext);
          mac = ccm_encrypt bc c b;
          mac = (if length aad > 0 then cbcAAD bc c mac aad else mac) in
      cbcPlaintext bc c mac plaintext)"

text \<open>The key stream block of a counter, and the loop of \<open>ctr\<close> from block \<open>i\<close> on. The counter is a \<open>uint32\<close>.\<close>

definition ctrBlock :: "BlockCipher \<Rightarrow> ccm \<Rightarrow> bytes \<Rightarrow> u32 \<Rightarrow> bytes" where
  "ctrBlock bc c nonce counter =
     ccm_encrypt bc c (of_nat (ccm_q c - 1) # nonce @ be_bytes (ccm_q c) (unat counter))"

function ctrLoop :: "BlockCipher \<Rightarrow> ccm \<Rightarrow> bytes \<Rightarrow> nat \<Rightarrow> bytes \<Rightarrow> bytes" where
  "ctrLoop bc c nonce i src =
     (if src = [] then []
      else xorBytes (take 16 src) (ctrBlock bc c nonce (of_nat i + 1)) @ ctrLoop bc c nonce (Suc i) (drop 16 src))"
  by pat_completeness auto
termination by (relation "measure (\<lambda>(bc, c, nonce, i, src). length src)") auto

declare ctrLoop.simps [simp del]

definition ctr :: "BlockCipher \<Rightarrow> ccm \<Rightarrow> bytes \<Rightarrow> bytes \<Rightarrow> bytes" where
  "ctr bc c nonce src = ctrLoop bc c nonce 0 src"

text \<open>\<open>Seal\<close>; \<open>None\<close> is one of its two panics. The destination does not overlap the plaintext.\<close>

definition Seal :: "BlockCipher \<Rightarrow> ccm \<Rightarrow> bytes \<Rightarrow> bytes \<Rightarrow> bytes \<Rightarrow> bytes \<Rightarrow> bytes option" where
  "Seal bc c dst nonce plaintext aad =
     (if int (length nonce) \<noteq> nonceLen c then None
      else if int (length plaintext) > maxMessageLen c then None
      else
        let tag = computeTag bc c nonce plaintext aad; tagBlock = ctrBlock bc c nonce 0 in
        Some (dst @ ctr bc c nonce plaintext @ take (nat (tagSize c)) (xorBytes tag tagBlock)))"

definition Open :: "BlockCipher \<Rightarrow> ccm \<Rightarrow> bytes \<Rightarrow> bytes \<Rightarrow> bytes \<Rightarrow> bytes \<Rightarrow> ccm_error + bytes" where
  "Open bc c dst nonce ciphertext aad =
     (if int (length nonce) \<noteq> nonceLen c then Inl ErrOpen
      else if int (length ciphertext) < tagSize c then Inl ErrOpen
      else
        let msgLen = length ciphertext - nat (tagSize c) in
        if int msgLen > maxMessageLen c then Inl ErrOpen
        else
          let tagBlock = ctrBlock bc c nonce 0;
              decTag = xorBytes (drop msgLen ciphertext) (take (nat (tagSize c)) tagBlock);
              plaintext = ctr bc c nonce (take msgLen ciphertext);
              expectedTag = computeTag bc c nonce plaintext aad in
          if decTag \<noteq> take (nat (tagSize c)) expectedTag then Inl ErrOpen else Inr (dst @ plaintext))"

section \<open>Opening undoes sealing\<close>

text \<open>What is needed of the block cipher: blocks have 16 bytes.\<close>

definition encrypts_blocks :: "BlockCipher \<Rightarrow> bool" where
  "encrypts_blocks bc \<longleftrightarrow> (\<forall>k b. length b = 16 \<longrightarrow> length (BlockEncrypt bc k b) = 16)"

definition ccm_ok :: "ccm \<Rightarrow> bool" where
  "ccm_ok c \<longleftrightarrow> NewCipherOk (ccm_key c) \<and> 4 \<le> tagSize c \<and> tagSize c \<le> 16 \<and> 7 \<le> nonceLen c \<and> nonceLen c \<le> 13"

lemma New_ok: "CcmNew key tag nonce = Inr c \<Longrightarrow> ccm_ok c \<and> nonceLen c = nonce \<and> tagSize c = tag \<and> ccm_key c = key"
  by (auto simp: CcmNew_def ccm_ok_def split: if_splits)

lemma length_pad16 [simp]: "length (pad16 b) = 16"
  by (simp add: pad16_def)

lemma length_macStep: "encrypts_blocks bc \<Longrightarrow> length mac = 16 \<Longrightarrow> length (macStep bc c mac (pad16 b)) = 16"
  by (simp add: macStep_def ccm_encrypt_def encrypts_blocks_def)

lemma length_cbcPlaintext: "encrypts_blocks bc \<Longrightarrow> length mac = 16 \<Longrightarrow> length (cbcPlaintext bc c mac b) = 16"
  by (induction bc c mac b rule: cbcPlaintext.induct) (simp add: cbcPlaintext.simps length_macStep)

lemma length_ctrBlock:
  "encrypts_blocks bc \<Longrightarrow> ccm_ok c \<Longrightarrow> int (length nonce) = nonceLen c \<Longrightarrow> length (ctrBlock bc c nonce i) = 16"
  by (auto simp: ctrBlock_def ccm_encrypt_def ccm_ok_def ccm_q_def encrypts_blocks_def)

lemma length_computeTag:
  "encrypts_blocks bc \<Longrightarrow> ccm_ok c \<Longrightarrow> int (length nonce) = nonceLen c \<Longrightarrow> length (computeTag bc c nonce p aad) = 16"
  by (auto simp: computeTag_def Let_def cbcAAD_def ccm_encrypt_def ccm_ok_def ccm_q_def encrypts_blocks_def
      intro!: length_cbcPlaintext length_macStep)

lemma xorBytes_again: "length a \<le> length k \<Longrightarrow> xorBytes (xorBytes a k) k = a"
proof (induction a arbitrary: k)
  case (Cons x a)
  then show ?case by (cases k) (simp_all add: xorBytes_def xor.assoc)
qed (simp add: xorBytes_def)

lemma ctrLoop_twice:
  assumes "encrypts_blocks bc" and "ccm_ok c" and "int (length nonce) = nonceLen c"
  shows "length (ctrLoop bc c nonce i src) = length src \<and> ctrLoop bc c nonce i (ctrLoop bc c nonce i src) = src"
proof (induction "length src" arbitrary: i src rule: less_induct)
  case less
  let ?k = "ctrBlock bc c nonce (of_nat i + 1)"
  let ?x = "xorBytes (take 16 src) ?k"
  have k: "length ?k = 16" by (rule length_ctrBlock [OF assms])
  show ?case
  proof (cases "src = []")
    case True
    then show ?thesis by (simp add: ctrLoop.simps)
  next
    case False
    define rest where "rest = ctrLoop bc c nonce (Suc i) (drop 16 src)"
    from less [of "drop 16 src" "Suc i"] False have IH: "length rest = length src - 16"
      "ctrLoop bc c nonce (Suc i) rest = drop 16 src" by (simp_all add: rest_def)
    have loop: "ctrLoop bc c nonce i src = ?x @ rest" using False by (subst ctrLoop.simps) (simp add: rest_def)
    have parts: "take 16 (?x @ rest) = ?x" "drop 16 (?x @ rest) = rest"
      using k IH(1) by (cases "length src \<le> 16"; simp)+
    have "xorBytes ?x ?k = take 16 src" using k by (intro xorBytes_again) simp
    moreover have "length ?x \<noteq> 0" using False k by simp
    then have "?x \<noteq> []" by (metis list.size(3))
    ultimately have "ctrLoop bc c nonce i (?x @ rest) = src"
      using IH(2) by (subst ctrLoop.simps) (simp add: parts del: take_append drop_append)
    then show ?thesis using IH(1) k unfolding loop by simp
  qed
qed

lemmas length_ctr = ctrLoop_twice [of _ _ _ 0, THEN conjunct1, folded ctr_def]
  and ctr_twice = ctrLoop_twice [of _ _ _ 0, THEN conjunct2, folded ctr_def]

text \<open>The two uses of the tag's key stream cancel on the bytes the tag keeps.\<close>

lemma tag_unmasked:
  "n \<le> length t \<Longrightarrow> n \<le> length k \<Longrightarrow> xorBytes (take n (xorBytes t k)) (take n k) = take n t"
  using xorBytes_again [of "take n t" "take n k"] by (simp add: xorBytes_def take_map take_zip)

lemma tag_masked:
  assumes "xorBytes d (take n k) = take n t" and "length d = n" and "n \<le> length k"
  shows "take n (xorBytes t k) = d"
proof -
  have "take n (xorBytes t k) = xorBytes (take n t) (take n k)" by (simp add: xorBytes_def take_map take_zip)
  also have "\<dots> = d" using assms xorBytes_again [of d "take n k"] by simp
  finally show ?thesis .
qed

lemma Open_Seal:
  assumes "encrypts_blocks bc" and "ccm_ok c" and "Seal bc c [] nonce pt aad = Some ct"
  shows "Open bc c [] nonce ct aad = Inr pt"
proof -
  have n: "int (length nonce) = nonceLen c" and m: "int (length pt) \<le> maxMessageLen c"
    and ct: "ct = ctr bc c nonce pt @ take (nat (tagSize c)) (xorBytes (computeTag bc c nonce pt aad) (ctrBlock bc c nonce 0))"
    using assms(3) by (auto simp: Seal_def Let_def split: if_splits)
  note laws = assms(1,2) n
  have t: "nat (tagSize c) \<le> 16" "0 \<le> tagSize c" using assms(2) by (auto simp: ccm_ok_def)
  have "length ct = length pt + nat (tagSize c)"
    using t by (simp add: ct length_ctr [OF laws] length_computeTag [OF laws] length_ctrBlock [OF laws])
  then show ?thesis
    using n m t
    by (simp add: Open_def ct length_ctr [OF laws] ctr_twice [OF laws] tag_unmasked
        length_computeTag [OF laws] length_ctrBlock [OF laws])
qed

lemma Seal_Open:
  assumes "encrypts_blocks bc" and "ccm_ok c" and "Open bc c [] nonce ct aad = Inr pt"
  shows "Seal bc c [] nonce pt aad = Some ct"
proof -
  let ?n = "length ct - nat (tagSize c)"
  have n: "int (length nonce) = nonceLen c" and l: "tagSize c \<le> int (length ct)" and m: "int ?n \<le> maxMessageLen c"
    and pt: "pt = ctr bc c nonce (take ?n ct)"
    and tag: "xorBytes (drop ?n ct) (take (nat (tagSize c)) (ctrBlock bc c nonce 0))
      = take (nat (tagSize c)) (computeTag bc c nonce pt aad)"
    using assms(3) by (auto simp: Open_def Let_def split: if_splits)
  note laws = assms(1,2) n
  have t: "nat (tagSize c) \<le> 16" "0 \<le> tagSize c" using assms(2) by (auto simp: ccm_ok_def)
  have "length pt = ?n" by (simp add: pt length_ctr [OF laws])
  moreover have "ctr bc c nonce pt = take ?n ct" by (simp add: pt ctr_twice [OF laws])
  moreover have "take (nat (tagSize c)) (xorBytes (computeTag bc c nonce pt aad) (ctrBlock bc c nonce 0)) = drop ?n ct"
    using tag t l by (intro tag_masked) (auto simp: length_ctrBlock [OF laws])
  ultimately show ?thesis using n m by (simp add: Seal_def Let_def)
qed

text \<open>C?: AES-CCM is a bijection onto what it accepts: under a configuration that \<open>New\<close> accepts, with a block
  cipher of 16-byte blocks, \<open>Open\<close> answers a plaintext exactly if \<open>Seal\<close> of that plaintext under the same nonce
  and associated data does not panic and gives this ciphertext. So every other string is refused, and the two
  never disagree on a length, on the padding of the last block or on the counter.\<close>

theorem ccm_opens_what_it_seals:
  assumes "CcmNew key tag n = Inr c" and "encrypts_blocks bc"
  shows "(Open bc c [] nonce ct aad = Inr pt) = (Seal bc c [] nonce pt aad = Some ct)"
  using Open_Seal [OF assms(2)] Seal_Open [OF assms(2)] New_ok [OF assms(1)] by blast

theorem ccm_opens_what_it_seals_witness:
  "\<exists>c ct. CcmNew (replicate 16 1) 8 13 = Inr c \<and> Seal toyCipher c [] (replicate 13 7) [1, 2, 3] [9] = Some ct
    \<and> length ct = 11 \<and> Open toyCipher c [] (replicate 13 7) ct [9] = Inr [1, 2, 3]"
proof -
  define c where "c = \<lparr>ccm_key = replicate 16 1, tagSize = 8, nonceLen = 13\<rparr>"
  have laws: "CcmNew (replicate 16 1) 8 13 = Inr c" by (simp add: CcmNew_def NewCipherOk_def c_def)
  have blocks: "encrypts_blocks toyCipher" by (simp add: encrypts_blocks_def toyCipher_def)
  obtain ct where ct: "Seal toyCipher c [] (replicate 13 7) [1, 2, 3] [9] = Some ct" and l: "length ct = 11"
    using length_ctr [OF blocks _ _, of c "replicate 13 7" "[1, 2, 3]"] New_ok [OF laws]
      length_computeTag [OF blocks _ _, of c "replicate 13 7" "[1, 2, 3]" "[9]"]
      length_ctrBlock [OF blocks _ _, of c "replicate 13 7" 0]
    by (simp add: Seal_def Let_def c_def maxMessageLen_def ccm_q_def)
  with ccm_opens_what_it_seals [OF laws blocks, of "replicate 13 7" ct "[9]" "[1, 2, 3]"] laws show ?thesis by auto
qed

end
