(* ===== verification/Go_Time.thy ===== *)
theory Go_Time
  imports Cose_Key
begin

text \<open>
  What the token packages use of Go's \<^verbatim>\<open>time\<close> and of its floating-point arithmetic: a \<open>time.Time\<close> without a
  monotonic reading, the numeric dates of \<^verbatim>\<open>cwt/claims.go\<close> and \<^verbatim>\<open>eat/claims.go\<close>, and the arithmetic on
  \<open>float64\<close> bit patterns that they need, rounded to nearest even. What a conversion of a float to an \<open>int64\<close>
  gives when the value does not fit depends on the processor: it is the parameter \<open>f2i\<close>.
\<close>

section \<open>Points in time\<close>

text \<open>Seconds since January 1 of the year 1, in an \<open>int64\<close>, and nanoseconds.\<close>

record Time =
  t_sec :: i64
  t_nsec :: int

definition zeroTime :: Time where "zeroTime = \<lparr>t_sec = 0, t_nsec = 0\<rparr>"

definition Time_IsZero :: "Time \<Rightarrow> bool" where "Time_IsZero t \<longleftrightarrow> t_sec t = 0 \<and> t_nsec t = 0"

definition unixToInternal :: i64 where "unixToInternal = 62135596800"

definition Time_Unix :: "Time \<Rightarrow> i64" where "Time_Unix t = t_sec t - unixToInternal"

definition goQuot :: "int \<Rightarrow> int \<Rightarrow> int" where "goQuot a b = sgn a * (\<bar>a\<bar> div b)"

definition time_Unix :: "i64 \<Rightarrow> i64 \<Rightarrow> Time" where
  "time_Unix sec nsec =
     (let n = goQuot (sint nsec) (10 ^ 9); r = sint nsec - n * 10 ^ 9; s = sec + of_int n in
      if r < 0 then \<lparr>t_sec = s - 1 + unixToInternal, t_nsec = r + 10 ^ 9\<rparr>
      else \<lparr>t_sec = s + unixToInternal, t_nsec = r\<rparr>)"

definition Time_After :: "Time \<Rightarrow> Time \<Rightarrow> bool" where
  "Time_After t u \<longleftrightarrow> sint (t_sec t) > sint (t_sec u) \<or> t_sec t = t_sec u \<and> t_nsec t > t_nsec u"

definition Time_Before :: "Time \<Rightarrow> Time \<Rightarrow> bool" where
  "Time_Before t u \<longleftrightarrow> sint (t_sec t) < sint (t_sec u) \<or> t_sec t = t_sec u \<and> t_nsec t < t_nsec u"

text \<open>Adding seconds saturates.\<close>

definition addSec :: "i64 \<Rightarrow> i64 \<Rightarrow> i64" where
  "addSec ext d =
     (let sum = ext + d in
      if (sint sum > sint ext) = (sint d > 0) then sum
      else if sint d > 0 then of_int (2 ^ 63 - 1) else of_int (- (2 ^ 63 - 1)))"

definition Time_Add :: "Time \<Rightarrow> i64 \<Rightarrow> Time" where
  "Time_Add t d =
     (let dsec = goQuot (sint d) (10 ^ 9); nsec = t_nsec t + (sint d - dsec * 10 ^ 9) in
      if nsec \<ge> 10 ^ 9 then \<lparr>t_sec = addSec (t_sec t) (of_int (dsec + 1)), t_nsec = nsec - 10 ^ 9\<rparr>
      else if nsec < 0 then \<lparr>t_sec = addSec (t_sec t) (of_int (dsec - 1)), t_nsec = nsec + 10 ^ 9\<rparr>
      else \<lparr>t_sec = addSec (t_sec t) (of_int dsec), t_nsec = nsec\<rparr>)"

section \<open>Arithmetic on doubles\<close>

definition f64_round :: "nat \<Rightarrow> nat \<Rightarrow> int \<Rightarrow> u64" where
  "f64_round s M e = of_nat (s * 2 ^ 63 + round_mag 52 (- 1074) 2047 M e)"

definition sign_of :: "int \<Rightarrow> nat" where "sign_of n = (if n < 0 then 1 else 0)"

definition float64_of_int :: "int \<Rightarrow> u64" where "float64_of_int n = f64_round (sign_of n) (nat \<bar>n\<bar>) 0"

text \<open>\<open>float64(n)/1e9\<close> for \<open>n < 10 ^ 9\<close>: the quotient to 100 binary places, with a bit for the rest, has more digits
  than the rounding looks at.\<close>

definition f64_div_giga :: "nat \<Rightarrow> u64" where
  "f64_div_giga n =
     (let q = n * 2 ^ 100 div 10 ^ 9; r = n * 2 ^ 100 mod 10 ^ 9 in
      f64_round 0 (2 * q + (if r = 0 then 0 else 1)) (- 101))"

text \<open>The sum of two finite doubles.\<close>

definition f64_add :: "u64 \<Rightarrow> u64 \<Rightarrow> u64" where
  "f64_add a b =
     (let e = min (f64_pow a) (f64_pow b);
          part = (\<lambda>x. (- 1) ^ f64_sign x * int (f64_sig x) * 2 ^ nat (f64_pow x - e));
          s = part a + part b in
      if s = 0 then f64_round (min (f64_sign a) (f64_sign b)) 0 0
      else f64_round (sign_of s) (nat \<bar>s\<bar>) e)"

text \<open>\<open>math.Modf\<close>: the integral and the fractional part.\<close>

definition f64_trunc :: "u64 \<Rightarrow> nat" where
  "f64_trunc b = (if f64_pow b \<ge> 0 then f64_sig b * 2 ^ nat (f64_pow b) else f64_sig b div 2 ^ nat (- f64_pow b))"

definition f64_frac :: "u64 \<Rightarrow> nat" where
  "f64_frac b = (if f64_pow b \<ge> 0 then 0 else f64_sig b mod 2 ^ nat (- f64_pow b))"

definition f64_NaN :: u64 where "f64_NaN = 0x7FF8000000000001"

definition math_Modf :: "u64 \<Rightarrow> u64 \<times> u64" where
  "math_Modf b =
     (if f64_exp b = 2047 then (b, if f64_man b = 0 then f64_NaN else b)
      else (f64_round (f64_sign b) (f64_trunc b) 0, f64_round (f64_sign b) (f64_frac b) (f64_pow b)))"

definition f64_mul_giga :: "u64 \<Rightarrow> u64" where
  "f64_mul_giga b = (if f64_exp b = 2047 then b else f64_round (f64_sign b) (f64_sig b * 10 ^ 9) (f64_pow b))"

definition int64_of_float :: "(u64 \<Rightarrow> i64) \<Rightarrow> u64 \<Rightarrow> i64" where
  "int64_of_float f2i b =
     (let n = (- 1) ^ f64_sign b * int (f64_trunc b) in
      if f64_exp b = 2047 \<or> n < - (2 ^ 63) \<or> n \<ge> 2 ^ 63 then f2i b else of_int n)"

section \<open>Numeric dates\<close>

definition numericDate :: "Time \<Rightarrow> Value" where
  "numericDate t =
     (let sec = Time_Unix t; nsec = t_nsec t in
      if nsec = 0 then (if sint sec \<ge> 0 then Uint sec else NegInt (- 1 - sec))
      else Float64 (f64_add (float64_of_int (sint sec)) (f64_div_giga (nat nsec))))"

definition unixOfFloat :: "(u64 \<Rightarrow> i64) \<Rightarrow> u64 \<Rightarrow> Time" where
  "unixOfFloat f2i f =
     (case math_Modf f of (sec, fr) \<Rightarrow>
        time_Unix (int64_of_float f2i sec) (int64_of_float f2i (f64_mul_giga fr)))"

text \<open>\<open>None\<close> is the error.\<close>

definition parseNumericDate :: "(u64 \<Rightarrow> i64) \<Rightarrow> Value \<Rightarrow> Time option" where
  "parseNumericDate f2i v = (case Kind v of
      KindUint \<Rightarrow> Some (time_Unix (UintVal v) 0)
    | KindNegInt \<Rightarrow> Some (time_Unix (- 1 - NegIntVal v) 0)
    | KindFloat64 \<Rightarrow> Some (unixOfFloat f2i (Float64Val v))
    | KindFloat32 \<Rightarrow> Some (unixOfFloat f2i (f32_to_f64 (Float32Val v)))
    | _ \<Rightarrow> None)"

text \<open>A time of whole seconds is its date, whatever the seconds; the other way round a date is read modulo \<open>2 ^ 64\<close>.\<close>

lemma time_Unix_seconds: "time_Unix sec 0 = \<lparr>t_sec = sec + unixToInternal, t_nsec = 0\<rparr>"
  by (simp add: time_Unix_def goQuot_def)

lemma numericDate_round_trip:
  "t_nsec t = 0 \<Longrightarrow> parseNumericDate f2i (numericDate t) = Some t"
  by (simp add: numericDate_def parseNumericDate_def Let_def Time_Unix_def time_Unix_seconds val_defs)

lemma numericDate_transports: "t_nsec t = 0 \<Longrightarrow> transports d (numericDate t) (numericDate t)"
  by (simp add: numericDate_def Let_def transports_leaf)

section \<open>Times as integers\<close>

definition instant :: "Time \<Rightarrow> int" where
  "instant t = sint (t_sec t) * 10 ^ 9 + t_nsec t"

definition valid_time :: "Time \<Rightarrow> bool" where
  "valid_time t \<longleftrightarrow> 0 \<le> t_nsec t \<and> t_nsec t < 10 ^ 9"

text \<open>Seconds whose sum with any duration fits an \<open>int64\<close>.\<close>

definition moderate :: "Time \<Rightarrow> bool" where
  "moderate t \<longleftrightarrow> valid_time t \<and> \<bar>sint (t_sec t)\<bar> < 2 ^ 62"

lemma nsec_decompose:
  "0 \<le> n \<Longrightarrow> n < 10 ^ 9 \<Longrightarrow> 0 \<le> m \<Longrightarrow> m < 10 ^ 9 \<Longrightarrow>
    s * 10 ^ 9 + n < t * 10 ^ 9 + m \<longleftrightarrow> s < t \<or> s = t \<and> n < (m :: int)"
  by auto

lemma Before_instant: "valid_time t \<Longrightarrow> valid_time u \<Longrightarrow> Time_Before t u \<longleftrightarrow> instant t < instant u"
  unfolding instant_def valid_time_def Time_Before_def
  by (subst nsec_decompose) (auto intro: signed_word_eqI)

lemma After_instant: "valid_time t \<Longrightarrow> valid_time u \<Longrightarrow> Time_After t u \<longleftrightarrow> instant u < instant t"
  unfolding instant_def valid_time_def Time_After_def
  by (subst nsec_decompose) (auto dest: signed_word_eqI)

lemma sint_range64: "- (2 ^ 63) \<le> sint (x :: i64)" "sint (x :: i64) < 2 ^ 63"
  using sint_range_size [of x] by (simp_all add: word_size)

lemma sint_of_int64: "- (2 ^ 63) \<le> n \<Longrightarrow> n < 2 ^ 63 \<Longrightarrow> sint (of_int n :: i64) = n"
  by (simp add: signed_of_int signed_take_bit_int_eq_self)

lemma addSec_exact:
  assumes "\<bar>sint x\<bar> < 2 ^ 62" and "\<bar>sint d\<bar> < 2 ^ 62"
  shows "sint (addSec x d) = sint x + sint d"
proof -
  have "x + d = of_int (sint x + sint d)" by simp
  then have "sint (x + d) = sint x + sint d"
    using assms sint_of_int64 [of "sint x + sint d"] by (simp only:) auto
  then show ?thesis by (auto simp: addSec_def Let_def)
qed

lemma goQuot_bounds:
  assumes "\<bar>d\<bar> \<le> (2 :: int) ^ 63"
  shows "\<bar>goQuot d (10 ^ 9)\<bar> < 2 ^ 40" and "\<bar>d - goQuot d (10 ^ 9) * 10 ^ 9\<bar> < 10 ^ 9"
proof -
  have q: "\<bar>d\<bar> = (\<bar>d\<bar> div 10 ^ 9) * 10 ^ 9 + \<bar>d\<bar> mod 10 ^ 9" by simp
  have r: "0 \<le> \<bar>d\<bar> mod 10 ^ 9" "\<bar>d\<bar> mod 10 ^ 9 < (10 :: int) ^ 9" by simp_all
  have "0 \<le> \<bar>d\<bar> div 10 ^ 9" by simp
  moreover have "\<bar>d\<bar> div 10 ^ 9 < 2 ^ 40" using assms by simp
  ultimately show "\<bar>goQuot d (10 ^ 9)\<bar> < 2 ^ 40" by (auto simp: goQuot_def sgn_if abs_if split: if_splits)
  show "\<bar>d - goQuot d (10 ^ 9) * 10 ^ 9\<bar> < 10 ^ 9"
    using q r by (cases "d < 0"; cases "d = 0") (auto simp: goQuot_def)
qed

lemma Time_Add_instant:
  assumes "moderate t"
  shows "valid_time (Time_Add t d) \<and> instant (Time_Add t d) = instant t + sint d"
proof -
  define q where "q = goQuot (sint d) (10 ^ 9)"
  define r where "r = sint d - q * 10 ^ 9"
  have "\<bar>sint d\<bar> \<le> 2 ^ 63" using sint_range64 [of d] by auto
  note b = goQuot_bounds [OF this, folded q_def, folded r_def]
  have t: "0 \<le> t_nsec t" "t_nsec t < 10 ^ 9" "\<bar>sint (t_sec t)\<bar> < 2 ^ 62"
    using assms by (simp_all add: moderate_def valid_time_def)
  have add: "sint (addSec (t_sec t) (of_int k)) = sint (t_sec t) + k" if "\<bar>k\<bar> \<le> 2 ^ 40" for k
    using addSec_exact [OF t(3), of "of_int k"] sint_of_int64 [of k] that by simp
  have d: "sint d = q * 10 ^ 9 + r" by (simp add: r_def)
  have ks: "\<bar>q + 1\<bar> \<le> 2 ^ 40" "\<bar>q - 1\<bar> \<le> 2 ^ 40" "\<bar>q\<bar> \<le> 2 ^ 40" using b(1) by auto
  show ?thesis
    unfolding Time_Add_def Let_def q_def [symmetric] r_def [symmetric]
    using t b(2) add [OF ks(1)] add [OF ks(2)] add [OF ks(3)]
    by (auto simp: instant_def valid_time_def d algebra_simps)
qed

end
