(* ===== verification/Token_Maps.thy ===== *)
theory Token_Maps
  imports Go_Time
begin

text \<open>
  What CWT and EAT share: claims are the entries of a map, written by appending an entry per claim that is
  present and read by a loop over the entries of the decoded map that stops at the first error. The locale
  \<open>claim_map\<close> says what such a pair of functions has to promise, entry by entry; from it follows that the
  claims come back whatever the order in which the encoder sorts them.
\<close>

section \<open>The reading loop\<close>

fun eachEntry :: "('a \<Rightarrow> 's \<Rightarrow> 'e + 's) \<Rightarrow> 'a list \<Rightarrow> 's \<Rightarrow> 'e + 's" where
  "eachEntry step [] s = Inr s"
| "eachEntry step (e # es) s = (case step e s of Inl er \<Rightarrow> Inl er | Inr s' \<Rightarrow> eachEntry step es s')"

lemma eachEntry_fold:
  "(\<And>c s. c \<in> set cs \<Longrightarrow> step (f c) s = Inr (app c s)) \<Longrightarrow> eachEntry step (map f cs) s = Inr (fold app cs s)"
  by (induction cs arbitrary: s) auto

section \<open>Maps that survive the wire\<close>

definition plain_key :: "Value \<Rightarrow> bool" where
  "plain_key v \<longleftrightarrow> (\<exists>n. v = Uint n \<or> v = NegInt n) \<or> (\<exists>t. v = Text t \<and> utf8_Valid t \<and> length t \<le> 2 ^ 24)
     \<or> (\<exists>b. v = Bytes b \<and> length b \<le> 2 ^ 24) \<or> (\<exists>b. v = Bool b)"

lemma plain_keys:
  "plain_key (Uint n)" "plain_key (NegInt n)" "utf8_Valid t \<Longrightarrow> length t \<le> 2 ^ 24 \<Longrightarrow> plain_key (Text t)"
  "length b \<le> 2 ^ 24 \<Longrightarrow> plain_key (Bytes b)" "plain_key (Bool c)"
  by (auto simp: plain_key_def)

lemma plain_key_transports: "plain_key v \<Longrightarrow> transports d v v"
  by (auto simp: plain_key_def transports_leaf)

lemma valuesEqual_key: "plain_key v \<Longrightarrow> plain_key w \<Longrightarrow> valuesEqual v w \<longleftrightarrow> v = w"
  unfolding plain_key_def by (elim disjE exE conjE) (simp_all add: valuesEqual_def val_defs)

lemma mset_entryOrder: "mset (entryOrder opts ps) = mset ps"
  by (simp add: entryOrder_def)

lemma distinct_plain_keys:
  "\<forall>p \<in> set ps. plain_key (fst p) \<Longrightarrow> distinct (map fst ps) \<Longrightarrow> distinct_keys (map (\<lambda>p. (fst p, f p)) ps)"
proof (induction ps)
  case (Cons p ps)
  then show ?case by (force simp: valuesEqual_key)
qed simp

lemma transports_entries:
  assumes keys: "\<forall>p \<in> set ps. plain_key (fst p)" "distinct (map fst ps)"
    and vals: "\<forall>p \<in> set ps. transports (d + 1) (snd p) (canon detOpts (snd p))"
    and "length ps \<le> 2 ^ 20" and "d < 256"
  shows "transports d (MakeMap ps) (MakeMap (map (\<lambda>p. (fst p, canon detOpts (snd p))) (entryOrder detOpts ps)))"
proof -
  let ?qs = "entryOrder detOpts ps" and ?c = "\<lambda>p. (fst p, canon detOpts (snd p))"
  have m: "mset ?qs = mset ps" by (rule mset_entryOrder)
  have sq: "set ?qs = set ps" and lq: "length ?qs = length ps" using m by (metis set_mset_mset, metis size_mset)
  have dq: "distinct (map fst ?qs)"
    using keys(2) mset_eq_imp_distinct_iff [of "map fst ?qs" "map fst ps"] m by simp
  have key: "transports e (fst p) (fst p)" if "p \<in> set ps" for p e
    using keys(1) that plain_key_transports by blast
  have "canon detOpts (MakeMap ps) = MakeMap (map (\<lambda>p. (canon detOpts (fst p), canon detOpts (snd p))) ?qs)"
    by (simp add: MakeMap_def canon.simps [of detOpts "Value KindMap n [] [] [] ps" for n ps])
  also have "map (\<lambda>p. (canon detOpts (fst p), canon detOpts (snd p))) ?qs = map ?c ?qs"
    using key [of _ 0] sq by (intro map_cong) (auto simp: transports_def)
  finally have c: "canon detOpts (MakeMap ps) = MakeMap (map ?c ?qs)" .
  have "snd (encode detOpts [] (MakeMap ps)) = None"
    using encodeMap_total [of ps detOpts "[]"] key [of _ 0] vals
    by (auto simp: transports_def MakeMap_def encode.simps [of detOpts "[]" "Value KindMap n [] [] [] ps" for n ps])
  moreover have "accepted DefaultOpts d (MakeMap (map ?c ?qs))"
    using key [of _ "d + 1"] vals assms(4,5) sq lq
    by (intro w_map) (auto simp: transports_def DefaultOpts_def maxArray_def maxNesting_def)
  moreover have "distinct_maps (MakeMap (map ?c ?qs))"
    using key [of _ 0] vals distinct_plain_keys [OF _ dq, of "\<lambda>p. canon detOpts (snd p)"] keys(1) sq
    by (auto simp: MakeMap_def transports_def)
  ultimately show ?thesis using c by (simp add: transports_def)
qed

text \<open>A list of entries that is in the order of the encoded keys stays as it is.\<close>

lemma SortFunc_sorted_id: "sorted_wrt (\<lambda>a b. cmp a b \<le> 0) xs \<Longrightarrow> SortFunc cmp xs = xs"
  unfolding SortFunc_def
proof (induction xs)
  case (Cons x xs)
  then show ?case by (cases xs) auto
qed simp

lemma map_permuted: "mset ys = mset (map f xs) \<Longrightarrow> \<exists>zs. mset zs = mset xs \<and> ys = map f zs"
proof (induction ys arbitrary: xs)
  case (Cons y ys)
  then have "y \<in> set (map f xs)" by (metis list.set_intros(1) set_mset_mset)
  then obtain a x b where x: "xs = a @ x # b" "y = f x" by (auto dest: split_list)
  with Cons.prems have "mset ys = mset (map f (a @ b))" by simp
  with Cons.IH obtain zs where "mset zs = mset (a @ b)" "ys = map f zs" by blast
  with x show ?case by (intro exI [of _ "x # zs"]) simp
qed simp

section \<open>Claims\<close>

text \<open>\<open>entry\<close> writes a claim, \<open>step\<close> reads an entry into the state, and \<open>app\<close> is what the claim means for the
  state. Values are read in the form that the encoder gives them; \<open>room\<close> is the nesting depth that is left
  for them.\<close>

locale claim_map =
  fixes good :: "'c \<Rightarrow> bool" and entry :: "'c \<Rightarrow> MapEntry" and step :: "MapEntry \<Rightarrow> 's \<Rightarrow> 'e + 's"
    and app :: "'c \<Rightarrow> 's \<Rightarrow> 's" and room :: nat
  assumes key: "good c \<Longrightarrow> plain_key (fst (entry c))"
    and val: "good c \<Longrightarrow> d < room \<Longrightarrow> transports d (snd (entry c)) (canon detOpts (snd (entry c)))"
    and reads: "good c \<Longrightarrow> step (fst (entry c), canon detOpts (snd (entry c))) s = Inr (app c s)"
begin

definition written :: "'c list \<Rightarrow> Value" where "written cs = MakeMap (map entry cs)"

definition wire :: "'c list \<Rightarrow> MapEntry list" where
  "wire cs = map (\<lambda>c. (fst (entry c), canon detOpts (snd (entry c)))) cs"

lemma survives:
  assumes "\<forall>c \<in> set cs. good c" and "distinct (map (fst \<circ> entry) cs)" and "length cs \<le> 2 ^ 20"
    and "d + 1 < room" and "d < 256"
  shows "\<exists>qs. mset qs = mset cs \<and> transports d (written cs) (MakeMap (wire qs))
    \<and> (\<forall>s. eachEntry step (wire qs) s = Inr (fold app qs s))"
proof -
  obtain qs where qs: "mset qs = mset cs" "entryOrder detOpts (map entry cs) = map entry qs"
    using map_permuted [OF mset_entryOrder] by blast
  have "transports d (MakeMap (map entry cs))
      (MakeMap (map (\<lambda>p. (fst p, canon detOpts (snd p))) (entryOrder detOpts (map entry cs))))"
    using assms key val [of _ "d + 1"] by (intro transports_entries) (auto simp: comp_def)
  then have "transports d (written cs) (MakeMap (wire qs))"
    by (simp add: written_def wire_def qs(2) comp_def)
  moreover have "set qs = set cs" using qs(1) by (metis set_mset_mset)
  then have "eachEntry step (wire qs) s = Inr (fold app qs s)" for s
    unfolding wire_def using reads assms(1) by (intro eachEntry_fold) blast
  ultimately show ?thesis using qs(1) by blast
qed

lemma survives_in_order:
  assumes "\<forall>c \<in> set cs. good c" and "distinct (map (fst \<circ> entry) cs)" and "length cs \<le> 2 ^ 20"
    and "d + 1 < room" and "d < 256"
    and "\<And>x y s. x \<in> set cs \<Longrightarrow> y \<in> set cs \<Longrightarrow> x \<noteq> y \<Longrightarrow> app x (app y s) = app y (app x s)"
  shows "\<exists>m. transports d (written cs) (MakeMap m) \<and> (\<forall>s. eachEntry step m s = Inr (fold app cs s))"
proof -
  obtain qs where qs: "mset qs = mset cs" "transports d (written cs) (MakeMap (wire qs))"
    "\<forall>s. eachEntry step (wire qs) s = Inr (fold app qs s)"
    using survives [OF assms(1-5)] by blast
  have "fold app qs = fold app cs"
  proof (rule fold_multiset_equiv [OF _ qs(1)])
    fix x y assume "x \<in> set qs" "y \<in> set qs"
    moreover have "set qs = set cs" using qs(1) by (metis set_mset_mset)
    ultimately show "app x \<circ> app y = app y \<circ> app x" using assms(6) [of x y] by (cases "x = y") auto
  qed
  with qs show ?thesis by auto
qed

end

end
