(* ===== verification/Cwt_Claims.thy ===== *)
theory Cwt_Claims
  imports Token_Maps
begin

text \<open>
  CBOR Web Tokens (\<^verbatim>\<open>cwt/claims.go\<close>): the claims set with its confirmation key, written as a map and read back.
  A private claim is an entry whose key and value are of any Go type; the map of private claims is the list of
  its entries, and the order in which Go iterates over it is the parameter \<open>ord\<close>. The records \<open>f\<close> and \<open>f2i\<close>
  are the key formats and the conversion of floats of \<open>Cose_Key\<close> and \<open>Go_Time\<close>.
\<close>

section \<open>Claims\<close>

datatype cwt_error =
    ErrMalformedClaims | ErrTokenExpired | ErrTokenNotYetValid | ErrAudienceMismatch | ErrMissingExpiration
  | ErrMissingConfirmation | CwtCbor cbor_error | CwtCose cose_error | CwtPanic

datatype private_any =
    PValue Value | PString bytes | PInt i64 | PInt64 i64 | PUint64 u64 | PFloat64 u64 | PBytes bytes | PBool bool
  | POther nat

type_synonym private_entries = "(private_any \<times> private_any) list"

record Confirmation =
  cnf_Key :: "Key option"
  cnf_KeyID :: bytes
  cnf_Encrypted :: bytes

record ClaimsSet =
  Issuer :: bytes
  Subject :: bytes
  Audience :: bytes
  Expiration :: Time
  NotBefore :: Time
  IssuedAt :: Time
  CWTID :: bytes
  CnfClaim :: "Confirmation option"
  Private :: private_entries

definition emptyClaims :: ClaimsSet where
  "emptyClaims = \<lparr>Issuer = [], Subject = [], Audience = [], Expiration = zeroTime, NotBefore = zeroTime,
     IssuedAt = zeroTime, CWTID = [], CnfClaim = None, Private = []\<rparr>"

definition emptyCnf :: Confirmation where
  "emptyCnf = \<lparr>cnf_Key = None, cnf_KeyID = [], cnf_Encrypted = []\<rparr>"

definition toValue :: "private_any \<Rightarrow> cwt_error + Value" where
  "toValue v = (case v of
      PValue x \<Rightarrow> Inr x
    | PString x \<Rightarrow> Inr (Text x)
    | PInt x \<Rightarrow> Inr (if sint x \<ge> 0 then Uint x else NegInt (- 1 - x))
    | PInt64 x \<Rightarrow> Inr (if sint x \<ge> 0 then Uint x else NegInt (- 1 - x))
    | PUint64 x \<Rightarrow> Inr (Uint x)
    | PFloat64 x \<Rightarrow> Inr (Float64 x)
    | PBytes x \<Rightarrow> Inr (Bytes x)
    | PBool x \<Rightarrow> Inr (Bool x)
    | POther _ \<Rightarrow> Inl ErrMalformedClaims)"

definition fromValue :: "Value \<Rightarrow> private_any" where
  "fromValue v = (case Kind v of
      KindUint \<Rightarrow> PInt64 (UintVal v)
    | KindNegInt \<Rightarrow> PInt64 (- 1 - NegIntVal v)
    | KindText \<Rightarrow> PString (TextVal v)
    | KindBytes \<Rightarrow> PBytes (BytesVal v)
    | KindFloat64 \<Rightarrow> PFloat64 (Float64Val v)
    | KindFloat32 \<Rightarrow> PFloat64 (f32_to_f64 (Float32Val v))
    | KindBool \<Rightarrow> PBool (BoolVal v)
    | _ \<Rightarrow> PValue v)"

definition entryKeyInt :: "Value \<Rightarrow> i64 option" where
  "entryKeyInt key = (case Kind key of
      KindUint \<Rightarrow> Some (UintVal key) | KindNegInt \<Rightarrow> Some (- 1 - NegIntVal key) | _ \<Rightarrow> None)"

text \<open>Storing in a map whose keys are of type \<open>any\<close>: Go cannot hash a byte slice or a value struct; a float equals
  another by \<open>==\<close>, so a NaN is always a new key.\<close>

definition hashableAny :: "private_any \<Rightarrow> bool" where
  "hashableAny k = (case k of PBytes _ \<Rightarrow> False | PValue _ \<Rightarrow> False | _ \<Rightarrow> True)"

definition anyEq :: "private_any \<Rightarrow> private_any \<Rightarrow> bool" where
  "anyEq a b = (case (a, b) of (PFloat64 x, PFloat64 y) \<Rightarrow> f64_eq x y | _ \<Rightarrow> a = b)"

definition anyPut :: "private_any \<Rightarrow> private_any \<Rightarrow> private_entries \<Rightarrow> private_entries" where
  "anyPut k v ps =
     (if \<exists>p \<in> set ps. anyEq (fst p) k then map (\<lambda>p. if anyEq (fst p) k then (k, v) else p) ps else ps @ [(k, v)])"

section \<open>The confirmation key\<close>

definition padLeftBytes :: "bytes \<Rightarrow> nat \<Rightarrow> bytes" where
  "padLeftBytes b n = (if length b \<ge> n then b else replicate (n - length b) 0 @ b)"

definition coseCurveToElliptic :: "i64 \<Rightarrow> cwt_error + curve" where
  "coseCurveToElliptic c =
     (if c = CurveP256 then Inr P256 else if c = CurveP384 then Inr P384 else if c = CurveP521 then Inr P521
      else Inl ErrMalformedClaims)"

text \<open>Only the public part of a key is written. An ECDSA key of another curve cannot come from a \<open>COSE_Key\<close>.\<close>

definition cosePublicKeyToMap :: "KeyFormats \<Rightarrow> PublicKey \<Rightarrow> Key \<Rightarrow> cwt_error + MapEntry list" where
  "cosePublicKeyToMap f pub k = (case pub of
      Ed25519Public p \<Rightarrow>
        Inr [(Uint 1, Uint KeyTypeOKP), (NegInt 0, Uint CurveEd25519), (NegInt 1, Bytes p)]
    | EcdsaPublic cv _ \<Rightarrow>
        let crv = KeyCurve k; sz = curveKeySize cv in
        (case ecdsa_PublicBytes f pub of
           None \<Rightarrow> Inl ErrMalformedClaims
         | Some raw \<Rightarrow>
             let x = padLeftBytes (take sz (drop 1 raw)) sz; y = padLeftBytes (drop (1 + sz) raw) sz in
             Inr [(Uint 1, Uint KeyTypeEC2), (NegInt 0, Uint crv), (NegInt 1, Bytes x), (NegInt 2, Bytes y)])
    | _ \<Rightarrow> Inl ErrMalformedClaims)"

definition marshalCOSEKey :: "KeyFormats \<Rightarrow> Key \<Rightarrow> cwt_error + MapEntry list" where
  "marshalCOSEKey f k = (case KeyPublicKey f k of
      Inl _ \<Rightarrow> Inl ErrMalformedClaims | Inr pub \<Rightarrow> cosePublicKeyToMap f pub k)"

definition encodeCnf :: "KeyFormats \<Rightarrow> Confirmation \<Rightarrow> cwt_error + MapEntry list" where
  "encodeCnf f cnf =
     (let rest = (if cnf_Encrypted cnf \<noteq> [] then [(Uint 2, Bytes (cnf_Encrypted cnf))] else [])
               @ (if cnf_KeyID cnf \<noteq> [] then [(Uint 3, Bytes (cnf_KeyID cnf))] else []) in
      case cnf_Key cnf of
        None \<Rightarrow> Inr rest
      | Some k \<Rightarrow> (case marshalCOSEKey f k of
            Inl e \<Rightarrow> Inl e
          | Inr keyMap \<Rightarrow> Inr ((Uint 1, MakeMap keyMap) # rest)))"

text \<open>The loop of \<open>unmarshalCOSEKey\<close> fills two maps, one per sign of the label.\<close>

type_synonym param_maps = "(u64 \<rightharpoonup> key_param) \<times> (u64 \<rightharpoonup> key_param)"

definition paramOf :: "Value \<Rightarrow> key_param option" where
  "paramOf v = (case Kind v of
      KindUint \<Rightarrow> Some (KInt (UintVal v)) | KindNegInt \<Rightarrow> Some (KInt (- 1 - NegIntVal v))
    | KindBytes \<Rightarrow> Some (KBytes (BytesVal v)) | _ \<Rightarrow> None)"

definition storeParam :: "MapEntry \<Rightarrow> param_maps \<Rightarrow> cwt_error + param_maps" where
  "storeParam e pn = (case (pn, paramOf (EntryValue e)) of
      ((pos, neg), Some p) \<Rightarrow>
        (if Kind (fst e) = KindUint then Inr (pos(UintVal (fst e) \<mapsto> p), neg)
         else if Kind (fst e) = KindNegInt then Inr (pos, neg(NegIntVal (fst e) \<mapsto> p))
         else Inr pn)
    | _ \<Rightarrow> Inr pn)"

definition bytesAt :: "u64 \<Rightarrow> (u64 \<rightharpoonup> key_param) \<Rightarrow> cwt_error + bytes" where
  "bytesAt n m = (case m n of Some (KBytes b) \<Rightarrow> Inr b | _ \<Rightarrow> Inl ErrMalformedClaims)"

definition intAt :: "u64 \<Rightarrow> (u64 \<rightharpoonup> key_param) \<Rightarrow> cwt_error + i64" where
  "intAt n m = (case m n of Some (KInt x) \<Rightarrow> Inr x | _ \<Rightarrow> Inl ErrMalformedClaims)"

definition orFail :: "'e + 'a \<Rightarrow> ('a \<Rightarrow> 'e + 'b) \<Rightarrow> 'e + 'b" where
  "orFail r k = (case r of Inl e \<Rightarrow> Inl e | Inr x \<Rightarrow> k x)"

definition keyFromPublic :: "KeyFormats \<Rightarrow> PublicKey \<Rightarrow> cwt_error + Key" where
  "keyFromPublic f pub = (case NewKeyFromPublic f pub of Inl _ \<Rightarrow> Inl ErrMalformedClaims | Inr k \<Rightarrow> Inr k)"

definition coseKeyFromMaps :: "KeyFormats \<Rightarrow> param_maps \<Rightarrow> cwt_error + Key" where
  "coseKeyFromMaps f pn = (case pn of (pos, neg) \<Rightarrow>
     orFail (intAt 1 pos) (\<lambda>kty.
       if kty = KeyTypeOKP then orFail (bytesAt 1 neg) (\<lambda>x. keyFromPublic f (Ed25519Public x))
       else if kty = KeyTypeEC2 then
         orFail (intAt 0 neg) (\<lambda>crv. orFail (bytesAt 1 neg) (\<lambda>x. orFail (bytesAt 2 neg) (\<lambda>y.
         orFail (coseCurveToElliptic crv) (\<lambda>goCrv.
           let sz = curveKeySize goCrv;
               point = [0x04] @ take sz (padLeftBytes x sz) @ take sz (padLeftBytes y sz) in
           (case ecdsa_ParseUncompressedPublicKey f goCrv point of
              None \<Rightarrow> Inl ErrMalformedClaims
            | Some pub \<Rightarrow> keyFromPublic f pub)))))
       else Inl ErrMalformedClaims))"

definition unmarshalCOSEKey :: "KeyFormats \<Rightarrow> MapEntry list \<Rightarrow> cwt_error + Key" where
  "unmarshalCOSEKey f m = orFail (eachEntry storeParam m (Map.empty, Map.empty)) (coseKeyFromMaps f)"

definition cnfStep :: "KeyFormats \<Rightarrow> MapEntry \<Rightarrow> Confirmation \<Rightarrow> cwt_error + Confirmation" where
  "cnfStep f e cnf = (case entryKeyInt (fst e) of
      None \<Rightarrow> Inr cnf
    | Some k \<Rightarrow>
        if k = 1 then
          (if Kind (EntryValue e) \<noteq> KindMap then Inl ErrMalformedClaims
           else orFail (unmarshalCOSEKey f (Pairs (EntryValue e))) (\<lambda>key. Inr (cnf\<lparr>cnf_Key := Some key\<rparr>)))
        else if k = 2 then
          (if Kind (EntryValue e) \<noteq> KindBytes then Inl ErrMalformedClaims
           else Inr (cnf\<lparr>cnf_Encrypted := BytesVal (EntryValue e)\<rparr>))
        else if k = 3 then
          (if Kind (EntryValue e) \<noteq> KindBytes then Inl ErrMalformedClaims
           else Inr (cnf\<lparr>cnf_KeyID := BytesVal (EntryValue e)\<rparr>))
        else Inr cnf)"

definition decodeCnf :: "KeyFormats \<Rightarrow> Value \<Rightarrow> cwt_error + Confirmation" where
  "decodeCnf f v = (if Kind v \<noteq> KindMap then Inl ErrMalformedClaims else eachEntry (cnfStep f) (Pairs v) emptyCnf)"

section \<open>Writing and reading claims\<close>

definition textClaim :: "u64 \<Rightarrow> bytes \<Rightarrow> MapEntry list" where
  "textClaim k t = (if t \<noteq> [] then [(Uint k, Text t)] else [])"

definition dateClaim :: "u64 \<Rightarrow> Time \<Rightarrow> MapEntry list" where
  "dateClaim k t = (if \<not> Time_IsZero t then [(Uint k, numericDate t)] else [])"

definition bytesClaim :: "u64 \<Rightarrow> bytes \<Rightarrow> MapEntry list" where
  "bytesClaim k b = (if b \<noteq> [] then [(Uint k, Bytes b)] else [])"

definition registeredClaims :: "ClaimsSet \<Rightarrow> MapEntry list" where
  "registeredClaims c = textClaim 1 (Issuer c) @ textClaim 2 (Subject c) @ textClaim 3 (Audience c)
     @ dateClaim 4 (Expiration c) @ dateClaim 5 (NotBefore c) @ dateClaim 6 (IssuedAt c) @ bytesClaim 7 (CWTID c)"

definition cnfClaim :: "KeyFormats \<Rightarrow> Confirmation option \<Rightarrow> cwt_error + MapEntry list" where
  "cnfClaim f cnf = (case cnf of
      None \<Rightarrow> Inr [] | Some c \<Rightarrow> orFail (encodeCnf f c) (\<lambda>m. Inr [(Uint 8, MakeMap m)]))"

fun privateClaims :: "private_entries \<Rightarrow> cwt_error + MapEntry list" where
  "privateClaims [] = Inr []"
| "privateClaims ((k, v) # ps) =
     orFail (toValue k) (\<lambda>key. orFail (toValue v) (\<lambda>val. orFail (privateClaims ps) (\<lambda>es. Inr ((key, val) # es))))"

type_synonym private_order = "private_entries \<Rightarrow> private_entries"

definition ClaimsEncode :: "private_order \<Rightarrow> KeyFormats \<Rightarrow> ClaimsSet \<Rightarrow> cwt_error + bytes" where
  "ClaimsEncode ord f c =
     orFail (cnfClaim f (CnfClaim c)) (\<lambda>cnf.
     orFail (privateClaims (ord (Private c))) (\<lambda>priv.
       (case Encode (NewEncoder ModeCoreDeterministic []) [] (MakeMap (registeredClaims c @ cnf @ priv)) of
          (_, Some e) \<Rightarrow> Inl (CwtCbor e)
        | (out, None) \<Rightarrow> Inr out)))"

definition storePrivate :: "MapEntry \<Rightarrow> ClaimsSet \<Rightarrow> cwt_error + ClaimsSet" where
  "storePrivate e cs =
     (if hashableAny (fromValue (fst e))
      then Inr (cs\<lparr>Private := anyPut (fromValue (fst e)) (fromValue (EntryValue e)) (Private cs)\<rparr>)
      else Inl CwtPanic)"

definition claimStep :: "(u64 \<Rightarrow> i64) \<Rightarrow> KeyFormats \<Rightarrow> MapEntry \<Rightarrow> ClaimsSet \<Rightarrow> cwt_error + ClaimsSet" where
  "claimStep f2i f e cs =
     (let v = EntryValue e;
          readText = (\<lambda>upd. if Kind v = KindText then Inr (upd (TextVal v)) else Inl ErrMalformedClaims);
          readDate = (\<lambda>upd. case parseNumericDate f2i v of None \<Rightarrow> Inl ErrMalformedClaims | Some t \<Rightarrow> Inr (upd t)) in
      case entryKeyInt (fst e) of
        None \<Rightarrow> storePrivate e cs
      | Some k \<Rightarrow>
          if k = 1 then readText (\<lambda>t. cs\<lparr>Issuer := t\<rparr>)
          else if k = 2 then readText (\<lambda>t. cs\<lparr>Subject := t\<rparr>)
          else if k = 3 then readText (\<lambda>t. cs\<lparr>Audience := t\<rparr>)
          else if k = 4 then readDate (\<lambda>t. cs\<lparr>Expiration := t\<rparr>)
          else if k = 5 then readDate (\<lambda>t. cs\<lparr>NotBefore := t\<rparr>)
          else if k = 6 then readDate (\<lambda>t. cs\<lparr>IssuedAt := t\<rparr>)
          else if k = 7 then
            (if Kind v = KindBytes then Inr (cs\<lparr>CWTID := BytesVal v\<rparr>) else Inl ErrMalformedClaims)
          else if k = 8 then orFail (decodeCnf f v) (\<lambda>cnf. Inr (cs\<lparr>CnfClaim := Some cnf\<rparr>))
          else storePrivate e cs)"

definition DecodeClaimsSet :: "(u64 \<Rightarrow> i64) \<Rightarrow> KeyFormats \<Rightarrow> bytes \<Rightarrow> cwt_error + ClaimsSet" where
  "DecodeClaimsSet f2i f data =
     (case fst (DecodeWith (NewDecoder []) data) of
        Inl e \<Rightarrow> Inl (if e = Panic then CwtPanic else ErrMalformedClaims)
      | Inr v \<Rightarrow> if Kind v \<noteq> KindMap then Inl ErrMalformedClaims
          else eachEntry (claimStep f2i f) (Pairs v) emptyClaims)"

section \<open>The confirmation key survives the wire\<close>

text \<open>The documented behaviour of \<^verbatim>\<open>crypto/ecdsa\<close>: a point that was parsed is on the curve it was parsed for.\<close>

definition parse_laws :: "KeyFormats \<Rightarrow> bool" where
  "parse_laws f \<longleftrightarrow> (\<forall>cv b pub. ecdsa_ParseUncompressedPublicKey f cv b = Some pub \<longrightarrow> (\<exists>q. pub = EcdsaPublic cv q))"

datatype key_part = PosPart u64 key_param | NegPart u64 key_param

definition paramValue :: "key_param \<Rightarrow> Value" where
  "paramValue p = (case p of KInt x \<Rightarrow> Uint x | KBytes b \<Rightarrow> Bytes b)"

definition partEntry :: "key_part \<Rightarrow> MapEntry" where
  "partEntry q = (case q of PosPart n p \<Rightarrow> (Uint n, paramValue p) | NegPart n p \<Rightarrow> (NegInt n, paramValue p))"

definition goodPart :: "key_part \<Rightarrow> bool" where
  "goodPart q \<longleftrightarrow> (case q of PosPart n p \<Rightarrow> 0 \<le> sint n \<and> (case p of KInt _ \<Rightarrow> True | KBytes b \<Rightarrow> length b \<le> 2 ^ 24)
     | NegPart n p \<Rightarrow> 0 \<le> sint n \<and> (case p of KInt _ \<Rightarrow> True | KBytes b \<Rightarrow> length b \<le> 2 ^ 24))"

definition applyPart :: "key_part \<Rightarrow> param_maps \<Rightarrow> param_maps" where
  "applyPart q pn = (case q of PosPart n p \<Rightarrow> ((fst pn)(n \<mapsto> p), snd pn) | NegPart n p \<Rightarrow> (fst pn, (snd pn)(n \<mapsto> p)))"

lemma paramValue_canon: "canon detOpts (paramValue p) = paramValue p"
  by (simp add: paramValue_def leaf_canon split: key_param.splits)

lemma paramOf_paramValue: "paramOf (paramValue p) = Some p"
  by (simp add: paramOf_def paramValue_def val_defs split: key_param.splits)

interpretation key_parts: claim_map goodPart partEntry storeParam applyPart 300
proof unfold_locales
  fix c :: key_part and d :: nat and s :: param_maps assume g: "goodPart c"
  show "plain_key (fst (partEntry c))"
    using g by (auto simp: goodPart_def partEntry_def plain_keys split: key_part.splits)
  show "transports d (snd (partEntry c)) (canon detOpts (snd (partEntry c)))"
    using g by (auto simp: goodPart_def partEntry_def paramValue_canon paramValue_def transports_leaf leaf_canon
        split: key_part.splits key_param.splits)
  show "storeParam (fst (partEntry c), canon detOpts (snd (partEntry c))) s = Inr (applyPart c s)"
    by (cases s) (simp add: partEntry_def paramValue_canon storeParam_def paramOf_paramValue applyPart_def val_defs
        split: key_part.splits)
qed

text \<open>What is left of a key in a token: its public part.\<close>

definition publicPart :: "KeyFormats \<Rightarrow> Key \<Rightarrow> cwt_error + Key" where
  "publicPart f k = (case KeyPublicKey f k of Inl _ \<Rightarrow> Inl ErrMalformedClaims | Inr pub \<Rightarrow> keyFromPublic f pub)"

lemma padLeftBytes_id: "n \<le> length b \<Longrightarrow> padLeftBytes b n = b"
  by (simp add: padLeftBytes_def)

lemma KeyPublicKey_cases:
  assumes "KeyPublicKey f k = Inr pub"
  obtains (okp) x where "pub = Ed25519Public x" and "length x = 32"
    | (ec2) cv point where "coseCurveToGo (KeyCurve k) = Inr cv" and "ecdsa_ParseUncompressedPublicKey f cv point = Some pub"
proof (cases "KeyType k = KeyTypeOKP")
  case True
  with assms okp show ?thesis by (auto simp: KeyPublicKey_def split: if_splits option.splits)
next
  case False
  with assms obtain cv where cv: "coseCurveToGo (KeyCurve k) = Inr cv"
    by (auto simp: KeyPublicKey_def orElse_eq_Inr split: if_splits)
  with False assms ec2 [OF cv] show ?thesis
    by (cases "bytesParam keyLabelX k"; cases "bytesParam keyLabelY k")
      (auto simp: KeyPublicKey_def Let_def split: if_splits option.split_asm)
qed

lemma coseCurve_same: "coseCurveToGo c = Inr cv \<Longrightarrow> coseCurveToElliptic c = Inr cv \<and> 0 \<le> sint c"
  by (auto simp: coseCurveToGo_def coseCurveToElliptic_def keyType_defs split: if_splits)

lemma cose_key_in_token:
  assumes "key_format_laws cr f" and "parse_laws f" and "marshalCOSEKey f k = Inr m" and "d < 200"
  shows "\<exists>m' k'. transports d (MakeMap m) (MakeMap m') \<and> publicPart f k = Inr k' \<and> unmarshalCOSEKey f m' = Inr k'"
proof -
  from assms(3) obtain pub where pub: "KeyPublicKey f k = Inr pub" and m: "cosePublicKeyToMap f pub k = Inr m"
    by (auto simp: marshalCOSEKey_def split: sum.splits)
  have commute: "applyPart x (applyPart y s) = applyPart y (applyPart x s)" if "partEntry x = p" "partEntry y = q" "fst p \<noteq> fst q" for x y s p q
    using that by (auto simp: applyPart_def partEntry_def fun_upd_twist split: key_part.splits)
  have "\<exists>cs k'. m = map partEntry cs \<and> (\<forall>c \<in> set cs. goodPart c) \<and> distinct (map (fst \<circ> partEntry) cs) \<and> length cs \<le> 4
     \<and> publicPart f k = Inr k' \<and> coseKeyFromMaps f (fold applyPart cs (Map.empty, Map.empty)) = Inr k'"
    using pub
  proof (cases rule: KeyPublicKey_cases)
    case (okp x)
    let ?cs = "[PosPart 1 (KInt KeyTypeOKP), NegPart 0 (KInt CurveEd25519), NegPart 1 (KBytes x)]"
    have "\<exists>k'. keyFromPublic f pub = Inr k'" by (simp add: keyFromPublic_def NewKeyFromPublic_def okp)
    moreover have "coseKeyFromMaps f (fold applyPart ?cs (Map.empty, Map.empty)) = keyFromPublic f pub"
      by (simp add: okp applyPart_def coseKeyFromMaps_def intAt_def bytesAt_def orFail_def)
    moreover have "m = map partEntry ?cs" using m okp by (simp add: cosePublicKeyToMap_def partEntry_def paramValue_def)
    ultimately show ?thesis using okp pub
      by (intro exI [of _ ?cs]) (auto simp: publicPart_def goodPart_def partEntry_def val_defs)
  next
    case (ec2 cv point)
    then obtain q where q: "pub = EcdsaPublic cv q" using assms(2) unfolding parse_laws_def by blast
    with m obtain raw where raw: "ecdsa_PublicBytes f pub = Some raw" by (auto simp: cosePublicKeyToMap_def Let_def split: option.splits)
    then have l: "length raw = 1 + 2 * curveKeySize cv" "raw ! 0 = 4" "ecdsa_ParseUncompressedPublicKey f cv raw = Some pub"
      using assms(1) q by (auto simp: key_format_laws_def)
    define x where "x = take (curveKeySize cv) (drop 1 raw)"
    define y where "y = drop (1 + curveKeySize cv) raw"
    have xy: "length x = curveKeySize cv" "length y = curveKeySize cv" "4 # x @ y = raw"
      using l by (cases raw; simp add: x_def y_def)+
    let ?cs = "[PosPart 1 (KInt KeyTypeEC2), NegPart 0 (KInt (KeyCurve k)), NegPart 1 (KBytes x), NegPart 2 (KBytes y)]"
    have "\<exists>k'. keyFromPublic f pub = Inr k'"
      using raw q by (cases cv) (simp_all add: keyFromPublic_def NewKeyFromPublic_def goCurveToOse_def Let_def)
    moreover have "coseKeyFromMaps f (fold applyPart ?cs (Map.empty, Map.empty)) = keyFromPublic f pub"
      using coseCurve_same [OF ec2(1)] xy l(3)
      by (simp add: applyPart_def coseKeyFromMaps_def intAt_def bytesAt_def orFail_def padLeftBytes_id KeyTypeOKP_def KeyTypeEC2_def)
    moreover have "m = map partEntry ?cs" using m q raw xy
      unfolding q cosePublicKeyToMap_def Let_def PublicKey.case raw [unfolded q] option.case x_def [symmetric] y_def [symmetric]
      by (simp add: partEntry_def paramValue_def padLeftBytes_id)
    moreover have "curveKeySize cv \<le> 66" by (rule curveKeySize_le)
    ultimately show ?thesis using q pub xy
      by (intro exI [of _ ?cs]) (auto simp: publicPart_def goodPart_def partEntry_def val_defs)
  qed
  then obtain cs k' where cs: "m = map partEntry cs" "\<forall>c \<in> set cs. goodPart c" "distinct (map (fst \<circ> partEntry) cs)" "length cs \<le> 4"
    and k': "publicPart f k = Inr k'" "coseKeyFromMaps f (fold applyPart cs (Map.empty, Map.empty)) = Inr k'" by blast
  have "\<exists>m'. transports d (key_parts.written cs) (MakeMap m')
      \<and> (\<forall>s. eachEntry storeParam m' s = Inr (fold applyPart cs s))"
  proof (rule key_parts.survives_in_order [OF cs(2,3)])
    fix x y s assume "x \<in> set cs" "y \<in> set cs" "x \<noteq> y"
    with cs(3) have "fst (partEntry x) \<noteq> fst (partEntry y)" by (auto simp: distinct_map inj_on_def)
    then show "applyPart x (applyPart y s) = applyPart y (applyPart x s)" using commute by blast
  qed (use cs(4) assms(4) in simp_all)
  with cs(1) k' show ?thesis by (auto simp: unmarshalCOSEKey_def orFail_def key_parts.written_def)
qed

text \<open>The parts of a confirmation. A key is carried by the entries it is written as, and read as its public part.\<close>

datatype cnf_part = CnfKeyPart "MapEntry list" Key | CnfEncryptedPart bytes | CnfKidPart bytes

definition cnfEntry :: "cnf_part \<Rightarrow> MapEntry" where
  "cnfEntry q = (case q of CnfKeyPart m _ \<Rightarrow> (Uint 1, MakeMap m) | CnfEncryptedPart b \<Rightarrow> (Uint 2, Bytes b)
     | CnfKidPart b \<Rightarrow> (Uint 3, Bytes b))"

definition goodCnf :: "KeyFormats \<Rightarrow> cnf_part \<Rightarrow> bool" where
  "goodCnf f q \<longleftrightarrow> (case q of
      CnfKeyPart m k \<Rightarrow> (\<exists>m'. (\<forall>d < 200. transports d (MakeMap m) (MakeMap m')) \<and> unmarshalCOSEKey f m' = Inr k)
    | CnfEncryptedPart b \<Rightarrow> length b \<le> 2 ^ 24 | CnfKidPart b \<Rightarrow> length b \<le> 2 ^ 24)"

definition applyCnf :: "cnf_part \<Rightarrow> Confirmation \<Rightarrow> Confirmation" where
  "applyCnf q c = (case q of CnfKeyPart _ k \<Rightarrow> c\<lparr>cnf_Key := Some k\<rparr> | CnfEncryptedPart b \<Rightarrow> c\<lparr>cnf_Encrypted := b\<rparr>
     | CnfKidPart b \<Rightarrow> c\<lparr>cnf_KeyID := b\<rparr>)"

lemma transports_canon: "transports d v w \<Longrightarrow> canon detOpts v = w"
  by (simp add: transports_def)

lemma transports_self: "transports d v w \<Longrightarrow> transports d v (canon detOpts v)"
  by (simp add: transports_def)

lemma payload_constructors [simp]: "Pairs (MakeMap m) = m" "Bstr (Bytes b) = b" "Str (Text t) = t"
  by (simp_all add: MakeMap_def Bytes_def Text_def)

lemma entryKeyInt_Uint: "entryKeyInt (Uint n) = Some n"
  by (simp add: entryKeyInt_def val_defs)

interpretation cnf_parts: claim_map "goodCnf f" cnfEntry "cnfStep f" applyCnf 200 for f
proof unfold_locales
  fix c :: cnf_part and d :: nat and s :: Confirmation assume g: "goodCnf f c"
  show "plain_key (fst (cnfEntry c))"
    by (simp add: cnfEntry_def plain_keys split: cnf_part.splits)
  show "transports d (snd (cnfEntry c)) (canon detOpts (snd (cnfEntry c)))" if "d < 200"
    using g that by (auto simp: goodCnf_def cnfEntry_def transports_leaf leaf_canon intro: transports_self split: cnf_part.splits)
  show "cnfStep f (fst (cnfEntry c), canon detOpts (snd (cnfEntry c))) s = Inr (applyCnf c s)"
  proof (cases c)
    case (CnfKeyPart m k)
    then obtain m' where "\<forall>d < 200. transports d (MakeMap m) (MakeMap m')" and "unmarshalCOSEKey f m' = Inr k"
      using g by (auto simp: goodCnf_def)
    then have "canon detOpts (MakeMap m) = MakeMap m'" and "unmarshalCOSEKey f m' = Inr k"
      using transports_canon [of 0 "MakeMap m" "MakeMap m'"] by simp_all
    then show ?thesis using CnfKeyPart
      by (simp add: cnfEntry_def cnfStep_def entryKeyInt_Uint applyCnf_def orFail_def MakeMap_def)
  qed (simp_all add: cnfEntry_def cnfStep_def entryKeyInt_Uint applyCnf_def leaf_canon)
qed

definition publicCnf :: "KeyFormats \<Rightarrow> Confirmation \<Rightarrow> Confirmation" where
  "publicCnf f c = c\<lparr>cnf_Key := (case cnf_Key c of None \<Rightarrow> None
     | Some k \<Rightarrow> (case publicPart f k of Inl _ \<Rightarrow> None | Inr k' \<Rightarrow> Some k'))\<rparr>"

definition small_cnf :: "Confirmation \<Rightarrow> bool" where
  "small_cnf c \<longleftrightarrow> length (cnf_KeyID c) \<le> 2 ^ 24 \<and> length (cnf_Encrypted c) \<le> 2 ^ 24"

definition cnfRest :: "Confirmation \<Rightarrow> cnf_part list" where
  "cnfRest c = (if cnf_Encrypted c \<noteq> [] then [CnfEncryptedPart (cnf_Encrypted c)] else [])
     @ (if cnf_KeyID c \<noteq> [] then [CnfKidPart (cnf_KeyID c)] else [])"

lemma cnf_parts_survive:
  assumes "\<forall>q \<in> set cs. goodCnf f q" and "distinct (map (fst \<circ> cnfEntry) cs)" and "length cs \<le> 3" and "d < 190"
  shows "\<exists>w. transports d (MakeMap (map cnfEntry cs)) w \<and> decodeCnf f w = Inr (fold applyCnf cs emptyCnf)"
proof -
  have "\<exists>m. transports d (cnf_parts.written cs) (MakeMap m) \<and> (\<forall>s. eachEntry (cnfStep f) m s = Inr (fold applyCnf cs s))"
  proof (rule cnf_parts.survives_in_order [OF assms(1,2)])
    fix x y s assume "x \<in> set cs" "y \<in> set cs" "x \<noteq> y"
    with assms(2) have "fst (cnfEntry x) \<noteq> fst (cnfEntry y)" by (auto simp: distinct_map inj_on_def)
    then show "applyCnf x (applyCnf y s) = applyCnf y (applyCnf x s)"
      by (auto simp: cnfEntry_def applyCnf_def split: cnf_part.splits)
  qed (use assms(3,4) in simp_all)
  then obtain m where m: "transports d (cnf_parts.written cs) (MakeMap m)"
    "\<forall>s. eachEntry (cnfStep f) m s = Inr (fold applyCnf cs s)" by blast
  then show ?thesis
    by (intro exI [of _ "MakeMap m"]) (simp add: cnf_parts.written_def decodeCnf_def)
qed

lemma cnf_in_token:
  assumes "key_format_laws cr f" and "parse_laws f" and "small_cnf c" and "encodeCnf f c = Inr m"
  shows "\<exists>w. (\<forall>d < 190. transports d (MakeMap m) w) \<and> decodeCnf f w = Inr (publicCnf f c)"
proof -
  have rest: "\<forall>q \<in> set (cnfRest c). goodCnf f q" using assms(3) by (auto simp: cnfRest_def goodCnf_def small_cnf_def)
  have "\<exists>cs. m = map cnfEntry cs \<and> (\<forall>q \<in> set cs. goodCnf f q) \<and> distinct (map (fst \<circ> cnfEntry) cs) \<and> length cs \<le> 3
     \<and> fold applyCnf cs emptyCnf = publicCnf f c"
  proof (cases "cnf_Key c")
    case None
    with assms(4) have "m = map cnfEntry (cnfRest c)" by (auto simp: encodeCnf_def cnfRest_def cnfEntry_def)
    with rest None show ?thesis
      by (intro exI [of _ "cnfRest c"]) (auto simp: cnfRest_def cnfEntry_def applyCnf_def emptyCnf_def publicCnf_def val_defs)
  next
    case (Some k)
    with assms(4) obtain km where km: "marshalCOSEKey f k = Inr km" "m = (Uint 1, MakeMap km) # map cnfEntry (cnfRest c)"
      by (auto simp: encodeCnf_def cnfRest_def cnfEntry_def Let_def split: sum.splits if_splits)
    obtain m' k' where k': "transports 0 (MakeMap km) (MakeMap m')" "publicPart f k = Inr k'" "unmarshalCOSEKey f m' = Inr k'"
      using cose_key_in_token [OF assms(1,2) km(1), of 0] by auto
    have "transports d (MakeMap km) (MakeMap m')" if "d < 200" for d
    proof -
      from cose_key_in_token [OF assms(1,2) km(1) that] obtain m'' where "transports d (MakeMap km) (MakeMap m'')" by blast
      then show ?thesis using transports_canon k'(1) by metis
    qed
    then have "goodCnf f (CnfKeyPart km k')" using k'(3) by (auto simp: goodCnf_def)
    with rest Some km k' show ?thesis
      by (intro exI [of _ "CnfKeyPart km k' # cnfRest c"])
        (auto simp: cnfRest_def cnfEntry_def applyCnf_def emptyCnf_def publicCnf_def val_defs)
  qed
  then obtain cs where cs: "m = map cnfEntry cs" "\<forall>q \<in> set cs. goodCnf f q" "distinct (map (fst \<circ> cnfEntry) cs)" "length cs \<le> 3"
    and fold: "fold applyCnf cs emptyCnf = publicCnf f c" by blast
  obtain w where w: "transports 0 (MakeMap m) w" "decodeCnf f w = Inr (publicCnf f c)"
    using cnf_parts_survive [OF cs(2-4), of 0] cs(1) fold by auto
  have "transports d (MakeMap m) w" if "d < 190" for d
    using cnf_parts_survive [OF cs(2-4) that] cs(1) transports_canon w(1) by metis
  with w(2) show ?thesis by blast
qed

section \<open>Claims survive the wire\<close>

text \<open>Private claims that come back as they were: values of the types that reading produces, under integer
  labels that are not registered, texts or booleans.\<close>

definition plain_any :: "private_any \<Rightarrow> bool" where
  "plain_any v = (case v of PInt64 _ \<Rightarrow> True | PString t \<Rightarrow> utf8_Valid t \<and> length t \<le> 2 ^ 24
     | PBytes b \<Rightarrow> length b \<le> 2 ^ 24 | PBool _ \<Rightarrow> True | _ \<Rightarrow> False)"

definition plain_label :: "private_any \<Rightarrow> bool" where
  "plain_label k = (plain_any k \<and> hashableAny k \<and> (case k of PInt64 x \<Rightarrow> \<not> (1 \<le> x \<and> x \<le> 8) | _ \<Rightarrow> True))"

definition anyVal :: "private_any \<Rightarrow> Value" where
  "anyVal v = (case toValue v of Inl _ \<Rightarrow> Null | Inr x \<Rightarrow> x)"

lemma plain_any_value:
  assumes "plain_any v"
  shows "toValue v = Inr (anyVal v)" and "transports d (anyVal v) (anyVal v)" and "fromValue (anyVal v) = v"
  using assms by (auto simp: plain_any_def anyVal_def toValue_def fromValue_def val_defs transports_leaf [unfolded val_defs]
      split: private_any.splits)

lemma plain_label_key:
  assumes "plain_label k"
  shows "plain_key (anyVal k)"
    and "entryKeyInt (anyVal k) = None \<or> (\<exists>n. entryKeyInt (anyVal k) = Some n \<and> \<not> (1 \<le> n \<and> n \<le> 8))"
proof -
  show "plain_key (anyVal k)" using assms
    by (cases k) (simp_all add: plain_label_def plain_any_def anyVal_def toValue_def hashableAny_def plain_keys)
  show "entryKeyInt (anyVal k) = None \<or> (\<exists>n. entryKeyInt (anyVal k) = Some n \<and> \<not> (1 \<le> n \<and> n \<le> 8))"
    using assms by (auto simp: plain_label_def plain_any_def anyVal_def toValue_def hashableAny_def entryKeyInt_def val_defs
        split: private_any.splits)
qed

datatype claim =
    CIss bytes | CSub bytes | CAud bytes | CExp Time | CNbf Time | CIat Time | CCti bytes
  | CCnf "MapEntry list" Confirmation | CPriv private_any private_any

definition claimEntry :: "claim \<Rightarrow> MapEntry" where
  "claimEntry c = (case c of
      CIss t \<Rightarrow> (Uint 1, Text t) | CSub t \<Rightarrow> (Uint 2, Text t) | CAud t \<Rightarrow> (Uint 3, Text t)
    | CExp t \<Rightarrow> (Uint 4, numericDate t) | CNbf t \<Rightarrow> (Uint 5, numericDate t) | CIat t \<Rightarrow> (Uint 6, numericDate t)
    | CCti b \<Rightarrow> (Uint 7, Bytes b) | CCnf m _ \<Rightarrow> (Uint 8, MakeMap m) | CPriv k v \<Rightarrow> (anyVal k, anyVal v))"

definition goodText :: "bytes \<Rightarrow> bool" where "goodText t \<longleftrightarrow> utf8_Valid t \<and> length t \<le> 2 ^ 24"

definition goodClaim :: "KeyFormats \<Rightarrow> claim \<Rightarrow> bool" where
  "goodClaim f c = (case c of
      CIss t \<Rightarrow> goodText t | CSub t \<Rightarrow> goodText t | CAud t \<Rightarrow> goodText t
    | CExp t \<Rightarrow> t_nsec t = 0 | CNbf t \<Rightarrow> t_nsec t = 0 | CIat t \<Rightarrow> t_nsec t = 0
    | CCti b \<Rightarrow> length b \<le> 2 ^ 24
    | CCnf m cnf \<Rightarrow> (\<exists>w. (\<forall>d < 190. transports d (MakeMap m) w) \<and> decodeCnf f w = Inr cnf)
    | CPriv k v \<Rightarrow> plain_label k \<and> plain_any v)"

definition applyClaim :: "claim \<Rightarrow> ClaimsSet \<Rightarrow> ClaimsSet" where
  "applyClaim c cs = (case c of
      CIss t \<Rightarrow> cs\<lparr>Issuer := t\<rparr> | CSub t \<Rightarrow> cs\<lparr>Subject := t\<rparr> | CAud t \<Rightarrow> cs\<lparr>Audience := t\<rparr>
    | CExp t \<Rightarrow> cs\<lparr>Expiration := t\<rparr> | CNbf t \<Rightarrow> cs\<lparr>NotBefore := t\<rparr> | CIat t \<Rightarrow> cs\<lparr>IssuedAt := t\<rparr>
    | CCti b \<Rightarrow> cs\<lparr>CWTID := b\<rparr> | CCnf _ cnf \<Rightarrow> cs\<lparr>CnfClaim := Some cnf\<rparr>
    | CPriv k v \<Rightarrow> cs\<lparr>Private := anyPut k v (Private cs)\<rparr>)"

lemma numericDate_canon: "t_nsec t = 0 \<Longrightarrow> canon detOpts (numericDate t) = numericDate t"
  using numericDate_transports transports_canon by blast

lemma claimStep_private:
  assumes "plain_label k" and "plain_any v"
  shows "claimStep f2i f (anyVal k, anyVal v) s = Inr (s\<lparr>Private := anyPut k v (Private s)\<rparr>)"
proof -
  have "hashableAny k" "plain_any k" using assms(1) by (simp_all add: plain_label_def)
  then have "storePrivate (anyVal k, anyVal v) s = Inr (s\<lparr>Private := anyPut k v (Private s)\<rparr>)"
    using assms(2) by (simp add: storePrivate_def plain_any_value)
  moreover have "claimStep f2i f (anyVal k, anyVal v) s = storePrivate (anyVal k, anyVal v) s"
    using plain_label_key(2) [OF assms(1)] by (auto simp: claimStep_def Let_def)
  ultimately show ?thesis by simp
qed

interpretation cwt: claim_map "goodClaim f" claimEntry "claimStep f2i f" applyClaim 190 for f f2i
proof unfold_locales
  fix c :: claim and d :: nat and s :: ClaimsSet assume g: "goodClaim f c"
  show "plain_key (fst (claimEntry c))"
    using g by (simp add: claimEntry_def plain_keys goodClaim_def plain_label_key split: claim.splits)
  show "transports d (snd (claimEntry c)) (canon detOpts (snd (claimEntry c)))" if "d < 190"
    using g that by (auto simp: goodClaim_def goodText_def claimEntry_def
        intro!: transports_self [OF transports_leaf(1)] transports_self [OF transports_leaf(2)]
          transports_self [OF numericDate_transports] transports_self [OF plain_any_value(2)]
        intro: transports_self split: claim.splits)
  show "claimStep f2i f (fst (claimEntry c), canon detOpts (snd (claimEntry c))) s = Inr (applyClaim c s)"
  proof (cases c)
    case (CCnf m cnf)
    then obtain w where w: "\<forall>d < 190. transports d (MakeMap m) w" "decodeCnf f w = Inr cnf" using g by (auto simp: goodClaim_def)
    then show ?thesis using CCnf transports_canon [OF w(1) [rule_format, of 0]]
      by (simp add: claimEntry_def claimStep_def entryKeyInt_Uint applyClaim_def orFail_def)
  next
    case (CPriv k v)
    then have "plain_label k" "plain_any v" using g by (simp_all add: goodClaim_def)
    then show ?thesis using CPriv claimStep_private plain_any_value(2) [of v 0, THEN transports_canon]
      by (simp add: claimEntry_def applyClaim_def)
  qed (use g in \<open>simp_all add: claimEntry_def claimStep_def Let_def entryKeyInt_Uint applyClaim_def leaf_canon
        numericDate_canon numericDate_round_trip goodClaim_def\<close>)
qed

text \<open>The claims of a set, in the order in which they are written.\<close>

definition claimsOf :: "KeyFormats \<Rightarrow> private_order \<Rightarrow> MapEntry list \<Rightarrow> ClaimsSet \<Rightarrow> claim list" where
  "claimsOf f ord m c =
     (if Issuer c \<noteq> [] then [CIss (Issuer c)] else []) @ (if Subject c \<noteq> [] then [CSub (Subject c)] else [])
     @ (if Audience c \<noteq> [] then [CAud (Audience c)] else [])
     @ (if \<not> Time_IsZero (Expiration c) then [CExp (Expiration c)] else [])
     @ (if \<not> Time_IsZero (NotBefore c) then [CNbf (NotBefore c)] else [])
     @ (if \<not> Time_IsZero (IssuedAt c) then [CIat (IssuedAt c)] else [])
     @ (if CWTID c \<noteq> [] then [CCti (CWTID c)] else [])
     @ (case CnfClaim c of None \<Rightarrow> [] | Some cnf \<Rightarrow> [CCnf m (publicCnf f cnf)])
     @ map (\<lambda>p. CPriv (fst p) (snd p)) (ord (Private c))"

definition plain_claims :: "ClaimsSet \<Rightarrow> bool" where
  "plain_claims c \<longleftrightarrow> goodText (Issuer c) \<and> goodText (Subject c) \<and> goodText (Audience c)
     \<and> t_nsec (Expiration c) = 0 \<and> t_nsec (NotBefore c) = 0 \<and> t_nsec (IssuedAt c) = 0 \<and> length (CWTID c) \<le> 2 ^ 24
     \<and> (case CnfClaim c of None \<Rightarrow> True | Some cnf \<Rightarrow> small_cnf cnf)
     \<and> (\<forall>p \<in> set (Private c). plain_label (fst p) \<and> plain_any (snd p)) \<and> distinct (map fst (Private c))
     \<and> length (Private c) + 8 \<le> 2 ^ 20"

definition publicClaims :: "KeyFormats \<Rightarrow> ClaimsSet \<Rightarrow> ClaimsSet" where
  "publicClaims f c = c\<lparr>CnfClaim := map_option (publicCnf f) (CnfClaim c)\<rparr>"

text \<open>Equal up to the order of the entries of the map of private claims.\<close>

definition same_claims :: "ClaimsSet \<Rightarrow> ClaimsSet \<Rightarrow> bool" where
  "same_claims a b \<longleftrightarrow> a\<lparr>Private := []\<rparr> = b\<lparr>Private := []\<rparr> \<and> mset (Private a) = mset (Private b)"

definition permutes_entries :: "private_order \<Rightarrow> bool" where
  "permutes_entries ord \<longleftrightarrow> (\<forall>ps. mset (ord ps) = mset ps)"

subsection \<open>What applying the claims in any order gives\<close>

definition isPriv :: "claim \<Rightarrow> bool" where "isPriv c \<longleftrightarrow> (case c of CPriv _ _ \<Rightarrow> True | _ \<Rightarrow> False)"

fun privOf :: "claim \<Rightarrow> (private_any \<times> private_any) list" where
  "privOf (CPriv k v) = [(k, v)]"
| "privOf _ = []"

definition applyCore :: "claim \<Rightarrow> ClaimsSet \<Rightarrow> ClaimsSet" where
  "applyCore c cs = (if isPriv c then cs else applyClaim c cs)"

lemma applyClaim_core: "(applyClaim c cs)\<lparr>Private := []\<rparr> = applyCore c (cs\<lparr>Private := []\<rparr>)"
  by (cases c) (simp_all add: applyClaim_def applyCore_def isPriv_def)

lemma fold_core: "(fold applyClaim qs cs)\<lparr>Private := []\<rparr> = fold applyCore qs (cs\<lparr>Private := []\<rparr>)"
  by (induction qs arbitrary: cs) (simp_all add: applyClaim_core)

lemma applyCore_commute:
  "fst (claimEntry x) \<noteq> fst (claimEntry y) \<Longrightarrow> applyCore x (applyCore y cs) = applyCore y (applyCore x cs)"
  by (cases x; cases y) (simp_all add: applyCore_def isPriv_def applyClaim_def claimEntry_def)

lemma fold_core_order:
  assumes "mset qs = mset cs" and "distinct (map (fst \<circ> claimEntry) cs)"
  shows "fold applyCore qs = fold applyCore cs"
proof (rule fold_multiset_equiv [OF _ assms(1)])
  fix x y assume "x \<in> set qs" "y \<in> set qs"
  moreover have "set qs = set cs" using assms(1) by (metis set_mset_mset)
  ultimately have "x = y \<or> fst (claimEntry x) \<noteq> fst (claimEntry y)"
    using assms(2) by (auto simp: distinct_map inj_on_def)
  then show "applyCore x \<circ> applyCore y = applyCore y \<circ> applyCore x" using applyCore_commute by (auto simp: fun_eq_iff)
qed

lemma anyEq_plain: "plain_label k \<Longrightarrow> anyEq k k' \<longleftrightarrow> k = k'"
  by (auto simp: anyEq_def plain_label_def plain_any_def split: private_any.splits)

lemma fold_private:
  assumes "\<forall>c \<in> set qs. isPriv c \<longrightarrow> plain_label (fst (hd (privOf c)))"
    and "distinct (map fst (Private cs @ concat (map privOf qs)))" and "\<forall>p \<in> set (Private cs). plain_label (fst p)"
  shows "Private (fold applyClaim qs cs) = Private cs @ concat (map privOf qs)"
  using assms
proof (induction qs arbitrary: cs)
  case (Cons c qs)
  show ?case
  proof (cases c)
    case (CPriv k v)
    have "anyPut k v (Private cs) = Private cs @ [(k, v)]"
      using Cons.prems CPriv by (auto simp: anyPut_def anyEq_plain)
    with Cons.IH [of "applyClaim c cs"] Cons.prems CPriv show ?thesis
      by (simp add: applyClaim_def isPriv_def)
  next
    case (CCnf m cnf)
    with Cons.IH [of "applyClaim c cs"] Cons.prems show ?thesis by (simp add: applyClaim_def)
  qed (use Cons.IH [of "applyClaim c cs"] Cons.prems in \<open>simp_all add: applyClaim_def\<close>)
qed simp

subsection \<open>The round trip\<close>

lemma anyVal_inject: "plain_any a \<Longrightarrow> plain_any b \<Longrightarrow> anyVal a = anyVal b \<longleftrightarrow> a = b"
  using plain_any_value(3) by metis

lemma label_not_registered: "plain_label k \<Longrightarrow> 1 \<le> n \<Longrightarrow> n \<le> 8 \<Longrightarrow> anyVal k \<noteq> Uint n"
  using plain_label_key(2) entryKeyInt_Uint by fastforce

lemma privateClaims_plain:
  "\<forall>p \<in> set ps. plain_label (fst p) \<and> plain_any (snd p) \<Longrightarrow>
    privateClaims ps = Inr (map claimEntry (map (\<lambda>p. CPriv (fst p) (snd p)) ps))"
proof (induction ps)
  case (Cons p ps)
  then have "plain_any (fst p)" "plain_any (snd p)" by (auto simp: plain_label_def)
  with Cons show ?case by (cases p) (simp add: plain_any_value(1) orFail_def claimEntry_def)
qed simp

lemma written_claims:
  assumes "plain_claims c" and "permutes_entries ord" and "cnfClaim f (CnfClaim c) = Inr cm"
  shows "\<exists>m. (\<forall>cnf. CnfClaim c = Some cnf \<longrightarrow> encodeCnf f cnf = Inr m)
    \<and> privateClaims (ord (Private c)) = Inr (map claimEntry (map (\<lambda>p. CPriv (fst p) (snd p)) (ord (Private c))))
    \<and> registeredClaims c @ cm @ map claimEntry (map (\<lambda>p. CPriv (fst p) (snd p)) (ord (Private c)))
        = map claimEntry (claimsOf f ord m c)"
proof -
  have "set (ord (Private c)) = set (Private c)" using assms(2) by (metis permutes_entries_def set_mset_mset)
  with assms(1) have "\<forall>p \<in> set (ord (Private c)). plain_label (fst p) \<and> plain_any (snd p)" by (simp add: plain_claims_def)
  note priv = privateClaims_plain [OF this]
  obtain m where m: "\<forall>cnf. CnfClaim c = Some cnf \<longrightarrow> encodeCnf f cnf = Inr m"
    "cm = map claimEntry (case CnfClaim c of None \<Rightarrow> [] | Some cnf \<Rightarrow> [CCnf m (publicCnf f cnf)])"
    using assms(3) by (cases "CnfClaim c") (auto simp: cnfClaim_def orFail_def claimEntry_def split: sum.splits)
  have "registeredClaims c @ cm = map claimEntry
     ((if Issuer c \<noteq> [] then [CIss (Issuer c)] else []) @ (if Subject c \<noteq> [] then [CSub (Subject c)] else [])
     @ (if Audience c \<noteq> [] then [CAud (Audience c)] else [])
     @ (if \<not> Time_IsZero (Expiration c) then [CExp (Expiration c)] else [])
     @ (if \<not> Time_IsZero (NotBefore c) then [CNbf (NotBefore c)] else [])
     @ (if \<not> Time_IsZero (IssuedAt c) then [CIat (IssuedAt c)] else [])
     @ (if CWTID c \<noteq> [] then [CCti (CWTID c)] else [])
     @ (case CnfClaim c of None \<Rightarrow> [] | Some cnf \<Rightarrow> [CCnf m (publicCnf f cnf)]))"
    unfolding m(2) registeredClaims_def textClaim_def dateClaim_def bytesClaim_def map_append
    by (simp add: if_distrib [of "map claimEntry"] claimEntry_def cong: if_cong)
  then show ?thesis using priv m(1) by (intro exI [of _ m]) (simp add: claimsOf_def)
qed

lemma opt_distinct:
  "distinct (map g (if P then [a] else []) @ ys) \<longleftrightarrow> distinct ys \<and> (P \<longrightarrow> g a \<notin> set ys)"
  by simp

lemma opt_mem: "x \<in> set (map g (if P then [a] else [])) \<longleftrightarrow> P \<and> x = g a"
  by auto

lemma claimsOf_good:
  assumes "plain_claims c" and "permutes_entries ord" and "key_format_laws cr f" and "parse_laws f"
    and "\<forall>cnf. CnfClaim c = Some cnf \<longrightarrow> encodeCnf f cnf = Inr m"
  shows "\<forall>q \<in> set (claimsOf f ord m c). goodClaim f q" and "distinct (map (fst \<circ> claimEntry) (claimsOf f ord m c))"
    and "length (claimsOf f ord m c) \<le> 2 ^ 20"
proof -
  have m: "mset (ord (Private c)) = mset (Private c)" using assms(2) by (simp add: permutes_entries_def)
  then have s: "set (ord (Private c)) = set (Private c)" and l: "length (ord (Private c)) = length (Private c)"
    by (metis set_mset_mset, metis size_mset)
  have "mset (map fst (ord (Private c))) = mset (map fst (Private c))" using m by simp
  then have "distinct (map fst (ord (Private c)))" using assms(1) mset_eq_imp_distinct_iff [of "map fst (ord (Private c))" "map fst (Private c)"]
    by (simp add: plain_claims_def)
  moreover have priv: "\<forall>p \<in> set (ord (Private c)). plain_label (fst p) \<and> plain_any (snd p)"
    using assms(1) s by (simp add: plain_claims_def)
  then have "inj_on anyVal (fst ` set (ord (Private c)))"
    by (auto simp: inj_on_def plain_label_def anyVal_inject)
  ultimately have d: "distinct (map (\<lambda>p. anyVal (fst p)) (ord (Private c)))"
    by (simp add: distinct_map inj_on_def) 
  have cnf: "goodClaim f (CCnf m (publicCnf f cnf))" if "CnfClaim c = Some cnf" for cnf
    using cnf_in_token [OF assms(3,4), of cnf m] assms(1,5) that by (auto simp: goodClaim_def plain_claims_def)
  show "\<forall>q \<in> set (claimsOf f ord m c). goodClaim f q"
    using assms(1) priv cnf by (auto simp: claimsOf_def plain_claims_def goodClaim_def split: option.splits)
  have reg: "anyVal (fst p) \<noteq> Uint n" if "p \<in> set (ord (Private c))" "1 \<le> n" "n \<le> 8" for p n
    using priv label_not_registered that by blast
  show "distinct (map (fst \<circ> claimEntry) (claimsOf f ord m c))"
  proof -
    have pm: "map (fst \<circ> claimEntry) (map (\<lambda>p. CPriv (fst p) (snd p)) (ord (Private c)))
        = map (\<lambda>p. anyVal (fst p)) (ord (Private c))"
      by (simp add: claimEntry_def comp_def)
    define rest where "rest = map (fst \<circ> claimEntry) (case CnfClaim c of None \<Rightarrow> [] | Some cnf \<Rightarrow> [CCnf m (publicCnf f cnf)])
        @ map (\<lambda>p. anyVal (fst p)) (ord (Private c))"
    have r: "Uint n \<notin> set (map (\<lambda>p. anyVal (fst p)) (ord (Private c)))" if "1 \<le> n" "n \<le> 8" for n
    proof
      assume "Uint n \<in> set (map (\<lambda>p. anyVal (fst p)) (ord (Private c)))"
      then show False using reg [OF _ that] by force
    qed
    have "distinct rest" using r [of 8] d by (cases "CnfClaim c") (simp_all add: rest_def claimEntry_def)
    moreover have "Uint n \<notin> set rest" if "1 \<le> n" "n \<le> 7" for n
    proof -
      have "n \<le> 8" using that(2) by (rule order_trans) simp
      moreover have "n \<noteq> 8" using that(2) by auto
      ultimately show ?thesis using r [OF that(1)] by (cases "CnfClaim c") (simp_all add: rest_def claimEntry_def Uint_def)
    qed
    ultimately show ?thesis
      unfolding claimsOf_def map_append pm rest_def [symmetric]
      by (simp only: opt_distinct opt_mem set_append Un_iff) (simp add: claimEntry_def Uint_def)
  qed
  show "length (claimsOf f ord m c) \<le> 2 ^ 20"
    using assms(1) l by (auto simp: claimsOf_def plain_claims_def split: option.splits)
qed

lemma fold_claimsOf_core:
  "fold applyCore (claimsOf f ord m c) emptyClaims = (publicClaims f c)\<lparr>Private := []\<rparr>"
proof -
  have priv: "fold applyCore (map (\<lambda>p. CPriv (fst p) (snd p)) ps) cs = cs" for ps cs
    by (induction ps arbitrary: cs) (simp_all add: applyCore_def isPriv_def)
  have zero: "Time_IsZero t \<longleftrightarrow> t = zeroTime" for t
    by (cases t) (simp add: Time_IsZero_def zeroTime_def)
  show ?thesis
    by (cases c) (auto simp: claimsOf_def priv applyCore_def isPriv_def applyClaim_def emptyClaims_def publicClaims_def
        zero split: option.splits)
qed

lemma mset_concat_map: "mset (concat (map g xs)) = (\<Sum>x \<in># mset xs. mset (g x))"
  by (induction xs) auto

lemma fold_claimsOf_private:
  assumes "plain_claims c" and "permutes_entries ord" and "mset qs = mset (claimsOf f ord m c)"
  shows "mset (Private (fold applyClaim qs emptyClaims)) = mset (Private c)"
proof -
  have m: "mset (ord (Private c)) = mset (Private c)" using assms(2) by (simp add: permutes_entries_def)
  then have sp: "set (ord (Private c)) = set (Private c)" by (metis set_mset_mset)
  have sq: "set qs = set (claimsOf f ord m c)" using assms(3) by (metis set_mset_mset)
  have "mset (concat (map privOf qs)) = mset (concat (map privOf (claimsOf f ord m c)))"
    unfolding mset_concat_map assms(3) ..
  also have "concat (map privOf (claimsOf f ord m c)) = ord (Private c)"
    by (auto simp: claimsOf_def comp_def split: option.splits)
  finally have p: "mset (concat (map privOf qs)) = mset (Private c)" using m by simp
  then have "mset (map fst (concat (map privOf qs))) = mset (map fst (Private c))" by simp
  then have "distinct (map fst (concat (map privOf qs)))"
    using assms(1) mset_eq_imp_distinct_iff [of "map fst (concat (map privOf qs))" "map fst (Private c)"]
    by (simp add: plain_claims_def)
  moreover have "\<forall>q \<in> set qs. isPriv q \<longrightarrow> plain_label (fst (hd (privOf q)))"
    using assms(1) sq sp by (auto simp: claimsOf_def isPriv_def plain_claims_def split: option.splits if_splits)
  ultimately have "Private (fold applyClaim qs emptyClaims) = concat (map privOf qs)"
    using fold_private [of qs emptyClaims] by (simp add: emptyClaims_def)
  with p show ?thesis by simp
qed

text \<open>A claims set that was encoded decodes to the same claims, up to the order of the private ones; of a
  confirmation key only the public part is in the token.\<close>

lemma claims_round_trip:
  assumes "plain_claims c" and "permutes_entries ord" and "key_format_laws cr f" and "parse_laws f"
    and "ClaimsEncode ord f c = Inr out" and "length out < 2 ^ 61"
  shows "\<exists>c'. DecodeClaimsSet f2i f out = Inr c' \<and> same_claims c' (publicClaims f c)"
proof -
  from assms(5) obtain cm where cm: "cnfClaim f (CnfClaim c) = Inr cm" by (auto simp: ClaimsEncode_def orFail_def split: sum.splits)
  obtain m where m: "\<forall>cnf. CnfClaim c = Some cnf \<longrightarrow> encodeCnf f cnf = Inr m"
    "privateClaims (ord (Private c)) = Inr (map claimEntry (map (\<lambda>p. CPriv (fst p) (snd p)) (ord (Private c))))"
    "registeredClaims c @ cm @ map claimEntry (map (\<lambda>p. CPriv (fst p) (snd p)) (ord (Private c)))
        = map claimEntry (claimsOf f ord m c)"
    using written_claims [OF assms(1,2) cm] by blast
  note good = claimsOf_good [OF assms(1-4) m(1)]
  have "encodeWith newEncoder (cwt.written (claimsOf f ord m c)) = Inr out"
    using assms(5) unfolding ClaimsEncode_def orFail_def cm m(2) sum.case m(3) newEncoder_def [symmetric] encodeWith_def
      cwt.written_def
    by (cases "Encode newEncoder [] (MakeMap (map claimEntry (claimsOf f ord m c)))") (auto split: option.splits)
  then have enc: "coseEncode (cwt.written (claimsOf f ord m c)) = Inr out" by (simp only: encodeWith_new)
  obtain qs where qs: "mset qs = mset (claimsOf f ord m c)"
    and t: "transports 0 (cwt.written (claimsOf f ord m c)) (MakeMap (cwt.wire qs))"
    and run: "\<forall>s. eachEntry (claimStep f2i f) (cwt.wire qs) s = Inr (fold applyClaim qs s)"
    using cwt.survives [OF good, of 0] by auto
  have "fst (DecodeWith (NewDecoder []) out) = Inr (MakeMap (cwt.wire qs))"
    using transports_decode [OF t enc assms(6)] by simp
  then have "DecodeClaimsSet f2i f out = Inr (fold applyClaim qs emptyClaims)" using run by (simp add: DecodeClaimsSet_def)
  moreover have "same_claims (fold applyClaim qs emptyClaims) (publicClaims f c)"
    using fold_core [of qs emptyClaims] fold_core_order [OF qs good(2)] fold_claimsOf_core [of f ord m c]
      fold_claimsOf_private [OF assms(1,2) qs]
    by (simp add: same_claims_def emptyClaims_def publicClaims_def)
  ultimately show ?thesis by blast
qed

end
