(* ===== verification/Cwt_Token.thy ===== *)
theory Cwt_Token
  imports Cwt_Claims Cose_Content
begin

text \<open>
  CBOR Web Tokens as COSE messages (\<^verbatim>\<open>cwt/token.go\<close>, \<^verbatim>\<open>cwt/encrypt.go\<close>) and their validation
  (\<^verbatim>\<open>cwt/validate.go\<close>). The theorems compose the round trip of the claims with the ones of COSE: what was signed
  or authenticated is verified, comes back, and is judged by a validator as the original claims are.
\<close>

section \<open>Tokens\<close>

definition liftCose :: "cose_error + 'a \<Rightarrow> cwt_error + 'a" where
  "liftCose r = (case r of Inl e \<Rightarrow> Inl (CwtCose e) | Inr x \<Rightarrow> Inr x)"

definition asMalformed :: "cose_error + 'a \<Rightarrow> cwt_error + 'a" where
  "asMalformed r = (case r of Inl e \<Rightarrow> Inl (if e = CosePanic then CwtPanic else ErrMalformedClaims) | Inr x \<Rightarrow> Inr x)"

definition CwtSign ::
  "order \<Rightarrow> private_order \<Rightarrow> KeyFormats \<Rightarrow> SignCrypto \<Rightarrow> nat \<Rightarrow> ClaimsSet \<Rightarrow> Signer \<Rightarrow> cwt_error + bytes" where
  "CwtSign ord pord f c draw claims signer =
     orFail (ClaimsEncode pord f claims) (\<lambda>payload.
     orFail (liftCose (Signer_Sign c draw signer (Some payload))) (\<lambda>msg.
     liftCose (fst (MarshalSign1 ord msg))))"

definition CwtVerify ::
  "order \<Rightarrow> (u64 \<Rightarrow> i64) \<Rightarrow> KeyFormats \<Rightarrow> SignCrypto \<Rightarrow> bytes \<Rightarrow> Verifier \<Rightarrow> cwt_error + ClaimsSet" where
  "CwtVerify ord f2i f c data verifier =
     orFail (asMalformed (UnmarshalSign1 data)) (\<lambda>msg.
       case fst (Verifier_Verify ord c verifier msg) of
         Some e \<Rightarrow> Inl (CwtCose e)
       | None \<Rightarrow> DecodeClaimsSet f2i f (orEmpty (Payload msg)))"

definition CwtEncrypt ::
  "order \<Rightarrow> private_order \<Rightarrow> KeyFormats \<Rightarrow> KeyCrypto \<Rightarrow> ClaimsSet \<Rightarrow> bytes \<Rightarrow> bytes \<Rightarrow> i64 \<Rightarrow> cwt_error + bytes" where
  "CwtEncrypt ord pord f c claims key nonce alg =
     orFail (ClaimsEncode pord f claims) (\<lambda>payload.
     orFail (liftCose (EncryptEncrypt0 ord c payload key nonce alg None)) (\<lambda>msg.
     liftCose (fst (MarshalEncrypt0 ord msg))))"

definition CwtDecrypt ::
  "order \<Rightarrow> (u64 \<Rightarrow> i64) \<Rightarrow> KeyFormats \<Rightarrow> KeyCrypto \<Rightarrow> bytes \<Rightarrow> bytes \<Rightarrow> bytes \<Rightarrow> i64 \<Rightarrow> cwt_error + ClaimsSet" where
  "CwtDecrypt ord f2i f c data key nonce alg =
     orFail (asMalformed (UnmarshalEncrypt0 data)) (\<lambda>msg.
     orFail (liftCose (fst (DecryptEncrypt0 ord c msg key nonce alg None))) (\<lambda>plaintext.
     DecodeClaimsSet f2i f plaintext))"

definition CwtMAC ::
  "order \<Rightarrow> private_order \<Rightarrow> KeyFormats \<Rightarrow> KeyCrypto \<Rightarrow> ClaimsSet \<Rightarrow> bytes \<Rightarrow> i64 \<Rightarrow> cwt_error + bytes" where
  "CwtMAC ord pord f c claims key alg =
     orFail (ClaimsEncode pord f claims) (\<lambda>payload.
     orFail (liftCose (ComputeMAC0 ord c (Some payload) key alg None)) (\<lambda>msg.
     liftCose (fst (MarshalMac0 ord msg))))"

definition CwtVerifyMAC ::
  "order \<Rightarrow> (u64 \<Rightarrow> i64) \<Rightarrow> KeyFormats \<Rightarrow> KeyCrypto \<Rightarrow> bytes \<Rightarrow> bytes \<Rightarrow> i64 \<Rightarrow> cwt_error + ClaimsSet" where
  "CwtVerifyMAC ord f2i f c data key alg =
     orFail (asMalformed (UnmarshalMac0 data)) (\<lambda>msg.
       case fst (VerifyMAC0 ord c msg key alg None) of
         Some e \<Rightarrow> Inl (CwtCose e)
       | None \<Rightarrow> DecodeClaimsSet f2i f (orEmpty (Payload msg)))"

section \<open>Validation\<close>

text \<open>The optional clock \<open>Now\<close> is read once; \<open>clock\<close> is what \<open>time.Now\<close> gives.\<close>

record Validator =
  v_Audience :: bytes
  Leeway :: i64
  Now :: "Time option"
  RequireExpiration :: bool
  RequireConfirmation :: bool

definition Validate :: "Time \<Rightarrow> Validator \<Rightarrow> ClaimsSet \<Rightarrow> cwt_error option" where
  "Validate clock v claims =
     (let now = (case Now v of None \<Rightarrow> clock | Some t \<Rightarrow> t) in
      if RequireExpiration v \<and> Time_IsZero (Expiration claims) then Some ErrMissingExpiration
      else if RequireConfirmation v \<and> CnfClaim claims = None then Some ErrMissingConfirmation
      else if \<not> Time_IsZero (Expiration claims) \<and> Time_After now (Time_Add (Expiration claims) (Leeway v))
        then Some ErrTokenExpired
      else if \<not> Time_IsZero (NotBefore claims) \<and> Time_Before now (Time_Add (NotBefore claims) (- Leeway v))
        then Some ErrTokenNotYetValid
      else if v_Audience v \<noteq> [] \<and> Audience claims \<noteq> v_Audience v then Some ErrAudienceMismatch
      else None)"

text \<open>The specification of a validator, over the integers: the instants of the claims in nanoseconds, with the
  leeway on both sides.\<close>

definition acceptable :: "Validator \<Rightarrow> int \<Rightarrow> ClaimsSet \<Rightarrow> bool" where
  "acceptable v now c \<longleftrightarrow>
     (RequireExpiration v \<longrightarrow> \<not> Time_IsZero (Expiration c)) \<and> (RequireConfirmation v \<longrightarrow> CnfClaim c \<noteq> None)
     \<and> (Time_IsZero (Expiration c) \<or> now \<le> instant (Expiration c) + sint (Leeway v))
     \<and> (Time_IsZero (NotBefore c) \<or> instant (NotBefore c) - sint (Leeway v) \<le> now)
     \<and> (v_Audience v = [] \<or> Audience c = v_Audience v)"

lemma sint_uminus64: "x \<noteq> 0x8000000000000000 \<Longrightarrow> sint (- x :: i64) = - sint x"
proof -
  assume x: "x \<noteq> 0x8000000000000000"
  have "sint x \<noteq> - (2 ^ 63)"
  proof
    assume "sint x = - (2 ^ 63)"
    then have "(of_int (sint x) :: i64) = of_int (- (2 ^ 63))" by simp
    then show False using x by simp
  qed
  moreover have "- x = of_int (- sint x)" by simp
  ultimately show ?thesis using sint_of_int64 [of "- sint x"] sint_range64 [of x] by (simp only:)
qed

text \<open>C29: A validator accepts exactly the claims that its specification accepts: present where they are required,
  not expired and not used too early by more than the leeway, and for the right audience. The times compare as
  integers, so neither the carry of the nanoseconds nor the sign of the leeway makes a difference, as long as
  the times are within 2^62 seconds of the year 1.\<close>
theorem validate_spec:
  assumes "valid_time now" and "moderate (Expiration c)" and "moderate (NotBefore c)"
    and "Leeway v \<noteq> 0x8000000000000000" and "now = (case Now v of None \<Rightarrow> clock | Some t \<Rightarrow> t)"
  shows "(Validate clock v c = None) = acceptable v (instant now) c"
proof -
  note exp = Time_Add_instant [OF assms(2), of "Leeway v"] and nbf = Time_Add_instant [OF assms(3), of "- Leeway v"]
  have "Time_After now (Time_Add (Expiration c) (Leeway v)) \<longleftrightarrow> instant now > instant (Expiration c) + sint (Leeway v)"
    using After_instant [OF assms(1)] exp by simp
  moreover have "Time_Before now (Time_Add (NotBefore c) (- Leeway v)) \<longleftrightarrow> instant now < instant (NotBefore c) - sint (Leeway v)"
    using Before_instant [OF assms(1)] nbf sint_uminus64 [OF assms(4)] by simp
  ultimately show ?thesis unfolding Validate_def acceptable_def Let_def assms(5) [symmetric] by auto
qed

theorem validate_spec_witness:
  "Validate zeroTime \<lparr>v_Audience = [97], Leeway = 60000000000, Now = Some \<lparr>t_sec = 1060, t_nsec = 500000000\<rparr>,
      RequireExpiration = True, RequireConfirmation = False\<rparr>
    (emptyClaims\<lparr>Audience := [97], Expiration := \<lparr>t_sec = 1000, t_nsec = 500000000\<rparr>\<rparr>) = None"
proof -
  let ?v = "\<lparr>v_Audience = [97], Leeway = 60000000000, Now = Some \<lparr>t_sec = 1060, t_nsec = 500000000\<rparr>,
      RequireExpiration = True, RequireConfirmation = False\<rparr>"
  let ?c = "emptyClaims\<lparr>Audience := [97], Expiration := \<lparr>t_sec = 1000, t_nsec = 500000000\<rparr>\<rparr>"
  have "acceptable ?v (instant \<lparr>t_sec = 1060, t_nsec = 500000000\<rparr>) ?c"
    by (simp add: acceptable_def instant_def Time_IsZero_def emptyClaims_def zeroTime_def)
  then show ?thesis
    by (subst validate_spec [of "\<lparr>t_sec = 1060, t_nsec = 500000000\<rparr>"])
      (simp_all add: valid_time_def moderate_def emptyClaims_def zeroTime_def)
qed

section \<open>Tokens over the wire\<close>

lemma same_claims_fields:
  assumes "same_claims a b"
  shows "Issuer a = Issuer b" "Expiration a = Expiration b" "NotBefore a = NotBefore b" "Audience a = Audience b"
    "CnfClaim a = CnfClaim b" "mset (Private a) = mset (Private b)"
proof -
  have eq: "a\<lparr>Private := []\<rparr> = b\<lparr>Private := []\<rparr>" using assms by (simp only: same_claims_def)
  show "Issuer a = Issuer b" using arg_cong [OF eq, of Issuer] by simp
  show "Expiration a = Expiration b" using arg_cong [OF eq, of Expiration] by simp
  show "NotBefore a = NotBefore b" using arg_cong [OF eq, of NotBefore] by simp
  show "Audience a = Audience b" using arg_cong [OF eq, of Audience] by simp
  show "CnfClaim a = CnfClaim b" using arg_cong [OF eq, of CnfClaim] by simp
  show "mset (Private a) = mset (Private b)" using assms by (simp add: same_claims_def)
qed

lemma same_claims_validate: "same_claims a (publicClaims f b) \<Longrightarrow> Validate clock v a = Validate clock v b"
proof -
  assume "same_claims a (publicClaims f b)"
  note same_claims_fields [OF this]
  then have eqs: "Expiration a = Expiration b" "NotBefore a = NotBefore b" "Audience a = Audience b"
    "CnfClaim a = None \<longleftrightarrow> CnfClaim b = None"
    by (simp_all add: publicClaims_def)
  show ?thesis unfolding Validate_def eqs by (rule refl)
qed

text \<open>C28: A signed token is accepted by the verifier of its key and gives back the claims that were signed, of a
  confirmation key only the public part; and a validator judges them as it judges the original claims. The
  claims may carry private entries of any order; the hypotheses are that times are whole seconds, strings are
  valid UTF-8 of moderate length and labels of private claims are neither registered nor unhashable.\<close>
theorem cwt_sign_verify:
  assumes "reorders ord1" and "reorders ord2" and "reorders ord3" and "permutes_entries pord"
    and "signing_laws c" and "key_format_laws cr f" and "parse_laws f" and "plain_claims claims"
    and "NewSigner ord1 c key [WithSignerExternalData ext] = Inr s"
    and "NewVerifier (PublicOf c key) [WithVerifierExternalData ext] = Inr v"
    and "ClaimsEncode pord f claims = Inr payload" and "length payload \<le> 2 ^ 24"
    and "CwtSign ord2 pord f c draw claims s = Inr token"
  shows "\<exists>claims'. CwtVerify ord3 f2i f c token v = Inr claims' \<and> same_claims claims' (publicClaims f claims)
    \<and> Validate clock validator claims' = Validate clock validator claims"
proof -
  from assms(11,13) obtain msg where msg: "Signer_Sign c draw s (Some payload) = Inr msg"
    and token: "fst (MarshalSign1 ord2 msg) = Inr token"
    by (auto simp: CwtSign_def orFail_def liftCose_def split: sum.splits)
  have "small (Some payload)" using assms(12) by (simp add: small_def)
  from sign1_wire [OF assms(1-3,5,9,10) this msg] token obtain m where
    m: "UnmarshalSign1 token = Inr m" "Payload m = Some payload" "fst (Verifier_Verify ord3 c v m) = None" by auto
  have "(2 :: nat) ^ 24 < 2 ^ 61" by simp
  with assms(12) have "length payload < 2 ^ 61" by (rule le_less_trans)
  then obtain claims' where "DecodeClaimsSet f2i f payload = Inr claims'" "same_claims claims' (publicClaims f claims)"
    using claims_round_trip [OF assms(8,4,6,7,11)] by blast
  with m show ?thesis by (auto simp: CwtVerify_def asMalformed_def orFail_def orEmpty_def same_claims_validate)
qed

text \<open>Claims with an issuer, an expiration, a confirmation key and a private claim.\<close>

definition toyKey :: Key where
  "toyKey = [keyLabelKty \<mapsto> KInt KeyTypeOKP, keyLabelCrv \<mapsto> KInt CurveEd25519, keyLabelX \<mapsto> KBytes (replicate 32 7),
     keyLabelD \<mapsto> KBytes [1, 2, 3]]"

definition toyClaims :: ClaimsSet where
  "toyClaims = emptyClaims\<lparr>Issuer := [97], Expiration := \<lparr>t_sec = 62135596801, t_nsec = 0\<rparr>,
     CnfClaim := Some (emptyCnf\<lparr>cnf_Key := Some toyKey\<rparr>), Private := [(PInt64 100, PBool True)]\<rparr>"

definition toyPayload :: bytes where
  "toyPayload = [0xA4, 0x01, 0x61, 0x61, 0x04, 0x01, 0x08, 0xA1, 0x01, 0xA3, 0x01, 0x01, 0x20, 0x06, 0x21, 0x58, 0x20]
     @ replicate 32 7 @ [0x18, 0x64, 0xF5]"

lemma toy_formats: "key_format_laws toyKeyCrypto toyFormats" "parse_laws toyFormats"
  by (auto simp: key_format_laws_def parse_laws_def toyKeyCrypto_def toyFormats_def curveKeySize_def split: if_splits)

lemma toyClaims_plain: "plain_claims toyClaims"
  by (simp add: plain_claims_def toyClaims_def emptyClaims_def zeroTime_def goodText_def small_cnf_def emptyCnf_def
      plain_label_def plain_any_def hashableAny_def)

lemma toyClaims_encode: "ClaimsEncode (\<lambda>ps. ps) toyFormats toyClaims = Inr toyPayload"
  by code_simp

lemma permutes_id: "permutes_entries (\<lambda>ps. ps)"
  by (simp add: permutes_entries_def)

theorem cwt_sign_verify_witness:
  "\<exists>token v claims'. verifier_key v = Ed25519Public [7] \<and> CwtVerify rev (\<lambda>_. 0) toyFormats toyCrypto token v = Inr claims'
    \<and> Issuer claims' = [97] \<and> Private claims' = [(PInt64 100, PBool True)]"
proof -
  obtain s v where s: "NewSigner (\<lambda>ps. ps) toyCrypto (Ed25519PrivateKey [7]) [WithSignerExternalData None] = Inr s"
    "NewVerifier (PublicOf toyCrypto (Ed25519PrivateKey [7])) [WithVerifierExternalData None] = Inr v"
    "signer_key s = Ed25519PrivateKey [7]"
    using NewSigner_toy [OF reorders_id] by blast
  note match = conjunct1 [OF NewSigner_NewVerifier [OF s(1,2)]]
  obtain msg where msg: "Signer_Sign toyCrypto 0 s (Some toyPayload) = Inr msg"
    using Signer_Sign_toy [OF match s(3)] by blast
  have small: "length toyPayload \<le> 2 ^ 24" by (simp add: toyPayload_def)
  then have "small (Some toyPayload)" by (simp add: small_def)
  from sign1_wire [OF reorders_id reorders_id reorders_rev toyCrypto_laws s(1,2) this msg]
  obtain token where "fst (MarshalSign1 (\<lambda>ps. ps) msg) = Inr token" by blast
  with msg toyClaims_encode have "CwtSign (\<lambda>ps. ps) (\<lambda>ps. ps) toyFormats toyCrypto 0 toyClaims s = Inr token"
    by (simp add: CwtSign_def orFail_def liftCose_def)
  from cwt_sign_verify [OF reorders_id reorders_id reorders_rev permutes_id toyCrypto_laws toy_formats toyClaims_plain
      s(1,2) toyClaims_encode small this, of "\<lambda>_. 0"]
  obtain claims' where c: "CwtVerify rev (\<lambda>_. 0) toyFormats toyCrypto token v = Inr claims'"
    "same_claims claims' (publicClaims toyFormats toyClaims)" by blast
  have "Issuer claims' = [97]" "Private claims' = [(PInt64 100, PBool True)]"
    using same_claims_fields [OF c(2)] by (simp_all add: publicClaims_def toyClaims_def)
  moreover have "verifier_key v = Ed25519Public [7]" using match s(3) by (simp add: matching_def toyCrypto_def)
  ultimately show ?thesis using c(1) by blast
qed

text \<open>The same for tokens under a shared key. The hypotheses on the primitives are that a MAC has at most 64 bytes and
  that AES-GCM adds a tag of 16.\<close>

lemma claims_in_payload:
  assumes "plain_claims claims" and "permutes_entries pord" and "key_format_laws cr f" and "parse_laws f"
    and "ClaimsEncode pord f claims = Inr payload" and "length payload + 16 \<le> 2 ^ 24"
  shows "\<exists>claims'. DecodeClaimsSet f2i f payload = Inr claims' \<and> same_claims claims' (publicClaims f claims)"
proof -
  have "(2 :: nat) ^ 24 < 2 ^ 61" by simp
  with assms(6) have "length payload < 2 ^ 61" by linarith
  then show ?thesis using claims_round_trip [OF assms(1-5)] by blast
qed

text \<open>C30: A token that was authenticated with a MAC or encrypted under a shared key gives back its claims to the holder
  of the key: CwtVerifyMAC after CwtMAC, and CwtDecrypt after CwtEncrypt, whatever the orders of the maps.\<close>
theorem cwt_shared_key:
  assumes "reorders ord1" and "reorders ord2" and "permutes_entries pord"
    and "key_laws c" and "key_format_laws cr f" and "parse_laws f" and "plain_claims claims"
    and "\<forall>h k m. length (HmacSum c h k m) \<le> 64" and "\<forall>k n p a. length (GcmSeal c k n p a) = length p + 16"
    and "ClaimsEncode pord f claims = Inr payload" and "length payload + 16 \<le> 2 ^ 24" and "length token < 2 ^ 61"
    and "CwtMAC ord1 pord f c claims key alg = Inr token \<or> CwtEncrypt ord1 pord f c claims key nonce alg = Inr token"
  shows "\<exists>claims'. same_claims claims' (publicClaims f claims)
    \<and> (CwtMAC ord1 pord f c claims key alg = Inr token \<longrightarrow> CwtVerifyMAC ord2 f2i f c token key alg = Inr claims')
    \<and> (CwtEncrypt ord1 pord f c claims key nonce alg = Inr token \<longrightarrow> CwtDecrypt ord2 f2i f c token key nonce alg = Inr claims')"
proof -
  obtain claims' where claims': "DecodeClaimsSet f2i f payload = Inr claims'" "same_claims claims' (publicClaims f claims)"
    using claims_in_payload [OF assms(7,3,5,6,10,11)] by blast
  have "CwtVerifyMAC ord2 f2i f c token key alg = Inr claims'" if "CwtMAC ord1 pord f c claims key alg = Inr token"
  proof -
    from that assms(10) obtain msg where msg: "ComputeMAC0 ord1 c (Some payload) key alg None = Inr msg"
      "fst (MarshalMac0 ord1 msg) = Inr token"
      by (auto simp: CwtMAC_def orFail_def liftCose_def split: sum.splits)
    have "length (MacTag msg) \<le> 64"
      using msg(1) assms(8)
      by (cases "encodeProtected ord1 (SetAlgorithm alg NoHeaders)"; cases "fst (encodeProtected ord1 (SetAlgorithm alg NoHeaders))")
        (auto simp: ComputeMAC0_def orElse_eq_Inr truncatedTag_def Let_def min_le_iff_disj)
    then have tag: "length (MacTag msg) \<le> 2 ^ 24" by simp
    have "small (Some payload)" using assms(11) by (simp add: small_def)
    from mac0_wire [OF assms(1,1,2) this msg(1) tag msg(2) assms(12)] obtain m where
      "UnmarshalMac0 token = Inr m" "fst (VerifyMAC0 ord2 c m key alg None) = None" "Payload m = Some payload" by blast
    then show ?thesis using claims'(1) by (simp add: CwtVerifyMAC_def asMalformed_def orFail_def orEmpty_def)
  qed
  moreover have "CwtDecrypt ord2 f2i f c token key nonce alg = Inr claims'"
    if "CwtEncrypt ord1 pord f c claims key nonce alg = Inr token"
  proof -
    from that assms(10) obtain msg where msg: "EncryptEncrypt0 ord1 c payload key nonce alg None = Inr msg"
      "fst (MarshalEncrypt0 ord1 msg) = Inr token"
      by (auto simp: CwtEncrypt_def orFail_def liftCose_def split: sum.splits)
    have "small (Ciphertext msg)"
      using msg(1) assms(9,11)
      by (cases "encodeProtected ord1 (SetAlgorithm alg NoHeaders)"; cases "fst (encodeProtected ord1 (SetAlgorithm alg NoHeaders))")
        (auto simp: EncryptEncrypt0_def orElse_eq_Inr small_def split: option.splits if_splits)
    from encrypt0_wire [OF assms(1,1,2,4) msg(1) this msg(2) assms(12)] claims'(1) show ?thesis
      by (auto simp: CwtDecrypt_def asMalformed_def orFail_def liftCose_def)
  qed
  ultimately show ?thesis using claims'(2) by blast
qed

lemma toyKeys_laws: "key_laws toyKeys"
  by (auto simp: key_laws_def toyKeys_def block_laws_def BlockCipher.truncate_def add.commute)

theorem cwt_shared_key_witness:
  "\<exists>token claims'. CwtVerifyMAC rev (\<lambda>_. 0) toyFormats toyKeys token [1] AlgHMAC256 = Inr claims' \<and> Issuer claims' = [97]"
proof -
  have "case CwtMAC (\<lambda>ps. ps) (\<lambda>ps. ps) toyFormats toyKeys toyClaims [1] AlgHMAC256 of Inl _ \<Rightarrow> False
      | Inr token \<Rightarrow> length token < 200" by code_simp
  then obtain token where token: "CwtMAC (\<lambda>ps. ps) (\<lambda>ps. ps) toyFormats toyKeys toyClaims [1] AlgHMAC256 = Inr token"
    and l: "length token < 200" by (auto split: sum.splits)
  have "(200 :: nat) < 2 ^ 61" by simp
  with l have l: "length token < 2 ^ 61" by (rule less_trans)
  have "\<forall>h k m. length (HmacSum toyKeys h k m) \<le> 64" by (simp add: toyKeys_def min_le_iff_disj del: take_append length_append)
  moreover have "\<forall>k n p a. length (GcmSeal toyKeys k n p a) = length p + 16" by (simp add: toyKeys_def)
  moreover have "length toyPayload + 16 \<le> 2 ^ 24" by (simp add: toyPayload_def)
  ultimately obtain claims' where "same_claims claims' (publicClaims toyFormats toyClaims)"
    "CwtVerifyMAC rev (\<lambda>_. 0) toyFormats toyKeys token [1] AlgHMAC256 = Inr claims'"
    using cwt_shared_key [OF reorders_id reorders_rev permutes_id toyKeys_laws toy_formats toyClaims_plain _ _
        toyClaims_encode _ l disjI1 [OF token], of "\<lambda>_. 0" "[]"] token by blast
  moreover have "Issuer claims' = [97]" if "same_claims claims' (publicClaims toyFormats toyClaims)" for claims'
    using same_claims_fields(1) [OF that] by (simp add: publicClaims_def toyClaims_def)
  ultimately show ?thesis by blast
qed

section \<open>Claims that are not what they seem\<close>

text \<open>A map with one entry, as the decoder reads it.\<close>

lemma single_claim:
  assumes "plain_key k" and "transports 1 v w" and "coseEncode (MakeMap [(k, v)]) = Inr out" and "length out < 2 ^ 61"
  shows "DecodeClaimsSet f2i f out = eachEntry (claimStep f2i f) [(k, w)] emptyClaims"
proof -
  have v: "canon detOpts v = w" using assms(2) by (rule transports_canon)
  have "transports 0 (MakeMap [(k, v)]) (MakeMap [(k, w)])"
    using transports_entries [of "[(k, v)]" 0] assms(1,2) by (simp add: entryOrder_def v)
  from transports_decode [OF this assms(3,4)] have "fst (DecodeWith (NewDecoder []) out) = Inr (MakeMap [(k, w)])" by simp
  then show ?thesis by (simp add: DecodeClaimsSet_def)
qed

text \<open>A claims set with a byte string as the label of a claim makes DecodeClaimsSet panic: the label is stored in a
  Go map, whose keys cannot be byte slices. The value of the claim does not matter.\<close>
lemma cwt_unhashable_label_panics:
  assumes "length b \<le> 2 ^ 24" and "transports 1 v w"
    and "coseEncode (MakeMap [(Bytes b, v)]) = Inr out" and "length out < 2 ^ 61"
  shows "DecodeClaimsSet f2i f out = Inl CwtPanic"
  using single_claim [OF plain_keys(4) [OF assms(1)] assms(2-4)]
  by (simp add: claimStep_def Let_def entryKeyInt_def storePrivate_def fromValue_def hashableAny_def)

lemma cwt_unhashable_label_panics_witness:
  "DecodeClaimsSet (\<lambda>_. 0) toyFormats [0xA1, 0x40, 0x00] = Inl CwtPanic"
proof -
  have "coseEncode (MakeMap [(Bytes [], Uint 0)]) = Inr [0xA1, 0x40, 0x00]" by code_simp
  then show ?thesis by (intro cwt_unhashable_label_panics [of "[]" "Uint 0" "Uint 0"]) (simp_all add: transports_leaf)
qed

text \<open>Labels are converted to an \<open>int64\<close> without a check of their range: the label \<open>-(2 ^ 64 - 1)\<close> is read as the
  issuer, and a date of \<open>2 ^ 63\<close> seconds or more as one in the past.\<close>

lemma negative_label_is_issuer:
  assumes "utf8_Valid t" and "length t \<le> 2 ^ 24"
    and "coseEncode (MakeMap [(NegInt 0xFFFFFFFFFFFFFFFE, Text t)]) = Inr out" and "length out < 2 ^ 61"
  shows "DecodeClaimsSet f2i f out = Inr (emptyClaims\<lparr>Issuer := t\<rparr>)"
  using single_claim [OF plain_keys(2) transports_leaf(2) [OF assms(2,1)] assms(3,4)]
  by (simp add: claimStep_def Let_def entryKeyInt_def NegInt_def)

lemma large_date_is_past:
  "parseNumericDate f2i (Uint (2 ^ 63 + n)) = Some \<lparr>t_sec = n - 9223371974719179008, t_nsec = 0\<rparr>"
  by (simp add: parseNumericDate_def val_defs time_Unix_seconds unixToInternal_def)

text \<open>An octet key pair on any curve is read as an Ed25519 key.\<close>

lemma okp_curve_ignored:
  assumes "intAt 1 pos = Inr KeyTypeOKP" and "bytesAt 1 neg = Inr x"
  shows "coseKeyFromMaps f (pos, neg) = coseKeyFromMaps f (pos, neg(0 \<mapsto> KInt 4))"
  using assms by (simp add: coseKeyFromMaps_def orFail_def bytesAt_def)

end
