(* ===== verification/Edhoc_Message.thy ===== *)
theory Edhoc_Message
  imports Cwt_Token Aes_Ccm
begin

text \<open>
  EDHOC messages, cipher suites and the key schedule (\<^verbatim>\<open>edhoc/message.go\<close>, \<^verbatim>\<open>edhoc/ciphersuite.go\<close>,
  \<^verbatim>\<open>edhoc/keyschedule.go\<close>). Messages are CBOR sequences. The record \<open>env\<close> holds what the code calls of Go's
  cryptographic packages: the primitives of COSE and the key formats, HKDF-SHA256 and ECDSA signatures as pairs
  of numbers.
\<close>

section \<open>Environment and errors\<close>

datatype edhoc_error =
    ErrAuthentication | ErrMessageFormat | ErrStateViolation | ErrEdhocSuite | EdhocRandom | EdhocHkdf | EdhocSign
  | EdhocCcm ccm_error | EdhocCbor cbor_error | EdhocKey cose_error | EdhocPanic

record EdhocEnv = KeyCrypto +
  Signing :: SignCrypto
  Formats :: KeyFormats
  FloatToInt :: "u64 \<Rightarrow> i64"
  MapOrder :: order
  HkdfExtract :: "bytes \<Rightarrow> bytes"
  HkdfExpand :: "bytes \<Rightarrow> bytes \<Rightarrow> int \<Rightarrow> bytes option"
  EcdsaSign :: "nat \<Rightarrow> SignerKey \<Rightarrow> bytes \<Rightarrow> (nat \<times> nat) option"
  EcdsaVerify :: "PublicKey \<Rightarrow> bytes \<Rightarrow> nat \<Rightarrow> nat \<Rightarrow> bool"
  OtherCurveSize :: "PublicKey \<Rightarrow> nat"
  EcdsaFromXY :: "curve \<Rightarrow> bytes \<Rightarrow> bytes \<Rightarrow> PublicKey"

definition Sha256 :: "EdhocEnv \<Rightarrow> bytes \<Rightarrow> bytes" where
  "Sha256 env b = SumOf (Signing env) SHA256 b"

definition blockOf :: "EdhocEnv \<Rightarrow> BlockCipher" where
  "blockOf env = BlockCipher.truncate env"

section \<open>Cipher suites\<close>

definition Suite0 :: i64 where "Suite0 = 0"
definition Suite2 :: i64 where "Suite2 = 2"

record suiteParams =
  AEADKeySize :: int
  AEADTagSize :: int
  AEADNonceLen :: int
  HashSize :: int
  DHCurve :: dh_curve

definition getSuiteParams :: "i64 \<Rightarrow> suiteParams" where
  "getSuiteParams suite =
     (if suite = Suite2 then
        \<lparr>AEADKeySize = 16, AEADTagSize = 8, AEADNonceLen = 13, HashSize = 32, DHCurve = DH_P256\<rparr>
      else \<lparr>AEADKeySize = 16, AEADTagSize = 8, AEADNonceLen = 13, HashSize = 32, DHCurve = DH_X25519\<rparr>)"

definition isSuiteSupported :: "i64 \<Rightarrow> bool" where
  "isSuiteSupported suite \<longleftrightarrow> suite = Suite0 \<or> suite = Suite2"

section \<open>Encoding and decoding of single items\<close>

definition edhocOpts :: EncodeOpts where
  "edhocOpts = \<lparr>Deterministic = True, EncSortMode = SortBytewiseLex, EncFloatMode = FloatShortest,
     AllowNonFiniteFloats = False, AllowInvalidUTF8 = False, SkipUTF8Validation = False\<rparr>"

definition cborEncodeValue :: "bytes \<Rightarrow> Value \<Rightarrow> edhoc_error + bytes" where
  "cborEncodeValue buf v = (case encode edhocOpts buf v of (_, Some e) \<Rightarrow> Inl (EdhocCbor e) | (out, None) \<Rightarrow> Inr out)"

text \<open>Every caller of \<open>decodeOneValue\<close> reports its errors as a malformed message.\<close>

definition decodeOneValue :: "bytes \<Rightarrow> edhoc_error + Value \<times> bytes" where
  "decodeOneValue data =
     (if data = [] then Inl ErrMessageFormat
      else case fst (Decode data DefaultOpts NilState) of
        Inl f \<Rightarrow> Inl (if f = Panic then EdhocPanic else ErrMessageFormat)
      | Inr (v, n) \<Rightarrow> Inr (v, drop n data))"

definition asFormat :: "edhoc_error + 'a \<Rightarrow> edhoc_error + 'a" where
  "asFormat r = (case r of Inr x \<Rightarrow> Inr x | Inl _ \<Rightarrow> Inl ErrMessageFormat)"

definition encodeCBORArray :: "Value list \<Rightarrow> edhoc_error + bytes" where
  "encodeCBORArray items = cborEncodeValue [] (MakeArray items)"

definition encodeConnectionID :: "bytes \<Rightarrow> bytes \<Rightarrow> edhoc_error + bytes" where
  "encodeConnectionID buf cid =
     (if length cid = 1 \<and> cid ! 0 < 24 then cborEncodeValue buf (Uint (ucast (cid ! 0)))
      else cborEncodeValue buf (Bytes cid))"

definition decodeConnectionID :: "bytes \<Rightarrow> edhoc_error + bytes \<times> bytes" where
  "decodeConnectionID data =
     orFail (decodeOneValue data) (\<lambda>(v, rest).
       if Kind v = KindUint then Inr ([ucast (UintVal v)], rest)
       else if Kind v = KindBytes then Inr (BytesVal v, rest)
       else Inl ErrMessageFormat)"

definition decodeBytes :: "bytes \<Rightarrow> edhoc_error + bytes \<times> bytes" where
  "decodeBytes data =
     orFail (decodeOneValue data) (\<lambda>(v, rest). if Kind v = KindBytes then Inr (BytesVal v, rest) else Inl ErrMessageFormat)"

definition encodeSuites :: "bytes \<Rightarrow> i64 list \<Rightarrow> edhoc_error + bytes" where
  "encodeSuites buf suites =
     (if length suites = 1 then cborEncodeValue buf (Uint (suites ! 0))
      else cborEncodeValue buf (MakeArray (map Uint suites)))"

definition decodeSuites :: "bytes \<Rightarrow> edhoc_error + (i64 list \<times> i64) \<times> bytes" where
  "decodeSuites data =
     orFail (decodeOneValue data) (\<lambda>(v, rest).
       if Kind v = KindUint then Inr (([UintVal v], UintVal v), rest)
       else if Kind v = KindArray then
         (if Items v = [] then Inl ErrMessageFormat
          else if \<exists>x \<in> set (Items v). Kind x \<noteq> KindUint then Inl ErrMessageFormat
          else Inr ((map UintVal (Items v), UintVal (Items v ! 0)), rest))
       else Inl ErrMessageFormat)"

section \<open>Messages\<close>

record message1 =
  Method :: i64
  m1_Suites :: "i64 list"
  SuitesSel :: i64
  GX :: bytes
  CI :: bytes

record message2 =
  GY :: bytes
  CR :: bytes
  m2_Ciphertext :: bytes

definition encodeMessage1 :: "message1 \<Rightarrow> edhoc_error + bytes" where
  "encodeMessage1 m =
     orFail (asFormat (cborEncodeValue [] (Uint (Method m)))) (\<lambda>buf.
     orFail (asFormat (encodeSuites buf (m1_Suites m))) (\<lambda>buf.
     orFail (asFormat (cborEncodeValue buf (Bytes (GX m)))) (\<lambda>buf.
     encodeConnectionID buf (CI m))))"

definition decodeMessage1 :: "bytes \<Rightarrow> edhoc_error + message1" where
  "decodeMessage1 data =
     orFail (decodeOneValue data) (\<lambda>(method, rest).
     if Kind method \<noteq> KindUint then Inl ErrMessageFormat
     else orFail (decodeSuites rest) (\<lambda>((suites, selected), rest).
     orFail (decodeBytes rest) (\<lambda>(gx, rest).
     orFail (decodeConnectionID rest) (\<lambda>(ci, _).
     Inr \<lparr>Method = UintVal method, m1_Suites = suites, SuitesSel = selected, GX = gx, CI = ci\<rparr>))))"

definition encodeMessage2 :: "message2 \<Rightarrow> edhoc_error + bytes" where
  "encodeMessage2 m =
     orFail (asFormat (cborEncodeValue [] (Bytes (GY m)))) (\<lambda>buf.
     orFail (encodeConnectionID buf (CR m)) (\<lambda>buf.
     asFormat (cborEncodeValue buf (Bytes (m2_Ciphertext m)))))"

definition decodeMessage2 :: "bytes \<Rightarrow> edhoc_error + message2" where
  "decodeMessage2 data =
     orFail (decodeBytes data) (\<lambda>(gy, rest).
     orFail (decodeConnectionID rest) (\<lambda>(cr, rest).
     orFail (decodeBytes rest) (\<lambda>(ct, _).
     Inr \<lparr>GY = gy, CR = cr, m2_Ciphertext = ct\<rparr>)))"

text \<open>A third message is its ciphertext.\<close>

definition encodeMessage3 :: "bytes \<Rightarrow> edhoc_error + bytes" where
  "encodeMessage3 ct = asFormat (cborEncodeValue [] (Bytes ct))"

definition decodeMessage3 :: "bytes \<Rightarrow> edhoc_error + bytes" where
  "decodeMessage3 data = orFail (decodeBytes data) (\<lambda>(ct, _). Inr ct)"

section \<open>Key schedule\<close>

text \<open>Errors of the encoder are dropped in the transcript hashes, where a nil slice takes the place of the item.\<close>

definition encodedOrNil :: "edhoc_error + bytes \<Rightarrow> bytes" where
  "encodedOrNil r = (case r of Inl _ \<Rightarrow> [] | Inr b \<Rightarrow> b)"

definition computeTH2 :: "EdhocEnv \<Rightarrow> bytes \<Rightarrow> bytes \<Rightarrow> bytes \<Rightarrow> bytes" where
  "computeTH2 env message1Raw gY cR =
     Sha256 env (message1Raw @ encodedOrNil (cborEncodeValue [] (Bytes gY)) @ encodedOrNil (encodeConnectionID [] cR))"

definition computeTH3 :: "EdhocEnv \<Rightarrow> bytes \<Rightarrow> bytes \<Rightarrow> bytes" where
  "computeTH3 env th2 ciphertext2 =
     Sha256 env (encodedOrNil (cborEncodeValue [] (Bytes th2)) @ encodedOrNil (cborEncodeValue [] (Bytes ciphertext2)))"

definition computeTH4 :: "EdhocEnv \<Rightarrow> bytes \<Rightarrow> bytes \<Rightarrow> bytes" where
  "computeTH4 env th3 ciphertext3 =
     Sha256 env (encodedOrNil (cborEncodeValue [] (Bytes th3)) @ encodedOrNil (cborEncodeValue [] (Bytes ciphertext3)))"

definition extractPRK2e :: "EdhocEnv \<Rightarrow> bytes \<Rightarrow> bytes" where
  "extractPRK2e env sharedSecret = HkdfExtract env sharedSecret"

text \<open>A negative length makes \<open>make\<close> panic.\<close>

definition hkdfExpand :: "EdhocEnv \<Rightarrow> bytes \<Rightarrow> bytes \<Rightarrow> int \<Rightarrow> edhoc_error + bytes" where
  "hkdfExpand env prk info n =
     (if n < 0 then Inl EdhocPanic
      else case HkdfExpand env prk info n of None \<Rightarrow> Inl EdhocHkdf | Some out \<Rightarrow> Inr out)"

definition edhocKDF :: "EdhocEnv \<Rightarrow> bytes \<Rightarrow> bytes \<Rightarrow> string \<Rightarrow> int \<Rightarrow> edhoc_error + bytes" where
  "edhocKDF env prk transcriptHash label n =
     orFail (encodeCBORArray [Bytes transcriptHash, Text (goString label), Uint (of_int n)]) (\<lambda>info.
     hkdfExpand env prk info n)"

definition encodeExporterInfo :: "bytes \<Rightarrow> bytes \<Rightarrow> bytes \<Rightarrow> int \<Rightarrow> edhoc_error + bytes" where
  "encodeExporterInfo th4 label ctx n = encodeCBORArray [Bytes th4, Text label, Bytes ctx, Uint (of_int n)]"

end
