(* ===== verification/Edhoc_Credential.thy ===== *)
theory Edhoc_Credential
  imports Edhoc_Message
begin

text \<open>
  EDHOC credentials (\<^verbatim>\<open>edhoc/credential.go\<close>) and signatures (the second half of \<^verbatim>\<open>edhoc/initiator.go\<close>): raw
  public keys or CWTs whose confirmation claim holds the key. The fallback of \<open>extractPublicKeyFromCWT\<close>, which
  looks for the confirmation among the private claims, is modelled and shown to be dead: a claims set that was
  decoded never holds a registered label among them.
\<close>

section \<open>Values as Go maps\<close>

datatype native =
    NInt i64 | NBytes bytes | NText bytes | NMap "(i64 \<times> native) list" | NValue Value | NOther

definition cborToInt64 :: "Value \<Rightarrow> i64" where
  "cborToInt64 v = (case Kind v of KindUint \<Rightarrow> UintVal v | KindNegInt \<Rightarrow> - 1 - NegIntVal v | _ \<Rightarrow> 0)"

function cborToNative :: "Value \<Rightarrow> native" where
  "cborToNative (Value k n s b items pairs) =
     (case k of
        KindUint \<Rightarrow> NInt n
      | KindNegInt \<Rightarrow> NInt (- 1 - n)
      | KindBytes \<Rightarrow> NBytes b
      | KindText \<Rightarrow> NText s
      | KindMap \<Rightarrow> NMap (map (\<lambda>p. (cborToInt64 (fst p), cborToNative (snd p))) pairs)
      | _ \<Rightarrow> NValue (Value k n s b items pairs))"
  by pat_completeness auto
termination
  by (relation "measure size") (simp_all only: in_measure wf_measure size_pair)

text \<open>A private claim in the type switch of \<open>valueToMap\<close>. A map is the list of its assignments, the last one
  for a key counts.\<close>

definition asNative :: "private_any \<Rightarrow> native" where
  "asNative v = (case v of PValue x \<Rightarrow> NValue x | _ \<Rightarrow> NOther)"

definition valueToMap :: "native \<Rightarrow> edhoc_error + (i64 \<times> native) list" where
  "valueToMap v = (case v of
      NValue x \<Rightarrow> if Kind x \<noteq> KindMap then Inl ErrMessageFormat
        else Inr (map (\<lambda>p. (cborToInt64 (fst p), cborToNative (snd p))) (Pairs x))
    | NMap m \<Rightarrow> Inr m
    | _ \<Rightarrow> Inl ErrMessageFormat)"

definition lookupNative :: "i64 \<Rightarrow> (i64 \<times> native) list \<Rightarrow> native option" where
  "lookupNative k m = map_of (rev m) k"

definition extractOKPPublicKey :: "(i64 \<times> native) list \<Rightarrow> edhoc_error + PublicKey" where
  "extractOKPPublicKey m = (case lookupNative (- 2) m of
      Some (NBytes x) \<Rightarrow> if length x \<noteq> 32 then Inl ErrMessageFormat else Inr (Ed25519Public x)
    | _ \<Rightarrow> Inl ErrMessageFormat)"

definition extractEC2PublicKey :: "EdhocEnv \<Rightarrow> (i64 \<times> native) list \<Rightarrow> edhoc_error + PublicKey" where
  "extractEC2PublicKey env m = (case lookupNative (- 1) m of
      Some (NInt crv) \<Rightarrow>
        orFail (if crv = CurveP256 then Inr P256 else if crv = CurveP384 then Inr P384 else Inl ErrEdhocSuite) (\<lambda>cv.
          case lookupNative (- 2) m of
            Some (NBytes x) \<Rightarrow>
              (case lookupNative (- 3) m of Some (NBytes y) \<Rightarrow> Inr (EcdsaFromXY env cv x y) | _ \<Rightarrow> Inl ErrMessageFormat)
          | _ \<Rightarrow> Inl ErrMessageFormat)
    | _ \<Rightarrow> Inl ErrMessageFormat)"

definition coseKeyMapToPublicKey :: "EdhocEnv \<Rightarrow> (i64 \<times> native) list \<Rightarrow> edhoc_error + PublicKey" where
  "coseKeyMapToPublicKey env m = (case lookupNative 1 m of
      Some (NInt kty) \<Rightarrow>
        if kty = KeyTypeOKP then extractOKPPublicKey m
        else if kty = KeyTypeEC2 then extractEC2PublicKey env m
        else Inl ErrEdhocSuite
    | _ \<Rightarrow> Inl ErrMessageFormat)"

section \<open>The key of a CWT credential\<close>

definition privateCnfKey :: "EdhocEnv \<Rightarrow> private_entries \<Rightarrow> edhoc_error + PublicKey" where
  "privateCnfKey env ps = (case map_of ps (PInt64 8) of
      None \<Rightarrow> Inl ErrMessageFormat
    | Some cnfVal \<Rightarrow> orFail (valueToMap (asNative cnfVal)) (\<lambda>cnfMap.
        case lookupNative 1 cnfMap of
          None \<Rightarrow> Inl ErrMessageFormat
        | Some coseKeyVal \<Rightarrow> orFail (valueToMap coseKeyVal) (coseKeyMapToPublicKey env)))"

definition extractPublicKeyFromCWT :: "EdhocEnv \<Rightarrow> bytes \<Rightarrow> PublicKey \<Rightarrow> edhoc_error + PublicKey" where
  "extractPublicKeyFromCWT env cwtBytes issuerPub =
     (case NewVerifier issuerPub [] of
        Inl _ \<Rightarrow> Inl ErrAuthentication
      | Inr verifier \<Rightarrow>
          (case CwtVerify (MapOrder env) (FloatToInt env) (Formats env) (Signing env) cwtBytes verifier of
             Inl e \<Rightarrow> Inl (if e = CwtPanic then EdhocPanic else ErrAuthentication)
           | Inr claims \<Rightarrow>
               (case CnfClaim claims of
                  Some cnf \<Rightarrow>
                    (case cnf_Key cnf of
                       Some k \<Rightarrow> (case KeyPublicKey (Formats env) k of Inl e \<Rightarrow> Inl (EdhocKey e) | Inr pub \<Rightarrow> Inr pub)
                     | None \<Rightarrow> privateCnfKey env (Private claims))
                | None \<Rightarrow> privateCnfKey env (Private claims))))"

definition encodeIDCredCWT :: "bytes \<Rightarrow> edhoc_error + bytes" where
  "encodeIDCredCWT cwtBytes = cborEncodeValue [] (Bytes cwtBytes)"

section \<open>Identities and signatures\<close>

definition buildSignStruct :: "string \<Rightarrow> bytes \<Rightarrow> bytes \<Rightarrow> bytes \<Rightarrow> edhoc_error + bytes" where
  "buildSignStruct ctx idCred th mac = encodeCBORArray [Text (goString ctx), Bytes idCred, Bytes th, Bytes mac]"

definition encodeIDCred :: "bytes \<Rightarrow> edhoc_error + bytes" where
  "encodeIDCred pub = cborEncodeValue [] (MakeMap [(Uint 4, Bytes pub)])"

definition publicSize :: "EdhocEnv \<Rightarrow> PublicKey \<Rightarrow> nat" where
  "publicSize env pub = (case pub of EcdsaPublic cv _ \<Rightarrow> curveKeySize cv | _ \<Rightarrow> OtherCurveSize env pub)"

text \<open>An ECDSA key is written in compressed form, from the uncompressed encoding \<open>4 || X || Y\<close>.\<close>

definition marshalPublicKeyRaw :: "EdhocEnv \<Rightarrow> PublicKey \<Rightarrow> bytes" where
  "marshalPublicKeyRaw env pub = (case pub of
      Ed25519Public k \<Rightarrow> k
    | OtherPublic _ \<Rightarrow> []
    | _ \<Rightarrow>
        (case ecdsa_PublicBytes (Formats env) pub of
           None \<Rightarrow> []
         | Some raw \<Rightarrow> (if last raw AND 1 = 0 then 0x02 else 0x03) # take (publicSize env pub) (drop 1 raw)))"

definition encodeIDCredFromSigner :: "EdhocEnv \<Rightarrow> SignerKey \<Rightarrow> edhoc_error + bytes" where
  "encodeIDCredFromSigner env signer = encodeIDCred (marshalPublicKeyRaw env (PublicOf (Signing env) signer))"

text \<open>Each number is padded to the width of the curve; the slice expression panics on a longer one.\<close>

definition edhocSignature :: "EdhocEnv \<Rightarrow> nat \<Rightarrow> SignerKey \<Rightarrow> bytes \<Rightarrow> edhoc_error + bytes" where
  "edhocSignature env draw signer data = (case signer of
      Ed25519PrivateKey k \<Rightarrow> Inr (ed25519_Sign (Signing env) k data)
    | OpaqueSigner _ \<Rightarrow>
        if ecdsa_PrivateKey (Formats env) signer = None then Inl ErrEdhocSuite
        else case EcdsaSign env draw signer (Sha256 env data) of
          None \<Rightarrow> Inl EdhocSign
        | Some (r, s) \<Rightarrow>
            let n = publicSize env (PublicOf (Signing env) signer); rb = IntBytes r; sb = IntBytes s in
            if length rb > n \<or> length sb > n then Inl EdhocPanic
            else Inr (replicate (n - length rb) 0 @ rb @ replicate (n - length sb) 0 @ sb))"

definition verifySignature :: "EdhocEnv \<Rightarrow> PublicKey \<Rightarrow> bytes \<Rightarrow> bytes \<Rightarrow> bool" where
  "verifySignature env pub data sig = (case pub of
      Ed25519Public k \<Rightarrow> ed25519_Verify (Signing env) k data sig
    | OtherPublic _ \<Rightarrow> False
    | _ \<Rightarrow>
        let n = publicSize env pub in
        length sig = 2 * n \<and> EcdsaVerify env pub (Sha256 env data) (be_val (take n sig)) (be_val (drop n sig)))"

section \<open>The fallback is dead code\<close>

text \<open>No entry under a registered label is stored among the private claims, in whatever order the entries come.\<close>

definition unregistered :: "private_entries \<Rightarrow> bool" where
  "unregistered ps \<longleftrightarrow> (\<forall>p \<in> set ps. \<forall>n. fst p = PInt64 n \<longrightarrow> \<not> (1 \<le> n \<and> n \<le> 8))"

lemma anyPut_unregistered:
  "unregistered ps \<Longrightarrow> (\<forall>n. k = PInt64 n \<longrightarrow> \<not> (1 \<le> n \<and> n \<le> 8)) \<Longrightarrow> unregistered (anyPut k v ps)"
  by (auto simp: unregistered_def anyPut_def)

lemma fromValue_int: "fromValue v = PInt64 n \<Longrightarrow> entryKeyInt v = Some n"
  by (auto simp: fromValue_def entryKeyInt_def split: kind.splits)

lemma word_1_to_8:
  assumes "1 \<le> n" and "n \<le> 8"
  shows "n \<in> {1, 2, 3, 4, 5, 6, 7, 8 :: i64}"
proof -
  have "unat n \<le> 8" "1 \<le> unat n" using assms by (simp_all add: word_le_nat_alt)
  then have "unat n \<in> {1, 2, 3, 4, 5, 6, 7, 8}" by auto
  moreover have "n = of_nat (unat n)" by simp
  ultimately show ?thesis by (metis (no_types, lifting) insertCI insertE empty_iff of_nat_1 of_nat_numeral)
qed

lemma storePrivate_unregistered:
  assumes "storePrivate e cs = Inr cs'" and "unregistered (Private cs)"
    and "\<forall>n. entryKeyInt (fst e) = Some n \<longrightarrow> n \<notin> {1, 2, 3, 4, 5, 6, 7, 8}"
  shows "unregistered (Private cs')"
proof -
  have "\<forall>n. fromValue (fst e) = PInt64 n \<longrightarrow> \<not> (1 \<le> n \<and> n \<le> 8)"
    using assms(3) fromValue_int word_1_to_8 by blast
  from anyPut_unregistered [OF assms(2) this] assms(1) show ?thesis
    by (auto simp: storePrivate_def split: if_split_asm)
qed

lemma claimStep_unregistered:
  assumes "claimStep f2i f e cs = Inr cs'" and "unregistered (Private cs)"
  shows "unregistered (Private cs')"
proof (cases "storePrivate e cs = Inr cs' \<and> (\<forall>n. entryKeyInt (fst e) = Some n \<longrightarrow> n \<notin> {1, 2, 3, 4, 5, 6, 7, 8})")
  case True
  then show ?thesis using storePrivate_unregistered assms(2) by blast
next
  case False
  then have "Private cs' = Private cs"
    using assms(1) by (cases "entryKeyInt (fst e)")
      (auto simp: claimStep_def Let_def orFail_def split: if_split_asm option.split_asm sum.split_asm)
  with assms(2) show ?thesis by simp
qed

lemma eachEntry_unregistered:
  "eachEntry (claimStep f2i f) es cs = Inr cs' \<Longrightarrow> unregistered (Private cs) \<Longrightarrow> unregistered (Private cs')"
  by (induction es arbitrary: cs) (auto split: sum.split_asm dest: claimStep_unregistered)

lemma decoded_unregistered:
  "DecodeClaimsSet f2i f data = Inr cs \<Longrightarrow> unregistered (Private cs)"
  by (auto simp: DecodeClaimsSet_def unregistered_def emptyClaims_def dest!: eachEntry_unregistered
      split: sum.split_asm if_split_asm)

text \<open>The private claims of a claims set that was decoded never have a registered label; so the fallback of
  extractPublicKeyFromCWT finds no confirmation there and always gives an error.\<close>
lemma private_confirmation_unreachable:
  assumes "DecodeClaimsSet f2i f data = Inr cs"
  shows "unregistered (Private cs) \<and> privateCnfKey env (Private cs) = Inl ErrMessageFormat"
proof -
  have u: "unregistered (Private cs)" using decoded_unregistered [OF assms] .
  have "map_of (Private cs) (PInt64 8) = None"
  proof (rule ccontr)
    assume "map_of (Private cs) (PInt64 8) \<noteq> None"
    then obtain v where "(PInt64 8, v) \<in> set (Private cs)" by (auto dest: map_of_SomeD)
    with u show False by (fastforce simp: unregistered_def)
  qed
  with u show ?thesis by (simp add: privateCnfKey_def)
qed

lemma private_confirmation_unreachable_witness:
  "\<exists>cs. DecodeClaimsSet (\<lambda>_. 0) toyFormats [0xA1, 0x18, 0x64, 0x01] = Inr cs \<and> unregistered (Private cs)"
proof -
  have "case DecodeClaimsSet (\<lambda>_. 0) toyFormats [0xA1, 0x18, 0x64, 0x01] of Inl _ \<Rightarrow> False | Inr _ \<Rightarrow> True"
    by code_simp
  then obtain cs where "DecodeClaimsSet (\<lambda>_. 0) toyFormats [0xA1, 0x18, 0x64, 0x01] = Inr cs" by (auto split: sum.splits)
  with private_confirmation_unreachable [OF this] show ?thesis by blast
qed

end
