(* ===== verification/Edhoc_Session.thy ===== *)
theory Edhoc_Session
  imports Edhoc_Credential
begin

text \<open>
  The two parties of EDHOC (\<^verbatim>\<open>edhoc/initiator.go\<close>, \<^verbatim>\<open>edhoc/responder.go\<close>, \<^verbatim>\<open>edhoc/context.go\<close>) as state
  machines. An operation returns its result and the party, whose fields the code updates as it goes: a failed
  call leaves what was written before the failure. Every call that draws randomness takes the number of the
  draw. Fields that the code never reads back, as the copy of the configuration's connection id, are kept.
\<close>

section \<open>State\<close>

datatype CredentialType = CredentialRPK | CredentialCWT

record Credential =
  CredType :: CredentialType
  CWTBytes :: bytes

record EdhocConfig =
  cfg_Suites :: "i64 list"
  cfg_PrivateKey :: "SignerKey option"
  cfg_PeerPublic :: "PublicKey option"
  cfg_ConnectionID :: "bytes option"
  cfg_Credential :: "Credential option"
  cfg_PeerCredential :: "Credential option"
  cfg_CWTIssuerKey :: "PublicKey option"

datatype initiatorState = InitiatorInit | InitiatorSentMsg1 | InitiatorComplete
datatype responderState = ResponderInit | ResponderSentMsg2 | ResponderComplete

text \<open>The fields that both parties have; \<open>peerPub\<close> and \<open>signer\<close> are the checked pointers of the configuration.\<close>

record Party =
  cfg :: EdhocConfig
  suite :: i64
  sp :: suiteParams
  ephPriv :: bytes
  ephPub :: bytes
  connectionID :: bytes
  peerConnID :: bytes
  message1Raw :: bytes
  th2 :: bytes
  th3 :: bytes
  th4 :: bytes
  prk2e :: bytes
  prk3e2m :: bytes
  prk4e3m :: bytes

record Initiator = Party +
  i_state :: initiatorState

record Responder = Party +
  r_state :: responderState
  ciphertext2 :: bytes

definition signerOf :: "'p Party_scheme \<Rightarrow> SignerKey" where "signerOf p = the (cfg_PrivateKey (cfg p))"
definition peerPublicOf :: "'p Party_scheme \<Rightarrow> PublicKey" where "peerPublicOf p = the (cfg_PeerPublic (cfg p))"

definition isCWT :: "Credential option \<Rightarrow> bool" where
  "isCWT c \<longleftrightarrow> (case c of None \<Rightarrow> False | Some x \<Rightarrow> CredType x = CredentialCWT)"

text \<open>The connection id of the configuration, or a random byte below 24.\<close>

definition chooseCID :: "EdhocEnv \<Rightarrow> nat \<Rightarrow> EdhocConfig \<Rightarrow> edhoc_error + bytes" where
  "chooseCID env draw c = (case cfg_ConnectionID c of
      Some cid \<Rightarrow> Inr cid
    | None \<Rightarrow> (case RandomBytes env draw 1 of None \<Rightarrow> Inl EdhocRandom | Some b \<Rightarrow> Inr [b ! 0 mod 24]))"

definition NewInitiator :: "EdhocEnv \<Rightarrow> nat \<Rightarrow> EdhocConfig \<Rightarrow> edhoc_error + Initiator" where
  "NewInitiator env draw c =
     (if length (cfg_Suites c) = 0 then Inl ErrEdhocSuite
      else if \<not> isSuiteSupported (cfg_Suites c ! 0) then Inl ErrEdhocSuite
      else if cfg_PrivateKey c = None \<or> cfg_PeerPublic c = None then Inl ErrStateViolation
      else orFail (chooseCID env draw c) (\<lambda>cid.
        Inr \<lparr>cfg = c, suite = cfg_Suites c ! 0, sp = getSuiteParams (cfg_Suites c ! 0), ephPriv = [], ephPub = [],
             connectionID = cid, peerConnID = [], message1Raw = [], th2 = [], th3 = [], th4 = [], prk2e = [],
             prk3e2m = [], prk4e3m = [], i_state = InitiatorInit\<rparr>))"

text \<open>The zero \<open>suiteParams\<close>; its curve is nil and is not read before a suite is chosen.\<close>

definition zeroParams :: suiteParams where
  "zeroParams = \<lparr>AEADKeySize = 0, AEADTagSize = 0, AEADNonceLen = 0, HashSize = 0, DHCurve = DH_X25519\<rparr>"

definition NewResponder :: "EdhocEnv \<Rightarrow> nat \<Rightarrow> EdhocConfig \<Rightarrow> edhoc_error + Responder" where
  "NewResponder env draw c =
     (if length (cfg_Suites c) = 0 then Inl ErrEdhocSuite
      else if \<exists>s \<in> set (cfg_Suites c). \<not> isSuiteSupported s then Inl ErrEdhocSuite
      else if cfg_PrivateKey c = None \<or> cfg_PeerPublic c = None then Inl ErrStateViolation
      else orFail (chooseCID env draw c) (\<lambda>cid.
        Inr \<lparr>cfg = c, suite = 0, sp = zeroParams, ephPriv = [], ephPub = [],
             connectionID = cid, peerConnID = [], message1Raw = [], th2 = [], th3 = [], th4 = [], prk2e = [],
             prk3e2m = [], prk4e3m = [], r_state = ResponderInit, ciphertext2 = []\<rparr>))"

section \<open>Authenticated encryption under derived keys\<close>

definition deriveAEAD ::
  "EdhocEnv \<Rightarrow> 'p Party_scheme \<Rightarrow> bytes \<Rightarrow> bytes \<Rightarrow> string \<Rightarrow> string \<Rightarrow> edhoc_error + ccm \<times> bytes \<times> bytes" where
  "deriveAEAD env p prk th keyLabel ivLabel =
     orFail (edhocKDF env prk th keyLabel (AEADKeySize (sp p))) (\<lambda>k.
     orFail (edhocKDF env prk th ivLabel (AEADNonceLen (sp p))) (\<lambda>iv.
     orFail (case CcmNew k (AEADTagSize (sp p)) (AEADNonceLen (sp p)) of Inl e \<Rightarrow> Inl (EdhocCcm e) | Inr c \<Rightarrow> Inr c) (\<lambda>aead.
     orFail (encodeCBORArray [Bytes th]) (\<lambda>aad. Inr (aead, iv, aad)))))"

definition sealMessage :: "EdhocEnv \<Rightarrow> ccm \<times> bytes \<times> bytes \<Rightarrow> bytes \<Rightarrow> edhoc_error + bytes" where
  "sealMessage env a plaintext = (case a of (aead, iv, aad) \<Rightarrow>
     (case Seal (blockOf env) aead [] iv plaintext aad of None \<Rightarrow> Inl EdhocPanic | Some ct \<Rightarrow> Inr ct))"

definition openMessage :: "EdhocEnv \<Rightarrow> ccm \<times> bytes \<times> bytes \<Rightarrow> bytes \<Rightarrow> edhoc_error + bytes" where
  "openMessage env a ciphertext = (case a of (aead, iv, aad) \<Rightarrow>
     (case Open (blockOf env) aead [] iv ciphertext aad of Inl _ \<Rightarrow> Inl ErrAuthentication | Inr pt \<Rightarrow> Inr pt))"

text \<open>The plaintext of messages 2 and 3: the identity of the sender and its signature of the transcript.\<close>

definition signedPlaintext ::
  "EdhocEnv \<Rightarrow> nat \<Rightarrow> 'p Party_scheme \<Rightarrow> bytes \<Rightarrow> bytes \<Rightarrow> string \<Rightarrow> edhoc_error + bytes" where
  "signedPlaintext env draw p prk th macLabel =
     orFail (if isCWT (cfg_Credential (cfg p)) then encodeIDCredCWT (CWTBytes (the (cfg_Credential (cfg p))))
             else encodeIDCredFromSigner env (signerOf p)) (\<lambda>idCred.
     orFail (edhocKDF env prk th macLabel (AEADTagSize (sp p))) (\<lambda>mac.
     orFail (buildSignStruct ''Signature1'' idCred th mac) (\<lambda>signedData.
     orFail (edhocSignature env draw (signerOf p) signedData) (\<lambda>signature.
     orFail (cborEncodeValue [] (Bytes signature)) (\<lambda>sigEnc.
     Inr (idCred @ sigEnc))))))"

definition peerKey :: "EdhocEnv \<Rightarrow> EdhocConfig \<Rightarrow> Value \<Rightarrow> edhoc_error + PublicKey" where
  "peerKey env c idCred =
     (if isCWT (cfg_PeerCredential c) then
        (if Kind idCred \<noteq> KindBytes then Inl ErrMessageFormat
         else extractPublicKeyFromCWT env (BytesVal idCred)
           (case cfg_CWTIssuerKey c of None \<Rightarrow> the (cfg_PeerPublic c) | Some k \<Rightarrow> k))
      else Inr (the (cfg_PeerPublic c)))"

definition verifyPlaintext ::
  "EdhocEnv \<Rightarrow> 'p Party_scheme \<Rightarrow> bytes \<Rightarrow> bytes \<Rightarrow> string \<Rightarrow> bytes \<Rightarrow> edhoc_error + unit" where
  "verifyPlaintext env p prk th macLabel plaintext =
     orFail (decodeOneValue plaintext) (\<lambda>(idCred, rest).
     orFail (decodeBytes rest) (\<lambda>(sigBytes, _).
     orFail (edhocKDF env prk th macLabel (AEADTagSize (sp p))) (\<lambda>mac.
     orFail (cborEncodeValue [] idCred) (\<lambda>idCredEnc.
     orFail (buildSignStruct ''Signature1'' idCredEnc th mac) (\<lambda>signedData.
     orFail (peerKey env (cfg p) idCred) (\<lambda>peerPub.
     if verifySignature env peerPub signedData sigBytes then Inr () else Inl ErrAuthentication))))))"

section \<open>The initiator\<close>

definition CreateMessage1 :: "EdhocEnv \<Rightarrow> nat \<Rightarrow> Initiator \<Rightarrow> (edhoc_error + bytes) \<times> Initiator" where
  "CreateMessage1 env draw i =
     (if i_state i \<noteq> InitiatorInit then (Inl ErrStateViolation, i)
      else case GenerateKey env draw (DHCurve (sp i)) of
        None \<Rightarrow> (Inl EdhocRandom, i)
      | Some k \<Rightarrow>
          let i1 = i\<lparr>ephPriv := k, ephPub := PublicBytes env (DHCurve (sp i)) k\<rparr> in
          (case encodeMessage1 \<lparr>Method = 0, m1_Suites = cfg_Suites (cfg i), SuitesSel = suite i, GX = ephPub i1,
                  CI = connectionID i\<rparr> of
             Inl e \<Rightarrow> (Inl e, i1)
           | Inr raw \<Rightarrow> (Inr raw, i1\<lparr>message1Raw := raw, i_state := InitiatorSentMsg1\<rparr>)))"

definition decryptMessage2 :: "EdhocEnv \<Rightarrow> Initiator \<Rightarrow> bytes \<Rightarrow> edhoc_error + bytes" where
  "decryptMessage2 env i ciphertext =
     orFail (deriveAEAD env i (prk2e i) (th2 i) ''K_2e'' ''IV_2e'') (\<lambda>a. openMessage env a ciphertext)"

definition verifyResponderSignature :: "EdhocEnv \<Rightarrow> Initiator \<Rightarrow> bytes \<Rightarrow> edhoc_error + unit" where
  "verifyResponderSignature env i plaintext2 = verifyPlaintext env i (prk3e2m i) (th2 i) ''MAC_2'' plaintext2"

definition encryptMessage3 :: "EdhocEnv \<Rightarrow> nat \<Rightarrow> Initiator \<Rightarrow> edhoc_error + bytes" where
  "encryptMessage3 env draw i =
     orFail (signedPlaintext env draw i (prk4e3m i) (th3 i) ''MAC_3'') (\<lambda>plaintext3.
     orFail (deriveAEAD env i (prk3e2m i) (th3 i) ''K_3e'' ''IV_3e'') (\<lambda>a. sealMessage env a plaintext3))"

definition ProcessMessage2 :: "EdhocEnv \<Rightarrow> nat \<Rightarrow> bytes \<Rightarrow> Initiator \<Rightarrow> (edhoc_error + bytes) \<times> Initiator" where
  "ProcessMessage2 env draw msg2Raw i =
     (if i_state i \<noteq> InitiatorSentMsg1 then (Inl ErrStateViolation, i)
      else case decodeMessage2 msg2Raw of
        Inl e \<Rightarrow> (Inl e, i)
      | Inr msg2 \<Rightarrow>
          let i1 = i\<lparr>peerConnID := CR msg2\<rparr> in
          if \<not> ValidPublicKey env (DHCurve (sp i)) (GY msg2) then (Inl ErrMessageFormat, i1)
          else case SharedSecret env (DHCurve (sp i)) (ephPriv i) (GY msg2) of
            None \<Rightarrow> (Inl ErrAuthentication, i1)
          | Some sharedSecret \<Rightarrow>
              let prk = extractPRK2e env sharedSecret;
                  i2 = i1\<lparr>prk2e := prk, prk3e2m := prk, prk4e3m := prk,
                          th2 := computeTH2 env (message1Raw i) (GY msg2) (CR msg2)\<rparr> in
              (case decryptMessage2 env i2 (m2_Ciphertext msg2) of
                 Inl e \<Rightarrow> (Inl e, i2)
               | Inr plaintext2 \<Rightarrow>
                   (case verifyResponderSignature env i2 plaintext2 of
                      Inl e \<Rightarrow> (Inl e, i2)
                    | Inr _ \<Rightarrow>
                        let i3 = i2\<lparr>th3 := computeTH3 env (th2 i2) (m2_Ciphertext msg2)\<rparr> in
                        (case encryptMessage3 env draw i3 of
                           Inl e \<Rightarrow> (Inl e, i3)
                         | Inr msg3Ct \<Rightarrow>
                             (encodeMessage3 msg3Ct,
                              i3\<lparr>th4 := computeTH4 env (th3 i3) msg3Ct, i_state := InitiatorComplete\<rparr>)))))"

definition ProcessMessage4 :: "EdhocEnv \<Rightarrow> bytes \<Rightarrow> Initiator \<Rightarrow> edhoc_error + unit" where
  "ProcessMessage4 env msg4 i =
     (if i_state i \<noteq> InitiatorComplete then Inl ErrStateViolation
      else orFail (decodeBytes msg4) (\<lambda>(ctBytes, _).
           orFail (deriveAEAD env i (prk4e3m i) (th4 i) ''K_4'' ''IV_4'') (\<lambda>a.
           orFail (openMessage env a ctBytes) (\<lambda>_. Inr ()))))"

section \<open>The responder\<close>

text \<open>The first suite that the initiator proposes and the responder has.\<close>

definition negotiateSuite :: "Responder \<Rightarrow> i64 list \<Rightarrow> i64 option" where
  "negotiateSuite r proposed = find (\<lambda>ps. ps \<in> set (cfg_Suites (cfg r))) proposed"

definition encryptMessage2 :: "EdhocEnv \<Rightarrow> nat \<Rightarrow> Responder \<Rightarrow> edhoc_error + bytes" where
  "encryptMessage2 env draw r =
     orFail (signedPlaintext env draw r (prk3e2m r) (th2 r) ''MAC_2'') (\<lambda>plaintext2.
     orFail (deriveAEAD env r (prk2e r) (th2 r) ''K_2e'' ''IV_2e'') (\<lambda>a. sealMessage env a plaintext2))"

definition ProcessMessage1 :: "EdhocEnv \<Rightarrow> nat \<Rightarrow> bytes \<Rightarrow> Responder \<Rightarrow> (edhoc_error + bytes) \<times> Responder" where
  "ProcessMessage1 env draw msg1Raw r =
     (if r_state r \<noteq> ResponderInit then (Inl ErrStateViolation, r)
      else case decodeMessage1 msg1Raw of
        Inl e \<Rightarrow> (Inl e, r)
      | Inr msg1 \<Rightarrow>
          if Method msg1 \<noteq> 0 then (Inl ErrEdhocSuite, r)
          else case negotiateSuite r (m1_Suites msg1) of
            None \<Rightarrow> (Inl ErrEdhocSuite, r)
          | Some negotiated \<Rightarrow>
              let params = getSuiteParams negotiated; r1 = r\<lparr>suite := negotiated, sp := params\<rparr> in
              if \<not> ValidPublicKey env (DHCurve params) (GX msg1) then (Inl ErrMessageFormat, r1)
              else
                let r2 = r1\<lparr>peerConnID := CI msg1, message1Raw := msg1Raw\<rparr> in
                (case GenerateKey env draw (DHCurve params) of
                   None \<Rightarrow> (Inl EdhocRandom, r2)
                 | Some k \<Rightarrow>
                     let r3 = r2\<lparr>ephPriv := k, ephPub := PublicBytes env (DHCurve params) k\<rparr> in
                     (case SharedSecret env (DHCurve params) k (GX msg1) of
                        None \<Rightarrow> (Inl ErrAuthentication, r3)
                      | Some sharedSecret \<Rightarrow>
                          let prk = extractPRK2e env sharedSecret;
                              r4 = r3\<lparr>prk2e := prk, prk3e2m := prk, prk4e3m := prk,
                                      th2 := computeTH2 env msg1Raw (ephPub r3) (connectionID r)\<rparr> in
                          (case encryptMessage2 env (Suc draw) r4 of
                             Inl e \<Rightarrow> (Inl e, r4)
                           | Inr ct2 \<Rightarrow>
                               (encodeMessage2 \<lparr>GY = ephPub r4, CR = connectionID r, m2_Ciphertext = ct2\<rparr>,
                                r4\<lparr>ciphertext2 := ct2, th3 := computeTH3 env (th2 r4) ct2,
                                   r_state := ResponderSentMsg2\<rparr>)))))"

definition verifyInitiatorSignature :: "EdhocEnv \<Rightarrow> Responder \<Rightarrow> bytes \<Rightarrow> edhoc_error + unit" where
  "verifyInitiatorSignature env r plaintext3 = verifyPlaintext env r (prk4e3m r) (th3 r) ''MAC_3'' plaintext3"

definition ProcessMessage3 :: "EdhocEnv \<Rightarrow> bytes \<Rightarrow> Responder \<Rightarrow> (edhoc_error + unit) \<times> Responder" where
  "ProcessMessage3 env msg3Raw r =
     (if r_state r \<noteq> ResponderSentMsg2 then (Inl ErrStateViolation, r)
      else case orFail (decodeMessage3 msg3Raw) (\<lambda>ct3.
             orFail (deriveAEAD env r (prk3e2m r) (th3 r) ''K_3e'' ''IV_3e'') (\<lambda>a.
             orFail (openMessage env a ct3) (\<lambda>plaintext3.
             orFail (verifyInitiatorSignature env r plaintext3) (\<lambda>_. Inr ct3)))) of
        Inl e \<Rightarrow> (Inl e, r)
      | Inr ct3 \<Rightarrow> (Inr (), r\<lparr>th4 := computeTH4 env (th3 r) ct3, r_state := ResponderComplete\<rparr>))"

definition CreateMessage4 :: "EdhocEnv \<Rightarrow> Responder \<Rightarrow> edhoc_error + bytes" where
  "CreateMessage4 env r =
     (if r_state r \<noteq> ResponderComplete then Inl ErrStateViolation
      else orFail (deriveAEAD env r (prk4e3m r) (th4 r) ''K_4'' ''IV_4'') (\<lambda>a.
           orFail (sealMessage env a []) (\<lambda>ct. cborEncodeValue [] (Bytes ct))))"

section \<open>Exported keys\<close>

record OSCOREContext =
  MasterSecret :: bytes
  MasterSalt :: bytes
  SenderID :: bytes
  RecipientID :: bytes

text \<open>\<open>fmt.Sprintf("EDHOC_Exporter_%d", label)\<close>; the decimal digits are a function of the label.\<close>

fun decimalNat :: "nat \<Rightarrow> string" where
  "decimalNat n = (if n < 10 then [char_of (48 + n)] else decimalNat (n div 10) @ [char_of (48 + n mod 10)])"

declare decimalNat.simps [simp del]

definition decimal :: "int \<Rightarrow> string" where
  "decimal n = (if n < 0 then CHR ''-'' # decimalNat (nat (- n)) else decimalNat (nat n))"

definition edhocExport :: "EdhocEnv \<Rightarrow> bytes \<Rightarrow> bytes \<Rightarrow> int \<Rightarrow> bytes \<Rightarrow> int \<Rightarrow> edhoc_error + bytes" where
  "edhocExport env prk th label ctx n =
     orFail (encodeExporterInfo th (goString (''EDHOC_Exporter_'' @ decimal label)) ctx n) (\<lambda>info.
     hkdfExpand env prk info n)"

definition InitiatorExport :: "EdhocEnv \<Rightarrow> Initiator \<Rightarrow> int \<Rightarrow> bytes \<Rightarrow> int \<Rightarrow> edhoc_error + bytes" where
  "InitiatorExport env i label ctx n =
     (if i_state i \<noteq> InitiatorComplete then Inl ErrStateViolation else edhocExport env (prk4e3m i) (th4 i) label ctx n)"

definition ResponderExport :: "EdhocEnv \<Rightarrow> Responder \<Rightarrow> int \<Rightarrow> bytes \<Rightarrow> int \<Rightarrow> edhoc_error + bytes" where
  "ResponderExport env r label ctx n =
     (if r_state r \<noteq> ResponderComplete then Inl ErrStateViolation else edhocExport env (prk4e3m r) (th4 r) label ctx n)"

definition oscoreContext :: "EdhocEnv \<Rightarrow> 'p Party_scheme \<Rightarrow> edhoc_error + OSCOREContext" where
  "oscoreContext env p =
     orFail (edhocKDF env (prk4e3m p) (th4 p) ''OSCORE_Master_Secret'' 16) (\<lambda>secret.
     orFail (edhocKDF env (prk4e3m p) (th4 p) ''OSCORE_Master_Salt'' 8) (\<lambda>salt.
     Inr \<lparr>MasterSecret = secret, MasterSalt = salt, SenderID = connectionID p, RecipientID = peerConnID p\<rparr>))"

definition InitiatorExportOSCORE :: "EdhocEnv \<Rightarrow> Initiator \<Rightarrow> edhoc_error + OSCOREContext" where
  "InitiatorExportOSCORE env i = (if i_state i \<noteq> InitiatorComplete then Inl ErrStateViolation else oscoreContext env i)"

definition ResponderExportOSCORE :: "EdhocEnv \<Rightarrow> Responder \<Rightarrow> edhoc_error + OSCOREContext" where
  "ResponderExportOSCORE env r = (if r_state r \<noteq> ResponderComplete then Inl ErrStateViolation else oscoreContext env r)"

end
