(* ===== verification/Edhoc_Wire.thy ===== *)
theory Edhoc_Wire
  imports Edhoc_Session
begin

text \<open>
  What EDHOC writes, its peer reads: the CBOR items of the messages, of the plaintexts and of the connection
  identifiers, and the three messages of a run. An item is decoded in front of whatever follows it.
\<close>

section \<open>Single items\<close>

lemma edhocOpts_det: "edhocOpts = detOpts"
  by (simp add: edhocOpts_def detOpts_def encodeOpts_def sharedEncoder_def NewShared_def NewEncoder_def)

definition item :: "Value \<Rightarrow> bytes" where
  "item v = fst (encode detOpts [] v)"

text \<open>An item is small if its encoding has at most \<open>2 ^ 50\<close> bytes; the encoder and the decoder agree on it.\<close>

definition carried :: "Value \<Rightarrow> bool" where
  "carried v \<longleftrightarrow> transports 0 v v \<and> Kind v \<noteq> KindTag \<and> length (item v) \<le> 2 ^ 50"

lemma encode_item: "snd (encode detOpts [] v) = None \<Longrightarrow> cborEncodeValue buf v = Inr (buf @ item v)"
  using encode_dst [of detOpts buf v] by (simp add: cborEncodeValue_def edhocOpts_det item_def)

lemma encode_carried: "carried v \<Longrightarrow> cborEncodeValue buf v = Inr (buf @ item v)"
  by (simp add: carried_def transports_def encode_item)

lemma decode_carried:
  assumes "carried v" and "length rest < 2 ^ 60"
  shows "decodeOneValue (item v @ rest) = Inr (v, rest)"
proof -
  have t: "transports 0 v v" "Kind v \<noteq> KindTag" "length (item v) \<le> 2 ^ 50" using assms(1) by (simp_all add: carried_def)
  then have enc: "encode detOpts [] v = (item v, None)" by (simp add: item_def transports_def prod_eq_iff)
  have p: "plain DefaultOpts" "\<not> RejectNonShortest DefaultOpts"
    by (simp_all add: plain_def DefaultOpts_def maxBytes_def maxArray_def)
  have r: "reads DefaultOpts 0 (item v) v"
    using encode_reads [OF enc p(1), of 0] p(2) t(1) by (simp add: transports_def)
  moreover have "length (item v @ rest) < 2 ^ 61" using t(3) assms(2) by simp
  ultimately obtain st' where "Decode (item v @ rest) DefaultOpts NilState = (Inr (v, length (item v)), st')"
    using Decode_reads [OF r _ quiet_nil] t(2) by blast
  with reads_nonempty [OF r] show ?thesis by (simp add: decodeOneValue_def)
qed

lemma item_nonempty:
  assumes "carried v"
  shows "item v \<noteq> []"
proof
  assume "item v = []"
  with decode_carried [OF assms, of "[]"] show False by (simp add: decodeOneValue_def)
qed

lemma item_bytes_length: "length (item (Bytes b)) \<le> 9 + length b"
  using leaf_encode_length(1) [of detOpts b] by (simp add: item_def)

lemma leaf_kind [simp]:
  "Kind (Bytes b) = KindBytes" "BytesVal (Bytes b) = b" "Kind (Uint n) = KindUint" "Num (Uint n) = n"
  "Kind (MakeArray vs) = KindArray" "Items (MakeArray vs) = vs"
  by (simp_all add: Bytes_def Uint_def MakeArray_def BytesVal_def)

lemma carried_leaf [intro, simp]: "length b \<le> 2 ^ 24 \<Longrightarrow> carried (Bytes b)" "carried (Uint n)"
  using leaf_encode_length(1) [of detOpts b] leaf_encode_length(5) [of detOpts n]
  by (simp_all add: carried_def transports_leaf item_def)

lemma decode_bytes:
  "length b \<le> 2 ^ 24 \<Longrightarrow> length rest < 2 ^ 60 \<Longrightarrow> decodeBytes (item (Bytes b) @ rest) = Inr (b, rest)"
  by (simp add: decodeBytes_def decode_carried orFail_def)

lemma carried_array:
  assumes "list_all2 (transports 1) vs vs" and "length vs \<le> 2 ^ 20" and "\<forall>v \<in> set vs. length (item v) \<le> 2 ^ 25"
  shows "carried (MakeArray vs)"
proof -
  have t: "transports 0 (MakeArray vs) (MakeArray vs)" using transports_array [of 0 vs vs] assms(1,2) by simp
  have ok: "snd (encode detOpts [] v) = None" if "v \<in> set vs" for v
    using assms(1) that by (auto simp: transports_def list_all2_conv_all_nth in_set_conv_nth)
  have "length (concat (map item vs)) \<le> 2 ^ 25 * length vs"
    using assms(3) by (induction vs) (auto simp: algebra_simps)
  also have "\<dots> \<le> 2 ^ 25 * 2 ^ 20" using assms(2) by (intro mult_left_mono) auto
  finally have l: "length (concat (map item vs)) \<le> 2 ^ 45" by simp
  have "item (MakeArray vs) = AppendHead [] MajorArray (of_nat (length vs)) @ concat (map item vs)"
    using encodeItems_value [of vs detOpts] ok
    by (simp add: item_def [abs_def] MakeArray_def encode.simps [of detOpts "[]" "Value KindArray n [] [] xs []" for n xs])
  then have "length (item (MakeArray vs)) \<le> 9 + 2 ^ 45" using l by (simp add: length_AppendHead headSize_def)
  also have "(9 + 2 ^ 45 :: nat) \<le> 2 ^ 50" by simp
  finally have "length (item (MakeArray vs)) \<le> 2 ^ 50" .
  with t show ?thesis by (simp add: carried_def)
qed

section \<open>Connection identifiers and suites\<close>

definition cidValue :: "bytes \<Rightarrow> Value" where
  "cidValue cid = (if length cid = 1 \<and> cid ! 0 < 24 then Uint (ucast (cid ! 0)) else Bytes cid)"

lemma encode_cid: "length cid \<le> 2 ^ 24 \<Longrightarrow> encodeConnectionID buf cid = Inr (buf @ item (cidValue cid))"
  by (simp add: encodeConnectionID_def cidValue_def encode_carried)

lemma decode_cid:
  assumes "length cid \<le> 2 ^ 24" and "length rest < 2 ^ 60"
  shows "decodeConnectionID (item (cidValue cid) @ rest) = Inr (cid, rest)"
proof -
  have "carried (cidValue cid)" using assms(1) by (simp add: cidValue_def)
  from decode_carried [OF this assms(2)] show ?thesis
    by (cases cid) (auto simp: decodeConnectionID_def orFail_def cidValue_def ucast_up_ucast_id is_up)
qed

definition suitesValue :: "i64 list \<Rightarrow> Value" where
  "suitesValue ss = (if length ss = 1 then Uint (ss ! 0) else MakeArray (map Uint ss))"

lemma carried_suites:
  assumes "length ss \<le> 2 ^ 20"
  shows "carried (suitesValue ss)"
proof -
  have "carried (MakeArray (map Uint ss))"
    using assms order_trans [OF leaf_encode_length(5) [of detOpts], of "2 ^ 25"]
    by (intro carried_array) (auto simp: list_all2_conv_all_nth transports_leaf item_def)
  then show ?thesis by (simp add: suitesValue_def)
qed

lemma decode_suites:
  assumes "ss \<noteq> []" and "length ss \<le> 2 ^ 20" and "length rest < 2 ^ 60"
  shows "decodeSuites (item (suitesValue ss) @ rest) = Inr ((ss, ss ! 0), rest)"
  using decode_carried [OF carried_suites [OF assms(2)] assms(3)] assms(1)
  by (cases ss; cases "tl ss") (auto simp: decodeSuites_def orFail_def suitesValue_def comp_def)

section \<open>Messages\<close>

lemma encode_message1:
  assumes "length (m1_Suites m) \<le> 2 ^ 20" and "length (GX m) \<le> 2 ^ 24" and "length (CI m) \<le> 2 ^ 24"
  shows "encodeMessage1 m = Inr (item (Uint (Method m)) @ item (suitesValue (m1_Suites m)) @ item (Bytes (GX m))
    @ item (cidValue (CI m)))"
proof -
  have "encodeSuites buf (m1_Suites m) = Inr (buf @ item (suitesValue (m1_Suites m)))" for buf
    using encode_carried [OF carried_suites [OF assms(1)], of buf]
    by (cases "length (m1_Suites m) = 1") (simp_all add: encodeSuites_def suitesValue_def)
  then show ?thesis using assms by (simp add: encodeMessage1_def asFormat_def orFail_def encode_carried encode_cid)
qed

lemma carried_length: "carried v \<Longrightarrow> length (item v) \<le> 2 ^ 50"
  by (simp add: carried_def)

lemma carried_cid [simp]: "length cid \<le> 2 ^ 24 \<Longrightarrow> carried (cidValue cid)"
  by (simp add: cidValue_def)

lemma decode_encoded_message1_prefix:
  assumes "m1_Suites m \<noteq> []" and "SuitesSel m = m1_Suites m ! 0"
    and "length (m1_Suites m) \<le> 2 ^ 20" and "length (GX m) \<le> 2 ^ 24" and "length (CI m) \<le> 2 ^ 24"
    and "encodeMessage1 m = Inr raw" and "length rest \<le> 2 ^ 50"
  shows "decodeMessage1 (raw @ rest) = Inr m"
proof -
  let ?s = "item (suitesValue (m1_Suites m))" and ?g = "item (Bytes (GX m))" and ?c = "item (cidValue (CI m))"
  have raw: "raw = item (Uint (Method m)) @ ?s @ ?g @ ?c" using encode_message1 [OF assms(3-5)] assms(6) by simp
  have l: "length ?s \<le> 2 ^ 50" "length ?g \<le> 2 ^ 50" "length ?c \<le> 2 ^ 50"
    using carried_length [OF carried_suites [OF assms(3)]] carried_length [of "Bytes (GX m)"]
      carried_length [of "cidValue (CI m)"] assms(4,5) by auto
  have r: "length (?s @ ?g @ ?c @ rest) < 2 ^ 60" "length (?g @ ?c @ rest) < 2 ^ 60" "length (?c @ rest) < 2 ^ 60" "length rest < 2 ^ 60"
    using l assms(7) by simp_all
  show ?thesis
    using decode_carried [OF carried_leaf(2) r(1)] decode_suites [OF assms(1,3) r(2)] decode_bytes [OF assms(4) r(3)]
      decode_cid [OF assms(5) r(4)] assms(2)
    by (simp add: raw decodeMessage1_def orFail_def)
qed

lemma decode_encoded_message1:
  assumes "m1_Suites m \<noteq> []" and "SuitesSel m = m1_Suites m ! 0"
    and "length (m1_Suites m) \<le> 2 ^ 20" and "length (GX m) \<le> 2 ^ 24" and "length (CI m) \<le> 2 ^ 24"
    and "encodeMessage1 m = Inr raw"
  shows "decodeMessage1 raw = Inr m"
  using decode_encoded_message1_prefix [OF assms, of "[]"] by simp

lemma encode_message2:
  assumes "length (GY m) \<le> 2 ^ 24" and "length (CR m) \<le> 2 ^ 24" and "length (m2_Ciphertext m) \<le> 2 ^ 24"
  shows "encodeMessage2 m = Inr (item (Bytes (GY m)) @ item (cidValue (CR m)) @ item (Bytes (m2_Ciphertext m)))"
  using assms by (simp add: encodeMessage2_def asFormat_def orFail_def encode_carried encode_cid)

lemma decode_encoded_message2:
  assumes "length (GY m) \<le> 2 ^ 24" and "length (CR m) \<le> 2 ^ 24" and "length (m2_Ciphertext m) \<le> 2 ^ 24"
    and "encodeMessage2 m = Inr raw"
  shows "decodeMessage2 raw = Inr m"
proof -
  let ?c = "item (cidValue (CR m))" and ?t = "item (Bytes (m2_Ciphertext m))"
  have raw: "raw = item (Bytes (GY m)) @ ?c @ ?t" using encode_message2 [OF assms(1-3)] assms(4) by simp
  have l: "length ?c \<le> 2 ^ 50" "length ?t \<le> 2 ^ 50"
    using carried_length [of "Bytes (m2_Ciphertext m)"] carried_length [of "cidValue (CR m)"] assms(2,3) by auto
  have r: "length (?c @ ?t) < 2 ^ 60" "length ?t < 2 ^ 60" using l by simp_all
  show ?thesis
    using decode_bytes [OF assms(1) r(1)] decode_cid [OF assms(2) r(2)] decode_bytes [OF assms(3), of "[]"]
    by (simp add: raw decodeMessage2_def orFail_def)
qed

lemma decode_encoded_message3:
  "length ct \<le> 2 ^ 24 \<Longrightarrow> encodeMessage3 ct = Inr raw \<Longrightarrow> decodeMessage3 raw = Inr ct"
  using decode_bytes [of ct "[]"] by (auto simp: encodeMessage3_def decodeMessage3_def asFormat_def orFail_def encode_carried)

section \<open>The key schedule\<close>

lemma encode_array:
  assumes "\<forall>v \<in> set vs. snd (encode detOpts [] v) = None"
  shows "encodeCBORArray vs = Inr (item (MakeArray vs))"
  using encode_item [OF encode_det_array [OF assms], of "[]"] by (simp add: encodeCBORArray_def)

lemma encode_fails_not [simp]:
  "snd (encode detOpts [] (Bytes b)) = None" "snd (encode detOpts [] (Uint n)) = None"
  "utf8_Valid s \<Longrightarrow> snd (encode detOpts [] (Text s)) = None"
  by (simp_all add: leaf_encode)

text \<open>The laws of the packages outside: HKDF-Expand gives up to 255 blocks of the length that is asked for.\<close>

definition expands :: "EdhocEnv \<Rightarrow> bool" where
  "expands env \<longleftrightarrow> (\<forall>prk info n. 0 \<le> n \<and> n \<le> 8160 \<longrightarrow> (\<exists>out. HkdfExpand env prk info n = Some out \<and> int (length out) = n))"

lemma edhocKDF_total:
  assumes "expands env" and "0 \<le> n" and "n \<le> 8160" and "utf8_Valid (goString label)"
  shows "\<exists>out. edhocKDF env prk th label n = Inr out \<and> int (length out) = n"
proof -
  have "encodeCBORArray [Bytes th, Text (goString label), Uint (of_int n)]
      = Inr (item (MakeArray [Bytes th, Text (goString label), Uint (of_int n)]))"
    using assms(4) by (intro encode_array) auto
  moreover obtain out where "HkdfExpand env prk (item (MakeArray [Bytes th, Text (goString label), Uint (of_int n)])) n = Some out"
    and "int (length out) = n" using assms(1-3) unfolding expands_def by blast
  ultimately show ?thesis using assms(2) by (simp add: edhocKDF_def orFail_def hkdfExpand_def)
qed

definition standard :: "suiteParams \<Rightarrow> bool" where
  "standard p \<longleftrightarrow> AEADKeySize p = 16 \<and> AEADTagSize p = 8 \<and> AEADNonceLen p = 13"

lemma getSuiteParams_standard [simp]: "standard (getSuiteParams s)"
  by (simp add: standard_def getSuiteParams_def)

lemma deriveAEAD_total:
  assumes "expands env" and "standard (sp p)" and "utf8_Valid (goString kl)" and "utf8_Valid (goString il)"
  shows "\<exists>c iv. deriveAEAD env p prk th kl il = Inr (c, iv, item (MakeArray [Bytes th])) \<and> ccm_ok c
    \<and> nonceLen c = 13 \<and> tagSize c = 8 \<and> length iv = 13"
proof -
  obtain k where k: "edhocKDF env prk th kl 16 = Inr k" "length k = 16" using edhocKDF_total [OF assms(1) _ _ assms(3), of 16] by fastforce
  obtain iv where iv: "edhocKDF env prk th il 13 = Inr iv" "length iv = 13" using edhocKDF_total [OF assms(1) _ _ assms(4), of 13] by fastforce
  have c: "CcmNew k 8 13 = Inr \<lparr>ccm_key = k, tagSize = 8, nonceLen = 13\<rparr>" using k(2) by (simp add: CcmNew_def NewCipherOk_def)
  show ?thesis using assms(2) New_ok [OF c] encode_array [of "[Bytes th]"] iv(2)
    by (simp add: deriveAEAD_def orFail_def standard_def k(1) iv(1) c)
qed

text \<open>The derived keys depend on nothing of the party but the sizes of its suite.\<close>

lemma deriveAEAD_same: "sp p = sp q \<Longrightarrow> deriveAEAD env p prk th kl il = deriveAEAD env q prk th kl il"
  by (simp add: deriveAEAD_def)

lemma seal_open:
  assumes "encrypts_blocks (blockOf env)" and "ccm_ok c" and "nonceLen c = 13" and "tagSize c = 8" and "length iv = 13"
    and "length pt \<le> 65535"
  shows "\<exists>ct. sealMessage env (c, iv, aad) pt = Inr ct \<and> openMessage env (c, iv, aad) ct = Inr pt \<and> length ct = length pt + 8"
proof -
  have n: "int (length iv) = nonceLen c" using assms(3,5) by simp
  have "maxMessageLen c = 65535" using assms(3) by (simp add: maxMessageLen_def ccm_q_def)
  then obtain ct where ct: "Seal (blockOf env) c [] iv pt aad = Some ct" and "length ct = length pt + 8"
    using n assms(4,6) length_ctr [OF assms(1,2) n] length_computeTag [OF assms(1,2) n] length_ctrBlock [OF assms(1,2) n]
    by (simp add: Seal_def Let_def)
  with Open_Seal [OF assms(1,2) ct] show ?thesis by (simp add: sealMessage_def openMessage_def)
qed

section \<open>The signed plaintext\<close>

text \<open>The identity that a party sends, and a signer whose signatures the key \<open>pub\<close> verifies.\<close>

definition idValue :: "EdhocEnv \<Rightarrow> 'p Party_scheme \<Rightarrow> Value" where
  "idValue env p =
     (if isCWT (cfg_Credential (cfg p)) then Bytes (CWTBytes (the (cfg_Credential (cfg p))))
      else MakeMap [(Uint 4, Bytes (marshalPublicKeyRaw env (PublicOf (Signing env) (signerOf p))))])"

definition signer_works :: "EdhocEnv \<Rightarrow> SignerKey \<Rightarrow> PublicKey \<Rightarrow> bool" where
  "signer_works env signer pub \<longleftrightarrow> (\<forall>draw data. \<exists>sig. edhocSignature env draw signer data = Inr sig
     \<and> verifySignature env pub data sig \<and> length sig \<le> 1024)"

lemma id_map:
  assumes "length pub \<le> 2 ^ 24"
  shows "carried (MakeMap [(Uint 4, Bytes pub)]) \<and> length (item (MakeMap [(Uint 4, Bytes pub)])) \<le> 27 + length pub"
proof -
  have ps: "plain_entries [(GInt64 4, GBytes pub)]" using assms by (simp add: plain_entries_def plain_goval_def hashable_def)
  have e: "entryValue (GInt64 4, GBytes pub) = (Uint 4, Bytes pub)" by (simp add: entryValue_def goToCBOR_def goInt_def)
  obtain qs where "mset qs = mset [(GInt64 4, GBytes pub)]"
    and "transports 0 (MakeMap (map entryValue [(GInt64 4, GBytes pub)])) (MakeMap (map entryValue qs))"
    using transports_map [OF ps, of 0] by auto
  then have t: "transports 0 (MakeMap [(Uint 4, Bytes pub)]) (MakeMap [(Uint 4, Bytes pub)])" using e by simp
  have "item (MakeMap [(Uint 4, Bytes pub)]) = AppendHead [] MajorMap 1 @ item (Uint 4) @ item (Bytes pub)"
    using encodeMap_value [of "[(Uint 4, Bytes pub)]" detOpts]
    by (simp add: item_def MakeMap_def encode.simps [of detOpts "[]" "Value KindMap n [] [] [] ps" for n ps] entryOrder_def)
  moreover have "length (item (Uint 4)) \<le> 9" "length (item (Bytes pub)) \<le> 9 + length pub"
    using leaf_encode_length(5) [of detOpts 4] leaf_encode_length(1) [of detOpts pub] by (simp_all add: item_def)
  ultimately have l: "length (item (MakeMap [(Uint 4, Bytes pub)])) \<le> 27 + length pub"
    by (simp add: length_AppendHead headSize_def)
  moreover have "27 + length pub \<le> 2 ^ 50" using assms by simp
  ultimately have "length (item (MakeMap [(Uint 4, Bytes pub)])) \<le> 2 ^ 50" by linarith
  with t l show ?thesis by (simp add: carried_def MakeMap_def)
qed

lemma signedPlaintext_verifies:
  assumes "expands env" and "standard (sp p)" and "sp q = sp p" and "utf8_Valid (goString ml)"
    and "carried (idValue env p)" and "peerKey env (cfg q) (idValue env p) = Inr pub"
    and "signer_works env (signerOf p) pub"
  shows "\<exists>pt. signedPlaintext env draw p prk th ml = Inr pt \<and> verifyPlaintext env q prk th ml pt = Inr ()
    \<and> length pt \<le> length (item (idValue env p)) + 1033"
proof -
  let ?v = "idValue env p" and ?sd = "\<lambda>mac. item (MakeArray [Text (goString ''Signature1''), Bytes (item (idValue env p)), Bytes th, Bytes mac])"
  have n: "AEADTagSize (sp p) = 8" using assms(2) by (simp add: standard_def)
  obtain mac where mac: "edhocKDF env prk th ml 8 = Inr mac"
    using edhocKDF_total [OF assms(1) _ _ assms(4), of 8 prk th] by auto
  have idc: "(if isCWT (cfg_Credential (cfg p)) then encodeIDCredCWT (CWTBytes (the (cfg_Credential (cfg p))))
      else encodeIDCredFromSigner env (signerOf p)) = Inr (item ?v)"
    using encode_carried [OF assms(5), of "[]"]
    by (simp add: idValue_def encodeIDCredCWT_def encodeIDCredFromSigner_def encodeIDCred_def split: if_split_asm)
  have sd: "buildSignStruct ''Signature1'' (item ?v) th mac = Inr (?sd mac)"
    unfolding buildSignStruct_def by (rule encode_array) (auto simp: contexts_valid)
  obtain sig where sig: "edhocSignature env draw (signerOf p) (?sd mac) = Inr sig" "verifySignature env pub (?sd mac) sig"
    "length sig \<le> 1024" using assms(7) by (auto simp: signer_works_def)
  have b: "carried (Bytes sig)" "length (item (Bytes sig)) \<le> 1033" using sig(3) item_bytes_length [of sig] by auto
  have "signedPlaintext env draw p prk th ml = Inr (item ?v @ item (Bytes sig))"
    by (simp add: signedPlaintext_def idc orFail_def n mac sd sig(1) encode_carried [OF b(1)])
  moreover have "verifyPlaintext env q prk th ml (item ?v @ item (Bytes sig)) = Inr ()"
    using decode_carried [OF assms(5), of "item (Bytes sig)"] decode_bytes [of sig "[]"] sig(2,3) b(2)
      encode_carried [OF assms(5), of "[]"]
    by (simp add: verifyPlaintext_def orFail_def assms(3,6) n mac sd)
  ultimately show ?thesis using b(2) by auto
qed

end
