(* ===== verification/Edhoc_Theorems.thy ===== *)
theory Edhoc_Theorems
  imports Edhoc_Wire
begin

text \<open>
  The properties of the EDHOC state machines: an undisturbed run between two parties that trust each other's keys
  completes with the same exported keys on both sides; the states a party can reach and what it has checked when
  it completes; calls out of order and suite negotiation.
\<close>

section \<open>An undisturbed run\<close>

definition ecdh_works :: "EdhocEnv \<Rightarrow> bool" where
  "ecdh_works env \<longleftrightarrow> (\<forall>c d e k l. GenerateKey env d c = Some k \<and> GenerateKey env e c = Some l \<longrightarrow>
     ValidPublicKey env c (PublicBytes env c k) \<and> length (PublicBytes env c k) \<le> 133
     \<and> (\<exists>s. SharedSecret env c k (PublicBytes env c l) = Some s \<and> SharedSecret env c l (PublicBytes env c k) = Some s))"

text \<open>Party \<open>q\<close> finds in the identity that \<open>p\<close> sends the key with which \<open>p\<close>'s signatures verify, and the identity
  fits in a message: AES-CCM with its two-byte length field seals no more than 65,535 bytes.\<close>

definition trusts :: "EdhocEnv \<Rightarrow> 'q Party_scheme \<Rightarrow> 'p Party_scheme \<Rightarrow> bool" where
  "trusts env q p \<longleftrightarrow>
     (if isCWT (cfg_Credential (cfg p)) then length (CWTBytes (the (cfg_Credential (cfg p)))) \<le> 64000
      else length (marshalPublicKeyRaw env (PublicOf (Signing env) (signerOf p))) \<le> 64000)
     \<and> (\<exists>pub. peerKey env (cfg q) (idValue env p) = Inr pub \<and> signer_works env (signerOf p) pub)"

definition edhoc_laws :: "EdhocEnv \<Rightarrow> bool" where
  "edhoc_laws env \<longleftrightarrow> encrypts_blocks (blockOf env) \<and> expands env \<and> ecdh_works env"

lemma id_fits: "trusts env q p \<Longrightarrow> carried (idValue env p) \<and> length (item (idValue env p)) \<le> 64027"
  using id_map [of "marshalPublicKeyRaw env (PublicOf (Signing env) (signerOf p))"]
    item_bytes_length [of "CWTBytes (the (cfg_Credential (cfg p)))"]
  by (auto simp: trusts_def idValue_def split: if_split_asm)

lemma trusts_same: "cfg q' = cfg q \<Longrightarrow> cfg p' = cfg p \<Longrightarrow> trusts env q' p' = trusts env q p"
  by (simp add: trusts_def idValue_def signerOf_def)

text \<open>The common part of messages 2 and 3.\<close>

lemma sealed_arrives:
  assumes "edhoc_laws env" and "standard (sp p)" and "sp q = sp p" and "trusts env q p"
    and "utf8_Valid (goString ml)" and "utf8_Valid (goString kl)" and "utf8_Valid (goString il)"
  shows "\<exists>pt ct. signedPlaintext env draw p prk th ml = Inr pt
    \<and> orFail (deriveAEAD env p prk' th kl il) (\<lambda>a. sealMessage env a pt) = Inr ct
    \<and> orFail (deriveAEAD env q prk' th kl il) (\<lambda>a. openMessage env a ct) = Inr pt
    \<and> verifyPlaintext env q prk th ml pt = Inr () \<and> length ct \<le> 2 ^ 24"
proof -
  have laws: "expands env" "encrypts_blocks (blockOf env)" using assms(1) by (simp_all add: edhoc_laws_def)
  obtain pub where pub: "peerKey env (cfg q) (idValue env p) = Inr pub" "signer_works env (signerOf p) pub"
    using assms(4) by (auto simp: trusts_def)
  note fits = id_fits [OF assms(4)]
  obtain pt where pt: "signedPlaintext env draw p prk th ml = Inr pt" "verifyPlaintext env q prk th ml pt = Inr ()"
    "length pt \<le> length (item (idValue env p)) + 1033"
    using signedPlaintext_verifies [OF laws(1) assms(2,3,5) _ pub] fits by blast
  obtain c iv where a: "deriveAEAD env p prk' th kl il = Inr (c, iv, item (MakeArray [Bytes th]))" "ccm_ok c"
    "nonceLen c = 13" "tagSize c = 8" "length iv = 13"
    using deriveAEAD_total [OF laws(1) assms(2,6,7)] by blast
  have "length pt \<le> 65535" using pt(3) fits by linarith
  then obtain ct where "sealMessage env (c, iv, item (MakeArray [Bytes th])) pt = Inr ct"
    "openMessage env (c, iv, item (MakeArray [Bytes th])) ct = Inr pt" "length ct = length pt + 8"
    using seal_open [OF laws(2) a(2-5)] by blast
  then show ?thesis
    using pt(1,2) \<open>length pt \<le> 65535\<close> a(1) deriveAEAD_same [OF assms(3), of env prk' th kl il]
    by (auto simp: orFail_def)
qed

lemma labels_valid:
  "utf8_Valid (goString ''MAC_2'')" "utf8_Valid (goString ''K_2e'')" "utf8_Valid (goString ''IV_2e'')"
  "utf8_Valid (goString ''MAC_3'')" "utf8_Valid (goString ''K_3e'')" "utf8_Valid (goString ''IV_3e'')"
  "utf8_Valid (goString ''K_4'')" "utf8_Valid (goString ''IV_4'')"
  by code_simp+

lemma oscore_labels_valid:
  "utf8_Valid (goString ''OSCORE_Master_Secret'')" "utf8_Valid (goString ''OSCORE_Master_Salt'')"
  by code_simp+

lemma message1_sent:
  assumes "i_state i = InitiatorInit" and "GenerateKey env a (DHCurve (sp i)) = Some k"
    and "cfg_Suites (cfg i) \<noteq> []" and "length (cfg_Suites (cfg i)) \<le> 2 ^ 20" and "suite i = cfg_Suites (cfg i) ! 0"
    and "length (PublicBytes env (DHCurve (sp i)) k) \<le> 133" and "length (connectionID i) \<le> 2 ^ 24"
  shows "\<exists>m1. CreateMessage1 env a i = (Inr m1, i\<lparr>ephPriv := k, ephPub := PublicBytes env (DHCurve (sp i)) k,
      message1Raw := m1, i_state := InitiatorSentMsg1\<rparr>)
    \<and> decodeMessage1 m1 = Inr \<lparr>Method = 0, m1_Suites = cfg_Suites (cfg i), SuitesSel = suite i,
        GX = PublicBytes env (DHCurve (sp i)) k, CI = connectionID i\<rparr>"
proof -
  let ?m = "\<lparr>Method = 0, m1_Suites = cfg_Suites (cfg i), SuitesSel = suite i, GX = PublicBytes env (DHCurve (sp i)) k,
    CI = connectionID i\<rparr>"
  have small: "length (GX ?m) \<le> 2 ^ 24" using assms(6) by simp
  obtain m1 where m1: "encodeMessage1 ?m = Inr m1" using encode_message1 [OF _ small, of] assms(4,7) by auto
  have "decodeMessage1 m1 = Inr ?m"
    using decode_encoded_message1 [OF _ _ _ small _ m1] assms(3-5,7) by simp
  with m1 assms(1,2) show ?thesis by (simp add: CreateMessage1_def Let_def)
qed

text \<open>The key schedule reads the suite's sizes, and verification the configuration besides.\<close>

lemma party_reads:
  "sp p' = sp p \<Longrightarrow> deriveAEAD env p' prk th kl il = deriveAEAD env p prk th kl il"
  "sp p' = sp p \<Longrightarrow> cfg p' = cfg p \<Longrightarrow> verifyPlaintext env p' prk th ml pt = verifyPlaintext env p prk th ml pt"
  "sp p' = sp p \<Longrightarrow> cfg p' = cfg p \<Longrightarrow> signedPlaintext env d p' prk th ml = signedPlaintext env d p prk th ml"
  by (simp_all add: deriveAEAD_def verifyPlaintext_def signedPlaintext_def signerOf_def)

lemma message2_sent:
  assumes laws: "edhoc_laws env" and st: "r_state r = ResponderInit" and m: "decodeMessage1 m1 = Inr msg1" "Method msg1 = 0"
    and s: "negotiateSuite r (m1_Suites msg1) = Some s" and P: "P = getSuiteParams s"
    and k: "GenerateKey env b (DHCurve P) = Some l" "ValidPublicKey env (DHCurve P) (GX msg1)"
      "SharedSecret env (DHCurve P) l (GX msg1) = Some sec" "length (PublicBytes env (DHCurve P) l) \<le> 133"
    and c: "length (connectionID r) \<le> 2 ^ 24" and q: "trusts env q r" "sp q = P"
    and th: "th = computeTH2 env m1 (PublicBytes env (DHCurve P) l) (connectionID r)" and prk: "prk = extractPRK2e env sec"
  shows "\<exists>m2 ct pt. ProcessMessage1 env b m1 r = (Inr m2, r\<lparr>suite := s, sp := P, peerConnID := CI msg1, message1Raw := m1,
      ephPriv := l, ephPub := PublicBytes env (DHCurve P) l, prk2e := prk, prk3e2m := prk, prk4e3m := prk, th2 := th,
      ciphertext2 := ct, th3 := computeTH3 env th ct, r_state := ResponderSentMsg2\<rparr>)
    \<and> decodeMessage2 m2 = Inr \<lparr>GY = PublicBytes env (DHCurve P) l, CR = connectionID r, m2_Ciphertext = ct\<rparr>
    \<and> orFail (deriveAEAD env q prk th ''K_2e'' ''IV_2e'') (\<lambda>a. openMessage env a ct) = Inr pt
    \<and> verifyPlaintext env q prk th ''MAC_2'' pt = Inr ()"
proof -
  define r4 where "r4 = r\<lparr>suite := s, sp := P, peerConnID := CI msg1, message1Raw := m1, ephPriv := l,
    ephPub := PublicBytes env (DHCurve P) l, prk2e := prk, prk3e2m := prk, prk4e3m := prk, th2 := th\<rparr>"
  have r4: "sp r4 = P" "cfg r4 = cfg r" "th2 r4 = th" "prk2e r4 = prk" "prk3e2m r4 = prk" "connectionID r4 = connectionID r"
    by (simp_all add: r4_def)
  have std: "standard (sp r4)" by (simp add: r4 P)
  have "trusts env q r4" using trusts_same [OF refl r4(2)] q(1) by blast
  from sealed_arrives [OF laws std _ this labels_valid(1-3), of "Suc b" prk th prk] q(2) r4(1)
  obtain pt ct where pt: "signedPlaintext env (Suc b) r4 prk th ''MAC_2'' = Inr pt"
    "orFail (deriveAEAD env r4 prk th ''K_2e'' ''IV_2e'') (\<lambda>a. sealMessage env a pt) = Inr ct"
    "orFail (deriveAEAD env q prk th ''K_2e'' ''IV_2e'') (\<lambda>a. openMessage env a ct) = Inr pt"
    "verifyPlaintext env q prk th ''MAC_2'' pt = Inr ()" "length ct \<le> 2 ^ 24" by auto
  have e: "encryptMessage2 env (Suc b) r4 = Inr ct" using pt(1,2) by (simp add: encryptMessage2_def r4 orFail_def)
  let ?m2 = "\<lparr>GY = PublicBytes env (DHCurve P) l, CR = connectionID r, m2_Ciphertext = ct\<rparr>"
  have small: "length (GY ?m2) \<le> 2 ^ 24" "length (CR ?m2) \<le> 2 ^ 24" "length (m2_Ciphertext ?m2) \<le> 2 ^ 24"
    using k(4) c pt(5) by simp_all
  obtain m2 where m2: "encodeMessage2 ?m2 = Inr m2" using encode_message2 [OF small] by blast
  have "ProcessMessage1 env b m1 r = (Inr m2, r4\<lparr>ciphertext2 := ct, th3 := computeTH3 env th ct, r_state := ResponderSentMsg2\<rparr>)"
    using st m s k e m2 by (simp add: ProcessMessage1_def Let_def r4_def P prk th)
  then show ?thesis using decode_encoded_message2 [OF small m2] pt(3,4) unfolding r4_def by auto
qed

lemma message3_sent:
  assumes laws: "edhoc_laws env" and st: "i_state i = InitiatorSentMsg1" and m: "decodeMessage2 m2 = Inr msg2"
    and k: "ValidPublicKey env (DHCurve (sp i)) (GY msg2)" "SharedSecret env (DHCurve (sp i)) (ephPriv i) (GY msg2) = Some sec"
    and th: "th = computeTH2 env (message1Raw i) (GY msg2) (CR msg2)" and prk: "prk = extractPRK2e env sec"
    and d: "orFail (deriveAEAD env i prk th ''K_2e'' ''IV_2e'') (\<lambda>a. openMessage env a (m2_Ciphertext msg2)) = Inr pt2"
    and v: "verifyPlaintext env i prk th ''MAC_2'' pt2 = Inr ()"
    and q: "standard (sp i)" "sp q = sp i" "trusts env q i" and t3: "t3 = computeTH3 env th (m2_Ciphertext msg2)"
  shows "\<exists>m3 ct pt. ProcessMessage2 env a m2 i = (Inr m3, i\<lparr>peerConnID := CR msg2, prk2e := prk, prk3e2m := prk,
      prk4e3m := prk, th2 := th, th3 := t3, th4 := computeTH4 env t3 ct, i_state := InitiatorComplete\<rparr>)
    \<and> decodeMessage3 m3 = Inr ct
    \<and> orFail (deriveAEAD env q prk t3 ''K_3e'' ''IV_3e'') (\<lambda>a. openMessage env a ct) = Inr pt
    \<and> verifyPlaintext env q prk t3 ''MAC_3'' pt = Inr ()"
proof -
  define i2 where "i2 = i\<lparr>peerConnID := CR msg2, prk2e := prk, prk3e2m := prk, prk4e3m := prk, th2 := th\<rparr>"
  define i3 where "i3 = i2\<lparr>th3 := t3\<rparr>"
  have i2: "decryptMessage2 env i2 (m2_Ciphertext msg2) = Inr pt2" "verifyResponderSignature env i2 pt2 = Inr ()"
    using d v party_reads [of i2 i] by (simp_all add: decryptMessage2_def verifyResponderSignature_def i2_def)
  have i3: "sp i3 = sp i" "cfg i3 = cfg i" by (simp_all add: i3_def i2_def)
  have "trusts env q i3" using trusts_same [OF refl i3(2)] q(3) by blast
  from sealed_arrives [OF laws _ _ this labels_valid(4-6), of a prk t3 prk] q(1,2) i3(1)
  obtain pt ct where pt: "signedPlaintext env a i3 prk t3 ''MAC_3'' = Inr pt"
    "orFail (deriveAEAD env i3 prk t3 ''K_3e'' ''IV_3e'') (\<lambda>a. sealMessage env a pt) = Inr ct"
    "orFail (deriveAEAD env q prk t3 ''K_3e'' ''IV_3e'') (\<lambda>a. openMessage env a ct) = Inr pt"
    "verifyPlaintext env q prk t3 ''MAC_3'' pt = Inr ()" "length ct \<le> 2 ^ 24" by auto
  have "prk4e3m i3 = prk" "prk3e2m i3 = prk" "th3 i3 = t3" by (simp_all add: i3_def i2_def)
  then have e: "encryptMessage3 env a i3 = Inr ct" using pt(1,2) by (simp add: encryptMessage3_def orFail_def)
  obtain m3 where m3: "encodeMessage3 ct = Inr m3" using pt(5) by (auto simp: encodeMessage3_def asFormat_def encode_carried)
  have "ProcessMessage2 env a m2 i = (Inr m3, i3\<lparr>th4 := computeTH4 env t3 ct, i_state := InitiatorComplete\<rparr>)"
    using st m k i2 e m3 by (simp add: ProcessMessage2_def Let_def i2_def i3_def prk th t3)
  then show ?thesis using decode_encoded_message3 [OF pt(5) m3] pt(3,4) unfolding i3_def i2_def by auto
qed

lemma message3_accepted:
  assumes "r_state r = ResponderSentMsg2" and "decodeMessage3 m3 = Inr ct"
    and "orFail (deriveAEAD env r (prk3e2m r) (th3 r) ''K_3e'' ''IV_3e'') (\<lambda>a. openMessage env a ct) = Inr pt"
    and "verifyPlaintext env r (prk4e3m r) (th3 r) ''MAC_3'' pt = Inr ()"
  shows "ProcessMessage3 env m3 r = (Inr (), r\<lparr>th4 := computeTH4 env (th3 r) ct, r_state := ResponderComplete\<rparr>)"
  using assms by (auto simp: ProcessMessage3_def verifyInitiatorSignature_def orFail_def split: sum.splits)

lemma message4_accepted:
  assumes "edhoc_laws env" and "i_state i = InitiatorComplete" and "r_state r = ResponderComplete" and "standard (sp r)"
    and "sp i = sp r" and "prk4e3m i = prk4e3m r" and "th4 i = th4 r"
  shows "\<exists>m4. CreateMessage4 env r = Inr m4 \<and> ProcessMessage4 env m4 i = Inr ()"
proof -
  have laws: "expands env" "encrypts_blocks (blockOf env)" using assms(1) by (simp_all add: edhoc_laws_def)
  obtain c iv where a: "deriveAEAD env r (prk4e3m r) (th4 r) ''K_4'' ''IV_4'' = Inr (c, iv, item (MakeArray [Bytes (th4 r)]))"
    "ccm_ok c" "nonceLen c = 13" "tagSize c = 8" "length iv = 13"
    using deriveAEAD_total [OF laws(1) assms(4) labels_valid(7,8)] by blast
  obtain ct where ct: "sealMessage env (c, iv, item (MakeArray [Bytes (th4 r)])) [] = Inr ct"
    "openMessage env (c, iv, item (MakeArray [Bytes (th4 r)])) ct = Inr []" "length ct = 8"
    using seal_open [OF laws(2) a(2-5), of "[]" "item (MakeArray [Bytes (th4 r)])"] by auto
  have "carried (Bytes ct)" using ct(3) by simp
  then have "CreateMessage4 env r = Inr (item (Bytes ct))"
    using assms(3) a(1) ct(1) by (simp add: CreateMessage4_def orFail_def encode_carried)
  moreover have "ProcessMessage4 env (item (Bytes ct)) i = Inr ()"
    using assms(2) decode_bytes [of ct "[]"] ct a(1) deriveAEAD_same [OF assms(5), of env]
    by (simp add: ProcessMessage4_def orFail_def assms(6,7))
  ultimately show ?thesis by blast
qed

lemma honest_run:
  assumes "edhoc_laws env" and "NewInitiator env d1 ci = Inr i" and "NewResponder env d2 cr = Inr r"
    and "cfg_Suites ci ! 0 \<in> set (cfg_Suites cr)" and "length (cfg_Suites ci) \<le> 2 ^ 20"
    and "length (connectionID i) \<le> 2 ^ 24" and "length (connectionID r) \<le> 2 ^ 24"
    and "trusts env i r" and "trusts env r i"
    and "GenerateKey env a (DHCurve (getSuiteParams (cfg_Suites ci ! 0))) = Some k"
    and "GenerateKey env b (DHCurve (getSuiteParams (cfg_Suites ci ! 0))) = Some l"
  shows "\<exists>m1 m2 m3 m4 i1 i2 r1 r2 s. CreateMessage1 env a i = (Inr m1, i1) \<and> ProcessMessage1 env b m1 r = (Inr m2, r1)
    \<and> ProcessMessage2 env c m2 i1 = (Inr m3, i2) \<and> ProcessMessage3 env m3 r1 = (Inr (), r2)
    \<and> i_state i2 = InitiatorComplete \<and> r_state r2 = ResponderComplete \<and> CreateMessage4 env r2 = Inr m4 \<and> ProcessMessage4 env m4 i2 = Inr ()
    \<and> (\<forall>label ctx n. InitiatorExport env i2 label ctx n = ResponderExport env r2 label ctx n)
    \<and> InitiatorExportOSCORE env i2 = Inr s \<and> ResponderExportOSCORE env r2 = Inr (s\<lparr>SenderID := RecipientID s, RecipientID := SenderID s\<rparr>)
    \<and> SenderID s = connectionID i \<and> RecipientID s = connectionID r"
proof -
  define P where "P = getSuiteParams (cfg_Suites ci ! 0)"
  have std: "standard P" by (simp add: P_def)
  have i: "i_state i = InitiatorInit" "cfg i = ci" "suite i = cfg_Suites ci ! 0" "sp i = P" "cfg_Suites ci \<noteq> []"
    using assms(2) by (auto simp: NewInitiator_def orFail_def P_def split: if_split_asm sum.split_asm)
  have r: "r_state r = ResponderInit" "cfg r = cr"
    using assms(3) by (auto simp: NewResponder_def orFail_def split: if_split_asm sum.split_asm)
  let ?gx = "PublicBytes env (DHCurve P) k" and ?gy = "PublicBytes env (DHCurve P) l"
  note keys = assms(10,11) [folded P_def]
  obtain sec where dh: "ValidPublicKey env (DHCurve P) ?gx" "ValidPublicKey env (DHCurve P) ?gy"
    "length ?gx \<le> 133" "length ?gy \<le> 133"
    "SharedSecret env (DHCurve P) k ?gy = Some sec" "SharedSecret env (DHCurve P) l ?gx = Some sec"
    using assms(1) keys unfolding edhoc_laws_def ecdh_works_def by blast
  from message1_sent [of i env a k] i assms(5,6) keys(1) dh(3)
  obtain m1 i1 where m1: "CreateMessage1 env a i = (Inr m1, i1)"
    and d1: "decodeMessage1 m1 = Inr \<lparr>Method = 0, m1_Suites = cfg_Suites ci, SuitesSel = suite i, GX = ?gx, CI = connectionID i\<rparr>"
    and i1: "i1 = i\<lparr>ephPriv := k, ephPub := ?gx, message1Raw := m1, i_state := InitiatorSentMsg1\<rparr>" by auto
  have neg: "negotiateSuite r (cfg_Suites ci) = Some (cfg_Suites ci ! 0)"
    using assms(4) i(5) r(2) by (cases "cfg_Suites ci") (simp_all add: negotiateSuite_def)
  define th where "th = computeTH2 env m1 ?gy (connectionID r)"
  define prk where "prk = extractPRK2e env sec"
  have i1': "sp i1 = P" "cfg i1 = cfg i" "ephPriv i1 = k" "message1Raw i1 = m1" "i_state i1 = InitiatorSentMsg1"
    by (simp_all add: i1 i(4))
  have t: "trusts env i1 r" using trusts_same [OF i1'(2) refl] assms(8) by blast
  from message2_sent [OF assms(1) r(1) d1 _ _ P_def keys(2) _ _ dh(4) assms(7) t i1'(1) th_def prk_def] neg dh(1,6)
  obtain m2 ct pt r1 where m2: "ProcessMessage1 env b m1 r = (Inr m2, r1)"
    and d2: "decodeMessage2 m2 = Inr \<lparr>GY = ?gy, CR = connectionID r, m2_Ciphertext = ct\<rparr>"
    and o2: "orFail (deriveAEAD env i1 prk th ''K_2e'' ''IV_2e'') (\<lambda>a. openMessage env a ct) = Inr pt"
      "verifyPlaintext env i1 prk th ''MAC_2'' pt = Inr ()"
    and r1: "r1 = r\<lparr>suite := cfg_Suites ci ! 0, sp := P, peerConnID := connectionID i, message1Raw := m1, ephPriv := l,
      ephPub := ?gy, prk2e := prk, prk3e2m := prk, prk4e3m := prk, th2 := th, ciphertext2 := ct,
      th3 := computeTH3 env th ct, r_state := ResponderSentMsg2\<rparr>" by auto
  define t3 where "t3 = computeTH3 env th ct"
  have r1': "sp r1 = P" "cfg r1 = cfg r" "prk3e2m r1 = prk" "prk4e3m r1 = prk" "th3 r1 = t3" "r_state r1 = ResponderSentMsg2"
    "connectionID r1 = connectionID r" "peerConnID r1 = connectionID i"
    by (simp_all add: r1 t3_def)
  have t': "trusts env r1 i1" using trusts_same [OF r1'(2) i1'(2)] assms(9) by blast
  from message3_sent [OF assms(1) i1'(5) d2 _ _ _ prk_def _ o2(2) _ _ t', of t3 c] std dh(2,5) o2(1)
  obtain m3 ct3 pt3 i2 where m3: "ProcessMessage2 env c m2 i1 = (Inr m3, i2)" and d3: "decodeMessage3 m3 = Inr ct3"
    and o3: "orFail (deriveAEAD env r1 prk t3 ''K_3e'' ''IV_3e'') (\<lambda>a. openMessage env a ct3) = Inr pt3"
      "verifyPlaintext env r1 prk t3 ''MAC_3'' pt3 = Inr ()"
    and i2: "i2 = i1\<lparr>peerConnID := connectionID r, prk2e := prk, prk3e2m := prk, prk4e3m := prk, th2 := th, th3 := t3,
      th4 := computeTH4 env t3 ct3, i_state := InitiatorComplete\<rparr>"
    by (auto simp: i1' r1' th_def t3_def)
  define r2 where "r2 = r1\<lparr>th4 := computeTH4 env t3 ct3, r_state := ResponderComplete\<rparr>"
  have m3': "ProcessMessage3 env m3 r1 = (Inr (), r2)"
    using message3_accepted [OF r1'(6) d3, of env pt3] o3 by (simp add: r1' r2_def)
  have same: "i_state i2 = InitiatorComplete" "r_state r2 = ResponderComplete" "sp r2 = P" "sp i2 = P"
    "prk4e3m i2 = prk4e3m r2" "th4 i2 = th4 r2" "connectionID i2 = connectionID i" "peerConnID i2 = connectionID r"
    "connectionID r2 = connectionID r" "peerConnID r2 = connectionID i"
    by (simp_all add: i2 i1 r2_def r1' i(4))
  obtain m4 where m4: "CreateMessage4 env r2 = Inr m4" "ProcessMessage4 env m4 i2 = Inr ()"
    using message4_accepted [OF assms(1) same(1,2)] same(3-6) std by metis
  have ex: "InitiatorExport env i2 label ctx n = ResponderExport env r2 label ctx n" for label ctx n
    by (simp add: InitiatorExport_def ResponderExport_def same)
  have "expands env" using assms(1) by (simp add: edhoc_laws_def)
  from edhocKDF_total [OF this, of 16 "''OSCORE_Master_Secret''" "prk4e3m r2" "th4 r2"]
    edhocKDF_total [OF this, of 8 "''OSCORE_Master_Salt''" "prk4e3m r2" "th4 r2"]
  obtain x y where "edhocKDF env (prk4e3m r2) (th4 r2) ''OSCORE_Master_Secret'' 16 = Inr x"
    "edhocKDF env (prk4e3m r2) (th4 r2) ''OSCORE_Master_Salt'' 8 = Inr y" using oscore_labels_valid by auto
  then have os: "InitiatorExportOSCORE env i2 = Inr \<lparr>MasterSecret = x, MasterSalt = y, SenderID = connectionID i, RecipientID = connectionID r\<rparr>"
    "ResponderExportOSCORE env r2 = Inr \<lparr>MasterSecret = x, MasterSalt = y, SenderID = connectionID r, RecipientID = connectionID i\<rparr>"
    by (simp_all add: InitiatorExportOSCORE_def ResponderExportOSCORE_def oscoreContext_def orFail_def same)
  show ?thesis using m1 m2 m3 m3' m4 ex os same(1,2) by fastforce
qed

text \<open>C31: An undisturbed run completes. Let a new initiator and a new responder trust each other's keys (raw or in
  CWTs), let the responder have the first suite of the initiator, and let the key generators not fail. Then all
  calls succeed in turn, message_4 is accepted, both parties export the same key for every label, context and
  length, and their OSCORE contexts have the same secrets and mirrored identifiers.\<close>
theorem edhoc_honest_run:
  assumes "edhoc_laws env" and "NewInitiator env d1 ci = Inr i" and "NewResponder env d2 cr = Inr r"
    and "cfg_Suites ci ! 0 \<in> set (cfg_Suites cr)" and "length (cfg_Suites ci) \<le> 2 ^ 20"
    and "length (connectionID i) \<le> 2 ^ 24" and "length (connectionID r) \<le> 2 ^ 24"
    and "trusts env i r" and "trusts env r i"
    and "GenerateKey env a (DHCurve (getSuiteParams (cfg_Suites ci ! 0))) = Some k"
    and "GenerateKey env b (DHCurve (getSuiteParams (cfg_Suites ci ! 0))) = Some l"
  shows "\<exists>m1 m2 m3 m4 i1 i2 r1 r2 s. CreateMessage1 env a i = (Inr m1, i1) \<and> ProcessMessage1 env b m1 r = (Inr m2, r1)
    \<and> ProcessMessage2 env c m2 i1 = (Inr m3, i2) \<and> ProcessMessage3 env m3 r1 = (Inr (), r2)
    \<and> i_state i2 = InitiatorComplete \<and> r_state r2 = ResponderComplete \<and> CreateMessage4 env r2 = Inr m4 \<and> ProcessMessage4 env m4 i2 = Inr ()
    \<and> (\<forall>label ctx n. InitiatorExport env i2 label ctx n = ResponderExport env r2 label ctx n)
    \<and> InitiatorExportOSCORE env i2 = Inr s \<and> ResponderExportOSCORE env r2 = Inr (s\<lparr>SenderID := RecipientID s, RecipientID := SenderID s\<rparr>)
    \<and> SenderID s = connectionID i \<and> RecipientID s = connectionID r"
  using assms by (rule honest_run)

text \<open>Primitives that keep these laws, and two parties with raw public keys.\<close>

definition toyEdhoc :: EdhocEnv where
  "toyEdhoc =
     \<lparr>BlockEncrypt = (\<lambda>k b. rev b), BlockDecrypt = (\<lambda>k b. rev b), RandomBytes = (\<lambda>d n. Some (replicate n (of_nat d))),
      GenerateKey = (\<lambda>d cv. Some [of_nat d]),
      PublicBytes = (\<lambda>cv k. if cv = DH_X25519 then k ! 0 # replicate 31 0 else 4 # k ! 0 # replicate 63 0),
      ValidPublicKey = (\<lambda>cv p. length p = (if cv = DH_X25519 then 32 else 65)),
      SharedSecret = (\<lambda>cv k p. Some [k ! 0 + p ! (if cv = DH_X25519 then 0 else 1)]),
      HkdfKey = (\<lambda>s i n. Some (take (nat n) (s @ replicate (nat n) 0))),
      Pbkdf2Key = (\<lambda>p s i n. Some (take (nat n) (p @ replicate (nat n) 0))),
      HpkeKeyOk = (\<lambda>cv k. True), HpkeSeal = (\<lambda>d p i cek. Some (rev cek)), HpkeOpen = (\<lambda>k i s. Some (rev s)),
      GcmSeal = (\<lambda>k n p a. p), GcmOpen = (\<lambda>k n s a. Some s), HmacSum = (\<lambda>h k m. k),
      Signing = toyCrypto, Formats = toyFormats, FloatToInt = (\<lambda>_. 0), MapOrder = (\<lambda>ps. ps),
      HkdfExtract = (\<lambda>s. s), HkdfExpand = (\<lambda>k i n. Some (take (nat n) (k @ replicate (nat n) 0))),
      EcdsaSign = (\<lambda>_ _ _. None), EcdsaVerify = (\<lambda>_ _ _ _. False), OtherCurveSize = (\<lambda>_. 0),
      EcdsaFromXY = (\<lambda>cv x y. EcdsaPublic cv x)\<rparr>"

lemma toyEdhoc_laws: "edhoc_laws toyEdhoc"
  by (auto simp: edhoc_laws_def encrypts_blocks_def expands_def ecdh_works_def toyEdhoc_def blockOf_def
      BlockCipher.truncate_def add.commute)

definition toyConfig :: "byte \<Rightarrow> byte \<Rightarrow> EdhocConfig" where
  "toyConfig own peer = \<lparr>cfg_Suites = [Suite0], cfg_PrivateKey = Some (Ed25519PrivateKey [own]),
     cfg_PeerPublic = Some (Ed25519Public [peer]), cfg_ConnectionID = Some [own], cfg_Credential = None,
     cfg_PeerCredential = None, cfg_CWTIssuerKey = None\<rparr>"

definition toyInitiator :: Initiator where
  "toyInitiator = \<lparr>cfg = toyConfig 7 9, suite = Suite0, sp = getSuiteParams Suite0, ephPriv = [], ephPub = [],
     connectionID = [7], peerConnID = [], message1Raw = [], th2 = [], th3 = [], th4 = [], prk2e = [], prk3e2m = [],
     prk4e3m = [], i_state = InitiatorInit\<rparr>"

definition toyResponder :: Responder where
  "toyResponder = \<lparr>cfg = toyConfig 9 7, suite = 0, sp = zeroParams, ephPriv = [], ephPub = [],
     connectionID = [9], peerConnID = [], message1Raw = [], th2 = [], th3 = [], th4 = [], prk2e = [], prk3e2m = [],
     prk4e3m = [], r_state = ResponderInit, ciphertext2 = []\<rparr>"

lemma toy_parties:
  "NewInitiator toyEdhoc d (toyConfig 7 9) = Inr toyInitiator" "NewResponder toyEdhoc d (toyConfig 9 7) = Inr toyResponder"
  by (simp_all add: NewInitiator_def NewResponder_def toyConfig_def isSuiteSupported_def orFail_def chooseCID_def
      toyInitiator_def toyResponder_def)

lemma toy_trust: "trusts toyEdhoc toyInitiator toyResponder" "trusts toyEdhoc toyResponder toyInitiator"
  by (simp_all add: trusts_def toyInitiator_def toyResponder_def toyConfig_def isCWT_def marshalPublicKeyRaw_def toyEdhoc_def
      toyCrypto_def signerOf_def peerKey_def signer_works_def edhocSignature_def verifySignature_def min_def)

lemma toy_draws: "GenerateKey toyEdhoc d cv = Some [of_nat d]"
  by (simp add: toyEdhoc_def)

lemma toy_sizes:
  "length (connectionID toyInitiator) \<le> 2 ^ 24" "length (connectionID toyResponder) \<le> 2 ^ 24"
  "cfg_Suites (toyConfig 7 9) ! 0 \<in> set (cfg_Suites (toyConfig 9 7))" "length (cfg_Suites (toyConfig 7 9)) \<le> 2 ^ 20"
  by (simp_all add: toyInitiator_def toyResponder_def toyConfig_def)

theorem edhoc_honest_run_witness:
  "\<exists>m1 m2 m3 i1 i2 r1 r2. CreateMessage1 toyEdhoc 3 toyInitiator = (Inr m1, i1) \<and> ProcessMessage1 toyEdhoc 5 m1 toyResponder = (Inr m2, r1)
    \<and> ProcessMessage2 toyEdhoc 6 m2 i1 = (Inr m3, i2) \<and> ProcessMessage3 toyEdhoc m3 r1 = (Inr (), r2)"
proof -
  note toy = toyEdhoc_laws toy_parties(1) [of 0] toy_parties(2) [of 0]
  show ?thesis using edhoc_honest_run [OF toy _ _ _ _ toy_trust toy_draws toy_draws, of 3 5 6] toy_sizes by blast
qed

section \<open>What a party has checked\<close>

text \<open>The states that a party reaches from its constructor by any sequence of calls, successful or not.\<close>

inductive init_reach :: "EdhocEnv \<Rightarrow> Initiator \<Rightarrow> bool" for env where
  new: "NewInitiator env d c = Inr i \<Longrightarrow> init_reach env i"
| msg1: "init_reach env i \<Longrightarrow> CreateMessage1 env d i = (res, i') \<Longrightarrow> init_reach env i'"
| msg2: "init_reach env i \<Longrightarrow> ProcessMessage2 env d m2 i = (res, i') \<Longrightarrow> init_reach env i'"

inductive resp_reach :: "EdhocEnv \<Rightarrow> Responder \<Rightarrow> bool" for env where
  new: "NewResponder env d c = Inr r \<Longrightarrow> resp_reach env r"
| msg1: "resp_reach env r \<Longrightarrow> ProcessMessage1 env d m1 r = (res, r') \<Longrightarrow> resp_reach env r'"
| msg3: "resp_reach env r \<Longrightarrow> ProcessMessage3 env m3 r = (res, r') \<Longrightarrow> resp_reach env r'"

text \<open>The peer, whose key the configuration gives, has signed the transcript \<open>th\<close> with the MAC of \<open>label\<close>.\<close>

definition signed_by_peer :: "EdhocEnv \<Rightarrow> 'p Party_scheme \<Rightarrow> bytes \<Rightarrow> bytes \<Rightarrow> string \<Rightarrow> bool" where
  "signed_by_peer env p prk th label \<longleftrightarrow> (\<exists>idCred idEnc mac signedData pub sig.
     edhocKDF env prk th label (AEADTagSize (sp p)) = Inr mac \<and> cborEncodeValue [] idCred = Inr idEnc
     \<and> buildSignStruct ''Signature1'' idEnc th mac = Inr signedData
     \<and> peerKey env (cfg p) idCred = Inr pub \<and> verifySignature env pub signedData sig)"

lemma verified_signed: "verifyPlaintext env p prk th label pt = Inr () \<Longrightarrow> signed_by_peer env p prk th label"
  unfolding signed_by_peer_def
  by (auto simp: verifyPlaintext_def orFail_def split: sum.split_asm if_split_asm prod.split_asm) blast

text \<open>Encoding a ciphertext or a connection identifier cannot fail, so a call that has changed the state succeeds.\<close>

lemma encode_never_fails: "\<exists>raw. encodeMessage3 ct = Inr raw" "\<exists>raw. encodeMessage2 m = Inr raw"
  by (auto simp: encodeMessage3_def encodeMessage2_def asFormat_def orFail_def encodeConnectionID_def encode_item)

text \<open>What a failed call keeps, and what a successful one has checked.\<close>

definition init_core :: "Initiator \<Rightarrow> (EdhocConfig \<times> i64 \<times> suiteParams) \<times> (bytes \<times> bytes \<times> bytes \<times> bytes \<times> bytes) \<times> initiatorState" where
  "init_core i = ((cfg i, suite i, sp i), (ephPriv i, ephPub i, connectionID i, message1Raw i, th4 i), i_state i)"

definition resp_core :: "Responder \<Rightarrow> EdhocConfig \<times> bytes \<times> bytes \<times> responderState" where
  "resp_core r = (cfg r, connectionID r, th4 r, r_state r)"

definition init_checked :: "EdhocEnv \<Rightarrow> Initiator \<Rightarrow> bool" where
  "init_checked env i \<longleftrightarrow> (\<exists>gy sec ct pt ct3. ValidPublicKey env (DHCurve (sp i)) gy
     \<and> SharedSecret env (DHCurve (sp i)) (ephPriv i) gy = Some sec
     \<and> prk2e i = extractPRK2e env sec \<and> prk3e2m i = prk2e i \<and> prk4e3m i = prk2e i
     \<and> th2 i = computeTH2 env (message1Raw i) gy (peerConnID i)
     \<and> orFail (deriveAEAD env i (prk2e i) (th2 i) ''K_2e'' ''IV_2e'') (\<lambda>a. openMessage env a ct) = Inr pt
     \<and> signed_by_peer env i (prk3e2m i) (th2 i) ''MAC_2''
     \<and> th3 i = computeTH3 env (th2 i) ct \<and> th4 i = computeTH4 env (th3 i) ct3)"

lemma signed_by_peer_reads:
  "sp p' = sp p \<Longrightarrow> cfg p' = cfg p \<Longrightarrow> signed_by_peer env p' prk th label = signed_by_peer env p prk th label"
  by (simp add: signed_by_peer_def)

lemma ProcessMessage2_result:
  assumes "ProcessMessage2 env d m i = (res, i')" and "i_state i = InitiatorSentMsg1"
  obtains e where "res = Inl e" "init_core i' = init_core i"
  | m3 where "res = Inr m3" "i_state i' = InitiatorComplete" "init_checked env i'"
      "cfg i' = cfg i" "sp i' = sp i" "suite i' = suite i" "ephPriv i' = ephPriv i" "ephPub i' = ephPub i"
      "connectionID i' = connectionID i" "message1Raw i' = message1Raw i"
proof (cases "decodeMessage2 m")
  case (Inl e)
  then show ?thesis using assms that(1) by (auto simp: ProcessMessage2_def)
next
  case (Inr msg2)
  note pm2 = assms(1) [unfolded ProcessMessage2_def Let_def]
  define i1 where "i1 = i\<lparr>peerConnID := CR msg2\<rparr>"
  have c1: "init_core i1 = init_core i" by (simp add: i1_def init_core_def)
  show ?thesis
  proof (cases "if ValidPublicKey env (DHCurve (sp i)) (GY msg2) then SharedSecret env (DHCurve (sp i)) (ephPriv i) (GY msg2) else None")
    case None
    then show ?thesis using pm2 assms(2) Inr c1 that(1) by (auto simp: i1_def split: if_split_asm)
  next
    case (Some sec)
    then have k: "ValidPublicKey env (DHCurve (sp i)) (GY msg2)" "SharedSecret env (DHCurve (sp i)) (ephPriv i) (GY msg2) = Some sec"
      by (simp_all split: if_split_asm)
    define prk where "prk = extractPRK2e env sec"
    define i2 where "i2 = i1\<lparr>prk2e := prk, prk3e2m := prk, prk4e3m := prk, th2 := computeTH2 env (message1Raw i) (GY msg2) (CR msg2)\<rparr>"
    define i3 where "i3 = i2\<lparr>th3 := computeTH3 env (th2 i2) (m2_Ciphertext msg2)\<rparr>"
    have c: "init_core i2 = init_core i" "init_core i3 = init_core i" by (simp_all add: i3_def i2_def i1_def init_core_def)
    have run: "(res, i') = (case decryptMessage2 env i2 (m2_Ciphertext msg2) of Inl e \<Rightarrow> (Inl e, i2)
      | Inr pt \<Rightarrow> (case verifyResponderSignature env i2 pt of Inl e \<Rightarrow> (Inl e, i2)
        | Inr _ \<Rightarrow> (case encryptMessage3 env d i3 of Inl e \<Rightarrow> (Inl e, i3)
          | Inr ct \<Rightarrow> (encodeMessage3 ct, i3\<lparr>th4 := computeTH4 env (th3 i3) ct, i_state := InitiatorComplete\<rparr>))))"
      unfolding i3_def i2_def i1_def prk_def using pm2 assms(2) Inr k by simp
    show ?thesis
    proof (cases "\<exists>pt ct. decryptMessage2 env i2 (m2_Ciphertext msg2) = Inr pt \<and> verifyResponderSignature env i2 pt = Inr ()
        \<and> encryptMessage3 env d i3 = Inr ct")
      case False
      then have "\<exists>e. res = Inl e \<and> (i' = i2 \<or> i' = i3)" using run by (auto split: sum.split_asm)
      with c that(1) show ?thesis by auto
    next
      case True
      then obtain pt ct where ok: "decryptMessage2 env i2 (m2_Ciphertext msg2) = Inr pt" "verifyResponderSignature env i2 pt = Inr ()"
        "encryptMessage3 env d i3 = Inr ct" by blast
      obtain m3 where m3: "encodeMessage3 ct = Inr m3" using encode_never_fails by blast
      have i': "res = Inr m3" "i' = i3\<lparr>th4 := computeTH4 env (th3 i3) ct, i_state := InitiatorComplete\<rparr>"
        using run ok m3 by simp_all
      have s: "sp i' = sp i2" "cfg i' = cfg i2" "sp i2 = sp i" by (simp_all add: i' i3_def i2_def i1_def)
      have "orFail (deriveAEAD env i' (prk2e i') (th2 i') ''K_2e'' ''IV_2e'') (\<lambda>a. openMessage env a (m2_Ciphertext msg2)) = Inr pt"
        using ok(1) party_reads(1) [OF s(1)] by (simp add: decryptMessage2_def i' i3_def)
      moreover have "signed_by_peer env i' (prk3e2m i') (th2 i') ''MAC_2''"
        using verified_signed [OF ok(2) [unfolded verifyResponderSignature_def]] signed_by_peer_reads [OF s(1,2)]
        by (simp add: i' i3_def)
      ultimately have "init_checked env i'"
        unfolding init_checked_def using k
        by - (rule exI [of _ "GY msg2"], rule exI [of _ sec], rule exI [of _ "m2_Ciphertext msg2"], rule exI [of _ pt],
            rule exI [of _ ct], simp add: i'(2) i3_def i2_def i1_def prk_def)
      from that(2) [OF i'(1) _ this] show ?thesis by (simp add: i'(2) i3_def i2_def i1_def)
    qed
  qed
qed

definition resp_answered :: "EdhocEnv \<Rightarrow> Responder \<Rightarrow> bool" where
  "resp_answered env r \<longleftrightarrow> (\<exists>msg1 sec. decodeMessage1 (message1Raw r) = Inr msg1 \<and> Method msg1 = 0
     \<and> negotiateSuite r (m1_Suites msg1) = Some (suite r) \<and> sp r = getSuiteParams (suite r) \<and> peerConnID r = CI msg1
     \<and> ValidPublicKey env (DHCurve (sp r)) (GX msg1) \<and> SharedSecret env (DHCurve (sp r)) (ephPriv r) (GX msg1) = Some sec
     \<and> prk2e r = extractPRK2e env sec \<and> prk3e2m r = prk2e r \<and> prk4e3m r = prk2e r
     \<and> (\<exists>d. GenerateKey env d (DHCurve (sp r)) = Some (ephPriv r))
     \<and> th2 r = computeTH2 env (message1Raw r) (PublicBytes env (DHCurve (sp r)) (ephPriv r)) (connectionID r)
     \<and> th3 r = computeTH3 env (th2 r) (ciphertext2 r))"

lemma ProcessMessage1_result:
  assumes "ProcessMessage1 env d m r = (res, r')" and "r_state r = ResponderInit"
  obtains e where "res = Inl e" "resp_core r' = resp_core r"
  | m2 where "res = Inr m2" "r_state r' = ResponderSentMsg2" "resp_answered env r'" "cfg r' = cfg r" "connectionID r' = connectionID r"
proof (cases "decodeMessage1 m")
  case (Inl e)
  then show ?thesis using assms that(1) by (auto simp: ProcessMessage1_def)
next
  case (Inr msg1)
  note pm1 = assms(1) [unfolded ProcessMessage1_def Let_def]
  show ?thesis
  proof (cases "if Method msg1 = 0 then negotiateSuite r (m1_Suites msg1) else None")
    case None
    then show ?thesis using pm1 assms(2) Inr that(1) by (auto split: if_split_asm)
  next
    case (Some s)
    then have s: "Method msg1 = 0" "negotiateSuite r (m1_Suites msg1) = Some s" by (simp_all split: if_split_asm)
    define P where "P = getSuiteParams s"
    define r2 where "r2 = r\<lparr>suite := s, sp := P, peerConnID := CI msg1, message1Raw := m\<rparr>"
    have core: "resp_core r2 = resp_core r" "resp_core (r\<lparr>suite := s, sp := P\<rparr>) = resp_core r"
      by (simp_all add: r2_def resp_core_def)
    show ?thesis
    proof (cases "if ValidPublicKey env (DHCurve P) (GX msg1) then GenerateKey env d (DHCurve P) else None")
      case None
      then show ?thesis using pm1 assms(2) Inr s core that(1) by (auto simp: r2_def P_def split: if_split_asm)
    next
      case (Some k)
      then have k: "ValidPublicKey env (DHCurve P) (GX msg1)" "GenerateKey env d (DHCurve P) = Some k"
        by (simp_all split: if_split_asm)
      define r3 where "r3 = r2\<lparr>ephPriv := k, ephPub := PublicBytes env (DHCurve P) k\<rparr>"
      define r4 where "r4 sec = r3\<lparr>prk2e := extractPRK2e env sec, prk3e2m := extractPRK2e env sec, prk4e3m := extractPRK2e env sec,
        th2 := computeTH2 env m (ephPub r3) (connectionID r)\<rparr>" for sec
      have c: "resp_core r3 = resp_core r" "resp_core (r4 sec) = resp_core r" for sec
        by (simp_all add: r4_def r3_def r2_def resp_core_def)
      have run: "(res, r') = (case SharedSecret env (DHCurve P) k (GX msg1) of None \<Rightarrow> (Inl ErrAuthentication, r3)
        | Some sec \<Rightarrow> (case encryptMessage2 env (Suc d) (r4 sec) of Inl e \<Rightarrow> (Inl e, r4 sec)
          | Inr ct \<Rightarrow> (encodeMessage2 \<lparr>GY = ephPub (r4 sec), CR = connectionID r, m2_Ciphertext = ct\<rparr>,
              (r4 sec)\<lparr>ciphertext2 := ct, th3 := computeTH3 env (th2 (r4 sec)) ct, r_state := ResponderSentMsg2\<rparr>)))"
        using pm1 assms(2) Inr s k by (simp add: r4_def r3_def r2_def P_def cong: option.case_cong sum.case_cong)
      show ?thesis
      proof (cases "\<exists>sec ct. SharedSecret env (DHCurve P) k (GX msg1) = Some sec \<and> encryptMessage2 env (Suc d) (r4 sec) = Inr ct")
        case False
        then have "\<exists>e. res = Inl e \<and> (r' = r3 \<or> (\<exists>sec. r' = r4 sec))" using run by (auto split: option.split_asm sum.split_asm)
        with c that(1) show ?thesis by auto
      next
        case True
        then obtain sec ct where ok: "SharedSecret env (DHCurve P) k (GX msg1) = Some sec" "encryptMessage2 env (Suc d) (r4 sec) = Inr ct"
          by blast
        obtain m2 where m2: "encodeMessage2 \<lparr>GY = ephPub (r4 sec), CR = connectionID r, m2_Ciphertext = ct\<rparr> = Inr m2"
          using encode_never_fails by blast
        have r': "res = Inr m2" "r' = (r4 sec)\<lparr>ciphertext2 := ct, th3 := computeTH3 env (th2 (r4 sec)) ct, r_state := ResponderSentMsg2\<rparr>"
          using run ok m2 by simp_all
        have n: "negotiateSuite r' = negotiateSuite r" by (simp add: negotiateSuite_def [abs_def] r' r4_def r3_def r2_def)
        have "resp_answered env r'"
          unfolding resp_answered_def n using k(1) k(2) s ok(1) Inr
          by (intro exI [of _ msg1] exI [of _ sec]) (auto simp: r' r4_def r3_def r2_def P_def)
        from that(2) [OF r'(1) _ this] show ?thesis by (simp add: r'(2) r4_def r3_def r2_def)
      qed
    qed
  qed
qed

definition init_started :: "EdhocEnv \<Rightarrow> Initiator \<Rightarrow> bool" where
  "init_started env i \<longleftrightarrow> (\<exists>d. GenerateKey env d (DHCurve (sp i)) = Some (ephPriv i))
     \<and> encodeMessage1 \<lparr>Method = 0, m1_Suites = cfg_Suites (cfg i), SuitesSel = suite i,
          GX = PublicBytes env (DHCurve (sp i)) (ephPriv i), CI = connectionID i\<rparr> = Inr (message1Raw i)"

definition resp_checked :: "EdhocEnv \<Rightarrow> Responder \<Rightarrow> bool" where
  "resp_checked env r \<longleftrightarrow> (\<exists>ct pt. orFail (deriveAEAD env r (prk3e2m r) (th3 r) ''K_3e'' ''IV_3e'') (\<lambda>a. openMessage env a ct) = Inr pt
     \<and> signed_by_peer env r (prk4e3m r) (th3 r) ''MAC_3'' \<and> th4 r = computeTH4 env (th3 r) ct)"

lemma init_core_reads:
  "init_core i' = init_core i \<Longrightarrow> init_started env i' = init_started env i"
  "init_core i' = init_core i \<Longrightarrow> i_state i' = i_state i"
  by (simp_all add: init_core_def init_started_def)

lemma CreateMessage1_result:
  assumes "CreateMessage1 env d i = (res, i')" and "i_state i = InitiatorInit"
  obtains e where "res = Inl e" "i_state i' = InitiatorInit" | m1 where "res = Inr m1" "i_state i' = InitiatorSentMsg1" "init_started env i'"
proof (cases "GenerateKey env d (DHCurve (sp i))")
  case None
  then show ?thesis using assms that(1) by (auto simp: CreateMessage1_def)
next
  case (Some k)
  let ?m = "\<lparr>Method = 0, m1_Suites = cfg_Suites (cfg i), SuitesSel = suite i, GX = PublicBytes env (DHCurve (sp i)) k,
    CI = connectionID i\<rparr>"
  show ?thesis
  proof (cases "encodeMessage1 ?m")
    case (Inl e)
    have "res = Inl e" "i' = i\<lparr>ephPriv := k, ephPub := PublicBytes env (DHCurve (sp i)) k\<rparr>"
      using assms Some Inl by (simp_all add: CreateMessage1_def Let_def)
    with that(1) assms(2) show ?thesis by simp
  next
    case (Inr m1)
    have r: "res = Inr m1" "i' = i\<lparr>ephPriv := k, ephPub := PublicBytes env (DHCurve (sp i)) k, message1Raw := m1,
        i_state := InitiatorSentMsg1\<rparr>"
      using assms Some Inr by (simp_all add: CreateMessage1_def Let_def)
    have "init_started env i'" using Some Inr by (auto simp: init_started_def r)
    with r show ?thesis by (intro that(2)) simp_all
  qed
qed

lemma init_invariant:
  "init_reach env i \<Longrightarrow> (i_state i \<noteq> InitiatorInit \<longrightarrow> init_started env i) \<and> (i_state i = InitiatorComplete \<longrightarrow> init_checked env i)"
proof (induction rule: init_reach.induct)
  case (new d c i)
  then show ?case by (auto simp: NewInitiator_def orFail_def split: if_split_asm sum.split_asm)
next
  case (msg1 i d res i')
  show ?case
  proof (cases "i_state i = InitiatorInit")
    case True
    from msg1.hyps(2) True show ?thesis by (cases rule: CreateMessage1_result) simp_all
  next
    case False
    with msg1 show ?thesis by (auto simp: CreateMessage1_def)
  qed
next
  case (msg2 i d m2 res i')
  show ?case
  proof (cases "i_state i = InitiatorSentMsg1")
    case True
    from msg2.hyps(2) True show ?thesis
    proof (cases rule: ProcessMessage2_result)
      case (1 e)
      from msg2.IH True show ?thesis by (simp add: init_core_reads [OF 1(2)])
    next
      case (2 m3)
      with msg2.IH True show ?thesis by (simp add: init_started_def)
    qed
  next
    case False
    with msg2 show ?thesis by (auto simp: ProcessMessage2_def)
  qed
qed

lemma resp_invariant:
  "resp_reach env r \<Longrightarrow> (r_state r \<noteq> ResponderInit \<longrightarrow> resp_answered env r) \<and> (r_state r = ResponderComplete \<longrightarrow> resp_checked env r)"
proof (induction rule: resp_reach.induct)
  case (new d c r)
  then show ?case by (auto simp: NewResponder_def orFail_def split: if_split_asm sum.split_asm)
next
  case (msg1 r d m1 res r')
  show ?case
  proof (cases "r_state r = ResponderInit")
    case True
    from msg1.hyps(2) True show ?thesis
      by (cases rule: ProcessMessage1_result) (simp_all add: resp_core_def True)
  next
    case False
    with msg1 show ?thesis by (auto simp: ProcessMessage1_def)
  qed
next
  case (msg3 r m3 res r')
  show ?case
  proof (cases "r_state r = ResponderSentMsg2 \<and> (\<exists>u. res = Inr u)")
    case True
    then obtain ct a pt where ok: "deriveAEAD env r (prk3e2m r) (th3 r) ''K_3e'' ''IV_3e'' = Inr a" "openMessage env a ct = Inr pt"
      "verifyPlaintext env r (prk4e3m r) (th3 r) ''MAC_3'' pt = Inr ()"
      and r': "r' = r\<lparr>th4 := computeTH4 env (th3 r) ct, r_state := ResponderComplete\<rparr>"
      using msg3.hyps(2)
      by (auto simp: ProcessMessage3_def verifyInitiatorSignature_def orFail_def split: sum.split_asm)
    have s: "sp r' = sp r" "cfg r' = cfg r" by (simp_all add: r')
    have n: "negotiateSuite r' = negotiateSuite r" by (simp add: negotiateSuite_def [abs_def] r')
    have "resp_answered env r'" using msg3.IH True unfolding resp_answered_def n by (simp add: r')
    moreover have "resp_checked env r'"
      unfolding resp_checked_def party_reads(1) [OF s(1)] signed_by_peer_reads [OF s]
      using ok(1,2) verified_signed [OF ok(3)] by (auto simp: r' orFail_def)
    ultimately show ?thesis by simp
  next
    case False
    then have "r' = r" using msg3.hyps(2) by (auto simp: ProcessMessage3_def split: if_split_asm sum.split_asm)
    with msg3.IH show ?thesis by simp
  qed
qed

text \<open>C32: A party that has completed has authenticated its peer, after any sequence of calls and failures. The
  initiator's message_1 is the encoding of its own state; its keys come from one Diffie-Hellman secret with the
  responder's ephemeral key, TH_2 and TH_3 are of the messages it sent and received, message_2 opened under these
  keys, and the peer's key of the configuration verified a signature of TH_2. Likewise the responder, for the
  suite it chose and a signature of TH_3.\<close>
theorem edhoc_complete_is_authenticated:
  assumes "init_reach env i" and "resp_reach env r"
  shows "(i_state i = InitiatorComplete \<longrightarrow> init_started env i \<and> init_checked env i)
    \<and> (r_state r = ResponderComplete \<longrightarrow> resp_answered env r \<and> resp_checked env r)"
  using init_invariant [OF assms(1)] resp_invariant [OF assms(2)] by simp

text \<open>A run of the two toy parties, on to completion.\<close>

lemma toy_run:
  obtains m1 m2 m3 i1 i2 r1 r2 where "CreateMessage1 toyEdhoc 3 toyInitiator = (Inr m1, i1)"
    "ProcessMessage1 toyEdhoc 5 m1 toyResponder = (Inr m2, r1)" "ProcessMessage2 toyEdhoc 6 m2 i1 = (Inr m3, i2)"
    "ProcessMessage3 toyEdhoc m3 r1 = (Inr (), r2)" "i_state i2 = InitiatorComplete" "r_state r2 = ResponderComplete"
proof -
  note toy = toyEdhoc_laws toy_parties(1) [of 0] toy_parties(2) [of 0]
  show ?thesis using that honest_run [OF toy _ _ _ _ toy_trust toy_draws toy_draws, of 3 5 6] toy_sizes by blast
qed

theorem edhoc_complete_is_authenticated_witness:
  "\<exists>i r. i_state i = InitiatorComplete \<and> r_state r = ResponderComplete \<and> init_checked toyEdhoc i \<and> resp_checked toyEdhoc r"
proof -
  obtain m1 m2 m3 i1 i2 r1 r2 where run: "CreateMessage1 toyEdhoc 3 toyInitiator = (Inr m1, i1)"
    "ProcessMessage1 toyEdhoc 5 m1 toyResponder = (Inr m2, r1)" "ProcessMessage2 toyEdhoc 6 m2 i1 = (Inr m3, i2)"
    "ProcessMessage3 toyEdhoc m3 r1 = (Inr (), r2)" "i_state i2 = InitiatorComplete" "r_state r2 = ResponderComplete"
    by (rule toy_run)
  have "init_reach toyEdhoc i2"
    using init_reach.msg2 [OF init_reach.msg1 [OF init_reach.new [OF toy_parties(1) [of 0]] run(1)] run(3)] .
  moreover have "resp_reach toyEdhoc r2"
    using resp_reach.msg3 [OF resp_reach.msg1 [OF resp_reach.new [OF toy_parties(2) [of 0]] run(2)] run(4)] .
  ultimately show ?thesis using edhoc_complete_is_authenticated run(5,6) by blast
qed

section \<open>Calls that fail\<close>

text \<open>The same result, and the same state if it is a success.\<close>

definition same_outcome :: "('e + 'a) \<times> 'p \<Rightarrow> ('e + 'a) \<times> 'p \<Rightarrow> bool" where
  "same_outcome x y \<longleftrightarrow> fst x = fst y \<and> (\<forall>v. fst x = Inr v \<longrightarrow> snd x = snd y)"

lemma ProcessMessage2_core:
  assumes "init_core j = init_core i"
  shows "same_outcome (ProcessMessage2 env d m j) (ProcessMessage2 env d m i)"
proof -
  have c: "cfg j = cfg i" "suite j = suite i" "sp j = sp i" "ephPriv j = ephPriv i" "ephPub j = ephPub i"
    "connectionID j = connectionID i" "message1Raw j = message1Raw i" "th4 j = th4 i" "i_state j = i_state i"
    using assms by (simp_all add: init_core_def)
  show ?thesis
  proof (cases "decodeMessage2 m")
    case (Inl e)
    then show ?thesis by (simp add: ProcessMessage2_def same_outcome_def c)
  next
    case (Inr msg2)
    define fill where "fill p sec = p\<lparr>peerConnID := CR msg2, prk2e := extractPRK2e env sec, prk3e2m := extractPRK2e env sec,
      prk4e3m := extractPRK2e env sec, th2 := computeTH2 env (message1Raw i) (GY msg2) (CR msg2)\<rparr>" for p :: Initiator and sec
    have f3: "(fill j sec)\<lparr>th3 := t\<rparr> = (fill i sec)\<lparr>th3 := t\<rparr>" for sec t
      using c by (cases j; cases i) (simp add: fill_def)
    have d2: "decryptMessage2 env (fill j sec) ct = decryptMessage2 env (fill i sec) ct" for sec ct
      using party_reads(1) [of "fill j sec" "fill i sec"] c by (simp add: decryptMessage2_def fill_def)
    have v2: "verifyResponderSignature env (fill j sec) pt = verifyResponderSignature env (fill i sec) pt" for sec pt
      using party_reads(2) [of "fill j sec" "fill i sec"] c by (simp add: verifyResponderSignature_def fill_def)
    have t2: "th2 (fill j sec) = th2 (fill i sec)" for sec by (simp add: fill_def)
    have run: "ProcessMessage2 env d m p =
        (if i_state i \<noteq> InitiatorSentMsg1 then (Inl ErrStateViolation, p)
         else if \<not> ValidPublicKey env (DHCurve (sp i)) (GY msg2) then (Inl ErrMessageFormat, p\<lparr>peerConnID := CR msg2\<rparr>)
         else case SharedSecret env (DHCurve (sp i)) (ephPriv i) (GY msg2) of None \<Rightarrow> (Inl ErrAuthentication, p\<lparr>peerConnID := CR msg2\<rparr>)
         | Some sec \<Rightarrow> (case decryptMessage2 env (fill p sec) (m2_Ciphertext msg2) of Inl e \<Rightarrow> (Inl e, fill p sec)
           | Inr pt \<Rightarrow> (case verifyResponderSignature env (fill p sec) pt of Inl e \<Rightarrow> (Inl e, fill p sec)
             | Inr _ \<Rightarrow> let i3 = (fill p sec)\<lparr>th3 := computeTH3 env (th2 (fill p sec)) (m2_Ciphertext msg2)\<rparr> in
               (case encryptMessage3 env d i3 of Inl e \<Rightarrow> (Inl e, i3)
               | Inr ct \<Rightarrow> (encodeMessage3 ct, i3\<lparr>th4 := computeTH4 env (th3 i3) ct, i_state := InitiatorComplete\<rparr>)))))"
      if "init_core p = init_core i" for p
    proof -
      have p: "sp p = sp i" "ephPriv p = ephPriv i" "message1Raw p = message1Raw i" "i_state p = i_state i"
        using that by (simp_all add: init_core_def)
      show ?thesis unfolding ProcessMessage2_def Let_def fill_def Inr p sum.case by (rule refl)
    qed
    show ?thesis
      unfolding run [OF refl] run [OF assms] d2 v2 t2 f3 same_outcome_def Let_def
      by (auto split: option.split sum.split)
  qed
qed

lemma ProcessMessage1_core:
  assumes "resp_core s = resp_core r"
  shows "same_outcome (ProcessMessage1 env d m s) (ProcessMessage1 env d m r)"
proof -
  have c: "cfg s = cfg r" "connectionID s = connectionID r" "th4 s = th4 r" "r_state s = r_state r"
    using assms by (simp_all add: resp_core_def)
  show ?thesis
  proof (cases "decodeMessage1 m")
    case (Inl e)
    then show ?thesis by (simp add: ProcessMessage1_def same_outcome_def c)
  next
    case (Inr msg1)
    define pick where "pick p n = p\<lparr>suite := n, sp := getSuiteParams n\<rparr>" for p :: Responder and n
    define seen where "seen p n = (pick p n)\<lparr>peerConnID := CI msg1, message1Raw := m\<rparr>" for p n
    define eph where "eph p n k = (seen p n)\<lparr>ephPriv := k, ephPub := PublicBytes env (DHCurve (getSuiteParams n)) k\<rparr>" for p n k
    define fill where "fill p n k sec = (eph p n k)\<lparr>prk2e := extractPRK2e env sec, prk3e2m := extractPRK2e env sec,
      prk4e3m := extractPRK2e env sec, th2 := computeTH2 env m (ephPub (eph p n k)) (connectionID r)\<rparr>" for p n k sec
    have f2: "(fill s n k sec)\<lparr>ciphertext2 := ct, th3 := t, r_state := x\<rparr> = (fill r n k sec)\<lparr>ciphertext2 := ct, th3 := t, r_state := x\<rparr>"
      for n k sec ct t x using c by (cases s; cases r) (simp add: fill_def eph_def seen_def pick_def)
    have e2: "encryptMessage2 env d (fill s n k sec) = encryptMessage2 env d (fill r n k sec)" for d n k sec
      using party_reads(1,3) [of "fill s n k sec" "fill r n k sec"] c
      by (simp add: encryptMessage2_def fill_def eph_def seen_def pick_def)
    have t2: "th2 (fill s n k sec) = th2 (fill r n k sec)" "ephPub (fill s n k sec) = ephPub (fill r n k sec)" for n k sec
      by (simp_all add: fill_def eph_def seen_def pick_def)
    have run: "ProcessMessage1 env d m p =
        (if r_state r \<noteq> ResponderInit then (Inl ErrStateViolation, p)
         else if Method msg1 \<noteq> 0 then (Inl ErrEdhocSuite, p)
         else case negotiateSuite r (m1_Suites msg1) of None \<Rightarrow> (Inl ErrEdhocSuite, p)
         | Some n \<Rightarrow> if \<not> ValidPublicKey env (DHCurve (getSuiteParams n)) (GX msg1) then (Inl ErrMessageFormat, pick p n)
           else (case GenerateKey env d (DHCurve (getSuiteParams n)) of None \<Rightarrow> (Inl EdhocRandom, seen p n)
           | Some k \<Rightarrow> (case SharedSecret env (DHCurve (getSuiteParams n)) k (GX msg1) of None \<Rightarrow> (Inl ErrAuthentication, eph p n k)
             | Some sec \<Rightarrow> (case encryptMessage2 env (Suc d) (fill p n k sec) of Inl e \<Rightarrow> (Inl e, fill p n k sec)
               | Inr ct \<Rightarrow> (encodeMessage2 \<lparr>GY = ephPub (fill p n k sec), CR = connectionID r, m2_Ciphertext = ct\<rparr>,
                   (fill p n k sec)\<lparr>ciphertext2 := ct, th3 := computeTH3 env (th2 (fill p n k sec)) ct, r_state := ResponderSentMsg2\<rparr>)))))"
      if "resp_core p = resp_core r" for p
    proof -
      have p: "connectionID p = connectionID r" "r_state p = r_state r" "negotiateSuite p = negotiateSuite r"
        using that by (simp_all add: resp_core_def negotiateSuite_def [abs_def])
      show ?thesis unfolding ProcessMessage1_def Let_def fill_def eph_def seen_def pick_def Inr p sum.case by (rule refl)
    qed
    show ?thesis
      unfolding run [OF refl] run [OF assms] e2 t2 f2 same_outcome_def
      by (auto split: option.split sum.split)
  qed
qed

text \<open>C33: A message that is refused does no harm. After a failed \<open>ProcessMessage2\<close> the initiator, and after a failed
  \<open>ProcessMessage1\<close> the responder, answers any further message as it would have before, with the same state if it
  accepts it, although the failed call has overwritten fields; a failed \<open>ProcessMessage3\<close> changes nothing.\<close>
theorem edhoc_retry:
  assumes "ProcessMessage2 env d m i = (Inl e, i')" and "ProcessMessage1 env d m r = (Inl e', r')"
    and "ProcessMessage3 env m s = (Inl e'', s')"
  shows "same_outcome (ProcessMessage2 env d' m' i') (ProcessMessage2 env d' m' i)
    \<and> same_outcome (ProcessMessage1 env d' m' r') (ProcessMessage1 env d' m' r) \<and> s' = s"
proof (intro conjI)
  have "init_core i' = init_core i"
  proof (cases "i_state i = InitiatorSentMsg1")
    case True
    from assms(1) True show ?thesis by (cases rule: ProcessMessage2_result) simp_all
  next
    case False
    with assms(1) show ?thesis by (auto simp: ProcessMessage2_def)
  qed
  then show "same_outcome (ProcessMessage2 env d' m' i') (ProcessMessage2 env d' m' i)" by (rule ProcessMessage2_core)
next
  have "resp_core r' = resp_core r"
  proof (cases "r_state r = ResponderInit")
    case True
    from assms(2) True show ?thesis by (cases rule: ProcessMessage1_result) simp_all
  next
    case False
    with assms(2) show ?thesis by (auto simp: ProcessMessage1_def)
  qed
  then show "same_outcome (ProcessMessage1 env d' m' r') (ProcessMessage1 env d' m' r)" by (rule ProcessMessage1_core)
next
  show "s' = s" using assms(3) by (auto simp: ProcessMessage3_def split: if_split_asm sum.split_asm)
qed

lemma forged_refused:
  "decodeMessage1 [0x40, 0, 0x40] = Inl ErrMessageFormat"
  "decodeMessage2 [0x40, 0, 0x40] = Inr \<lparr>GY = [], CR = [0], m2_Ciphertext = []\<rparr>"
  by code_simp+

theorem edhoc_retry_witness:
  "\<exists>m1 i1 i2. CreateMessage1 toyEdhoc 3 toyInitiator = (Inr m1, i1) \<and> ProcessMessage2 toyEdhoc 0 [0x40, 0, 0x40] i1 = (Inl ErrMessageFormat, i2)
    \<and> peerConnID i2 = [0] \<and> (\<exists>m2 m3 r1 i3. ProcessMessage1 toyEdhoc 5 m1 toyResponder = (Inr m2, r1) \<and> ProcessMessage2 toyEdhoc 6 m2 i2 = (Inr m3, i3))"
proof -
  obtain m1 m2 m3 i1 i3 r1 r2 where run: "CreateMessage1 toyEdhoc 3 toyInitiator = (Inr m1, i1)"
    "ProcessMessage1 toyEdhoc 5 m1 toyResponder = (Inr m2, r1)" "ProcessMessage2 toyEdhoc 6 m2 i1 = (Inr m3, i3)"
    by (rule toy_run)
  have "i_state i1 = InitiatorSentMsg1"
    using run(1) by (auto simp: CreateMessage1_def Let_def toyInitiator_def split: option.split_asm sum.split_asm)
  then have e: "ProcessMessage2 toyEdhoc 0 [0x40, 0, 0x40] i1 = (Inl ErrMessageFormat, i1\<lparr>peerConnID := [0]\<rparr>)"
    by (simp add: ProcessMessage2_def forged_refused Let_def) (simp add: toyEdhoc_def)
  have "ProcessMessage1 toyEdhoc 0 [0x40, 0, 0x40] toyResponder = (Inl ErrMessageFormat, toyResponder)"
    "ProcessMessage3 toyEdhoc [0x40, 0, 0x40] toyResponder = (Inl ErrStateViolation, toyResponder)"
    by (simp_all add: ProcessMessage1_def ProcessMessage3_def forged_refused toyResponder_def)
  from edhoc_retry [OF e this, of 6 m2] run(3)
  have "\<exists>j. ProcessMessage2 toyEdhoc 6 m2 (i1\<lparr>peerConnID := [0]\<rparr>) = (Inr m3, j)"
    by (cases "ProcessMessage2 toyEdhoc 6 m2 (i1\<lparr>peerConnID := [0]\<rparr>)") (simp add: same_outcome_def)
  with run(1,2) e show ?thesis by fastforce
qed

section \<open>Suites\<close>

definition key_lengths :: "EdhocEnv \<Rightarrow> bool" where
  "key_lengths env \<longleftrightarrow> (\<forall>b. (ValidPublicKey env DH_X25519 b \<longrightarrow> length b = 32) \<and> (ValidPublicKey env DH_P256 b \<longrightarrow> length b = 65))
     \<and> (\<forall>d k. (GenerateKey env d DH_X25519 = Some k \<longrightarrow> length (PublicBytes env DH_X25519 k) = 32)
         \<and> (GenerateKey env d DH_P256 = Some k \<longrightarrow> length (PublicBytes env DH_P256 k) = 65))"

lemma find_other:
  assumes "find P xs = Some x" and "\<not> P (xs ! 0)"
  shows "x \<noteq> xs ! 0 \<and> x \<in> set xs \<and> P x"
  using assms by (auto simp: find_Some_iff)

text \<open>C34: Only the first suite that the initiator proposes can be agreed on. If the responder does not have it, it
  refuses message_1, for want of a common suite or, where it does have another one of the list, since G_X is not a
  key of that suite's curve: the message has one ephemeral key, of the first suite.\<close>
theorem only_first_suite:
  assumes "NewInitiator env d1 ci = Inr i" and "NewResponder env d2 cr = Inr r" and "key_lengths env"
    and "cfg_Suites ci ! 0 \<notin> set (cfg_Suites cr)" and "length (cfg_Suites ci) \<le> 2 ^ 20" and "length (connectionID i) \<le> 2 ^ 24"
    and "CreateMessage1 env a i = (Inr m1, i1)"
  shows "fst (ProcessMessage1 env b m1 r)
    = Inl (if set (cfg_Suites ci) \<inter> set (cfg_Suites cr) = {} then ErrEdhocSuite else ErrMessageFormat)"
proof -
  let ?s = "cfg_Suites ci ! 0"
  define P where "P = getSuiteParams ?s"
  have i: "i_state i = InitiatorInit" "cfg i = ci" "suite i = ?s" "sp i = P" "cfg_Suites ci \<noteq> []" "isSuiteSupported ?s"
    using assms(1) by (auto simp: NewInitiator_def orFail_def P_def split: if_split_asm sum.split_asm)
  have r: "r_state r = ResponderInit" "cfg r = cr" "\<forall>s \<in> set (cfg_Suites cr). isSuiteSupported s"
    using assms(2) by (auto simp: NewResponder_def orFail_def split: if_split_asm sum.split_asm)
  obtain k where k: "GenerateKey env a (DHCurve P) = Some k"
    using assms(7) i by (auto simp: CreateMessage1_def split: option.split_asm)
  have l: "length (PublicBytes env (DHCurve P) k) = (if ?s = Suite2 then 65 else 32)"
    using assms(3) k by (auto simp: key_lengths_def P_def getSuiteParams_def)
  then have "length (PublicBytes env (DHCurve (sp i)) k) \<le> 133" using i(4) by simp
  from message1_sent [of i env a k, OF i(1) _ _ _ _ this assms(6)] i k assms(5,7)
  have d: "decodeMessage1 m1 = Inr \<lparr>Method = 0, m1_Suites = cfg_Suites ci, SuitesSel = ?s, GX = PublicBytes env (DHCurve P) k, CI = connectionID i\<rparr>"
    by auto
  show ?thesis
  proof (cases "negotiateSuite r (cfg_Suites ci)")
    case None
    then have "set (cfg_Suites ci) \<inter> set (cfg_Suites cr) = {}" by (auto simp: negotiateSuite_def find_None_iff r(2))
    with None show ?thesis by (simp add: ProcessMessage1_def r(1) d)
  next
    case (Some n)
    then have n: "n \<noteq> ?s" "n \<in> set (cfg_Suites ci)" "n \<in> set (cfg_Suites cr)"
      using find_other [of "\<lambda>ps. ps \<in> set (cfg_Suites cr)" "cfg_Suites ci" n] assms(4) by (auto simp: negotiateSuite_def r(2))
    then have "isSuiteSupported n" using r(3) by blast
    then have "\<not> ValidPublicKey env (DHCurve (getSuiteParams n)) (PublicBytes env (DHCurve P) k)"
      using n(1) i(6) l assms(3) by (auto simp: key_lengths_def getSuiteParams_def isSuiteSupported_def Suite0_def Suite2_def)
    with Some n(2,3) show ?thesis by (auto simp: ProcessMessage1_def Let_def r(1) d)
  qed
qed

theorem only_first_suite_witness:
  "\<exists>m1 i1 i r. CreateMessage1 toyEdhoc 3 i = (Inr m1, i1) \<and> cfg_Suites (cfg i) = [Suite0, Suite2] \<and> cfg_Suites (cfg r) = [Suite2]
    \<and> fst (ProcessMessage1 toyEdhoc 5 m1 r) = Inl ErrMessageFormat"
proof -
  define i where "i = toyInitiator\<lparr>cfg := (toyConfig 7 9)\<lparr>cfg_Suites := [Suite0, Suite2]\<rparr>\<rparr>"
  define r where "r = toyResponder\<lparr>cfg := (toyConfig 9 7)\<lparr>cfg_Suites := [Suite2]\<rparr>\<rparr>"
  have new: "NewInitiator toyEdhoc 0 ((toyConfig 7 9)\<lparr>cfg_Suites := [Suite0, Suite2]\<rparr>) = Inr i"
    "NewResponder toyEdhoc 0 ((toyConfig 9 7)\<lparr>cfg_Suites := [Suite2]\<rparr>) = Inr r"
    by (simp_all add: NewInitiator_def NewResponder_def toyConfig_def isSuiteSupported_def orFail_def chooseCID_def
        toyInitiator_def toyResponder_def i_def r_def)
  have "i_state i = InitiatorInit" "cfg_Suites (cfg i) = [Suite0, Suite2]" "suite i = Suite0" "length (connectionID i) \<le> 2 ^ 24"
    by (simp_all add: i_def toyInitiator_def)
  moreover have "length (PublicBytes toyEdhoc cv k) \<le> 133" for cv k by (simp add: toyEdhoc_def)
  ultimately have "\<exists>m1 i1. CreateMessage1 toyEdhoc 3 i = (Inr m1, i1)"
    using message1_sent [OF _ toy_draws, of i 3] by fastforce
  then obtain m1 i1 where m1: "CreateMessage1 toyEdhoc 3 i = (Inr m1, i1)" by blast
  have "key_lengths toyEdhoc" by (simp add: key_lengths_def toyEdhoc_def)
  from only_first_suite [OF new this _ _ _ m1, of 5] m1 show ?thesis
    by (intro exI [of _ m1] exI [of _ i1] exI [of _ i] exI [of _ r])
      (simp add: i_def r_def toyConfig_def toyInitiator_def toyResponder_def Suite0_def Suite2_def)
qed

section \<open>The transcript hash\<close>

text \<open>C35: TH_2 does not determine the messages. Since it hashes message_1 itself where EDHOC hashes the hash of
  message_1, and since the responder ignores bytes after message_1, for every message_1 and all public keys there is
  another pair of views with the same TH_2: the initiator's, whose peer's connection identifier contains the
  responder's key and identifier, and a responder's with a longer message_1 that it reads as the same message.\<close>
theorem th2_ambiguous:
  assumes "encodeMessage1 m = Inr m1" and "m1_Suites m \<noteq> []" and "SuitesSel m = m1_Suites m ! 0"
    and "length (m1_Suites m) \<le> 2 ^ 20" and "length (GX m) \<le> 2 ^ 24" and "length (CI m) \<le> 2 ^ 24"
    and "length gy \<le> 133" and "length gy' \<le> 133" and "length cr' \<le> 2 ^ 20"
  shows "\<exists>t cr. t \<noteq> [] \<and> length cr \<le> 2 ^ 24 \<and> decodeMessage1 (m1 @ t) = Inr m
    \<and> computeTH2 env m1 gy cr = computeTH2 env (m1 @ t) gy' cr'"
proof -
  define w where "w = item (Bytes gy') @ item (cidValue cr')"
  define t where "t = item (Bytes gy) @ AppendHead [] MajorBytes (of_nat (length w))"
  have b: "carried (Bytes gy)" "carried (Bytes gy')" "carried (cidValue cr')" using assms(7-9) by simp_all
  have i: "item (Bytes v) = AppendHead [] MajorBytes (of_nat (length v)) @ v" for v by (simp add: item_def leaf_encode)
  have "length (item (cidValue cr')) \<le> 9 + 2 ^ 20"
    using item_bytes_length [of cr'] leaf_encode_length(5) [of detOpts "ucast (cr' ! 0)"] assms(9)
    by (auto simp: cidValue_def item_def)
  then have "length w \<le> 142 + (9 + 2 ^ 20)" using item_bytes_length [of gy'] assms(8) by (simp add: w_def)
  then have w: "length w \<le> 2 ^ 24" by simp
  have "length (item (Bytes gy')) \<noteq> 0" "length (item (cidValue cr')) \<noteq> 0"
    using item_nonempty [OF b(2)] item_nonempty [OF b(3)] by simp_all
  then have "length w \<noteq> 1" unfolding w_def length_append by linarith
  then have c: "cidValue w = Bytes w" by (simp add: cidValue_def)
  have "length t \<le> (9 + 133) + 9" using item_bytes_length [of gy] assms(7) by (simp add: t_def length_AppendHead headSize_def)
  then have "length t \<le> 2 ^ 50" by simp
  from decode_encoded_message1_prefix [OF assms(2-6,1) this] have "decodeMessage1 (m1 @ t) = Inr m" .
  moreover have "computeTH2 env m1 gy w = computeTH2 env (m1 @ t) gy' cr'"
    using assms(9) w encode_carried [OF b(1), of "[]"] encode_carried [OF b(2), of "[]"] c i [of w]
    by (simp add: computeTH2_def encodedOrNil_def encode_cid t_def) (simp add: w_def)
  moreover have "t \<noteq> []" using item_nonempty [OF b(1)] by (simp add: t_def)
  ultimately show ?thesis using w by blast
qed

theorem th2_ambiguous_witness:
  "\<exists>m1 t cr. t \<noteq> [] \<and> computeTH2 toyEdhoc m1 (replicate 32 1) cr = computeTH2 toyEdhoc (m1 @ t) (replicate 32 2) [9]"
proof -
  define m where "m = \<lparr>Method = 0, m1_Suites = [Suite0], SuitesSel = Suite0, GX = replicate 32 3, CI = [7]\<rparr>"
  obtain m1 where "encodeMessage1 m = Inr m1" using encode_message1 [of m] by (auto simp: m_def)
  from th2_ambiguous [OF this, of "replicate 32 1" "replicate 32 2" "[9]" toyEdhoc]
  show ?thesis by (auto simp: m_def)
qed

end
