(* ===== verification/Eat_Claims.thy ===== *)
theory Eat_Claims
  imports Cwt_Token
begin

text \<open>
  Entity Attestation Tokens (\<^verbatim>\<open>eat/claims.go\<close>, \<^verbatim>\<open>eat/token.go\<close>, \<^verbatim>\<open>eat/appraiser.go\<close>): the claims of a CWT with
  the attestation claims, and submodules that are tokens or claims sets themselves. A claims set is a datatype,
  since it contains submodules that contain claims sets; its fields without the submodules are a record that
  extends the one of CWT. The map of submodules is the list of its entries; the order in which Go iterates over
  it is a parameter.
\<close>

section \<open>Claims\<close>

datatype eat_error =
    ErrNonceMismatch | ErrSecurityLevel | ErrSecureBootRequired | ErrDebugEnabled | ErrMalformedEAT | ErrProfileMismatch
  | EatCbor cbor_error | EatCose cose_error | EatCwt cwt_error | EatPolicy nat | EatPanic | EatFuel

record SWComponent =
  SWType :: bytes
  MeasurementValue :: bytes
  SWVersion :: bytes
  SignerID :: bytes
  MeasurementDescription :: bytes

definition emptySW :: SWComponent where
  "emptySW = \<lparr>SWType = [], MeasurementValue = [], SWVersion = [], SignerID = [], MeasurementDescription = []\<rparr>"

record Attestation = ClaimsSet +
  Nonce :: "bytes list"
  UEID :: bytes
  OEMId :: bytes
  SecurityLevel :: i64
  SecureBoot :: "bool option"
  Debug :: i64
  Uptime :: "u64 option"
  Profile :: bytes
  SWComponents :: "SWComponent list"

datatype Claims = Claims (flat: Attestation) (Submods: "(bytes \<times> Submod) list")
  and Submod = Submod (SubToken: "bytes option") (SubClaims: "Claims option")

definition emptyFlat :: Attestation where
  "emptyFlat = \<lparr>Issuer = [], Subject = [], Audience = [], Expiration = zeroTime, NotBefore = zeroTime,
     IssuedAt = zeroTime, CWTID = [], CnfClaim = None, Private = [], Nonce = [], UEID = [], OEMId = [],
     SecurityLevel = 0, SecureBoot = None, Debug = 0, Uptime = None, Profile = [], SWComponents = []\<rparr>"

section \<open>Writing claims\<close>

definition unixClaim :: "u64 \<Rightarrow> Time \<Rightarrow> MapEntry list" where
  "unixClaim k t = (if \<not> Time_IsZero t then [(Uint k, Uint (Time_Unix t))] else [])"

definition intClaim :: "u64 \<Rightarrow> i64 \<Rightarrow> MapEntry list" where
  "intClaim k n = (if n \<noteq> 0 then [(Uint k, Uint n)] else [])"

definition nonceClaim :: "bytes list \<Rightarrow> MapEntry list" where
  "nonceClaim ns = (if length ns > 0 then
      (if length ns = 1 then [(Uint 10, Bytes (ns ! 0))] else [(Uint 10, MakeArray (map Bytes ns))]) else [])"

definition swValue :: "SWComponent \<Rightarrow> Value" where
  "swValue sw = MakeMap (textClaim 1 (SWType sw) @ bytesClaim 2 (MeasurementValue sw) @ textClaim 4 (SWVersion sw)
     @ bytesClaim 5 (SignerID sw) @ textClaim 6 (MeasurementDescription sw))"

definition flatEntries :: "Attestation \<Rightarrow> MapEntry list" where
  "flatEntries c =
     textClaim 1 (Issuer c) @ textClaim 2 (Subject c) @ textClaim 3 (Audience c)
     @ unixClaim 4 (Expiration c) @ unixClaim 5 (NotBefore c) @ unixClaim 6 (IssuedAt c) @ bytesClaim 7 (CWTID c)
     @ nonceClaim (Nonce c) @ bytesClaim 256 (UEID c) @ bytesClaim 258 (OEMId c)
     @ intClaim 261 (SecurityLevel c)
     @ (case SecureBoot c of None \<Rightarrow> [] | Some b \<Rightarrow> [(Uint 262, Bool b)])
     @ intClaim 263 (Debug c)
     @ (case Uptime c of None \<Rightarrow> [] | Some n \<Rightarrow> [(Uint 266, Uint n)])
     @ textClaim 265 (Profile c)
     @ (if length (SWComponents c) > 0 then [(Uint 267, MakeArray (map swValue (SWComponents c)))] else [])"

definition eatEncode :: "MapEntry list \<Rightarrow> eat_error + bytes" where
  "eatEncode m = (case Encode (NewEncoder ModeCoreDeterministic []) [] (MakeMap m) of
     (_, Some e) \<Rightarrow> Inl (EatCbor e) | (out, None) \<Rightarrow> Inr out)"

text \<open>An inline claims set is encoded and decoded again, for its value.\<close>

definition eatRedecode :: "bytes \<Rightarrow> eat_error + Value" where
  "eatRedecode encoded = (case fst (DecodeWith (NewDecoder []) encoded) of
     Inl (Err e _) \<Rightarrow> Inl (EatCbor e) | Inl _ \<Rightarrow> Inl EatPanic | Inr v \<Rightarrow> Inr v)"

text \<open>The loop over the submodules. Their values do not depend on each other; so the model computes each and
  then takes them in the order of the iteration, up to the first error.\<close>

type_synonym submod_values = "(bytes \<times> (eat_error + Value option)) list"

fun submodEntries :: "submod_values \<Rightarrow> eat_error + MapEntry list" where
  "submodEntries [] = Inr []"
| "submodEntries ((name, r) # rs) = orFail r (\<lambda>val. orFail (submodEntries rs) (\<lambda>es.
     Inr (case val of None \<Rightarrow> es | Some v \<Rightarrow> (Text name, v) # es)))"

fun EatEncode :: "(submod_values \<Rightarrow> submod_values) \<Rightarrow> Claims \<Rightarrow> eat_error + bytes"
  and submodValue :: "(submod_values \<Rightarrow> submod_values) \<Rightarrow> Submod \<Rightarrow> eat_error + Value option" where
  "EatEncode ord (Claims c subs) =
     orFail (submodEntries (ord (map (\<lambda>(name, sub). (name, submodValue ord sub)) subs))) (\<lambda>sm.
       eatEncode (flatEntries c @ (if length sm > 0 then [(Uint 268, MakeMap sm)] else [])))"
| "submodValue ord (Submod tok cl) = (case tok of
      Some t \<Rightarrow> Inr (Some (Bytes t))
    | None \<Rightarrow> (case cl of None \<Rightarrow> Inr None
        | Some c \<Rightarrow> orFail (EatEncode ord c) (\<lambda>encoded. orFail (eatRedecode encoded) (\<lambda>v. Inr (Some v)))))"

section \<open>Reading claims\<close>

definition parseNonce :: "Value \<Rightarrow> eat_error + bytes list" where
  "parseNonce v = (case Kind v of
      KindBytes \<Rightarrow> Inr [BytesVal v]
    | KindArray \<Rightarrow> if \<exists>x \<in> set (Items v). Kind x \<noteq> KindBytes then Inl ErrMalformedEAT else Inr (map BytesVal (Items v))
    | _ \<Rightarrow> Inl ErrMalformedEAT)"

definition parseIntClaim :: "Value \<Rightarrow> eat_error + i64" where
  "parseIntClaim v = (case Kind v of
      KindUint \<Rightarrow> Inr (UintVal v) | KindNegInt \<Rightarrow> Inr (- 1 - NegIntVal v) | _ \<Rightarrow> Inl ErrMalformedEAT)"

definition parseUintClaim :: "Value \<Rightarrow> eat_error + u64" where
  "parseUintClaim v = (case Kind v of KindUint \<Rightarrow> Inr (UintVal v) | _ \<Rightarrow> Inl ErrMalformedEAT)"

definition parseUnixDate :: "Value \<Rightarrow> eat_error + Time" where
  "parseUnixDate v = (case Kind v of
      KindUint \<Rightarrow> Inr (time_Unix (UintVal v) 0) | KindNegInt \<Rightarrow> Inr (time_Unix (- 1 - NegIntVal v) 0)
    | _ \<Rightarrow> Inl ErrMalformedEAT)"

definition textOf :: "Value \<Rightarrow> eat_error + bytes" where
  "textOf v = (if Kind v = KindText then Inr (TextVal v) else Inl ErrMalformedEAT)"

definition bytesOf :: "Value \<Rightarrow> eat_error + bytes" where
  "bytesOf v = (if Kind v = KindBytes then Inr (BytesVal v) else Inl ErrMalformedEAT)"

text \<open>A field of a software component that has another type is skipped.\<close>

definition swStep :: "MapEntry \<Rightarrow> SWComponent \<Rightarrow> SWComponent" where
  "swStep e sw = (let v = EntryValue e in case entryKeyInt (fst e) of
      None \<Rightarrow> sw
    | Some k \<Rightarrow>
        if k = 1 then (if Kind v = KindText then sw\<lparr>SWType := TextVal v\<rparr> else sw)
        else if k = 2 then (if Kind v = KindBytes then sw\<lparr>MeasurementValue := BytesVal v\<rparr> else sw)
        else if k = 4 then (if Kind v = KindText then sw\<lparr>SWVersion := TextVal v\<rparr> else sw)
        else if k = 5 then (if Kind v = KindBytes then sw\<lparr>SignerID := BytesVal v\<rparr> else sw)
        else if k = 6 then (if Kind v = KindText then sw\<lparr>MeasurementDescription := TextVal v\<rparr> else sw)
        else sw)"

definition swComponents :: "Value \<Rightarrow> eat_error + SWComponent list" where
  "swComponents v =
     (if Kind v \<noteq> KindArray then Inl ErrMalformedEAT
      else if \<exists>x \<in> set (Items v). Kind x \<noteq> KindMap then Inl ErrMalformedEAT
      else Inr (map (\<lambda>x. fold swStep (Pairs x) emptySW) (Items v)))"

definition flatStep :: "i64 \<Rightarrow> Value \<Rightarrow> Attestation \<Rightarrow> eat_error + Attestation" where
  "flatStep k v c =
     (if k = 1 then orFail (textOf v) (\<lambda>t. Inr (c\<lparr>Issuer := t\<rparr>))
      else if k = 2 then orFail (textOf v) (\<lambda>t. Inr (c\<lparr>Subject := t\<rparr>))
      else if k = 3 then orFail (textOf v) (\<lambda>t. Inr (c\<lparr>Audience := t\<rparr>))
      else if k = 4 then orFail (parseUnixDate v) (\<lambda>t. Inr (c\<lparr>Expiration := t\<rparr>))
      else if k = 5 then orFail (parseUnixDate v) (\<lambda>t. Inr (c\<lparr>NotBefore := t\<rparr>))
      else if k = 6 then orFail (parseUnixDate v) (\<lambda>t. Inr (c\<lparr>IssuedAt := t\<rparr>))
      else if k = 7 then orFail (bytesOf v) (\<lambda>b. Inr (c\<lparr>CWTID := b\<rparr>))
      else if k = 10 then orFail (parseNonce v) (\<lambda>ns. Inr (c\<lparr>Nonce := ns\<rparr>))
      else if k = 256 then orFail (bytesOf v) (\<lambda>b. Inr (c\<lparr>UEID := b\<rparr>))
      else if k = 258 then orFail (bytesOf v) (\<lambda>b. Inr (c\<lparr>OEMId := b\<rparr>))
      else if k = 261 then orFail (parseIntClaim v) (\<lambda>n. Inr (c\<lparr>SecurityLevel := n\<rparr>))
      else if k = 262 then (if Kind v = KindBool then Inr (c\<lparr>SecureBoot := Some (BoolVal v)\<rparr>) else Inl ErrMalformedEAT)
      else if k = 263 then orFail (parseIntClaim v) (\<lambda>n. Inr (c\<lparr>Debug := n\<rparr>))
      else if k = 266 then orFail (parseUintClaim v) (\<lambda>n. Inr (c\<lparr>Uptime := Some n\<rparr>))
      else if k = 265 then orFail (textOf v) (\<lambda>t. Inr (c\<lparr>Profile := t\<rparr>))
      else if k = 267 then orFail (swComponents v) (\<lambda>sws. Inr (c\<lparr>SWComponents := sws\<rparr>))
      else Inr c)"

definition submodPut :: "bytes \<Rightarrow> Submod \<Rightarrow> (bytes \<times> Submod) list \<Rightarrow> (bytes \<times> Submod) list" where
  "submodPut name s subs =
     (if name \<in> fst ` set subs then map (\<lambda>p. if fst p = name then (name, s) else p) subs else subs @ [(name, s)])"

text \<open>Errors of the recursive call are reported as a malformed token; \<open>dec\<close> is the recursive call.\<close>

definition nested :: "eat_error + 'a \<Rightarrow> eat_error + 'a" where
  "nested r = (case r of Inl e \<Rightarrow> Inl (if e = EatPanic \<or> e = EatFuel then e else ErrMalformedEAT) | Inr x \<Rightarrow> Inr x)"

definition submodStep ::
  "(bytes \<Rightarrow> eat_error + Claims) \<Rightarrow> MapEntry \<Rightarrow> (bytes \<times> Submod) list \<Rightarrow> eat_error + (bytes \<times> Submod) list" where
  "submodStep dec e subs =
     (if Kind (fst e) \<noteq> KindText then Inl ErrMalformedEAT
      else case Kind (EntryValue e) of
        KindBytes \<Rightarrow> Inr (submodPut (TextVal (fst e)) (Submod (Some (BytesVal (EntryValue e))) None) subs)
      | KindMap \<Rightarrow>
          (case Encode (NewEncoder ModeCoreDeterministic []) [] (EntryValue e) of
             (_, Some er) \<Rightarrow> Inl ErrMalformedEAT
           | (encoded, None) \<Rightarrow> orFail (nested (dec encoded)) (\<lambda>inline.
               Inr (submodPut (TextVal (fst e)) (Submod None (Some inline)) subs)))
      | _ \<Rightarrow> Inl ErrMalformedEAT)"

definition eatStep :: "(bytes \<Rightarrow> eat_error + Claims) \<Rightarrow> MapEntry \<Rightarrow> Claims \<Rightarrow> eat_error + Claims" where
  "eatStep dec e c = (case entryKeyInt (fst e) of
      None \<Rightarrow> Inr c
    | Some k \<Rightarrow>
        if k = 268 then
          (if Kind (EntryValue e) \<noteq> KindMap then Inl ErrMalformedEAT
           else orFail (eachEntry (submodStep dec) (Pairs (EntryValue e)) []) (\<lambda>subs. Inr (Claims (flat c) subs)))
        else orFail (flatStep k (EntryValue e) (flat c)) (\<lambda>c'. Inr (Claims c' (Submods c))))"

fun DecodeClaims :: "nat \<Rightarrow> bytes \<Rightarrow> eat_error + Claims" where
  "DecodeClaims 0 data = Inl EatFuel"
| "DecodeClaims (Suc n) data =
     (case fst (DecodeWith (NewDecoder []) data) of
        Inl e \<Rightarrow> Inl (if e = Panic then EatPanic else ErrMalformedEAT)
      | Inr v \<Rightarrow> if Kind v \<noteq> KindMap then Inl ErrMalformedEAT
          else eachEntry (eatStep (DecodeClaims n)) (Pairs v) (Claims emptyFlat []))"

declare DecodeClaims.simps [simp del]

end
