(* ===== verification/Token_Trees.thy ===== *)
theory Token_Trees
  imports Cwt_Claims
begin

text \<open>
  Values that a token is made of: leaves, arrays, and maps with leaves for keys. Their canonical form is a
  fixpoint and has the same encoding, so that a part of a token that is encoded on its own, decoded and put in
  place, and once more on the way back, stays what it was after the first time.
\<close>

section \<open>Trees\<close>

inductive plain_tree :: "Value \<Rightarrow> bool" where
  leaf: "plain_key v \<Longrightarrow> plain_tree v"
| array: "\<forall>x \<in> set xs. plain_tree x \<Longrightarrow> plain_tree (MakeArray xs)"
| entries: "\<forall>p \<in> set ps. plain_key (fst p) \<and> plain_tree (snd p) \<Longrightarrow> plain_tree (MakeMap ps)"

lemma entryOrder_fixpoint:
  "entryOrder detOpts (map (\<lambda>p. (fst p, f (snd p))) (entryOrder detOpts ps)) = map (\<lambda>p. (fst p, f (snd p))) (entryOrder detOpts ps)"
proof (cases "length ps \<le> 1")
  case True
  then show ?thesis by (simp add: entryOrder_def)
next
  case False
  let ?k = "\<lambda>p :: MapEntry. fst (encode detOpts [] (fst p))" and ?g = "\<lambda>p :: MapEntry. (fst p, f (snd p))"
  let ?cmp = "compareKeys (EncSortMode detOpts)"
  have q: "entryOrder detOpts ps = SortFunc (\<lambda>a b. ?cmp (?k a) (?k b)) ps" using False detOpts_fields(1) by (simp add: entryOrder_def)
  have "sorted_wrt (keys.le (EncSortMode detOpts)) (map ?k (entryOrder detOpts ps))" unfolding q by (rule keys.SortFunc_sorted)
  then have "sorted_wrt (\<lambda>a b. ?cmp (?k a) (?k b) \<le> 0) (entryOrder detOpts ps)" by (simp add: sorted_wrt_map keys.le_def)
  then have s: "SortFunc (\<lambda>a b. ?cmp (?k a) (?k b)) (entryOrder detOpts ps) = entryOrder detOpts ps" by (rule SortFunc_sorted_id)
  have "map ?g (SortFunc (\<lambda>a b. ?cmp (?k (?g a)) (?k (?g b))) (entryOrder detOpts ps))
      = SortFunc (\<lambda>a b. ?cmp (?k a) (?k b)) (map ?g (entryOrder detOpts ps))"
    by (rule SortFunc_map)
  then show ?thesis using False s detOpts_fields(1) by (simp add: entryOrder_def [of detOpts "map ?g (entryOrder detOpts ps)"])
qed

text \<open>The bytes of an encoding, and how those of arrays and maps are put together.\<close>

definition encoding :: "Value \<Rightarrow> bytes" where "encoding v = fst (encode detOpts [] v)"

lemma plain_key_leaf:
  assumes "plain_key v"
  shows "canon detOpts v = v" "snd (encode detOpts [] v) = None"
  using plain_key_transports [OF assms, of 0] by (simp_all add: transports_def)

lemma array_encoding:
  assumes "\<forall>v \<in> set vs. snd (encode detOpts [] v) = None"
  shows "encode detOpts [] (MakeArray vs) = (AppendHead [] MajorArray (of_nat (length vs)) @ concat (map encoding vs), None)"
  using encodeItems_value [OF assms] by (simp add: encoding_def [abs_def] MakeArray_def
      encode.simps [of detOpts "[]" "Value KindArray n [] [] xs []" for n xs])

lemma map_encoding:
  assumes "\<forall>p \<in> set ps. snd (encode detOpts [] (fst p)) = None \<and> snd (encode detOpts [] (snd p)) = None"
  shows "encode detOpts [] (MakeMap ps) = (AppendHead [] MajorMap (of_nat (length ps))
    @ concat (map (\<lambda>p. encoding (fst p) @ encoding (snd p)) (entryOrder detOpts ps)), None)"
  using encodeMap_value [OF assms] by (simp add: encoding_def MakeMap_def
      encode.simps [of detOpts "[]" "Value KindMap n [] [] [] ps" for n ps])

lemma canon_array: "canon detOpts (MakeArray xs) = MakeArray (map (canon detOpts) xs)"
  by (simp add: MakeArray_def canon.simps [of detOpts "Value KindArray n [] [] xs []" for n xs])

lemma canon_map:
  assumes "\<forall>p \<in> set ps. plain_key (fst p)"
  shows "canon detOpts (MakeMap ps) = MakeMap (map (\<lambda>p. (fst p, canon detOpts (snd p))) (entryOrder detOpts ps))"
proof -
  have "canon detOpts (MakeMap ps) = MakeMap (map (\<lambda>p. (canon detOpts (fst p), canon detOpts (snd p))) (entryOrder detOpts ps))"
    by (simp add: MakeMap_def canon.simps [of detOpts "Value KindMap n [] [] [] ps" for n ps])
  also have "map (\<lambda>p. (canon detOpts (fst p), canon detOpts (snd p))) (entryOrder detOpts ps)
      = map (\<lambda>p. (fst p, canon detOpts (snd p))) (entryOrder detOpts ps)"
    using assms plain_key_leaf(1) by (intro map_cong) auto
  finally show ?thesis .
qed

lemma plain_tree_canon:
  "plain_tree v \<Longrightarrow> plain_tree (canon detOpts v) \<and> canon detOpts (canon detOpts v) = canon detOpts v
    \<and> snd (encode detOpts [] v) = None \<and> encode detOpts [] (canon detOpts v) = encode detOpts [] v"
proof (induction rule: plain_tree.induct)
  case (leaf v)
  then show ?case using plain_key_leaf [OF leaf] by (simp add: plain_tree.leaf)
next
  case (array xs)
  have e: "\<forall>v \<in> set xs. snd (encode detOpts [] v) = None" using array by blast
  moreover have e': "\<forall>v \<in> set (map (canon detOpts) xs). snd (encode detOpts [] v) = None" using array by auto
  moreover have "map encoding (map (canon detOpts) xs) = map encoding xs" using array by (simp add: encoding_def)
  ultimately have "encode detOpts [] (MakeArray (map (canon detOpts) xs)) = encode detOpts [] (MakeArray xs)"
    by (simp add: array_encoding del: map_map)
  moreover have "map (canon detOpts) (map (canon detOpts) xs) = map (canon detOpts) xs" using array by simp
  moreover have "plain_tree (MakeArray (map (canon detOpts) xs))" using array by (intro plain_tree.array) auto
  ultimately show ?case using array_encoding [OF e] by (simp add: canon_array del: map_map)
next
  case (entries ps)
  let ?C = "\<lambda>p :: MapEntry. (fst p, canon detOpts (snd p))"
  let ?qs = "map ?C (entryOrder detOpts ps)"
  have k: "\<forall>p \<in> set ps. plain_key (fst p)" "\<forall>p \<in> set ?qs. plain_key (fst p)" using entries by auto
  note c = canon_map [OF k(1)] and c' = canon_map [OF k(2)]
  have o: "entryOrder detOpts ?qs = ?qs" by (rule entryOrder_fixpoint)
  have e: "\<forall>p \<in> set ps. snd (encode detOpts [] (fst p)) = None \<and> snd (encode detOpts [] (snd p)) = None"
    using entries plain_key_leaf(2) by blast
  have e': "\<forall>p \<in> set ?qs. snd (encode detOpts [] (fst p)) = None \<and> snd (encode detOpts [] (snd p)) = None"
    using entries plain_key_leaf(2) by auto
  have "map (\<lambda>p. encoding (fst p) @ encoding (snd p)) ?qs
      = map (\<lambda>p. encoding (fst p) @ encoding (snd p)) (entryOrder detOpts ps)"
    using entries by (simp add: encoding_def)
  then have "encode detOpts [] (MakeMap ?qs) = encode detOpts [] (MakeMap ps)"
    unfolding map_encoding [OF e] map_encoding [OF e'] o by (simp only: length_map length_entryOrder)
  moreover have "map ?C ?qs = ?qs" using entries by simp
  moreover have "plain_tree (MakeMap ?qs)" using entries by (intro plain_tree.entries) auto
  ultimately show ?case using map_encoding [OF e] by (simp add: c c' o del: map_map)
qed

lemma transports_tree:
  assumes "transports d v w" and "plain_tree v"
  shows "transports d w w" and "plain_tree w" and "encode detOpts [] w = encode detOpts [] v"
  using plain_tree_canon [OF assms(2)] assms(1) by (auto simp: transports_def)

end
