(* ===== verification/Eat_Wire.thy ===== *)
theory Eat_Wire
  imports Eat_Claims Token_Trees
begin

text \<open>
  Attestation claims survive the wire: three maps of claims, those of a software component, of the submodules and
  of the claims set itself, meet the contract of \<open>claim_map\<close>; an inline submodule is a canonical value that is
  encoded on its own on the way back.
\<close>

section \<open>Software components\<close>

datatype sw_part = SwText u64 bytes | SwBytes u64 bytes

definition swPartEntry :: "sw_part \<Rightarrow> MapEntry" where
  "swPartEntry q = (case q of SwText k t \<Rightarrow> (Uint k, Text t) | SwBytes k b \<Rightarrow> (Uint k, Bytes b))"

definition goodSw :: "sw_part \<Rightarrow> bool" where
  "goodSw q \<longleftrightarrow> (case q of SwText k t \<Rightarrow> k \<in> {1, 4, 6} \<and> goodText t | SwBytes k b \<Rightarrow> k \<in> {2, 5} \<and> length b \<le> 2 ^ 24)"

definition applySw :: "sw_part \<Rightarrow> SWComponent \<Rightarrow> SWComponent" where
  "applySw q sw = (case q of
      SwText k t \<Rightarrow> if k = 1 then sw\<lparr>SWType := t\<rparr> else if k = 4 then sw\<lparr>SWVersion := t\<rparr> else sw\<lparr>MeasurementDescription := t\<rparr>
    | SwBytes k b \<Rightarrow> if k = 2 then sw\<lparr>MeasurementValue := b\<rparr> else sw\<lparr>SignerID := b\<rparr>)"

lemma leaf_values [simp]:
  "Kind (Text t) = KindText" "Kind (Bytes b) = KindBytes" "Kind (MakeMap m) = KindMap" "Kind (Uint n) = KindUint"
  "Kind (Bool c) = KindBool" "Kind (MakeArray xs) = KindArray" "Items (MakeArray xs) = xs" "Num (Uint n) = n" "BoolVal (Bool c) = c"
  by (simp_all add: Text_def Bytes_def MakeMap_def Uint_def Bool_def MakeArray_def BoolVal_def)

interpretation sw_parts: claim_map goodSw swPartEntry "\<lambda>e sw. Inr (swStep e sw) :: eat_error + SWComponent" applySw 300
proof unfold_locales
  fix c :: sw_part and d :: nat and s :: SWComponent assume g: "goodSw c"
  show "plain_key (fst (swPartEntry c))" by (simp add: swPartEntry_def plain_keys split: sw_part.splits)
  show "transports d (snd (swPartEntry c)) (canon detOpts (snd (swPartEntry c)))"
    using g by (auto simp: goodSw_def swPartEntry_def goodText_def transports_leaf leaf_canon split: sw_part.splits)
  show "(Inr (swStep (fst (swPartEntry c), canon detOpts (snd (swPartEntry c))) s) :: eat_error + SWComponent) = Inr (applySw c s)"
    using g by (auto simp: goodSw_def swPartEntry_def swStep_def entryKeyInt_Uint applySw_def leaf_canon Let_def split: sw_part.splits)
qed

definition plain_sw :: "SWComponent \<Rightarrow> bool" where
  "plain_sw sw \<longleftrightarrow> goodText (SWType sw) \<and> length (MeasurementValue sw) \<le> 2 ^ 24 \<and> goodText (SWVersion sw)
     \<and> length (SignerID sw) \<le> 2 ^ 24 \<and> goodText (MeasurementDescription sw)"

definition swParts :: "SWComponent \<Rightarrow> sw_part list" where
  "swParts sw = (if SWType sw \<noteq> [] then [SwText 1 (SWType sw)] else [])
     @ (if MeasurementValue sw \<noteq> [] then [SwBytes 2 (MeasurementValue sw)] else [])
     @ (if SWVersion sw \<noteq> [] then [SwText 4 (SWVersion sw)] else [])
     @ (if SignerID sw \<noteq> [] then [SwBytes 5 (SignerID sw)] else [])
     @ (if MeasurementDescription sw \<noteq> [] then [SwText 6 (MeasurementDescription sw)] else [])"

lemma swValue_parts: "swValue sw = MakeMap (map swPartEntry (swParts sw))"
  unfolding swValue_def textClaim_def bytesClaim_def swParts_def map_append
  by (simp add: if_distrib [of "map swPartEntry"] swPartEntry_def cong: if_cong)

lemma eachEntry_pure: "eachEntry (\<lambda>e s. Inr (f e s)) es s = Inr (fold f es s)"
  by (induction es arbitrary: s) auto

lemma plain_sw_tree: "plain_sw sw \<Longrightarrow> plain_tree (swValue sw)"
  unfolding swValue_parts
  by (rule plain_tree.entries) (auto simp: swParts_def swPartEntry_def plain_sw_def goodText_def plain_keys plain_tree.leaf)

lemma sw_survives:
  assumes "plain_sw sw"
  shows "\<exists>m. (\<forall>d < 255. transports d (swValue sw) (MakeMap m)) \<and> fold swStep m emptySW = sw"
proof -
  have good: "\<forall>q \<in> set (swParts sw). goodSw q" using assms by (auto simp: swParts_def goodSw_def plain_sw_def)
  have dist: "distinct (map (fst \<circ> swPartEntry) (swParts sw))" by (simp add: swParts_def swPartEntry_def Uint_def)
  have len: "length (swParts sw) \<le> 2 ^ 20" by (simp add: swParts_def)
  have commute: "applySw x (applySw y s) = applySw y (applySw x s)"
    if "x \<in> set (swParts sw)" "y \<in> set (swParts sw)" "x \<noteq> y" for x y s
  proof -
    have "fst (swPartEntry x) \<noteq> fst (swPartEntry y)" using dist that by (auto simp: distinct_map inj_on_def)
    moreover have "goodSw x" "goodSw y" using good that by blast+
    ultimately show ?thesis by (cases x; cases y) (auto simp: goodSw_def swPartEntry_def applySw_def)
  qed
  have "\<exists>m. transports d (swValue sw) (MakeMap m) \<and> fold swStep m emptySW = fold applySw (swParts sw) emptySW" if d: "d < 255" for d
  proof -
    obtain m where "transports d (sw_parts.written (swParts sw)) (MakeMap m)"
      "\<forall>s. eachEntry (\<lambda>e sw. Inr (swStep e sw) :: eat_error + SWComponent) m s = Inr (fold applySw (swParts sw) s)"
      using sw_parts.survives_in_order [OF good dist len, of d] commute d by auto
    then show ?thesis by (auto simp: sw_parts.written_def swValue_parts eachEntry_pure)
  qed
  moreover have "fold applySw (swParts sw) emptySW = sw" by (cases sw) (simp add: swParts_def applySw_def emptySW_def)
  ultimately have each: "\<exists>m. transports d (swValue sw) (MakeMap m) \<and> fold swStep m emptySW = sw" if "d < 255" for d
    using that by simp
  obtain m where m: "transports 0 (swValue sw) (MakeMap m)" "fold swStep m emptySW = sw" using each [of 0] by auto
  have "transports d (swValue sw) (MakeMap m)" if d: "d < 255" for d
    using each [OF d] transports_canon m(1) by metis
  with m(2) show ?thesis by blast
qed

lemma sws_survive:
  assumes "\<forall>sw \<in> set sws. plain_sw sw" and "length sws \<le> 2 ^ 20" and "d < 254"
  shows "\<exists>vs. transports d (MakeArray (map swValue sws)) (MakeArray vs) \<and> swComponents (MakeArray vs) = Inr sws"
proof -
  obtain f where f: "\<And>sw. sw \<in> set sws \<Longrightarrow> (\<forall>d < 255. transports d (swValue sw) (MakeMap (f sw))) \<and> fold swStep (f sw) emptySW = sw"
    using sw_survives assms(1) by metis
  let ?vs = "map (\<lambda>sw. MakeMap (f sw)) sws"
  have "transports d (MakeArray (map swValue sws)) (MakeArray ?vs)"
    using assms(2,3) f by (intro transports_array) (auto simp: list_all2_conv_all_nth)
  moreover have "swComponents (MakeArray ?vs) = Inr sws"
    using f by (auto simp: swComponents_def comp_def intro: map_idI)
  ultimately show ?thesis by blast
qed

section \<open>Submodules\<close>

lemma det_encoder: "snd (encode detOpts [] v) = None \<Longrightarrow> Encode (NewEncoder ModeCoreDeterministic []) [] v = (encoding v, None)"
  using Encode_encode [of "NewEncoder ModeCoreDeterministic []" v "encoding v"]
  by (simp add: encoding_def prod_eq_iff detOpts_def sharedEncoder_def NewShared_def valid_mode_def NewEncoder_def encodeOpts_def)

text \<open>A submodule with the value it is written as, and what is read for it.\<close>

type_synonym sub_part = "bytes \<times> Value \<times> Submod"

definition subEntry :: "sub_part \<Rightarrow> MapEntry" where "subEntry q = (Text (fst q), fst (snd q))"

definition reads_sub :: "(bytes \<Rightarrow> eat_error + Claims) \<Rightarrow> Value \<Rightarrow> Submod \<Rightarrow> bool" where
  "reads_sub dec v s \<longleftrightarrow> (\<exists>t. v = Bytes t \<and> s = Submod (Some t) None)
     \<or> (\<exists>m c. v = MakeMap m \<and> dec (encoding v) = Inr c \<and> s = Submod None (Some c))"

definition goodSub :: "(bytes \<Rightarrow> eat_error + Claims) \<Rightarrow> nat \<Rightarrow> sub_part \<Rightarrow> bool" where
  "goodSub dec room q \<longleftrightarrow> goodText (fst q) \<and> 0 < room \<and> (\<forall>d < room. transports d (fst (snd q)) (fst (snd q)))
     \<and> reads_sub dec (fst (snd q)) (snd (snd q))"

definition applySub :: "sub_part \<Rightarrow> (bytes \<times> Submod) list \<Rightarrow> (bytes \<times> Submod) list" where
  "applySub q = submodPut (fst q) (snd (snd q))"

interpretation eat_subs: claim_map "goodSub dec room" subEntry "submodStep dec" applySub room for dec room
proof unfold_locales
  fix c :: sub_part and d :: nat and s :: "(bytes \<times> Submod) list" assume g: "goodSub dec room c"
  then have t: "transports 0 (fst (snd c)) (fst (snd c))" by (simp add: goodSub_def)
  then have c: "canon detOpts (fst (snd c)) = fst (snd c)" and e: "snd (encode detOpts [] (fst (snd c))) = None"
    by (simp_all add: transports_def)
  show "plain_key (fst (subEntry c))" using g by (simp add: subEntry_def goodSub_def goodText_def plain_keys)
  show "transports d (snd (subEntry c)) (canon detOpts (snd (subEntry c)))" if "d < room"
    using g that c by (simp add: subEntry_def goodSub_def)
  have r: "reads_sub dec (fst (snd c)) (snd (snd c))" using g by (simp add: goodSub_def)
  show "submodStep dec (fst (subEntry c), canon detOpts (snd (subEntry c))) s = Inr (applySub c s)"
  proof (cases "\<exists>t. fst (snd c) = Bytes t")
    case True
    with r c show ?thesis by (auto simp: reads_sub_def subEntry_def submodStep_def applySub_def Bytes_def MakeMap_def Text_def)
  next
    case False
    with r obtain m cl where m: "fst (snd c) = MakeMap m" "dec (encoding (MakeMap m)) = Inr cl" "snd (snd c) = Submod None (Some cl)"
      by (auto simp: reads_sub_def)
    with det_encoder [OF e] c show ?thesis
      by (simp add: subEntry_def submodStep_def applySub_def nested_def orFail_def)
  qed
qed

lemma fold_applySub:
  "distinct (map fst subs @ map fst qs) \<Longrightarrow> fold applySub qs subs = subs @ map (\<lambda>q. (fst q, snd (snd q))) qs"
proof (induction qs arbitrary: subs)
  case (Cons q qs)
  then have "applySub q subs = subs @ [(fst q, snd (snd q))]" by (auto simp: applySub_def submodPut_def)
  with Cons.IH [of "subs @ [(fst q, snd (snd q))]"] Cons.prems show ?case by simp
qed simp

lemma submodEntries_values:
  "submodEntries (map (\<lambda>p. (fst p, Inr (Some (V p)))) zs) = Inr (map (\<lambda>p. (Text (fst p), V p)) zs)"
  by (induction zs) (simp_all add: orFail_def)

lemma subs_survive:
  assumes "\<forall>q \<in> set qs. goodSub dec room q" and "distinct (map fst qs)" and "length qs \<le> 2 ^ 20" and "1 < room" and "room \<le> 256"
  shows "\<exists>m rs. mset rs = mset qs \<and> (\<forall>d. d + 1 < room \<longrightarrow> transports d (MakeMap (map subEntry qs)) (MakeMap m))
    \<and> eachEntry (submodStep dec) m [] = Inr (map (\<lambda>q. (fst q, snd (snd q))) rs)"
proof -
  have dist: "distinct (map (fst \<circ> subEntry) qs)"
    using assms(2) by (simp add: distinct_map inj_on_def subEntry_def Text_def)
  have each: "\<exists>rs. mset rs = mset qs \<and> transports d (MakeMap (map subEntry qs)) (MakeMap (eat_subs.wire rs))
      \<and> (\<forall>s. eachEntry (submodStep dec) (eat_subs.wire rs) s = Inr (fold applySub rs s))" if "d + 1 < room" for d
    using eat_subs.survives [OF assms(1) dist assms(3) that] that assms(5) by (auto simp: eat_subs.written_def)
  obtain rs where rs: "mset rs = mset qs" "transports 0 (MakeMap (map subEntry qs)) (MakeMap (eat_subs.wire rs))"
    "\<forall>s. eachEntry (submodStep dec) (eat_subs.wire rs) s = Inr (fold applySub rs s)"
    using each [of 0] assms(4) by auto
  have "mset (map fst rs) = mset (map fst qs)" using rs(1) by simp
  then have "distinct (map fst rs)" using assms(2) mset_eq_imp_distinct_iff by blast
  then have "eachEntry (submodStep dec) (eat_subs.wire rs) [] = Inr (map (\<lambda>q. (fst q, snd (snd q))) rs)"
    using rs(3) fold_applySub [of "[]" rs] by simp
  moreover have "transports d (MakeMap (map subEntry qs)) (MakeMap (eat_subs.wire rs))" if "d + 1 < room" for d
    using each [OF that] transports_canon rs(2) by metis
  ultimately show ?thesis using rs(1) by blast
qed

section \<open>The claims set\<close>

datatype eat_claim =
    EText u64 bytes | EDate u64 Time | EBytes u64 bytes | ENonce "bytes list" | EInt u64 i64 | EBool bool | EUptime u64
  | ESW "SWComponent list" | ESub "MapEntry list" "(bytes \<times> Submod) list"

definition eatEntry :: "eat_claim \<Rightarrow> MapEntry" where
  "eatEntry q = (case q of
      EText k t \<Rightarrow> (Uint k, Text t) | EDate k t \<Rightarrow> (Uint k, Uint (Time_Unix t)) | EBytes k b \<Rightarrow> (Uint k, Bytes b)
    | ENonce ns \<Rightarrow> (Uint 10, if length ns = 1 then Bytes (ns ! 0) else MakeArray (map Bytes ns))
    | EInt k n \<Rightarrow> (Uint k, Uint n) | EBool b \<Rightarrow> (Uint 262, Bool b) | EUptime n \<Rightarrow> (Uint 266, Uint n)
    | ESW sws \<Rightarrow> (Uint 267, MakeArray (map swValue sws)) | ESub m _ \<Rightarrow> (Uint 268, MakeMap m))"

definition goodEat :: "(bytes \<Rightarrow> eat_error + Claims) \<Rightarrow> nat \<Rightarrow> eat_claim \<Rightarrow> bool" where
  "goodEat dec room q \<longleftrightarrow> 0 < room \<and> room \<le> 250 \<and> (case q of
      EText k t \<Rightarrow> k \<in> {1, 2, 3, 265} \<and> goodText t | EDate k t \<Rightarrow> k \<in> {4, 5, 6} \<and> t_nsec t = 0
    | EBytes k b \<Rightarrow> k \<in> {7, 256, 258} \<and> length b \<le> 2 ^ 24
    | ENonce ns \<Rightarrow> ns \<noteq> [] \<and> length ns \<le> 2 ^ 20 \<and> (\<forall>n \<in> set ns. length n \<le> 2 ^ 24)
    | EInt k _ \<Rightarrow> k \<in> {261, 263} | EBool _ \<Rightarrow> True | EUptime _ \<Rightarrow> True
    | ESW sws \<Rightarrow> length sws \<le> 2 ^ 20 \<and> (\<forall>sw \<in> set sws. plain_sw sw)
    | ESub m subs \<Rightarrow> \<exists>m'. (\<forall>d < room. transports d (MakeMap m) (MakeMap m')) \<and> eachEntry (submodStep dec) m' [] = Inr subs)"

definition applyFlat :: "eat_claim \<Rightarrow> Attestation \<Rightarrow> Attestation" where
  "applyFlat q c = (case q of
      EText k t \<Rightarrow> if k = 1 then c\<lparr>Issuer := t\<rparr> else if k = 2 then c\<lparr>Subject := t\<rparr> else if k = 3 then c\<lparr>Audience := t\<rparr>
        else c\<lparr>Profile := t\<rparr>
    | EDate k t \<Rightarrow> if k = 4 then c\<lparr>Expiration := t\<rparr> else if k = 5 then c\<lparr>NotBefore := t\<rparr> else c\<lparr>IssuedAt := t\<rparr>
    | EBytes k b \<Rightarrow> if k = 7 then c\<lparr>CWTID := b\<rparr> else if k = 256 then c\<lparr>UEID := b\<rparr> else c\<lparr>OEMId := b\<rparr>
    | ENonce ns \<Rightarrow> c\<lparr>Nonce := ns\<rparr>
    | EInt k n \<Rightarrow> if k = 261 then c\<lparr>SecurityLevel := n\<rparr> else c\<lparr>Debug := n\<rparr>
    | EBool b \<Rightarrow> c\<lparr>SecureBoot := Some b\<rparr> | EUptime n \<Rightarrow> c\<lparr>Uptime := Some n\<rparr> | ESW sws \<Rightarrow> c\<lparr>SWComponents := sws\<rparr>
    | ESub _ _ \<Rightarrow> c)"

definition applyEat :: "eat_claim \<Rightarrow> Claims \<Rightarrow> Claims" where
  "applyEat q c = (case q of ESub _ subs \<Rightarrow> Claims (flat c) subs | _ \<Rightarrow> Claims (applyFlat q (flat c)) (Submods c))"

lemma parseUnixDate_round: "t_nsec t = 0 \<Longrightarrow> parseUnixDate (Uint (Time_Unix t)) = Inr t"
  by (simp add: parseUnixDate_def Time_Unix_def time_Unix_seconds)

lemma nonce_value:
  assumes "ns \<noteq> []" and "length ns \<le> 2 ^ 20" and "\<forall>n \<in> set ns. length n \<le> 2 ^ 24" and "d < 256"
  shows "transports d (if length ns = 1 then Bytes (ns ! 0) else MakeArray (map Bytes ns)) (if length ns = 1 then Bytes (ns ! 0) else MakeArray (map Bytes ns))"
    and "parseNonce (if length ns = 1 then Bytes (ns ! 0) else MakeArray (map Bytes ns)) = Inr ns"
proof -
  have "transports d (MakeArray (map Bytes ns)) (MakeArray (map Bytes ns))"
    using assms by (intro transports_array) (auto simp: list_all2_conv_all_nth transports_leaf)
  then show "transports d (if length ns = 1 then Bytes (ns ! 0) else MakeArray (map Bytes ns)) (if length ns = 1 then Bytes (ns ! 0) else MakeArray (map Bytes ns))"
    using assms by (simp add: transports_leaf)
  show "parseNonce (if length ns = 1 then Bytes (ns ! 0) else MakeArray (map Bytes ns)) = Inr ns"
    using assms(1) by (cases ns) (auto simp: parseNonce_def comp_def)
qed

lemma flatStep_leaves:
  "k \<in> {1, 2, 3, 265} \<Longrightarrow> flatStep k (Text t) c = Inr (applyFlat (EText k t) c)"
  "k \<in> {4, 5, 6} \<Longrightarrow> t_nsec d = 0 \<Longrightarrow> flatStep k (Uint (Time_Unix d)) c = Inr (applyFlat (EDate k d) c)"
  "k \<in> {7, 256, 258} \<Longrightarrow> flatStep k (Bytes b) c = Inr (applyFlat (EBytes k b) c)"
  "k \<in> {261, 263} \<Longrightarrow> flatStep k (Uint n) c = Inr (applyFlat (EInt k n) c)"
  by (elim insertE emptyE; simp add: flatStep_def orFail_def applyFlat_def textOf_def bytesOf_def parseIntClaim_def
      parseUnixDate_round)+

lemma flatStep_single:
  "flatStep 262 (Bool z) c = Inr (applyFlat (EBool z) c)" "flatStep 266 (Uint u) c = Inr (applyFlat (EUptime u) c)"
  by (simp_all add: flatStep_def orFail_def applyFlat_def parseUintClaim_def Bool_def)

lemma eatStep_flat:
  "k \<noteq> 268 \<Longrightarrow> flatStep k v (flat s) = Inr c \<Longrightarrow> eatStep dec (Uint k, v) s = Inr (Claims c (Submods s))"
  by (simp add: eatStep_def entryKeyInt_Uint orFail_def)

interpretation eat: claim_map "goodEat dec room" eatEntry "eatStep dec" applyEat room for dec room
proof unfold_locales
  fix c :: eat_claim and d :: nat and s :: Claims assume g: "goodEat dec room c"
  show "plain_key (fst (eatEntry c))" by (simp add: eatEntry_def plain_keys split: eat_claim.splits)
  show "transports d (snd (eatEntry c)) (canon detOpts (snd (eatEntry c)))" if d: "d < room"
  proof (cases c)
    case (ENonce ns)
    with g d show ?thesis by (intro transports_self [of _ _ "snd (eatEntry c)"]) (simp add: eatEntry_def goodEat_def nonce_value del: One_nat_def)
  next
    case (ESW sws)
    with g d show ?thesis using sws_survive [of sws d] by (auto simp: eatEntry_def goodEat_def intro: transports_self)
  next
    case (ESub m subs)
    with g d show ?thesis by (auto simp: eatEntry_def goodEat_def intro: transports_self)
  qed (use g in \<open>auto simp: eatEntry_def goodEat_def goodText_def transports_leaf leaf_canon\<close>)
  show "eatStep dec (fst (eatEntry c), canon detOpts (snd (eatEntry c))) s = Inr (applyEat c s)"
  proof (cases c)
    case (ENonce ns)
    then have "canon detOpts (snd (eatEntry c)) = snd (eatEntry c)" and "parseNonce (snd (eatEntry c)) = Inr ns"
      using g nonce_value [of ns 0] by (simp_all add: eatEntry_def goodEat_def transports_def del: One_nat_def)
    with ENonce show ?thesis by (simp add: eatEntry_def eatStep_def entryKeyInt_Uint flatStep_def orFail_def applyEat_def applyFlat_def)
  next
    case (ESW sws)
    then obtain vs where "transports 0 (MakeArray (map swValue sws)) (MakeArray vs)" "swComponents (MakeArray vs) = Inr sws"
      using g sws_survive [of sws 0] by (auto simp: goodEat_def)
    with ESW transports_canon [OF this(1)] show ?thesis
      by (simp add: eatEntry_def eatStep_def entryKeyInt_Uint flatStep_def orFail_def applyEat_def applyFlat_def)
  next
    case (ESub m subs)
    then obtain m' where m': "\<forall>d < room. transports d (MakeMap m) (MakeMap m')" "eachEntry (submodStep dec) m' [] = Inr subs" "0 < room"
      using g by (auto simp: goodEat_def)
    then have "canon detOpts (MakeMap m) = MakeMap m'" using transports_canon by blast
    with ESub m'(2) show ?thesis by (simp add: eatEntry_def eatStep_def entryKeyInt_Uint orFail_def applyEat_def)
  next
    case (EText k t)
    then have "k \<in> {1, 2, 3, 265}" using g by (simp add: goodEat_def)
    moreover from this have "k \<noteq> 268" by auto
    ultimately show ?thesis
      using EText eatStep_flat [OF _ flatStep_leaves(1)] by (simp add: eatEntry_def leaf_canon applyEat_def)
  next
    case (EDate k t)
    then have "k \<in> {4, 5, 6}" "t_nsec t = 0" using g by (simp_all add: goodEat_def)
    moreover from this(1) have "k \<noteq> 268" by auto
    ultimately show ?thesis
      using EDate eatStep_flat [OF _ flatStep_leaves(2)] by (simp add: eatEntry_def leaf_canon applyEat_def)
  next
    case (EBytes k b)
    then have "k \<in> {7, 256, 258}" using g by (simp add: goodEat_def)
    moreover from this have "k \<noteq> 268" by auto
    ultimately show ?thesis
      using EBytes eatStep_flat [OF _ flatStep_leaves(3)] by (simp add: eatEntry_def leaf_canon applyEat_def)
  next
    case (EInt k n)
    then have "k \<in> {261, 263}" using g by (simp add: goodEat_def)
    moreover from this have "k \<noteq> 268" by auto
    ultimately show ?thesis
      using EInt eatStep_flat [OF _ flatStep_leaves(4)] by (simp add: eatEntry_def leaf_canon applyEat_def)
  qed (simp_all add: eatEntry_def leaf_canon applyEat_def eatStep_flat flatStep_single)
qed

text \<open>The claims of a set in the order in which they are written, with the value of its submodules.\<close>

definition eatClaims :: "Attestation \<Rightarrow> eat_claim list" where
  "eatClaims c =
     (if Issuer c \<noteq> [] then [EText 1 (Issuer c)] else []) @ (if Subject c \<noteq> [] then [EText 2 (Subject c)] else [])
     @ (if Audience c \<noteq> [] then [EText 3 (Audience c)] else [])
     @ (if \<not> Time_IsZero (Expiration c) then [EDate 4 (Expiration c)] else [])
     @ (if \<not> Time_IsZero (NotBefore c) then [EDate 5 (NotBefore c)] else [])
     @ (if \<not> Time_IsZero (IssuedAt c) then [EDate 6 (IssuedAt c)] else [])
     @ (if CWTID c \<noteq> [] then [EBytes 7 (CWTID c)] else []) @ (if Nonce c \<noteq> [] then [ENonce (Nonce c)] else [])
     @ (if UEID c \<noteq> [] then [EBytes 256 (UEID c)] else []) @ (if OEMId c \<noteq> [] then [EBytes 258 (OEMId c)] else [])
     @ (if SecurityLevel c \<noteq> 0 then [EInt 261 (SecurityLevel c)] else [])
     @ (if SecureBoot c \<noteq> None then [EBool (the (SecureBoot c))] else [])
     @ (if Debug c \<noteq> 0 then [EInt 263 (Debug c)] else [])
     @ (if Uptime c \<noteq> None then [EUptime (the (Uptime c))] else [])
     @ (if Profile c \<noteq> [] then [EText 265 (Profile c)] else [])
     @ (if SWComponents c \<noteq> [] then [ESW (SWComponents c)] else [])"

definition subClaims :: "MapEntry list \<Rightarrow> (bytes \<times> Submod) list \<Rightarrow> eat_claim list" where
  "subClaims sm subs = (if sm \<noteq> [] then [ESub sm subs] else [])"

definition plain_flat :: "Attestation \<Rightarrow> bool" where
  "plain_flat c \<longleftrightarrow> goodText (Issuer c) \<and> goodText (Subject c) \<and> goodText (Audience c) \<and> goodText (Profile c)
     \<and> t_nsec (Expiration c) = 0 \<and> t_nsec (NotBefore c) = 0 \<and> t_nsec (IssuedAt c) = 0
     \<and> length (CWTID c) \<le> 2 ^ 24 \<and> length (UEID c) \<le> 2 ^ 24 \<and> length (OEMId c) \<le> 2 ^ 24
     \<and> length (Nonce c) \<le> 2 ^ 20 \<and> (\<forall>n \<in> set (Nonce c). length n \<le> 2 ^ 24)
     \<and> length (SWComponents c) \<le> 2 ^ 20 \<and> (\<forall>sw \<in> set (SWComponents c). plain_sw sw)"

text \<open>What is left of the CWT claims: the confirmation and the private claims are not written.\<close>

definition stripped :: "Attestation \<Rightarrow> Attestation" where
  "stripped c = c\<lparr>CnfClaim := None, Private := []\<rparr>"

lemma opt_ball: "(\<forall>q \<in> set (if P then [a] else []). R q) \<longleftrightarrow> (P \<longrightarrow> R a)"
  by simp

lemma opt_last: "distinct (map g (if P then [a] else []))"
  by simp

lemma flatEntries_claims: "flatEntries c = map eatEntry (eatClaims c)"
proof -
  have t: "textClaim k t = map eatEntry (if t \<noteq> [] then [EText k t] else [])" for k t by (simp add: textClaim_def eatEntry_def)
  have b: "bytesClaim k t = map eatEntry (if t \<noteq> [] then [EBytes k t] else [])" for k t by (simp add: bytesClaim_def eatEntry_def)
  have d: "unixClaim k t = map eatEntry (if \<not> Time_IsZero t then [EDate k t] else [])" for k t by (simp add: unixClaim_def eatEntry_def)
  have i: "intClaim k n = map eatEntry (if n \<noteq> 0 then [EInt k n] else [])" for k n by (simp add: intClaim_def eatEntry_def)
  have n: "nonceClaim ns = map eatEntry (if ns \<noteq> [] then [ENonce ns] else [])" for ns by (simp add: nonceClaim_def eatEntry_def)
  have o: "(case x of None \<Rightarrow> [] | Some z \<Rightarrow> [(Uint 262, Bool z)]) = map eatEntry (if x \<noteq> None then [EBool (the x)] else [])"
    "(case y of None \<Rightarrow> [] | Some n \<Rightarrow> [(Uint 266, Uint n)]) = map eatEntry (if y \<noteq> None then [EUptime (the y)] else [])" for x y
    by (cases x; cases y; simp add: eatEntry_def)+
  have w: "(if length sws > 0 then [(Uint 267, MakeArray (map swValue sws))] else []) = map eatEntry (if sws \<noteq> [] then [ESW sws] else [])"
    for sws by (simp add: eatEntry_def)
  show ?thesis unfolding flatEntries_def eatClaims_def t b d i n o w map_append by (rule refl)
qed

lemma eatClaims_good:
  assumes "plain_flat c" and "0 < room" and "room \<le> 250"
  shows "\<forall>q \<in> set (eatClaims c). goodEat dec room q"
  using assms unfolding eatClaims_def plain_flat_def set_append ball_Un opt_ball
  by (simp add: goodEat_def)

lemma eatClaims_distinct: "distinct (map (fst \<circ> eatEntry) (eatClaims c @ subClaims sm subs))"
  unfolding eatClaims_def subClaims_def map_append append_assoc
  by (simp only: opt_distinct opt_last opt_mem set_append Un_iff) (simp add: eatEntry_def Uint_def)

text \<open>A claim that is not written has the value that the empty claims set has, so that leaving it out is the same
  as setting it.\<close>

lemma fold_opt:
  "Issuer s = [] \<Longrightarrow> fold applyFlat (if x1 \<noteq> [] then [EText 1 (x1)] else []) s = s\<lparr>Issuer := x1\<rparr>"
  "Subject s = [] \<Longrightarrow> fold applyFlat (if x2 \<noteq> [] then [EText 2 (x2)] else []) s = s\<lparr>Subject := x2\<rparr>"
  "Audience s = [] \<Longrightarrow> fold applyFlat (if x3 \<noteq> [] then [EText 3 (x3)] else []) s = s\<lparr>Audience := x3\<rparr>"
  "Expiration s = zeroTime \<Longrightarrow> fold applyFlat (if x4 \<noteq> zeroTime then [EDate 4 (x4)] else []) s = s\<lparr>Expiration := x4\<rparr>"
  "NotBefore s = zeroTime \<Longrightarrow> fold applyFlat (if x5 \<noteq> zeroTime then [EDate 5 (x5)] else []) s = s\<lparr>NotBefore := x5\<rparr>"
  "IssuedAt s = zeroTime \<Longrightarrow> fold applyFlat (if x6 \<noteq> zeroTime then [EDate 6 (x6)] else []) s = s\<lparr>IssuedAt := x6\<rparr>"
  "CWTID s = [] \<Longrightarrow> fold applyFlat (if x7 \<noteq> [] then [EBytes 7 (x7)] else []) s = s\<lparr>CWTID := x7\<rparr>"
  "Nonce s = [] \<Longrightarrow> fold applyFlat (if x8 \<noteq> [] then [ENonce (x8)] else []) s = s\<lparr>Nonce := x8\<rparr>"
  "UEID s = [] \<Longrightarrow> fold applyFlat (if x9 \<noteq> [] then [EBytes 256 (x9)] else []) s = s\<lparr>UEID := x9\<rparr>"
  "OEMId s = [] \<Longrightarrow> fold applyFlat (if x10 \<noteq> [] then [EBytes 258 (x10)] else []) s = s\<lparr>OEMId := x10\<rparr>"
  "SecurityLevel s = 0 \<Longrightarrow> fold applyFlat (if x11 \<noteq> 0 then [EInt 261 (x11)] else []) s = s\<lparr>SecurityLevel := x11\<rparr>"
  "SecureBoot s = None \<Longrightarrow> fold applyFlat (if x12 \<noteq> None then [EBool (the (x12))] else []) s = s\<lparr>SecureBoot := x12\<rparr>"
  "Debug s = 0 \<Longrightarrow> fold applyFlat (if x13 \<noteq> 0 then [EInt 263 (x13)] else []) s = s\<lparr>Debug := x13\<rparr>"
  "Uptime s = None \<Longrightarrow> fold applyFlat (if x14 \<noteq> None then [EUptime (the (x14))] else []) s = s\<lparr>Uptime := x14\<rparr>"
  "Profile s = [] \<Longrightarrow> fold applyFlat (if x15 \<noteq> [] then [EText 265 (x15)] else []) s = s\<lparr>Profile := x15\<rparr>"
  "SWComponents s = [] \<Longrightarrow> fold applyFlat (if x16 \<noteq> [] then [ESW (x16)] else []) s = s\<lparr>SWComponents := x16\<rparr>"
  by (cases s; auto simp: applyFlat_def)+

lemma fold_flat: "fold applyFlat (eatClaims c) emptyFlat = stripped c"
proof -
  have z: "Time_IsZero t \<longleftrightarrow> t = zeroTime" for t by (cases t) (simp add: Time_IsZero_def zeroTime_def)
  have "fold applyFlat (eatClaims c) emptyFlat = emptyFlat\<lparr>Issuer := Issuer c, Subject := Subject c, Audience := Audience c,
      Expiration := Expiration c, NotBefore := NotBefore c, IssuedAt := IssuedAt c, CWTID := CWTID c, Nonce := Nonce c,
      UEID := UEID c, OEMId := OEMId c, SecurityLevel := SecurityLevel c, SecureBoot := SecureBoot c, Debug := Debug c,
      Uptime := Uptime c, Profile := Profile c, SWComponents := SWComponents c\<rparr>"
    unfolding eatClaims_def fold_append comp_apply z by (simp only: fold_opt emptyFlat_def Attestation.simps ClaimsSet.simps)
  then show ?thesis by (cases c) (simp add: emptyFlat_def stripped_def)
qed

lemma fold_eatClaims: "fold applyEat (eatClaims c @ subClaims sm subs) (Claims emptyFlat []) = Claims (stripped c) (if sm \<noteq> [] then subs else [])"
proof -
  have flat_fold: "fold applyEat qs (Claims a bs) = Claims (fold applyFlat qs a) bs" if "\<forall>q \<in> set qs. \<forall>m b. q \<noteq> ESub m b" for qs a bs
    using that
  proof (induction qs arbitrary: a)
    case (Cons q qs)
    then show ?case by (cases q) (auto simp: applyEat_def)
  qed simp
  have "\<forall>q \<in> set (eatClaims c). \<forall>m b. q \<noteq> ESub m b"
    unfolding eatClaims_def set_append ball_Un opt_ball by simp
  then show ?thesis by (simp add: flat_fold fold_flat subClaims_def applyEat_def)
qed

end
