(* ===== verification/Eat_Survival.thy ===== *)
theory Eat_Survival
  imports Eat_Wire
begin

text \<open>
  A claims set with submodules, nested to any depth the decoder allows, is read back as it was written, up to the
  claims that are never written and the order of the maps. The induction is over the depth of the inline
  submodules; the fuel of the decoder is any number above it.
\<close>

section \<open>What is received\<close>

definition present :: "Submod \<Rightarrow> bool" where
  "present s \<longleftrightarrow> SubToken s \<noteq> None \<or> SubClaims s \<noteq> None"

inductive received :: "Claims \<Rightarrow> Claims \<Rightarrow> bool" and received_sub :: "Submod \<Rightarrow> Submod \<Rightarrow> bool" where
  claims: "mset ps = mset (filter (\<lambda>p. present (snd p)) subs)
    \<Longrightarrow> list_all2 (\<lambda>p q. fst p = fst q \<and> received_sub (snd p) (snd q)) ps subs'
    \<Longrightarrow> received (Claims c subs) (Claims (stripped c) subs')"
| token: "received_sub (Submod (Some t) cl) (Submod (Some t) None)"
| inline: "received c c' \<Longrightarrow> received_sub (Submod None (Some c)) (Submod None (Some c'))"

inductive_simps received_iff: "received (Claims c subs) c'"
inductive_simps received_token_iff: "received_sub (Submod (Some t) cl) s"
inductive_simps received_inline_iff: "received_sub (Submod None (Some c)) s"

definition permutes_submods :: "(submod_values \<Rightarrow> submod_values) \<Rightarrow> bool" where
  "permutes_submods ord \<longleftrightarrow> (\<forall>rs. mset (ord rs) = mset rs)"

text \<open>The claims sets that are carried without loss: texts and byte strings of at most \<open>2 ^ 24\<close> bytes, at most
  \<open>2 ^ 20\<close> elements of a list, dates without a fraction of a second, encodings that fit in memory.\<close>

definition fits :: "(submod_values \<Rightarrow> submod_values) \<Rightarrow> Claims \<Rightarrow> bool" where
  "fits ord c \<longleftrightarrow> (case EatEncode ord c of Inl _ \<Rightarrow> True | Inr out \<Rightarrow> length out < 2 ^ 61)"

definition plain_submods :: "(Claims \<Rightarrow> bool) \<Rightarrow> (bytes \<times> Submod) list \<Rightarrow> bool" where
  "plain_submods P subs \<longleftrightarrow> distinct (map fst subs) \<and> length subs \<le> 2 ^ 20
     \<and> (\<forall>p \<in> set subs. goodText (fst p) \<and> (case SubToken (snd p) of
          Some t \<Rightarrow> length t \<le> 2 ^ 24 | None \<Rightarrow> (case SubClaims (snd p) of Some c \<Rightarrow> P c | None \<Rightarrow> True)))"

primrec plain_eat :: "(submod_values \<Rightarrow> submod_values) \<Rightarrow> nat \<Rightarrow> Claims \<Rightarrow> bool" where
  "plain_eat ord 0 c \<longleftrightarrow> plain_flat (flat c) \<and> plain_submods (\<lambda>_. False) (Submods c)"
| "plain_eat ord (Suc n) c \<longleftrightarrow> plain_flat (flat c) \<and> plain_submods (\<lambda>s. plain_eat ord n s \<and> fits ord s) (Submods c)"

section \<open>Writing\<close>

lemma permuted_map:
  assumes "permutes_submods ord"
  shows "\<exists>zs. mset zs = mset subs \<and> ord (map F subs) = map F zs"
  using assms map_permuted [of "ord (map F subs)" F subs] by (simp add: permutes_submods_def)

lemma submodEntries_present:
  assumes "\<forall>p \<in> set zs. r p = Inr (V p)"
  shows "submodEntries (map (\<lambda>p. (fst p, r p)) zs)
    = Inr (map (\<lambda>p. (Text (fst p), the (V p))) (filter (\<lambda>p. V p \<noteq> None) zs))"
  using assms by (induction zs) (auto simp: orFail_def split: option.splits)

lemma plain_claim_trees:
  assumes "plain_flat c"
  shows "\<forall>e \<in> set (flatEntries c). plain_key (fst e) \<and> plain_tree (snd e)"
proof -
  have "\<forall>q \<in> set (eatClaims c). goodEat (\<lambda>_. Inl EatFuel) 1 q \<and> (\<forall>m s. q \<noteq> ESub m s)"
    using assms eatClaims_good [OF assms, of 1]
    unfolding eatClaims_def set_append ball_Un opt_ball by simp
  moreover have "plain_key (fst (eatEntry q)) \<and> plain_tree (snd (eatEntry q))" if "goodEat (\<lambda>_. Inl EatFuel) 1 q" "\<forall>m s. q \<noteq> ESub m s" for q
    using that
    by (cases q) (auto simp: eatEntry_def goodEat_def goodText_def plain_keys plain_sw_tree plain_tree.leaf intro!: plain_tree.array)
  ultimately show ?thesis by (auto simp: flatEntries_claims)
qed

lemma eatEncode_tree: "plain_tree (MakeMap m) \<Longrightarrow> eatEncode m = Inr (encoding (MakeMap m))"
  using plain_tree_canon det_encoder [of "MakeMap m"] by (simp add: eatEncode_def)

lemma encoding_tree: "plain_tree v \<Longrightarrow> coseEncode v = Inr (encoding v)"
  using plain_tree_canon [of v] by (simp add: coseEncode_encode encoding_def prod_eq_iff)

lemma decodes_tree:
  assumes "plain_tree v" and "transports 0 v (MakeMap m)" and "length (encoding v) < 2 ^ 61"
  shows "fst (DecodeWith (NewDecoder []) (encoding v)) = Inr (MakeMap m)"
  using transports_decode [OF assms(2) encoding_tree [OF assms(1)] assms(3)] by simp

section \<open>One level\<close>

text \<open>What a submodule is written as, and that it is read back with enough fuel.\<close>

definition sub_carried :: "(submod_values \<Rightarrow> submod_values) \<Rightarrow> nat \<Rightarrow> nat \<Rightarrow> Submod \<Rightarrow> Value option \<Rightarrow> bool" where
  "sub_carried ord n room s V \<longleftrightarrow> submodValue ord s = Inr V \<and> (V = None \<longleftrightarrow> \<not> present s)
     \<and> (\<forall>v. V = Some v \<longrightarrow> plain_tree v \<and> (\<forall>d < room. transports d v v)
          \<and> (\<forall>k \<ge> n. \<exists>s'. received_sub s s' \<and> reads_sub (DecodeClaims k) v s'))"

definition carried :: "(submod_values \<Rightarrow> submod_values) \<Rightarrow> nat \<Rightarrow> nat \<Rightarrow> Claims \<Rightarrow> bool" where
  "carried ord n room c \<longleftrightarrow> (\<exists>m m'. EatEncode ord c = Inr (encoding (MakeMap m)) \<and> plain_tree (MakeMap m)
     \<and> (\<forall>d < room. transports d (MakeMap m) (MakeMap m'))
     \<and> (\<forall>k \<ge> n. \<exists>c'. received c c' \<and> eachEntry (eatStep (DecodeClaims k)) m' (Claims emptyFlat []) = Inr c'))"

lemma carried_decodes:
  assumes "carried ord n room c" and "0 < room" and "fits ord c" and "n < k" and "EatEncode ord c = Inr out"
  shows "\<exists>c'. received c c' \<and> DecodeClaims k out = Inr c'"
proof -
  from assms(1) obtain m m' where m: "EatEncode ord c = Inr (encoding (MakeMap m))" "plain_tree (MakeMap m)"
    "\<forall>d < room. transports d (MakeMap m) (MakeMap m')"
    "\<forall>k \<ge> n. \<exists>c'. received c c' \<and> eachEntry (eatStep (DecodeClaims k)) m' (Claims emptyFlat []) = Inr c'"
    unfolding carried_def by blast
  obtain j where j: "k = Suc j" "n \<le> j" using assms(4) by (cases k) auto
  with m(4) obtain c' where "received c c'" "eachEntry (eatStep (DecodeClaims j)) m' (Claims emptyFlat []) = Inr c'" by blast
  moreover have "fst (DecodeWith (NewDecoder []) (encoding (MakeMap m))) = Inr (MakeMap m')"
    using decodes_tree [OF m(2), of m'] m(1,3) assms(2,3) by (simp add: fits_def)
  moreover have "out = encoding (MakeMap m)" using m(1) assms(5) by simp
  ultimately show ?thesis using j(1) by (auto simp: DecodeClaims.simps)
qed

lemma inline_carried:
  assumes "carried ord n room c" and "0 < room" and "fits ord c"
  shows "\<exists>V. sub_carried ord (Suc n) room (Submod None (Some c)) V"
proof -
  from assms(1) obtain m m' where m: "EatEncode ord c = Inr (encoding (MakeMap m))" "plain_tree (MakeMap m)"
    "\<forall>d < room. transports d (MakeMap m) (MakeMap m')"
    unfolding carried_def by blast
  have dec: "fst (DecodeWith (NewDecoder []) (encoding (MakeMap m))) = Inr (MakeMap m')"
    using decodes_tree [OF m(2), of m'] m(1,3) assms(2,3) by (simp add: fits_def)
  have v: "submodValue ord (Submod None (Some c)) = Inr (Some (MakeMap m'))"
    using m(1) dec by (simp add: orFail_def eatRedecode_def)
  note t = transports_tree [OF m(3) [rule_format] m(2)]
  have e: "encoding (MakeMap m') = encoding (MakeMap m)" using t(3) [OF assms(2)] by (simp add: encoding_def)
  have "\<exists>s'. received_sub (Submod None (Some c)) s' \<and> reads_sub (DecodeClaims k) (MakeMap m') s'" if "k \<ge> Suc n" for k
    using carried_decodes [OF assms _ m(1), of k] that e by (auto simp: reads_sub_def intro: received_received_sub.inline)
  with v t show ?thesis using assms(2) by (auto simp: sub_carried_def present_def)
qed

lemma submod_carried:
  assumes "SubToken s \<noteq> None \<Longrightarrow> length (the (SubToken s)) \<le> 2 ^ 24"
    and "\<And>c. SubToken s = None \<Longrightarrow> SubClaims s = Some c \<Longrightarrow> \<exists>V. sub_carried ord n room (Submod None (Some c)) V"
  shows "\<exists>V. sub_carried ord n room s V"
proof (cases s)
  case (Submod tok cl)
  show ?thesis
  proof (cases tok)
    case (Some t)
    then have "length t \<le> 2 ^ 24" using assms(1) Submod by simp
    then have "sub_carried ord n room s (Some (Bytes t))"
      using Submod Some
      by (auto simp: sub_carried_def present_def transports_leaf plain_keys reads_sub_def
          intro: plain_tree.leaf received_received_sub.token)
    then show ?thesis by blast
  next
    case None
    then show ?thesis
    proof (cases cl)
      case (Some c)
      with assms(2) Submod None show ?thesis by simp
    next
      case None
      with Submod \<open>tok = None\<close> have "sub_carried ord n room s None" by (simp add: sub_carried_def present_def)
      then show ?thesis by blast
    qed
  qed
qed

lemma goodEat_forms:
  assumes "goodEat dec room x"
  obtains t where "x = EText 1 t" | t where "x = EText 2 t" | t where "x = EText 3 t" | t where "x = EText 265 t"
    | d where "x = EDate 4 d" | d where "x = EDate 5 d" | d where "x = EDate 6 d"
    | b where "x = EBytes 7 b" | b where "x = EBytes 256 b" | b where "x = EBytes 258 b"
    | n where "x = EInt 261 n" | n where "x = EInt 263 n" | ns where "x = ENonce ns" | b where "x = EBool b"
    | u where "x = EUptime u" | sws where "x = ESW sws" | m subs where "x = ESub m subs"
  using assms by (cases x) (auto simp: goodEat_def)

lemma applyEat_commute:
  assumes "goodEat dec room x" and "goodEat dec room y" and "fst (eatEntry x) \<noteq> fst (eatEntry y)"
  shows "applyEat x (applyEat y s) = applyEat y (applyEat x s)"
  by (rule goodEat_forms [OF assms(1)]; rule goodEat_forms [OF assms(2)];
      use assms(3) in \<open>simp add: applyEat_def applyFlat_def eatEntry_def\<close>)

lemma eatClaims_length: "length (eatClaims c @ subClaims sm subs) \<le> 2 ^ 20"
proof -
  have opt: "length (if P then [a :: eat_claim] else []) \<le> 1" for P a by simp
  have more: "length ((if P then [a :: eat_claim] else []) @ xs) \<le> Suc n" if "length xs \<le> n" for P a xs n using that by simp
  show ?thesis
    unfolding eatClaims_def subClaims_def append_assoc by (rule order_trans, (rule more)+, rule opt, simp)
qed

lemma claims_carried:
  assumes "plain_flat c" and "\<forall>q \<in> set qs. goodSub dec room q" and "distinct (map fst qs)" and "length qs \<le> 2 ^ 20"
    and "3 \<le> room" and "room \<le> 250" and "sm = map subEntry qs"
  shows "\<exists>m' rs. mset rs = mset qs
    \<and> (\<forall>d < room - 2. transports d (MakeMap (map eatEntry (eatClaims c @ subClaims sm []))) (MakeMap m'))
    \<and> eachEntry (eatStep dec) m' (Claims emptyFlat []) = Inr (Claims (stripped c) (map (\<lambda>q. (fst q, snd (snd q))) rs))"
proof -
  obtain m rs where rs: "mset rs = mset qs"
    and m: "\<forall>d. d + 1 < room \<longrightarrow> transports d (MakeMap (map subEntry qs)) (MakeMap m)"
    and run: "eachEntry (submodStep dec) m [] = Inr (map (\<lambda>q. (fst q, snd (snd q))) rs)"
    using subs_survive [OF assms(2-4)] assms(5,6) by auto
  define subs' where "subs' = map (\<lambda>q. (fst q, snd (snd q))) rs"
  define cs where "cs = eatClaims c @ subClaims sm subs'"
  have room: "0 < room - 1" "room - 1 \<le> 250" using assms(5,6) by linarith+
  have "\<forall>d < room - 1. transports d (MakeMap sm) (MakeMap m)" using m assms(7) by auto
  then have "goodEat dec (room - 1) (ESub sm subs')" using run room by (auto simp: goodEat_def subs'_def)
  then have good: "\<forall>q \<in> set cs. goodEat dec (room - 1) q"
    using eatClaims_good [OF assms(1) room] by (auto simp: cs_def subClaims_def)
  have dist: "distinct (map (fst \<circ> eatEntry) cs)" unfolding cs_def by (rule eatClaims_distinct)
  have len: "length cs \<le> 2 ^ 20" unfolding cs_def by (rule eatClaims_length)
  have commute: "applyEat x (applyEat y s) = applyEat y (applyEat x s)" if "x \<in> set cs" "y \<in> set cs" "x \<noteq> y" for x y s
  proof (rule applyEat_commute)
    show "fst (eatEntry x) \<noteq> fst (eatEntry y)" using dist that by (auto simp: distinct_map inj_on_def)
  qed (use good that in blast)+
  have each: "\<exists>m'. transports d (MakeMap (map eatEntry cs)) (MakeMap m')
      \<and> eachEntry (eatStep dec) m' (Claims emptyFlat []) = Inr (fold applyEat cs (Claims emptyFlat []))" if d: "d < room - 2" for d
  proof -
    have "d + 1 < room - 1" "d < 256" using d assms(6) by linarith+
    from eat.survives_in_order [OF good dist len this commute] obtain m' where
      "transports d (eat.written cs) (MakeMap m') \<and> (\<forall>s. eachEntry (eatStep dec) m' s = Inr (fold applyEat cs s))"
      by (rule exE)
    then show ?thesis by (intro exI [of _ m']) (simp add: eat.written_def)
  qed
  then obtain m' where m': "transports 0 (MakeMap (map eatEntry cs)) (MakeMap m')"
    "eachEntry (eatStep dec) m' (Claims emptyFlat []) = Inr (fold applyEat cs (Claims emptyFlat []))"
    using assms(5) by fastforce
  have "\<forall>d < room - 2. transports d (MakeMap (map eatEntry cs)) (MakeMap m')"
    using each transports_canon m'(1) by metis
  moreover have "map eatEntry cs = map eatEntry (eatClaims c @ subClaims sm [])"
    by (simp add: cs_def subClaims_def eatEntry_def)
  moreover have "sm = [] \<longrightarrow> subs' = []" using assms(7) rs by (auto simp: subs'_def)
  then have "fold applyEat cs (Claims emptyFlat []) = Claims (stripped c) subs'" unfolding cs_def fold_eatClaims by auto
  ultimately show ?thesis using m'(2) rs by (auto simp: subs'_def)
qed

lemma level_carried:
  assumes "permutes_submods ord" and "plain_flat c" and "distinct (map fst subs)" and "length subs \<le> 2 ^ 20"
    and "\<forall>p \<in> set subs. goodText (fst p) \<and> (\<exists>V. sub_carried ord n room (snd p) V)" and "3 \<le> room" and "room \<le> 250"
  shows "carried ord n (room - 2) (Claims c subs)"
proof -
  have "\<forall>s \<in> snd ` set subs. \<exists>V. sub_carried ord n room s V" using assms(5) by blast
  from bchoice [OF this] obtain V where "\<forall>s \<in> snd ` set subs. sub_carried ord n room s (V s)" ..
  then have V: "\<forall>p \<in> set subs. sub_carried ord n room (snd p) (V (snd p))" by simp
  obtain zs where zs: "mset zs = mset subs"
    "ord (map (\<lambda>p. (fst p, submodValue ord (snd p))) subs) = map (\<lambda>p. (fst p, submodValue ord (snd p))) zs"
    using permuted_map [OF assms(1)] by blast
  have set: "set zs = set subs" and lz: "length zs = length subs" using zs(1) by (metis set_mset_mset, metis size_mset)
  have dz: "distinct (map fst zs)"
    using assms(3) mset_eq_imp_distinct_iff [of "map fst zs" "map fst subs"] zs(1) by simp
  define ps where "ps = filter (\<lambda>p. present (snd p)) zs"
  define sm where "sm = map (\<lambda>p. (Text (fst p), the (V (snd p)))) ps"
  have "filter (\<lambda>p. V (snd p) \<noteq> None) zs = ps"
    unfolding ps_def using V set by (intro filter_cong) (auto simp: sub_carried_def)
  then have entries: "submodEntries (map (\<lambda>p. (fst p, submodValue ord (snd p))) zs) = Inr sm"
    using submodEntries_present [of zs "\<lambda>p. submodValue ord (snd p)" "\<lambda>p. V (snd p)"] V set
    by (simp add: sub_carried_def sm_def)
  have sub: "plain_tree (the (V (snd p))) \<and> (\<forall>d < room. transports d (the (V (snd p))) (the (V (snd p))))
      \<and> (\<forall>k \<ge> n. \<exists>s'. received_sub (snd p) s' \<and> reads_sub (DecodeClaims k) (the (V (snd p))) s') \<and> goodText (fst p)"
    if "p \<in> set ps" for p
    using that V assms(5) set by (auto simp: ps_def sub_carried_def)
  let ?m = "map eatEntry (eatClaims c @ subClaims sm [])"
  have m: "?m = flatEntries c @ (if length sm > 0 then [(Uint 268, MakeMap sm)] else [])"
    by (simp add: flatEntries_claims subClaims_def eatEntry_def)
  have "plain_tree (MakeMap sm)"
    using sub by (intro plain_tree.entries) (auto simp: sm_def goodText_def plain_keys)
  then have tree: "plain_tree (MakeMap ?m)"
    unfolding m using plain_claim_trees [OF assms(2)] by (intro plain_tree.entries) (auto simp: plain_keys)
  have "EatEncode ord (Claims c subs) = Inr (encoding (MakeMap ?m))"
    using zs(2) entries eatEncode_tree [OF tree] unfolding m by (simp add: orFail_def case_prod_unfold)
  moreover have run: "\<exists>m' c'. (\<forall>d < room - 2. transports d (MakeMap ?m) (MakeMap m')) \<and> received (Claims c subs) c'
      \<and> eachEntry (eatStep (DecodeClaims k)) m' (Claims emptyFlat []) = Inr c'" if k: "k \<ge> n" for k
  proof -
    have "\<forall>p \<in> set ps. \<exists>s'. received_sub (snd p) s' \<and> reads_sub (DecodeClaims k) (the (V (snd p))) s'"
      using sub k by blast
    from bchoice [OF this] obtain R
      where R: "\<forall>p \<in> set ps. received_sub (snd p) (R p) \<and> reads_sub (DecodeClaims k) (the (V (snd p))) (R p)" ..
    define qs where "qs = map (\<lambda>p. (fst p, the (V (snd p)), R p)) ps"
    have good: "\<forall>q \<in> set qs. goodSub (DecodeClaims k) room q" using sub R assms(6) by (auto simp: qs_def goodSub_def)
    have d: "distinct (map fst qs)" using dz by (simp add: qs_def ps_def comp_def distinct_map_filter)
    have l: "length qs \<le> 2 ^ 20"
      using assms(4) lz length_filter_le [of "\<lambda>p. present (snd p)" zs] by (simp add: qs_def ps_def)
    have "sm = map subEntry qs" by (simp add: sm_def qs_def subEntry_def)
    from claims_carried [OF assms(2) good d l assms(6,7) this] obtain m' rs where rs: "mset rs = mset qs"
      and m': "\<forall>d < room - 2. transports d (MakeMap ?m) (MakeMap m')"
        "eachEntry (eatStep (DecodeClaims k)) m' (Claims emptyFlat []) = Inr (Claims (stripped c) (map (\<lambda>q. (fst q, snd (snd q))) rs))"
      by blast
    from map_permuted [OF rs [unfolded qs_def]]
    obtain ws where ws: "mset ws = mset ps" "rs = map (\<lambda>p. (fst p, the (V (snd p)), R p)) ws" by blast
    have "mset ws = mset (filter (\<lambda>p. present (snd p)) subs)" using ws(1) zs(1) by (simp add: ps_def)
    moreover have "set ws = set ps" using ws(1) by (metis set_mset_mset)
    then have "list_all2 (\<lambda>p q. fst p = fst q \<and> received_sub (snd p) (snd q)) ws (map (\<lambda>q. (fst q, snd (snd q))) rs)"
      using R by (auto simp: ws(2) list_all2_conv_all_nth dest: nth_mem)
    ultimately show ?thesis using m' received_received_sub.claims by blast
  qed
  moreover from run [OF order_refl] obtain m' where m': "\<forall>d < room - 2. transports d (MakeMap ?m) (MakeMap m')"
    by (elim exE conjE)
  moreover have "\<exists>c'. received (Claims c subs) c' \<and> eachEntry (eatStep (DecodeClaims k)) m' (Claims emptyFlat []) = Inr c'" if k: "k \<ge> n" for k
  proof -
    obtain m'' c' where mk: "\<forall>d < room - 2. transports d (MakeMap ?m) (MakeMap m'')" "received (Claims c subs) c'"
      "eachEntry (eatStep (DecodeClaims k)) m'' (Claims emptyFlat []) = Inr c'" using run [OF k] by blast
    have "transports 0 (MakeMap ?m) (MakeMap m')" "transports 0 (MakeMap ?m) (MakeMap m'')"
      using mk(1) m' assms(6) by simp_all
    then have "MakeMap m'' = MakeMap m'" by (metis transports_canon)
    then have "m'' = m'" by (simp add: MakeMap_def)
    with mk show ?thesis by blast
  qed
  ultimately show ?thesis
    using tree unfolding carried_def by - (rule exI [of _ ?m], rule exI [of _ m'], intro conjI allI impI; assumption?; blast)
qed

section \<open>All levels\<close>

lemma eat_carried:
  "permutes_submods ord \<Longrightarrow> plain_eat ord n c \<Longrightarrow> n \<le> 100 \<Longrightarrow> carried ord n (240 - 2 * n) c"
proof (induction n arbitrary: c)
  case 0
  obtain f subs where c: "c = Claims f subs" by (cases c)
  have p: "plain_flat f" "plain_submods (\<lambda>_. False) subs" using 0(2) by (simp_all add: c)
  have "\<exists>V. sub_carried ord 0 242 (snd q) V" if q: "q \<in> set subs" for q
  proof (rule submod_carried)
    show "length (the (SubToken (snd q))) \<le> 2 ^ 24" if "SubToken (snd q) \<noteq> None"
      using p(2) q that by (auto simp: plain_submods_def)
  qed (use p(2) q in \<open>auto simp: plain_submods_def split: option.splits\<close>)
  with p have "carried ord 0 (242 - 2) (Claims f subs)"
    using 0(1) by (intro level_carried) (auto simp: plain_submods_def)
  then show ?case by (simp add: c)
next
  case (Suc n)
  obtain f subs where c: "c = Claims f subs" by (cases c)
  have p: "plain_flat f" "plain_submods (\<lambda>s. plain_eat ord n s \<and> fits ord s) subs" using Suc.prems(2) by (simp_all add: c)
  have room: "240 - 2 * n - 2 = 240 - 2 * Suc n" "3 \<le> 240 - 2 * n" "240 - 2 * n \<le> 250" "0 < 240 - 2 * n"
    using Suc.prems(3) by simp_all
  have "\<exists>V. sub_carried ord (Suc n) (240 - 2 * n) (snd q) V" if q: "q \<in> set subs" for q
  proof (rule submod_carried)
    show "length (the (SubToken (snd q))) \<le> 2 ^ 24" if "SubToken (snd q) \<noteq> None"
      using p(2) q that by (auto simp: plain_submods_def)
    fix s assume "SubToken (snd q) = None" "SubClaims (snd q) = Some s"
    with p(2) q have "plain_eat ord n s" "fits ord s" by (auto simp: plain_submods_def split: option.splits)
    then show "\<exists>V. sub_carried ord (Suc n) (240 - 2 * n) (Submod None (Some s)) V"
      using Suc.IH [of s] Suc.prems(1,3) room(4) by (intro inline_carried) simp_all
  qed
  with p show ?case
    unfolding c room(1) [symmetric] using Suc.prems(1) room(2,3)
    by (intro level_carried) (auto simp: plain_submods_def)
qed

text \<open>Encoding succeeds and decoding, with more fuel than there are levels, gives back the claims.\<close>

lemma eat_round_trip:
  assumes "permutes_submods ord" and "plain_eat ord n c" and "n \<le> 100" and "fits ord c" and "n < k"
  shows "\<exists>out c'. EatEncode ord c = Inr out \<and> received c c' \<and> DecodeClaims k out = Inr c'"
proof -
  note t = eat_carried [OF assms(1-3)]
  have room: "0 < 240 - 2 * n" using assms(3) by simp
  obtain out where out: "EatEncode ord c = Inr out" using t unfolding carried_def by blast
  from carried_decodes [OF t room assms(4,5) out] out show ?thesis by blast
qed

end
