(* ===== verification/Eat_Token.thy ===== *)
theory Eat_Token
  imports Eat_Survival
begin

text \<open>
  Attestation tokens as COSE_Sign1 messages (\<^verbatim>\<open>eat/token.go\<close>) and their appraisal (\<^verbatim>\<open>eat/appraiser.go\<close>). The policy
  functions of an appraiser are parameters of the record; the order in which the submodules are visited is the
  parameter \<open>ord\<close>.
\<close>

section \<open>Tokens\<close>

definition liftEat :: "cose_error + 'a \<Rightarrow> eat_error + 'a" where
  "liftEat r = (case r of Inl e \<Rightarrow> Inl (EatCose e) | Inr x \<Rightarrow> Inr x)"

definition asMalformedEAT :: "cose_error + 'a \<Rightarrow> eat_error + 'a" where
  "asMalformedEAT r = (case r of Inl e \<Rightarrow> Inl (if e = CosePanic then EatPanic else ErrMalformedEAT) | Inr x \<Rightarrow> Inr x)"

definition EatSign ::
  "order \<Rightarrow> (submod_values \<Rightarrow> submod_values) \<Rightarrow> SignCrypto \<Rightarrow> nat \<Rightarrow> Claims \<Rightarrow> Signer \<Rightarrow> eat_error + bytes" where
  "EatSign hord ord c draw claims signer =
     orFail (EatEncode ord claims) (\<lambda>payload.
     orFail (liftEat (Signer_Sign c draw signer (Some payload))) (\<lambda>msg.
     liftEat (fst (MarshalSign1 hord msg))))"

definition EatVerify :: "order \<Rightarrow> SignCrypto \<Rightarrow> nat \<Rightarrow> bytes \<Rightarrow> Verifier \<Rightarrow> eat_error + Claims" where
  "EatVerify hord c fuel data verifier =
     orFail (asMalformedEAT (UnmarshalSign1 data)) (\<lambda>msg.
       case fst (Verifier_Verify hord c verifier msg) of
         Some e \<Rightarrow> Inl (EatCose e)
       | None \<Rightarrow> DecodeClaims fuel (orEmpty (Payload msg)))"

section \<open>Appraisal\<close>

record Appraiser =
  RequireNonce :: bytes
  RequireSecurityLevel :: i64
  RequireSecureBoot :: bool
  RequireDebugDisabled :: bool
  RequireProfile :: bytes
  SWComponentPolicy :: "(SWComponent list \<Rightarrow> eat_error option) option"
  CWTValidator :: "Validator option"
  Custom :: "(Claims \<Rightarrow> eat_error option) list"
  SubmodPolicy :: "(bytes \<Rightarrow> Claims \<Rightarrow> eat_error option) option"
  SubmodVerifier :: "Verifier option"

definition nonceMatches :: "bytes list \<Rightarrow> bytes \<Rightarrow> bool" where
  "nonceMatches nonces expected \<longleftrightarrow> expected \<in> set nonces"

text \<open>The first error of a list of checks.\<close>

fun firstError :: "'e option list \<Rightarrow> 'e option" where
  "firstError [] = None"
| "firstError (None # xs) = firstError xs"
| "firstError (Some e # xs) = Some e"

lemma firstError_None: "firstError xs = None \<longleftrightarrow> set xs \<subseteq> {None}"
  by (induction xs rule: firstError.induct) auto

text \<open>The claims of a submodule as the policy sees them, \<open>None\<close> for an empty one.\<close>

definition submodClaims :: "order \<Rightarrow> SignCrypto \<Rightarrow> nat \<Rightarrow> Appraiser \<Rightarrow> Submod \<Rightarrow> eat_error + Claims option" where
  "submodClaims hord c fuel a sub = (case SubToken sub of
      Some t \<Rightarrow>
        (case SubmodVerifier a of
           Some v \<Rightarrow> orFail (EatVerify hord c fuel t v) (\<lambda>claims. Inr (Some claims))
         | None \<Rightarrow> orFail (asMalformedEAT (UnmarshalSign1 t)) (\<lambda>msg.
             orFail (DecodeClaims fuel (orEmpty (Payload msg))) (\<lambda>claims. Inr (Some claims))))
    | None \<Rightarrow> Inr (SubClaims sub))"

definition appraiseSubmod ::
  "order \<Rightarrow> SignCrypto \<Rightarrow> nat \<Rightarrow> Appraiser \<Rightarrow> (bytes \<Rightarrow> Claims \<Rightarrow> eat_error option) \<Rightarrow> bytes \<times> Submod \<Rightarrow> eat_error option" where
  "appraiseSubmod hord c fuel a policy p = (case submodClaims hord c fuel a (snd p) of
      Inl e \<Rightarrow> Some e | Inr None \<Rightarrow> None | Inr (Some claims) \<Rightarrow> policy (fst p) claims)"

definition Appraise ::
  "order \<Rightarrow> SignCrypto \<Rightarrow> Time \<Rightarrow> nat \<Rightarrow> ((bytes \<times> Submod) list \<Rightarrow> (bytes \<times> Submod) list) \<Rightarrow> Appraiser \<Rightarrow> Claims
    \<Rightarrow> eat_error option" where
  "Appraise hord c clock fuel ord a claims =
     (let f = flat claims in
      if RequireNonce a \<noteq> [] \<and> \<not> nonceMatches (Nonce f) (RequireNonce a) then Some ErrNonceMismatch
      else if sint (RequireSecurityLevel a) > 0 \<and> sint (SecurityLevel f) < sint (RequireSecurityLevel a)
        then Some ErrSecurityLevel
      else if RequireSecureBoot a \<and> SecureBoot f \<noteq> Some True then Some ErrSecureBootRequired
      else if RequireDebugDisabled a \<and> Debug f = 0 then Some ErrDebugEnabled
      else if RequireProfile a \<noteq> [] \<and> Profile f \<noteq> RequireProfile a then Some ErrProfileMismatch
      else firstError
        ([case SWComponentPolicy a of Some p \<Rightarrow> if length (SWComponents f) > 0 then p (SWComponents f) else None | None \<Rightarrow> None,
          case CWTValidator a of Some v \<Rightarrow> map_option EatCwt (Validate clock v (ClaimsSet.truncate f)) | None \<Rightarrow> None]
         @ map (\<lambda>fn. fn claims) (Custom a)
         @ (case SubmodPolicy a of
              Some p \<Rightarrow> map (appraiseSubmod hord c fuel a p) (ord (Submods claims)) | None \<Rightarrow> [])))"

section \<open>Signed claims come back\<close>

lemma EatVerify_signed:
  assumes "reorders ord1" and "reorders ord2" and "reorders ord3" and "signing_laws c" and "permutes_submods sord"
    and "NewSigner ord1 c key [WithSignerExternalData ext] = Inr s"
    and "NewVerifier (PublicOf c key) [WithVerifierExternalData ext] = Inr v"
    and "plain_eat sord n claims" and "n \<le> 100" and "n < fuel"
    and "EatEncode sord claims = Inr payload" and "length payload \<le> 2 ^ 24"
    and "EatSign ord2 sord c draw claims s = Inr token"
  shows "\<exists>claims'. EatVerify ord3 c fuel token v = Inr claims' \<and> received claims claims'"
proof -
  from assms(11,13) obtain msg where msg: "Signer_Sign c draw s (Some payload) = Inr msg"
    and token: "fst (MarshalSign1 ord2 msg) = Inr token"
    by (auto simp: EatSign_def orFail_def liftEat_def split: sum.splits)
  have "small (Some payload)" using assms(12) by (simp add: small_def)
  from sign1_wire [OF assms(1-4,6,7) this msg] token obtain m where
    m: "UnmarshalSign1 token = Inr m" "Payload m = Some payload" "fst (Verifier_Verify ord3 c v m) = None" by auto
  have "(2 :: nat) ^ 24 < 2 ^ 61" by simp
  with assms(12) have "length payload < 2 ^ 61" by (rule le_less_trans)
  then have "fits sord claims" using assms(11) by (simp add: fits_def)
  from eat_round_trip [OF assms(5,8,9) this assms(10)] assms(11)
  obtain claims' where "received claims claims'" "DecodeClaims fuel payload = Inr claims'" by auto
  with m show ?thesis by (auto simp: EatVerify_def asMalformedEAT_def orFail_def orEmpty_def)
qed

text \<open>C36: A signed attestation token gives back its claims to the verifier of the signing key. Verify after Sign returns
  the claims set with all its attestation claims and, under the same names, its submodules, those that are tokens
  and those that are claims sets, nested up to a hundred levels; only the confirmation and the private claims of
  the CWT part are lost. This holds whatever the orders in which the maps of headers and submodules are visited.\<close>
theorem eat_sign_verify:
  assumes "reorders ord1" and "reorders ord2" and "reorders ord3" and "signing_laws c" and "permutes_submods sord"
    and "NewSigner ord1 c key [WithSignerExternalData ext] = Inr s"
    and "NewVerifier (PublicOf c key) [WithVerifierExternalData ext] = Inr v"
    and "plain_eat sord n claims" and "n \<le> 100" and "n < fuel"
    and "EatEncode sord claims = Inr payload" and "length payload \<le> 2 ^ 24"
    and "EatSign ord2 sord c draw claims s = Inr token"
  shows "\<exists>claims'. EatVerify ord3 c fuel token v = Inr claims' \<and> received claims claims'"
  by (rule EatVerify_signed [OF assms])

text \<open>A platform with a nonce, an inline submodule with a software component, and one that is a token.\<close>

definition toyPart :: Claims where
  "toyPart = Claims (emptyFlat\<lparr>UEID := [7, 8], SWComponents := [emptySW\<lparr>SWType := [98]\<rparr>]\<rparr>) []"

definition toyEat :: Claims where
  "toyEat = Claims (emptyFlat\<lparr>Nonce := [[1, 2]], SecurityLevel := 3, Debug := 1\<rparr>)
     [([99], Submod None (Some toyPart)), ([116], Submod (Some [4, 5]) None)]"

definition toyEatPayload :: bytes where
  "toyEatPayload = [164, 10, 66, 1, 2, 25, 1, 5, 3, 25, 1, 7, 1, 25, 1, 12, 162, 97, 99, 162, 25, 1, 0, 66, 7, 8, 25, 1, 11,
     129, 161, 1, 97, 98, 97, 116, 66, 4, 5]"

lemma toyPart_encode: "EatEncode rev toyPart = Inr [162, 25, 1, 0, 66, 7, 8, 25, 1, 11, 129, 161, 1, 97, 98]"
  by code_simp

lemma toyEat_encode: "EatEncode rev toyEat = Inr toyEatPayload"
  by code_simp

lemma toyEat_plain: "plain_eat rev 1 toyEat" "permutes_submods rev"
  by (simp_all add: toyEat_def toyPart_def plain_submods_def plain_flat_def goodText_def emptyFlat_def zeroTime_def plain_sw_def
      emptySW_def fits_def toyPart_encode [unfolded toyPart_def emptyFlat_def zeroTime_def emptySW_def, simplified] permutes_submods_def)

lemma toyEat_signed:
  "\<exists>s v token. NewSigner (\<lambda>ps. ps) toyCrypto (Ed25519PrivateKey [7]) [WithSignerExternalData None] = Inr s
    \<and> NewVerifier (PublicOf toyCrypto (Ed25519PrivateKey [7])) [WithVerifierExternalData None] = Inr v
    \<and> verifier_key v = Ed25519Public [7] \<and> EatSign (\<lambda>ps. ps) rev toyCrypto 0 toyEat s = Inr token"
proof -
  obtain s v where s: "NewSigner (\<lambda>ps. ps) toyCrypto (Ed25519PrivateKey [7]) [WithSignerExternalData None] = Inr s"
    "NewVerifier (PublicOf toyCrypto (Ed25519PrivateKey [7])) [WithVerifierExternalData None] = Inr v"
    "signer_key s = Ed25519PrivateKey [7]"
    using NewSigner_toy [OF reorders_id] by blast
  note match = conjunct1 [OF NewSigner_NewVerifier [OF s(1,2)]]
  obtain msg where msg: "Signer_Sign toyCrypto 0 s (Some toyEatPayload) = Inr msg"
    using Signer_Sign_toy [OF match s(3)] by blast
  have "small (Some toyEatPayload)" by (simp add: toyEatPayload_def small_def)
  from sign1_wire [OF reorders_id reorders_id reorders_rev toyCrypto_laws s(1,2) this msg]
  obtain token where "fst (MarshalSign1 (\<lambda>ps. ps) msg) = Inr token" by blast
  with msg toyEat_encode have "EatSign (\<lambda>ps. ps) rev toyCrypto 0 toyEat s = Inr token"
    by (simp add: EatSign_def orFail_def liftEat_def)
  moreover have "verifier_key v = Ed25519Public [7]" using match s(3) by (simp add: matching_def toyCrypto_def)
  ultimately show ?thesis using s by blast
qed

lemma toyEat_size: "length toyEatPayload \<le> 2 ^ 24"
  by (simp add: toyEatPayload_def)

theorem eat_sign_verify_witness:
  "\<exists>token v claims'. verifier_key v = Ed25519Public [7] \<and> EatVerify rev toyCrypto 2 token v = Inr claims'
    \<and> Nonce (flat claims') = [[1, 2]] \<and> SecurityLevel (flat claims') = 3 \<and> length (Submods claims') = 2"
proof -
  obtain s v token where t: "NewSigner (\<lambda>ps. ps) toyCrypto (Ed25519PrivateKey [7]) [WithSignerExternalData None] = Inr s"
    "NewVerifier (PublicOf toyCrypto (Ed25519PrivateKey [7])) [WithVerifierExternalData None] = Inr v"
    "verifier_key v = Ed25519Public [7]" "EatSign (\<lambda>ps. ps) rev toyCrypto 0 toyEat s = Inr token"
    using toyEat_signed by blast
  have "(1 :: nat) \<le> 100" "(1 :: nat) < 2" by simp_all
  from eat_sign_verify [OF reorders_id reorders_id reorders_rev toyCrypto_laws toyEat_plain(2) t(1,2) toyEat_plain(1) this
      toyEat_encode toyEat_size t(4)]
  obtain claims' where c: "EatVerify rev toyCrypto 2 token v = Inr claims'" "received toyEat claims'" by blast
  have two: "length xs = 2" if "mset xs = {#x, y#}" for x y and xs :: "'z list"
    using arg_cong [OF that, of size] by simp
  from c(2) have "Nonce (flat claims') = [[1, 2]] \<and> SecurityLevel (flat claims') = 3 \<and> length (Submods claims') = 2"
    unfolding toyEat_def received_iff
    by (auto simp: stripped_def present_def dest!: list_all2_lengthD two)
  with c(1) t(3) show ?thesis by blast
qed

section \<open>What an appraisal requires\<close>

text \<open>The requirements of an appraiser, one by one.\<close>

definition meetsPolicy ::
  "order \<Rightarrow> SignCrypto \<Rightarrow> nat \<Rightarrow> Appraiser \<Rightarrow> (bytes \<Rightarrow> Claims \<Rightarrow> eat_error option) \<Rightarrow> bytes \<times> Submod \<Rightarrow> bool" where
  "meetsPolicy hord c fuel a policy p \<longleftrightarrow>
     (SubToken (snd p) = None \<and> SubClaims (snd p) = None)
     \<or> (\<exists>claims. submodClaims hord c fuel a (snd p) = Inr (Some claims) \<and> policy (fst p) claims = None)"

definition meetsRequirements :: "order \<Rightarrow> SignCrypto \<Rightarrow> Time \<Rightarrow> nat \<Rightarrow> Appraiser \<Rightarrow> Claims \<Rightarrow> bool" where
  "meetsRequirements hord c clock fuel a claims \<longleftrightarrow>
     (RequireNonce a = [] \<or> RequireNonce a \<in> set (Nonce (flat claims)))
     \<and> (0 < sint (RequireSecurityLevel a) \<longrightarrow> sint (RequireSecurityLevel a) \<le> sint (SecurityLevel (flat claims)))
     \<and> (RequireSecureBoot a \<longrightarrow> SecureBoot (flat claims) = Some True)
     \<and> (RequireDebugDisabled a \<longrightarrow> Debug (flat claims) \<noteq> 0)
     \<and> (RequireProfile a = [] \<or> Profile (flat claims) = RequireProfile a)
     \<and> (\<forall>p. SWComponentPolicy a = Some p \<longrightarrow> SWComponents (flat claims) = [] \<or> p (SWComponents (flat claims)) = None)
     \<and> (\<forall>v. CWTValidator a = Some v \<longrightarrow> Validate clock v (ClaimsSet.truncate (flat claims)) = None)
     \<and> (\<forall>f \<in> set (Custom a). f claims = None)
     \<and> (\<forall>policy. SubmodPolicy a = Some policy \<longrightarrow> (\<forall>p \<in> set (Submods claims). meetsPolicy hord c fuel a policy p))"

lemma appraiseSubmod_None: "appraiseSubmod hord c fuel a policy p = None \<longleftrightarrow> meetsPolicy hord c fuel a policy p"
proof (cases "SubToken (snd p)")
  case None
  then show ?thesis by (auto simp: appraiseSubmod_def meetsPolicy_def submodClaims_def split: option.splits)
next
  case (Some t)
  then have "submodClaims hord c fuel a (snd p) \<noteq> Inr None"
    by (auto simp: submodClaims_def orFail_def split: option.splits sum.splits)
  with Some show ?thesis by (auto simp: appraiseSubmod_def meetsPolicy_def split: option.splits sum.splits)
qed

lemma firstError_append: "firstError (xs @ ys) = None \<longleftrightarrow> firstError xs = None \<and> firstError ys = None"
  by (simp add: firstError_None)

lemma guard_None: "(if P then Some e else r) = None \<longleftrightarrow> \<not> P \<and> r = None"
  by simp

text \<open>C37: Appraise accepts a claims set if and only if every requirement of the appraiser is met: the nonce, the least
  security level, secure boot, disabled debugging, the profile, the software components, the CWT claims, each custom
  check and, for each submodule, the policy on its claims, which for a token must first be verified or decoded.
  The verdict does not depend on the order in which the submodules are visited.\<close>
theorem appraise_spec:
  assumes "mset (ord (Submods claims)) = mset (Submods claims)"
  shows "Appraise hord c clock fuel ord a claims = None \<longleftrightarrow> meetsRequirements hord c clock fuel a claims"
proof -
  have subs: "set (ord (Submods claims)) = set (Submods claims)" using assms by (metis set_mset_mset)
  have policy: "firstError (case SubmodPolicy a of Some p \<Rightarrow> map (appraiseSubmod hord c fuel a p) (ord (Submods claims)) | None \<Rightarrow> []) = None
      \<longleftrightarrow> (\<forall>policy. SubmodPolicy a = Some policy \<longrightarrow> (\<forall>p \<in> set (Submods claims). meetsPolicy hord c fuel a policy p))"
    using subs by (cases "SubmodPolicy a") (auto simp: firstError_None appraiseSubmod_None)
  have custom: "firstError (map (\<lambda>fn. fn claims) (Custom a)) = None \<longleftrightarrow> (\<forall>f \<in> set (Custom a). f claims = None)"
    by (auto simp: firstError_None)
  have parts: "firstError
      [case SWComponentPolicy a of Some p \<Rightarrow> if length (SWComponents (flat claims)) > 0 then p (SWComponents (flat claims)) else None | None \<Rightarrow> None,
       case CWTValidator a of Some v \<Rightarrow> map_option EatCwt (Validate clock v (ClaimsSet.truncate (flat claims))) | None \<Rightarrow> None] = None
    \<longleftrightarrow> (\<forall>p. SWComponentPolicy a = Some p \<longrightarrow> SWComponents (flat claims) = [] \<or> p (SWComponents (flat claims)) = None)
     \<and> (\<forall>v. CWTValidator a = Some v \<longrightarrow> Validate clock v (ClaimsSet.truncate (flat claims)) = None)"
    by (cases "SWComponentPolicy a"; cases "CWTValidator a") (auto simp: firstError_None)
  show ?thesis
    unfolding Appraise_def Let_def firstError_append nonceMatches_def meetsRequirements_def guard_None policy custom parts
    by (simp only: not_less conj_assoc de_Morgan_conj not_not imp_conv_disj)
qed

definition toyAppraiser :: Appraiser where
  "toyAppraiser = \<lparr>RequireNonce = [1, 2], RequireSecurityLevel = 3, RequireSecureBoot = False, RequireDebugDisabled = True,
     RequireProfile = [], SWComponentPolicy = None, CWTValidator = None, Custom = [],
     SubmodPolicy = Some (\<lambda>name claims. if UEID (flat claims) = [7, 8] then None else Some (EatPolicy 1)), SubmodVerifier = None\<rparr>"

definition toyClaimsEat :: Claims where
  "toyClaimsEat = Claims (flat toyEat) [([99], Submod None (Some toyPart)), ([100], Submod None None)]"

theorem appraise_spec_witness:
  "Appraise rev toyCrypto zeroTime 1 rev toyAppraiser toyClaimsEat = None
    \<and> meetsRequirements rev toyCrypto zeroTime 1 toyAppraiser toyClaimsEat
    \<and> \<not> meetsRequirements rev toyCrypto zeroTime 1 (toyAppraiser\<lparr>RequireSecurityLevel := 4\<rparr>) toyClaimsEat"
proof -
  have m: "mset (rev (Submods toyClaimsEat)) = mset (Submods toyClaimsEat)" by simp
  have "Appraise rev toyCrypto zeroTime 1 rev toyAppraiser toyClaimsEat = None"
    "Appraise rev toyCrypto zeroTime 1 rev (toyAppraiser\<lparr>RequireSecurityLevel := 4\<rparr>) toyClaimsEat \<noteq> None"
    by (simp_all add: Appraise_def toyAppraiser_def toyClaimsEat_def toyEat_def toyPart_def appraiseSubmod_def submodClaims_def
        nonceMatches_def emptyFlat_def)
  then show ?thesis by (simp add: appraise_spec [of rev, OF m])
qed

section \<open>The claims that are never read\<close>

lemma eachEntry_invariant:
  "eachEntry step es s = Inr s' \<Longrightarrow> P s \<Longrightarrow> (\<And>e s s'. step e s = Inr s' \<Longrightarrow> P s \<Longrightarrow> P s') \<Longrightarrow> P s'"
  by (induction es arbitrary: s) (auto split: sum.splits)

lemma orFail_Inr: "orFail r k = Inr x \<longleftrightarrow> (\<exists>y. r = Inr y \<and> k y = Inr x)"
  by (cases r) (simp_all add: orFail_def)

lemma flatStep_cnf: "flatStep k v c = Inr c' \<Longrightarrow> CnfClaim c' = CnfClaim c"
  by (auto simp: flatStep_def orFail_Inr split: if_split_asm)

lemma DecodeClaims_cnf: "DecodeClaims n data = Inr claims \<Longrightarrow> CnfClaim (flat claims) = None"
proof (cases n)
  case (Suc k)
  have step: "CnfClaim (flat s') = None" if "eatStep dec e s = Inr s'" "CnfClaim (flat s) = None" for dec e s s'
    using that flatStep_cnf by (fastforce simp: eatStep_def orFail_Inr split: option.splits if_split_asm)
  assume "DecodeClaims n data = Inr claims"
  then obtain v where "eachEntry (eatStep (DecodeClaims k)) (Pairs v) (Claims emptyFlat []) = Inr claims"
    by (auto simp: Suc DecodeClaims.simps split: sum.splits if_split_asm)
  then show ?thesis by (rule eachEntry_invariant [where P = "\<lambda>s. CnfClaim (flat s) = None"]) (auto simp: emptyFlat_def intro: step)
qed (simp add: DecodeClaims.simps)

text \<open>C38: The confirmation key of an attestation token is never read: an appraiser whose CWT validator requires a
  confirmation rejects every token that Verify returns, also one whose payload has the cnf claim.\<close>
theorem eat_confirmation_rejected:
  assumes "EatVerify hord c fuel token v = Inr claims"
    and "CWTValidator a = Some validator" and "RequireConfirmation validator"
  shows "Appraise hord c clock fuel ord a claims \<noteq> None"
proof -
  from assms(1) obtain payload where "DecodeClaims fuel payload = Inr claims"
    by (auto simp: EatVerify_def orFail_Inr split: option.splits)
  then have "CnfClaim (flat claims) = None" by (rule DecodeClaims_cnf)
  then have "Validate clock validator (ClaimsSet.truncate (flat claims)) \<noteq> None"
    using assms(3) by (simp add: Validate_def Let_def ClaimsSet.defs)
  then show ?thesis using assms(2) unfolding Appraise_def Let_def guard_None firstError_append by (auto simp: firstError_None)
qed

theorem eat_confirmation_rejected_witness:
  "\<exists>token v claims. EatVerify rev toyCrypto 2 token v = Inr claims
    \<and> Appraise rev toyCrypto zeroTime 2 rev
        (toyAppraiser\<lparr>CWTValidator := Some \<lparr>v_Audience = [], Leeway = 0, Now = None, RequireExpiration = False, RequireConfirmation = True\<rparr>\<rparr>)
        claims \<noteq> None"
proof -
  obtain s v token where t: "NewSigner (\<lambda>ps. ps) toyCrypto (Ed25519PrivateKey [7]) [WithSignerExternalData None] = Inr s"
    "NewVerifier (PublicOf toyCrypto (Ed25519PrivateKey [7])) [WithVerifierExternalData None] = Inr v"
    "EatSign (\<lambda>ps. ps) rev toyCrypto 0 toyEat s = Inr token"
    using toyEat_signed by blast
  have "(1 :: nat) \<le> 100" "(1 :: nat) < 2" by simp_all
  from EatVerify_signed [OF reorders_id reorders_id reorders_rev toyCrypto_laws toyEat_plain(2) t(1,2) toyEat_plain(1) this
      toyEat_encode toyEat_size t(3)]
  obtain claims where c: "EatVerify rev toyCrypto 2 token v = Inr claims" by blast
  with eat_confirmation_rejected [OF c] show ?thesis by (intro exI conjI) (assumption, simp)
qed

end
