(* ===== verification/Cbor_Tags.thy ===== *)
theory Cbor_Tags
  imports Go_Time
begin

text \<open>
  The helpers for tagged values (\<^verbatim>\<open>cbor/tags.go\<close>): dates, big integers and embedded CBOR. A \<^verbatim>\<open>big.Int\<close> is an
  integer, its bytes are big-endian without leading zeros. Parsing and formatting of RFC 3339 dates are the
  parameters \<open>parse\<close> and \<open>form\<close>.
\<close>

datatype tag_error = ErrNotTag kind | ErrTagNumber u64 | ErrInnerKind u64 kind | ErrTimeParse

definition TagDateTimeString :: u64 where "TagDateTimeString = 0"
definition TagEpochDateTime :: u64 where "TagEpochDateTime = 1"
definition TagUnsignedBignum :: u64 where "TagUnsignedBignum = 2"
definition TagNegativeBignum :: u64 where "TagNegativeBignum = 3"
definition TagEncodedCBOR :: u64 where "TagEncodedCBOR = 24"

lemmas tag_ids = TagDateTimeString_def TagEpochDateTime_def TagUnsignedBignum_def TagNegativeBignum_def TagEncodedCBOR_def

section \<open>Dates\<close>

definition AsTime :: "(bytes \<Rightarrow> Time option) \<Rightarrow> (u64 \<Rightarrow> i64) \<Rightarrow> Value \<Rightarrow> tag_error + Time" where
  "AsTime parse f2i t =
     (if Kind t \<noteq> KindTag then Inl (ErrNotTag (Kind t))
      else let inner = TagInner t in
        if TagID t = TagDateTimeString then
          (if Kind inner \<noteq> KindText then Inl (ErrInnerKind 0 (Kind inner))
           else case parse (TextVal inner) of None \<Rightarrow> Inl ErrTimeParse | Some x \<Rightarrow> Inr x)
        else if TagID t = TagEpochDateTime then
          (case Kind inner of
             KindUint \<Rightarrow> Inr (time_Unix (UintVal inner) 0)
           | KindNegInt \<Rightarrow> Inr (time_Unix (- 1 - NegIntVal inner) 0)
           | KindFloat32 \<Rightarrow> Inr (time_Unix 0 (int64_of_float f2i (f64_mul_giga (f32_to_f64 (Float32Val inner)))))
           | KindFloat64 \<Rightarrow> Inr (time_Unix 0 (int64_of_float f2i (f64_mul_giga (Float64Val inner))))
           | _ \<Rightarrow> Inl (ErrInnerKind 1 (Kind inner)))
        else Inl (ErrTagNumber (TagID t)))"

definition TimeTo :: "Time \<Rightarrow> Value" where
  "TimeTo t = MakeTag TagEpochDateTime (Uint (Time_Unix t))"

definition TimeToFloat :: "Time \<Rightarrow> Value" where
  "TimeToFloat t =
     MakeTag TagEpochDateTime (Float64 (f64_add (float64_of_int (sint (Time_Unix t))) (f64_div_giga (nat (t_nsec t)))))"

definition TimeToString :: "(Time \<Rightarrow> bytes) \<Rightarrow> Time \<Rightarrow> Value" where
  "TimeToString form t = MakeTag TagDateTimeString (Text (form t))"

text \<open>A date of whole seconds comes back, one before 1970 too: it is written as an unsigned integer above \<open>2 ^ 63\<close>,
  where CBOR has negative integers.\<close>

lemma AsTime_TimeTo: "t_nsec t = 0 \<Longrightarrow> AsTime parse f2i (TimeTo t) = Inr t"
  by (simp add: AsTime_def TimeTo_def tag_ids TagInner_def val_defs Time_Unix_def time_Unix_seconds)

lemma TimeTo_before_1970:
  assumes "sint (Time_Unix t) < 0"
  shows "2 ^ 63 \<le> uint (UintVal (TagInner (TimeTo t)))"
proof -
  have tb: "take_bit 64 (uint x) = uint x" for x :: u64
    using uint_bounded [of x] by (simp add: take_bit_int_eq_self_iff)
  have "uint (Time_Unix t) = sint (Time_Unix t) + 2 ^ 64"
    using assms uint_ge_0 [of "Time_Unix t"] by (simp add: sint_uint signed_take_bit_eq_take_bit_minus tb of_bool_def split: if_split_asm)
  then show ?thesis using sint_greater_eq [of "Time_Unix t"] by (simp add: TimeTo_def TagInner_def val_defs)
qed

section \<open>Big integers\<close>

fun big_Bytes :: "nat \<Rightarrow> bytes" where
  "big_Bytes n = (if n = 0 then [] else big_Bytes (n div 256) @ [of_nat n])"

declare big_Bytes.simps [simp del]

definition AsBigInt :: "Value \<Rightarrow> tag_error + int" where
  "AsBigInt t =
     (if Kind t \<noteq> KindTag then Inl (ErrNotTag (Kind t))
      else let inner = TagInner t in
        if TagID t = TagUnsignedBignum then
          (if Kind inner \<noteq> KindBytes then Inl (ErrInnerKind 2 (Kind inner)) else Inr (int (be_val (BytesVal inner))))
        else if TagID t = TagNegativeBignum then
          (if Kind inner \<noteq> KindBytes then Inl (ErrInnerKind 3 (Kind inner)) else Inr (- (int (be_val (BytesVal inner)) + 1)))
        else Inl (ErrTagNumber (TagID t)))"

definition BigIntTo :: "int \<Rightarrow> Value" where
  "BigIntTo n =
     (if n \<ge> 0 then MakeTag TagUnsignedBignum (Bytes (big_Bytes (nat n)))
      else MakeTag TagNegativeBignum (Bytes (big_Bytes (nat (\<bar>n\<bar> - 1)))))"

lemma be_val_big_Bytes: "be_val (big_Bytes n) = n"
  by (induction n rule: big_Bytes.induct) (subst big_Bytes.simps, simp)

lemma AsBigInt_BigIntTo: "AsBigInt (BigIntTo n) = Inr n"
  by (simp add: AsBigInt_def BigIntTo_def tag_ids TagInner_def val_defs be_val_big_Bytes)

section \<open>Embedded CBOR\<close>

definition AsNestedCBOR :: "Value \<Rightarrow> tag_error + bytes" where
  "AsNestedCBOR t =
     (if Kind t \<noteq> KindTag then Inl (ErrNotTag (Kind t))
      else if TagID t \<noteq> TagEncodedCBOR then Inl (ErrTagNumber (TagID t))
      else let inner = TagInner t in
        if Kind inner \<noteq> KindBytes then Inl (ErrInnerKind 24 (Kind inner)) else Inr (BytesVal inner))"

section \<open>Big integers over the wire\<close>

lemma BigIntTo_form: "\<exists>i b. BigIntTo n = MakeTag i (Bytes b)"
  by (cases "n \<ge> 0") (auto simp: BigIntTo_def)

lemma BigIntTo_transports:
  assumes "length (BytesVal (TagInner (BigIntTo n))) \<le> 2 ^ 24"
  shows "transports 0 (BigIntTo n) (BigIntTo n)"
proof -
  obtain i b where v: "BigIntTo n = MakeTag i (Bytes b)" using BigIntTo_form by blast
  with assms have "length b \<le> 2 ^ 24" by (simp add: TagInner_def val_defs)
  then have "transports 1 (Bytes b) (Bytes b)" by (rule transports_leaf)
  then show ?thesis unfolding v using transports_tag [of 0 "Bytes b" "Bytes b" i] by (simp add: Bytes_def)
qed

text \<open>C39: A big integer of any size that the decoder's limit on byte strings allows, negative or not, is encoded, and the
  value that Decode gives for the encoding is the same integer for AsBigInt.\<close>
theorem bignum_round_trip:
  assumes "length (BytesVal (TagInner (BigIntTo n))) \<le> 2 ^ 24"
  shows "\<exists>out v. Encode (NewEncoder ModeCoreDeterministic []) [] (BigIntTo n) = (out, None)
    \<and> fst (DecodeWith (NewDecoder []) out) = Inr v \<and> AsBigInt v = Inr n"
proof -
  note t = BigIntTo_transports [OF assms]
  define out where "out = fst (encode detOpts [] (BigIntTo n))"
  have "encode detOpts [] (BigIntTo n) = (out, None)" using t by (simp add: transports_def out_def prod_eq_iff)
  then have c: "coseEncode (BigIntTo n) = Inr out" by (simp add: coseEncode_encode)
  then have "Encode newEncoder [] (BigIntTo n) = (out, None)"
    using encodeWith_new [of "BigIntTo n"] by (auto simp: encodeWith_def split: prod.splits option.splits)
  moreover have "length out < 2 ^ 61"
  proof -
    obtain i b where v: "BigIntTo n = MakeTag i (Bytes b)" "length b \<le> 2 ^ 24"
      using assms BigIntTo_form [of n] by (auto simp: TagInner_def Bytes_def MakeTag_def)
    have "out = AppendHead [] MajorTag i @ AppendHead [] MajorBytes (of_nat (length b)) @ b"
      using encode_dst [of detOpts "AppendHead [] MajorTag i" "Bytes b"]
      by (simp add: out_def v(1) MakeTag_def encode.simps [of detOpts "[]" "Value KindTag n [] [] xs []" for n xs] leaf_encode)
    then have "length out \<le> 18 + 2 ^ 24" using v(2) by (simp add: length_AppendHead headSize_def)
    then show ?thesis by simp
  qed
  then have "fst (DecodeWith (NewDecoder []) out) = Inr (BigIntTo n)"
    using transports_decode [OF t c] by (simp add: BigIntTo_def MakeTag_def tag_ids)
  ultimately show ?thesis using AsBigInt_BigIntTo by (auto simp: newEncoder_def)
qed

text \<open>The first negative integer that does not fit 64 bits.\<close>

theorem bignum_round_trip_witness:
  "BigIntTo (- (2 ^ 64) - 1) = MakeTag 3 (Bytes [1, 0, 0, 0, 0, 0, 0, 0, 0])
    \<and> (\<exists>out v. Encode (NewEncoder ModeCoreDeterministic []) [] (BigIntTo (- (2 ^ 64) - 1)) = (out, None)
        \<and> fst (DecodeWith (NewDecoder []) out) = Inr v \<and> AsBigInt v = Inr (- (2 ^ 64) - 1))"
proof -
  have v: "BigIntTo (- (2 ^ 64) - 1) = MakeTag 3 (Bytes [1, 0, 0, 0, 0, 0, 0, 0, 0])"
    by (simp add: BigIntTo_def tag_ids big_Bytes.simps MakeTag_def Bytes_def)
  then have "length (BytesVal (TagInner (BigIntTo (- (2 ^ 64) - 1)))) \<le> 2 ^ 24" by (simp add: TagInner_def val_defs)
  with v show ?thesis using bignum_round_trip by blast
qed

end
