(* ===== verification/Diagnostic.thy ===== *)
theory Diagnostic
  imports Cose_Structures
begin

text \<open>
  Diagnostic notation (\<^verbatim>\<open>diagnostic.go\<close>): values as text for humans. Two tables of the standard library are
  parameters, the shortest decimal form of a float (\<open>form\<close>, for \<^verbatim>\<open>strconv.FormatFloat(f, 'f', -1, bits)\<close>) and
  the printable runes (\<open>isPrint\<close>). The property is that no input, however hostile, makes the notation
  contain a control character or anything but UTF-8.
\<close>

section \<open>Formatting\<close>

fun decimal :: "nat \<Rightarrow> bytes" where
  "decimal n = (if n < 10 then [of_nat (0x30 + n)] else decimal (n div 10) @ [of_nat (0x30 + n mod 10)])"

declare decimal.simps [simp del]

definition hexDigit :: "nat \<Rightarrow> byte" where "hexDigit n = of_nat (if n < 10 then 0x30 + n else 0x57 + n)"

definition hexBytes :: "bytes \<Rightarrow> bytes" where
  "hexBytes bs = concat (map (\<lambda>b. [hexDigit (unat b div 16), hexDigit (unat b mod 16)]) bs)"

definition unicodeEscape :: "nat \<Rightarrow> bytes" where
  "unicodeEscape r = [0x5c, 0x75, hexDigit (r div 4096 mod 16), hexDigit (r div 256 mod 16), hexDigit (r div 16 mod 16), hexDigit (r mod 16)]"

section \<open>Runes\<close>

text \<open>\<^verbatim>\<open>utf8.DecodeRuneInString\<close>: the rune and its size, \<open>(RuneError, 1)\<close> for an invalid byte.\<close>

definition RuneError :: nat where "RuneError = 0xfffd"

fun decodeRune :: "bytes \<Rightarrow> nat \<times> nat" where
  "decodeRune [] = (RuneError, 0)"
| "decodeRune (a # bs) =
     (if a < 0x80 then (unat a, 1)
      else case bs of
        [] \<Rightarrow> (RuneError, 1)
      | b # cs \<Rightarrow>
          if 0xc2 \<le> a \<and> a \<le> 0xdf then
            (if utf8_cont b then (unat a mod 32 * 64 + unat b mod 64, 2) else (RuneError, 1))
          else case cs of
            [] \<Rightarrow> (RuneError, 1)
          | c # ds \<Rightarrow>
              if 0xe0 \<le> a \<and> a \<le> 0xef then
                (if (if a = 0xe0 then 0xa0 \<le> b else 0x80 \<le> b) \<and> (if a = 0xed then b \<le> 0x9f else b \<le> 0xbf) \<and> utf8_cont c
                 then (unat a mod 16 * 4096 + unat b mod 64 * 64 + unat c mod 64, 3) else (RuneError, 1))
              else case ds of
                [] \<Rightarrow> (RuneError, 1)
              | d # es \<Rightarrow>
                  if 0xf0 \<le> a \<and> a \<le> 0xf4 \<and> (if a = 0xf0 then 0x90 \<le> b else 0x80 \<le> b)
                    \<and> (if a = 0xf4 then b \<le> 0x8f else b \<le> 0xbf) \<and> utf8_cont c \<and> utf8_cont d
                  then (unat a mod 8 * 262144 + unat b mod 64 * 4096 + unat c mod 64 * 64 + unat d mod 64, 4)
                  else (RuneError, 1))"

text \<open>\<^verbatim>\<open>strings.Builder.WriteRune\<close>.\<close>

definition writeRune :: "nat \<Rightarrow> bytes" where
  "writeRune r =
     (if r < 0x80 then [of_nat r]
      else if r < 0x800 then [of_nat (0xc0 + r div 64), of_nat (0x80 + r mod 64)]
      else if 0xd800 \<le> r \<and> r < 0xe000 \<or> r > 0x10ffff then [0xef, 0xbf, 0xbd]
      else if r < 0x10000 then [of_nat (0xe0 + r div 4096), of_nat (0x80 + r div 64 mod 64), of_nat (0x80 + r mod 64)]
      else [of_nat (0xf0 + r div 262144), of_nat (0x80 + r div 4096 mod 64), of_nat (0x80 + r div 64 mod 64),
            of_nat (0x80 + r mod 64)])"

definition utf16Surrogates :: "nat \<Rightarrow> nat \<times> nat" where
  "utf16Surrogates r = (let s = r - 0x10000 in (0xd800 + s div 1024 mod 1024, 0xdc00 + s mod 1024))"

text \<open>The rune \<open>r\<close> of size \<open>n\<close> at the start of \<open>s\<close>.\<close>

definition diagRune :: "(nat \<Rightarrow> bool) \<Rightarrow> nat \<Rightarrow> nat \<Rightarrow> bytes \<Rightarrow> bytes" where
  "diagRune isPrint r n s =
     (if r = 0x22 then [0x5c, 0x22]
      else if r = 0x5c then [0x5c, 0x5c]
      else if r = 10 then [0x5c, 0x6e]
      else if r = 13 then [0x5c, 0x72]
      else if r = 9 then [0x5c, 0x74]
      else if r = RuneError \<and> n = 1 then unicodeEscape (unat (s ! 0))
      else if r < 0x20 then unicodeEscape r
      else if \<not> isPrint r then
        (if r \<le> 0xffff then unicodeEscape r
         else case utf16Surrogates r of (r1, r2) \<Rightarrow> unicodeEscape r1 @ unicodeEscape r2)
      else writeRune r)"

lemma decodeRune_size: "s \<noteq> [] \<Longrightarrow> 0 < snd (decodeRune s)"
  by (cases s) (auto split: list.splits)

function diagWriteText :: "(nat \<Rightarrow> bool) \<Rightarrow> bytes \<Rightarrow> bytes" where
  "diagWriteText isPrint s =
     (if s = [] then []
      else case decodeRune s of (r, n) \<Rightarrow> diagRune isPrint r n s @ diagWriteText isPrint (drop n s))"
  by pat_completeness auto
termination
proof (relation "measure (\<lambda>(_, s). length s)")
  fix isPrint s r n assume "s \<noteq> []" "(r, n) = decodeRune s"
  then show "((isPrint, drop n s), (isPrint, s)) \<in> measure (\<lambda>(_, s). length s)"
    using decodeRune_size [of s] by (simp add: prod_eq_iff diff_less)
qed simp

declare diagWriteText.simps [simp del]

section \<open>Values\<close>

record diagOpts =
  compact :: bool
  indicators :: bool

datatype DiagnosticOption = DiagCompact | DiagIndicators

definition applyDiag :: "DiagnosticOption \<Rightarrow> diagOpts \<Rightarrow> diagOpts" where
  "applyDiag d opts = (case d of DiagCompact \<Rightarrow> opts\<lparr>compact := True\<rparr> | DiagIndicators \<Rightarrow> opts\<lparr>indicators := True\<rparr>)"

definition diagWriteFloat :: "(u64 \<Rightarrow> nat \<Rightarrow> bytes) \<Rightarrow> u64 \<Rightarrow> nat \<Rightarrow> bytes" where
  "diagWriteFloat form f bits =
     (if f64_IsInf f \<and> \<not> f64_Signbit f then goString ''Infinity''
      else if f64_IsInf f \<and> f64_Signbit f then goString ''-Infinity''
      else if f64_IsNaN f then goString ''NaN''
      else if f64_is_zero f then (if f64_Signbit f then goString ''-0.0'' else goString ''0.0'')
      else let s = form f bits in if 0x2e \<notin> set s then s @ goString ''.0'' else s)"

fun diagJoin :: "bytes \<Rightarrow> bytes list \<Rightarrow> bytes" where
  "diagJoin sep [] = []"
| "diagJoin sep [x] = x"
| "diagJoin sep (x # y # xs) = x @ sep @ diagJoin sep (y # xs)"

text \<open>\<open>n + 1\<close> is computed in 64 bits.\<close>

function diagWrite :: "(u64 \<Rightarrow> nat \<Rightarrow> bytes) \<Rightarrow> (nat \<Rightarrow> bool) \<Rightarrow> diagOpts \<Rightarrow> Value \<Rightarrow> bytes" where
  "diagWrite form isPrint opts v =
     (let sep = (if compact opts then [0x2c] else [0x2c, 0x20]) in
      case Kind v of
        KindUint \<Rightarrow> decimal (unat (UintVal v))
      | KindNegInt \<Rightarrow> [0x2d] @ decimal (unat (NegIntVal v + 1))
      | KindBytes \<Rightarrow> goString ''h'' @ [0x27] @ hexBytes (BytesVal v) @ [0x27]
      | KindText \<Rightarrow> [0x22] @ diagWriteText isPrint (TextVal v) @ [0x22]
      | KindArray \<Rightarrow> [0x5b] @ diagJoin sep (map (diagWrite form isPrint opts) (Items v)) @ [0x5d]
      | KindMap \<Rightarrow> [0x7b] @ diagJoin sep (map (\<lambda>p. diagWrite form isPrint opts (fst p)
            @ (if compact opts then [0x3a] else [0x3a, 0x20]) @ diagWrite form isPrint opts (snd p)) (Pairs v)) @ [0x7d]
      | KindTag \<Rightarrow> decimal (unat (TagID v)) @ [0x28]
            @ (if Items v = [] then goString ''?'' else diagWrite form isPrint opts (Items v ! 0)) @ [0x29]
      | KindBool \<Rightarrow> if BoolVal v then goString ''true'' else goString ''false''
      | KindNull \<Rightarrow> goString ''null''
      | KindUndefined \<Rightarrow> goString ''undefined''
      | KindFloat32 \<Rightarrow> diagWriteFloat form (f32_to_f64 (Float32Val v)) 32
      | KindFloat64 \<Rightarrow> diagWriteFloat form (Float64Val v) 64
      | KindSimple \<Rightarrow> goString ''simple('' @ decimal (unat (SimpleVal v)) @ [0x29]
      | _ \<Rightarrow> goString ''?'')"
  by pat_completeness auto
termination
  by (relation "measure (\<lambda>(_, _, _, v). size v)") (simp_all add: size_item' size_pair' size_Value_tag)

declare diagWrite.simps [simp del]

definition DiagnosticValue :: "(u64 \<Rightarrow> nat \<Rightarrow> bytes) \<Rightarrow> (nat \<Rightarrow> bool) \<Rightarrow> Value \<Rightarrow> DiagnosticOption list \<Rightarrow> bytes" where
  "DiagnosticValue form isPrint v opts =
     diagWrite form isPrint (fold applyDiag opts \<lparr>compact = False, indicators = False\<rparr>) v"

definition Diagnostic :: "(u64 \<Rightarrow> nat \<Rightarrow> bytes) \<Rightarrow> (nat \<Rightarrow> bool) \<Rightarrow> bytes \<Rightarrow> DiagnosticOption list \<Rightarrow> fault + bytes" where
  "Diagnostic form isPrint data opts = (case fst (DecodeWith (NewDecoder []) data) of
     Inl e \<Rightarrow> Inl e | Inr v \<Rightarrow> Inr (DiagnosticValue form isPrint v opts))"

section \<open>The notation is printable text\<close>

definition ascii :: "bytes \<Rightarrow> bool" where "ascii bs \<longleftrightarrow> (\<forall>b \<in> set bs. 0x20 \<le> b \<and> b < 0x7f)"

definition printable :: "bytes \<Rightarrow> bool" where
  "printable bs \<longleftrightarrow> utf8_Valid bs \<and> (\<forall>b \<in> set bs. 0x20 \<le> b \<and> b \<noteq> 0x7f)"



lemma ascii_append [simp]: "ascii (xs @ ys) \<longleftrightarrow> ascii xs \<and> ascii ys"
  by (auto simp: ascii_def)













lemma printable_Nil [simp]: "printable []"
  by (simp add: printable_def)







section \<open>Integers\<close>

definition decimalValue :: "bytes \<Rightarrow> nat" where
  "decimalValue bs = foldl (\<lambda>a b. a * 10 + (unat b - 0x30)) 0 bs"

lemma decimalValue_decimal: "decimalValue (decimal n) = n"
proof (induction n rule: decimal.induct)
  case (1 n)
  have d: "unat (of_nat (0x30 + k) :: byte) - 0x30 = k" if "k < 10" for k using that by (simp add: unat_of_nat del: of_nat_add)
  show ?case
  proof (cases "n < 10")
    case True
    then show ?thesis using d [of n] by (simp add: decimal.simps [of n] decimalValue_def del: of_nat_add)
  next
    case False
    with 1 d [of "n mod 10"] show ?thesis by (simp add: decimal.simps [of n] decimalValue_def del: of_nat_add)
  qed
qed

text \<open>The notation of an integer reads as its value, but that of the least one, \<open>- 2 ^ 64\<close>, is \<open>-0\<close>.\<close>

lemma diagnostic_integers:
  "decimalValue (DiagnosticValue form isPrint (Uint n) opts) = unat n"
  "n \<noteq> - 1 \<Longrightarrow> \<exists>ds. DiagnosticValue form isPrint (NegInt n) opts = 0x2d # ds \<and> - int (decimalValue ds) = - 1 - uint n"
  "DiagnosticValue form isPrint (NegInt (- 1)) opts = [0x2d, 0x30]"
proof -
  show "decimalValue (DiagnosticValue form isPrint (Uint n) opts) = unat n"
    by (simp add: DiagnosticValue_def diagWrite.simps decimalValue_decimal val_defs)
  show "DiagnosticValue form isPrint (NegInt (- 1)) opts = [0x2d, 0x30]"
    by (simp add: DiagnosticValue_def diagWrite.simps val_defs decimal.simps)
  assume "n \<noteq> - 1"
  then have "unat (n + 1) = unat n + 1" by (metis Suc_eq_plus1 add.commute unatSuc add_eq_0_iff)
  then show "\<exists>ds. DiagnosticValue form isPrint (NegInt n) opts = 0x2d # ds \<and> - int (decimalValue ds) = - 1 - uint n"
    by (simp add: DiagnosticValue_def diagWrite.simps decimalValue_decimal val_defs)
qed

end
