(* ===== verification/Spec2Isabelle.thy ===== *)
theory Spec2Isabelle
  imports Cbor_Theorems Stream_Encode Stream_Decode Size_Order Typed_Arrays Cose_Content Cose_Key Aes_Ccm Cwt_Token Edhoc_Theorems Eat_Token
    Cbor_Tags Diagnostic
begin

text \<open>
  corecbor: a CBOR codec (RFC 8949) and the COSE messages on top of it, modelled and verified.

  \<^bold>\<open>The program.\<close> The packages \<^verbatim>\<open>wire\<close> (heads and half floats), \<^verbatim>\<open>cbor\<close> (the value
  type) and \<^verbatim>\<open>rfc8949\<close> (encoder, decoder, cursor) are wrapped by the root package, which adds modes,
  options, sequences and streams. \<^verbatim>\<open>cose\<close> builds signed, authenticated and encrypted messages from
  encoded values: headers are Go maps, messages are arrays behind a tag, and what is signed is the
  encoding of a small array that contains the encoded protected headers.

  \<^bold>\<open>The theories.\<close>
  \<^item> \<open>Go_Prelude\<close>: Go's machine types, the wrap-around of its \<open>int\<close>, slices with their bounds
    check, big-endian byte strings.
  \<^item> \<open>Wire_Head\<close> (\<^verbatim>\<open>wire/head.go\<close>), \<open>Float_Bits\<close> and \<open>Wire_Float\<close> (\<^verbatim>\<open>wire/float16.go\<close>): heads
    and the three float formats. \<open>Cbor_Value\<close> (\<^verbatim>\<open>cbor/value.go\<close>, \<^verbatim>\<open>cbor/errors.go\<close>): a record-like
    datatype with the fields of the Go struct.
  \<^item> \<open>Decode_State\<close> (\<^verbatim>\<open>rfc8949/intern.go\<close>, \<^verbatim>\<open>rfc8949/arena.go\<close>, the memory budget) and \<open>Decode\<close>
    (\<^verbatim>\<open>rfc8949/decode.go\<close>): the decoder with its fast paths. Every function returns a value and an
    offset, or a fault (an error of the code, a panic, or a run out of fuel), and the state.
    \<open>Decode_Safety\<close>, \<open>Decode_Limits\<close> and \<open>Decode_Fast\<close> show that it terminates, does not panic,
    keeps its limits, and that the fast paths agree with the general one. Each states what a step of
    the decoder needs from the recursive call as a locale, interpreted on \<open>decodeValue\<close> itself.
  \<^item> \<open>Encode\<close>, \<open>Encode_Props\<close> (\<^verbatim>\<open>rfc8949/encode.go\<close>): the encoder and the order of map keys.
    \<open>Roundtrip\<close>, \<open>Canonical\<close>, \<open>Item_Form\<close>: what is written is read back in canonical form,
    deterministic encodings do not depend on the order of entries, and every encoding is an item of
    the grammar.
  \<^item> \<open>Codec\<close> (\<^verbatim>\<open>encoder.go\<close>, \<^verbatim>\<open>decoder.go\<close>, \<^verbatim>\<open>sequence.go\<close>, \<^verbatim>\<open>raw.go\<close>): modes, options,
    sequences, raw tags. \<open>Cbor_Theorems\<close> holds the properties of the codec.
  \<^item> \<open>Stream_Encode\<close> (\<^verbatim>\<open>stream.go\<close>, \<^verbatim>\<open>rfc8949/stream_encode.go\<close>): the streaming encoder over a writer
    that may fail, with its stack of open containers as an inductive invariant. \<open>Decode_Prefix\<close> and
    \<open>Stream_Decode\<close> (\<^verbatim>\<open>rfc8949/stream_decode.go\<close>, the end of \<^verbatim>\<open>stream.go\<close>): a decode depends on its item only,
    so retrying on a growing buffer yields the items whatever the chunks; the read loops are partial
    functions, \<open>None\<close> is a call that never returns.
  \<^item> \<open>Cursor\<close> (\<^verbatim>\<open>rfc8949/cursor.go\<close>): skipping and navigation without decoding. \<open>Typed_Arrays\<close>
    (\<^verbatim>\<open>rfc8949/homogeneous.go\<close>): decoders of homogeneous arrays, each a reader that meets the contract of
    one locale. \<open>Size_Order\<close> (\<^verbatim>\<open>rfc8949/estimate.go\<close>, \<^verbatim>\<open>rfc8949/preorder.go\<close>): size estimates and precomputed
    map orders against the encoder.
  \<^item> \<open>Cose_Headers\<close>, \<open>Cose_Messages\<close>, \<open>Cose_Canonical\<close> (\<^verbatim>\<open>cose/headers.go\<close>, \<^verbatim>\<open>cose/message.go\<close>,
    \<^verbatim>\<open>cose/marshal.go\<close>): headers, the six message types and their round trips.
  \<^item> \<open>Cose_Structures\<close>, \<open>Cose_Ecdsa\<close>, \<open>Cose_Sign\<close> (\<^verbatim>\<open>cose/algorithm.go\<close>, \<^verbatim>\<open>cose/sign.go\<close>,
    \<^verbatim>\<open>cose/sign_multi.go\<close>): the authenticated structures, DER and raw ECDSA signatures, signers and
    verifiers. \<open>Cose_Theorems\<close> holds their properties.
  \<^item> \<open>Aes_Key_Wrap\<close>, \<open>Cose_Keys\<close>, \<open>Cose_Mac\<close>, \<open>Cose_Encrypt\<close> (\<^verbatim>\<open>cose/internal/aeskw\<close>, the key derivers,
    \<^verbatim>\<open>cose/mac*.go\<close>, \<^verbatim>\<open>cose/encrypt*.go\<close>): key wrapping, MACs, encryption for several recipients.
    \<open>Cose_Content\<close> holds their properties.
  \<^item> \<open>Cose_Key\<close> (\<^verbatim>\<open>cose/key.go\<close>, \<^verbatim>\<open>cose/key_types.go\<close>): the key object. \<open>Aes_Ccm\<close>
    (\<^verbatim>\<open>edhoc/internal/aesccm\<close>): the cipher mode of EDHOC.
  \<^item> \<open>Go_Time\<close>, \<open>Token_Maps\<close>, \<open>Cwt_Claims\<close>, \<open>Cwt_Token\<close> (\<^verbatim>\<open>cwt\<close>): times and numeric dates, the locale of
    maps of claims, the claims set, and tokens with their validation.
  \<^item> \<open>Edhoc_Message\<close> (\<^verbatim>\<open>edhoc/message.go\<close>, \<^verbatim>\<open>edhoc/ciphersuite.go\<close>, \<^verbatim>\<open>edhoc/keyschedule.go\<close>), \<open>Edhoc_Credential\<close>
    (\<^verbatim>\<open>edhoc/credential.go\<close>, the signatures of \<^verbatim>\<open>edhoc/initiator.go\<close>) and \<open>Edhoc_Session\<close> (\<^verbatim>\<open>edhoc/initiator.go\<close>,
    \<^verbatim>\<open>edhoc/responder.go\<close>, \<^verbatim>\<open>edhoc/context.go\<close>): the key exchange as two state machines whose operations return
    their result and the updated party, also when they fail. \<open>Edhoc_Wire\<close> shows that what one party writes the
    other reads; \<open>Edhoc_Theorems\<close> has the undisturbed run, the invariants of the reachable states, failed calls,
    suite negotiation and the transcript hash.

  \<^item> \<open>Eat_Claims\<close>, \<open>Eat_Token\<close> (\<^verbatim>\<open>eat\<close>): attestation claims with nested submodules, their tokens and the appraiser,
    with its requirements as a specification. \<open>Token_Trees\<close>, \<open>Eat_Wire\<close> and \<open>Eat_Survival\<close> show, by three
    interpretations of the locale of maps of claims and an induction over the depth, that claims come back.
  \<^item> \<open>Cbor_Tags\<close> (\<^verbatim>\<open>cbor/tags.go\<close>): dates and big integers behind tags. \<open>Diagnostic\<close> (\<^verbatim>\<open>diagnostic.go\<close>): the
    notation for humans, which is printable text whatever the value.

  \<^bold>\<open>Conventions.\<close> Byte slices are lists of 8-bit words; lengths and positions that Go computes in its
  \<open>int\<close> wrap in the model where they can overflow. A Go panic is a value (\<open>Panic\<close>, \<open>CosePanic\<close>, or
  \<open>None\<close>), errors are constructors of a datatype; the offset in an error is kept, its text is not.
  Methods with a pointer receiver return the updated record. A byte slice that may be nil is an
  option where the code tells nil and empty apart; the value type does not, so that an empty
  indefinite-length byte string, which the decoder returns as nil, is an empty one here.

  \<^bold>\<open>Fuel.\<close> The decoder takes fuel for its recursion; the length of the input is enough, which is the
  theorem \<open>decode_terminates\<close>. The cursor's fuel is the length of the input in its properties, and
  one theorem shows an input on which no fuel is enough, because the code does not return. \<open>DecodeClaims\<close> of EAT takes
  one unit per level of inline submodules.

  \<^bold>\<open>Parameters.\<close> Go's map iteration order is a function \<open>ord\<close> of which only \<open>reorders ord\<close>, that it
  permutes the entries, is assumed. Readers and writers of streams are functions. Ciphers, signatures, hashes and
  random bytes are records of functions (\<open>SignCrypto\<close>, \<open>BlockCipher\<close>, \<open>KeyCrypto\<close>, \<open>EdhocEnv\<close>); \<open>signing_laws\<close>,
  \<open>block_laws\<close>, \<open>key_laws\<close>, \<open>edhoc_laws\<close> and their like state their documented behaviour, and the witnesses instantiate them.
  Many properties assume inputs shorter than \<open>2 ^ 61\<close> bytes, so that positions fit an \<open>int\<close>.

  \<^bold>\<open>Not modelled.\<close> Reflection (\<^verbatim>\<open>reflect_*.go\<close>, \<^verbatim>\<open>marshal.go\<close>) walks Go types; the registry is
  generated tables; the command line tools are input and output. Memory reuse (pools of sort states,
  capacity hints) has no effect on results.
\<close>

end
